(* ===== verification/Prelude.thy ===== *)
theory Prelude
  imports Main "HOL-Library.Word"
begin

text \<open>
  Shared vocabulary of the development: the machine integers of the Rust code, a result type
  that keeps errors and panics apart, the byte-slice operations of the standard library that
  the code uses (indexing, slicing, big-endian conversion), and the generic lemmas about them.

  Conventions. A Rust \<open>u8\<close>, \<open>u16\<close>, \<open>u32\<close>, \<open>u64\<close> is a word of that width; \<open>usize\<close> is \<open>nat\<close>,
  with \<open>usize_max\<close> where the code asks for overflow (\<open>checked_add\<close>) and a written-out panic
  where it subtracts. A slice or vector of bytes is a list of words.
\<close>

unbundle bit_operations_syntax

type_synonym u8 = "8 word"
type_synonym u16 = "16 word"
type_synonym u32 = "32 word"
type_synonym u64 = "64 word"
type_synonym u128 = "128 word"
type_synonym bytes = "u8 list"

named_theorems panic_simps \<open>equations that push \<open>yields\<close> through the code's operations\<close>

section \<open>Results, errors and panics\<close>

text \<open>
  \<open>Ok\<close> and \<open>Err\<close> are the constructors of \<open>std::result::Result\<close>; \<open>Panic\<close> is an out-of-range
  index, an out-of-range slice or an arithmetic underflow. \<open>and_then\<close> is the \<open>?\<close> operator.
\<close>

datatype ('a, 'e) outcome = Ok 'a | Err 'e | Panic

definition and_then :: "('a, 'e) outcome \<Rightarrow> ('a \<Rightarrow> ('b, 'e) outcome) \<Rightarrow> ('b, 'e) outcome" where
  "and_then m f = (case m of Ok x \<Rightarrow> f x | Err e \<Rightarrow> Err e | Panic \<Rightarrow> Panic)"

lemma and_then_simps [simp]:
  "and_then (Ok x) f = f x"
  "and_then (Err e) f = Err e"
  "and_then Panic f = Panic"
  by (simp_all add: and_then_def)

lemma and_then_cong [fundef_cong]:
  "m = m' \<Longrightarrow> (\<And>x. m' = Ok x \<Longrightarrow> f x = f' x) \<Longrightarrow> and_then m f = and_then m' f'"
  by (cases m') simp_all

lemma and_then_assoc: "and_then (and_then m f) g = and_then m (\<lambda>x. and_then (f x) g)"
  by (cases m) simp_all

lemma and_then_eq_Ok:
  "and_then m f = Ok y \<longleftrightarrow> (\<exists>x. m = Ok x \<and> f x = Ok y)"
  by (cases m) simp_all

lemma and_then_eq_Err:
  "and_then m f = Err e \<longleftrightarrow> m = Err e \<or> (\<exists>x. m = Ok x \<and> f x = Err e)"
  by (cases m) simp_all

text \<open>\<open>Result::ok\<close>: an error becomes \<open>None\<close>, a panic stays one.\<close>

definition to_option :: "('a, 'e) outcome \<Rightarrow> ('a option, 'f) outcome" where
  "to_option m = (case m of Ok x \<Rightarrow> Ok (Some x) | Err _ \<Rightarrow> Ok None | Panic \<Rightarrow> Panic)"

lemma to_option_simps [simp]:
  "to_option (Ok x) = Ok (Some x)"
  "to_option (Err e) = Ok None"
  "to_option Panic = Panic"
  by (simp_all add: to_option_def)

text \<open>
  \<open>yields m P\<close>: the computation does not panic, and every value it returns satisfies \<open>P\<close>.
  The equations in \<open>panic_simps\<close> compute it through each operation, as a weakest precondition.
\<close>

definition yields :: "('a, 'e) outcome \<Rightarrow> ('a \<Rightarrow> bool) \<Rightarrow> bool" where
  "yields m P \<longleftrightarrow> (case m of Ok x \<Rightarrow> P x | Err _ \<Rightarrow> True | Panic \<Rightarrow> False)"

lemma yields_simps [simp]:
  "yields (Ok x) P = P x"
  "yields (Err e) P"
  "\<not> yields Panic P"
  by (simp_all add: yields_def)

lemma yields_and_then [panic_simps]:
  "yields (and_then m f) P = yields m (\<lambda>x. yields (f x) P)"
  by (cases m) simp_all

lemma yields_to_option:
  "yields (to_option m) P = (case m of Ok x \<Rightarrow> P (Some x) | Err _ \<Rightarrow> P None | Panic \<Rightarrow> False)"
  by (cases m) simp_all

lemma yields_mono: "yields m P \<Longrightarrow> (\<And>x. m = Ok x \<Longrightarrow> P x \<Longrightarrow> Q x) \<Longrightarrow> yields m Q"
  by (cases m) simp_all

lemma yields_no_panic: "yields m P \<Longrightarrow> m \<noteq> Panic"
  by (cases m) simp_all

lemma yields_OkD: "yields m P \<Longrightarrow> m = Ok x \<Longrightarrow> P x"
  by simp

lemma yields_True_iff: "yields m (\<lambda>_. True) \<longleftrightarrow> m \<noteq> Panic"
  by (cases m) simp_all

text \<open>\<open>ensures m P\<close>: the partial version; every value \<open>m\<close> returns satisfies \<open>P\<close>.\<close>

definition ensures :: "('a, 'e) outcome \<Rightarrow> ('a \<Rightarrow> bool) \<Rightarrow> bool" where
  "ensures m P \<longleftrightarrow> (\<forall>x. m = Ok x \<longrightarrow> P x)"

lemma ensures_simps [simp]:
  "ensures (Ok x) P = P x"
  "ensures (Err e) P"
  "ensures Panic P"
  by (simp_all add: ensures_def)

lemma ensures_and_then [simp]: "ensures (and_then m f) P = ensures m (\<lambda>x. ensures (f x) P)"
  by (cases m) simp_all

lemma ensures_trivial: "(\<And>x. P x) \<Longrightarrow> ensures m P"
  by (simp add: ensures_def)

lemma ensures_mono: "ensures m P \<Longrightarrow> (\<And>x. P x \<Longrightarrow> Q x) \<Longrightarrow> ensures m Q"
  by (simp add: ensures_def)

lemma ensuresD: "ensures m P \<Longrightarrow> m = Ok x \<Longrightarrow> P x"
  by (simp add: ensures_def)

lemma unat_less_exp: "unat (w :: 'a::len word) < 2 ^ LENGTH('a)"
  by (rule unsigned_less)

lemma unat_ucast_mod: "unat (ucast w :: 'b::len word) = unat (w :: 'a::len word) mod 2 ^ LENGTH('b)"
  by (simp add: unsigned_ucast_eq take_bit_eq_mod)

lemma unat_ucast_up:
  "LENGTH('a) \<le> LENGTH('b) \<Longrightarrow> unat (ucast w :: 'b::len word) = unat (w :: 'a::len word)"
proof -
  assume "LENGTH('a) \<le> LENGTH('b)"
  then have "(2::nat) ^ LENGTH('a) \<le> 2 ^ LENGTH('b)" by (intro power_increasing) simp_all
  with unat_less_exp [of w] have "unat w < 2 ^ LENGTH('b)" by (rule less_le_trans)
  then show ?thesis by (simp add: unat_ucast_mod)
qed

lemma unat_NOT: "unat (NOT w) = 2 ^ LENGTH('a) - 1 - unat (w :: 'a::len word)"
proof -
  have "NOT w = - 1 - w" by (simp add: not_eq_complement)
  moreover have "w \<le> - 1" by simp
  ultimately show ?thesis
    by (simp only: unat_sub) (simp add: unsigned_minus_1_eq_mask mask_eq_exp_minus_1)
qed

section \<open>Checked and saturating arithmetic\<close>

definition usize_max :: nat where
  "usize_max = 2 ^ 64 - 1"

definition usize_checked_add :: "nat \<Rightarrow> nat \<Rightarrow> nat option" where
  "usize_checked_add a b = (if a + b \<le> usize_max then Some (a + b) else None)"

definition usize_sub :: "nat \<Rightarrow> nat \<Rightarrow> (nat, 'e) outcome" where
  "usize_sub a b = (if b \<le> a then Ok (a - b) else Panic)"

definition checked_add :: "'a::len word \<Rightarrow> 'a word \<Rightarrow> 'a word option" where
  "checked_add a b = (if unat a + unat b < 2 ^ LENGTH('a) then Some (a + b) else None)"

definition checked_mul :: "'a::len word \<Rightarrow> 'a word \<Rightarrow> 'a word option" where
  "checked_mul a b = (if unat a * unat b < 2 ^ LENGTH('a) then Some (a * b) else None)"

definition saturating_add :: "'a::len word \<Rightarrow> 'a word \<Rightarrow> 'a word" where
  "saturating_add a b = (if unat a + unat b < 2 ^ LENGTH('a) then a + b else - 1)"

definition saturating_mul :: "'a::len word \<Rightarrow> 'a word \<Rightarrow> 'a word" where
  "saturating_mul a b = (if unat a * unat b < 2 ^ LENGTH('a) then a * b else - 1)"

definition saturating_sub :: "'a::len word \<Rightarrow> 'a word \<Rightarrow> 'a word" where
  "saturating_sub a b = (if b \<le> a then a - b else 0)"

text \<open>Unchecked \<open>+\<close> and \<open>-\<close> where an overflow would be a panic of the checked build.\<close>

definition word_add :: "'a::len word \<Rightarrow> 'a word \<Rightarrow> ('a word, 'e) outcome" where
  "word_add a b = (if unat a + unat b < 2 ^ LENGTH('a) then Ok (a + b) else Panic)"

definition word_sub :: "'a::len word \<Rightarrow> 'a word \<Rightarrow> ('a word, 'e) outcome" where
  "word_sub a b = (if b \<le> a then Ok (a - b) else Panic)"

lemma yields_word_add [panic_simps]:
  "yields (word_add a b) P \<longleftrightarrow> unat a + unat b < 2 ^ LENGTH('a) \<and> P (a + (b :: 'a::len word))"
  by (auto simp: word_add_def)

lemma yields_word_sub [panic_simps]:
  "yields (word_sub a b) P \<longleftrightarrow> b \<le> a \<and> P (a - b)"
  by (auto simp: word_sub_def)

lemma yields_usize_sub [panic_simps]:
  "yields (usize_sub a b) P \<longleftrightarrow> b \<le> a \<and> P (a - b)"
  by (simp add: usize_sub_def)

lemma unat_checked_add:
  "checked_add a b = Some c \<longleftrightarrow> unat a + unat b < 2 ^ LENGTH('a) \<and> c = a + (b :: 'a::len word)"
  by (auto simp: checked_add_def)

lemma checked_add_unat: "checked_add a b = Some c \<Longrightarrow> unat c = unat a + unat b"
  by (auto simp: checked_add_def unat_word_ariths split: if_splits)

lemma checked_mul_unat: "checked_mul a b = Some c \<Longrightarrow> unat c = unat a * unat b"
  by (auto simp: checked_mul_def unat_word_ariths split: if_splits)

lemma unat_saturating_add:
  "unat (saturating_add a b) = min (unat a + unat b) (2 ^ LENGTH('a) - 1)"
  for a b :: "'a::len word"
  by (auto simp: saturating_add_def unat_word_ariths unsigned_minus_1_eq_mask mask_eq_exp_minus_1)

lemma unat_saturating_mul:
  "unat (saturating_mul a b) = min (unat a * unat b) (2 ^ LENGTH('a) - 1)"
  for a b :: "'a::len word"
  by (auto simp: saturating_mul_def unat_word_ariths unsigned_minus_1_eq_mask mask_eq_exp_minus_1)

lemma unat_saturating_sub: "unat (saturating_sub a b) = unat a - unat b"
  by (auto simp: saturating_sub_def unat_sub word_le_nat_alt)

section \<open>Byte slices\<close>

text \<open>
  \<open>s[i]\<close>, \<open>&s[a..b]\<close>, \<open>&s[a..]\<close> and \<open>s.get(i)\<close>. The first three panic out of range. \<open>put\<close> is
  \<open>s[off..off+n].copy_from_slice(xs)\<close>, used only on buffers of a known sufficient length.
\<close>

definition byte_at :: "'a list \<Rightarrow> nat \<Rightarrow> ('a, 'e) outcome" where
  "byte_at s i = (if i < length s then Ok (s ! i) else Panic)"

definition subslice :: "'a list \<Rightarrow> nat \<Rightarrow> nat \<Rightarrow> ('a list, 'e) outcome" where
  "subslice s a b = (if a \<le> b \<and> b \<le> length s then Ok (take (b - a) (drop a s)) else Panic)"

definition subslice_from :: "'a list \<Rightarrow> nat \<Rightarrow> ('a list, 'e) outcome" where
  "subslice_from s a = (if a \<le> length s then Ok (drop a s) else Panic)"

definition get_at :: "'a list \<Rightarrow> nat \<Rightarrow> 'a option" where
  "get_at s i = (if i < length s then Some (s ! i) else None)"

definition put :: "'a list \<Rightarrow> nat \<Rightarrow> 'a list \<Rightarrow> 'a list" where
  "put s off xs = take off s @ xs @ drop (off + length xs) s"

text \<open>\<open>s[i] = f(s[i])\<close>, where \<open>f\<close> may fail.\<close>

definition update_at :: "'a list \<Rightarrow> nat \<Rightarrow> ('a \<Rightarrow> ('a, 'e) outcome) \<Rightarrow> ('a list, 'e) outcome" where
  "update_at s i f = (if i < length s then and_then (f (s ! i)) (\<lambda>v. Ok (s[i := v])) else Panic)"

lemma yields_update_at [panic_simps]:
  "yields (update_at s i f) P \<longleftrightarrow> i < length s \<and> yields (f (s ! i)) (\<lambda>v. P (s[i := v]))"
  by (simp add: update_at_def yields_and_then)

lemma yields_byte_at [panic_simps]:
  "yields (byte_at s i) P \<longleftrightarrow> i < length s \<and> P (s ! i)"
  by (simp add: byte_at_def)

lemma yields_subslice [panic_simps]:
  "yields (subslice s a b) P \<longleftrightarrow> a \<le> b \<and> b \<le> length s \<and> P (take (b - a) (drop a s))"
  by (auto simp: subslice_def)

lemma yields_subslice_from [panic_simps]:
  "yields (subslice_from s a) P \<longleftrightarrow> a \<le> length s \<and> P (drop a s)"
  by (simp add: subslice_from_def)

lemma update_at_Ok: "i < length s \<Longrightarrow> f (s ! i) = Ok v \<Longrightarrow> update_at s i f = Ok (s[i := v])"
  by (simp add: update_at_def)

lemma word_add_Ok: "unat a + unat b < 2 ^ LENGTH('a) \<Longrightarrow> word_add a b = Ok (a + (b :: 'a::len word))"
  by (simp add: word_add_def)

lemma word_sub_Ok: "b \<le> a \<Longrightarrow> word_sub a b = Ok (a - b)"
  by (simp add: word_sub_def)

lemma byte_at_Ok: "i < length s \<Longrightarrow> byte_at s i = Ok (s ! i)"
  by (simp add: byte_at_def)

lemma subslice_Ok: "a \<le> b \<Longrightarrow> b \<le> length s \<Longrightarrow> subslice s a b = Ok (take (b - a) (drop a s))"
  by (simp add: subslice_def)

lemma subslice_from_Ok: "a \<le> length s \<Longrightarrow> subslice_from s a = Ok (drop a s)"
  by (simp add: subslice_from_def)

lemma length_put: "off + length xs \<le> length s \<Longrightarrow> length (put s off xs) = length s"
  by (simp add: put_def)

text \<open>\<open>put\<close> on a buffer given as a concatenation: skip the blocks before the offset, then overwrite.\<close>

lemma put_0: "put s 0 xs = xs @ drop (length xs) s"
  by (simp add: put_def)

lemma put_numeral: "put (y # s) (numeral k) xs = y # put s (pred_numeral k) xs"
  by (simp add: put_def numeral_eq_Suc)

lemma put_Suc: "put (y # s) (Suc k) xs = y # put s k xs"
  by (simp add: put_def)

lemma put_skip: "length a \<le> off \<Longrightarrow> put (a @ s) off xs = a @ put s (off - length a) xs"
  by (simp add: put_def)

lemmas put_walk = put_0 put_numeral put_Suc put_skip

section \<open>Big-endian conversion\<close>

text \<open>\<open>uN::from_be_bytes\<close> and \<open>uN::to_be_bytes\<close>, over the value of a byte string.\<close>

definition be_value :: "bytes \<Rightarrow> nat" where
  "be_value bs = foldl (\<lambda>n b. n * 256 + unat b) 0 bs"

fun be_bytes :: "nat \<Rightarrow> nat \<Rightarrow> bytes" where
  "be_bytes 0 v = []"
| "be_bytes (Suc n) v = be_bytes n (v div 256) @ [word_of_nat v]"

lemma be_bytes_numeral:
  "be_bytes (numeral k) v = be_bytes (pred_numeral k) (v div 256) @ [word_of_nat v]"
  by (simp only: numeral_eq_Suc be_bytes.simps)

definition from_be :: "bytes \<Rightarrow> 'a::len word" where
  "from_be bs = word_of_nat (be_value bs)"

definition to_be :: "'a::len word \<Rightarrow> bytes" where
  "to_be w = be_bytes (LENGTH('a) div 8) (unat w)"

lemma be_value_Nil [simp]: "be_value [] = 0"
  by (simp add: be_value_def)

lemma be_value_snoc [simp]: "be_value (bs @ [b]) = be_value bs * 256 + unat b"
  by (simp add: be_value_def)

lemma length_be_bytes [simp]: "length (be_bytes n v) = n"
  by (induction n arbitrary: v) simp_all

lemma length_to_be [simp]: "length (to_be (w :: 'a::len word)) = LENGTH('a) div 8"
  by (simp add: to_be_def)

lemma unat_word8_of_nat [simp]: "unat (word_of_nat v :: u8) = v mod 256"
  by (simp add: unat_of_nat)

lemma be_value_bytes: "be_value (be_bytes n v) = v mod 256 ^ n"
proof (induction n arbitrary: v)
  case 0
  show ?case by simp
next
  case (Suc n)
  then show ?case by (simp add: mod_mult2_eq mult.commute)
qed

lemma be_value_less: "be_value bs < 256 ^ length bs"
proof (induction bs rule: rev_induct)
  case Nil
  show ?case by simp
next
  case (snoc b bs)
  have "unat b < 256" using unat_less_exp [of b] by simp
  with snoc show ?case by simp
qed

lemma be_bytes_value: "be_bytes (length bs) (be_value bs) = bs"
proof (induction bs rule: rev_induct)
  case Nil
  show ?case by simp
next
  case (snoc b bs)
  have "unat b < 256" using unat_less_exp [of b] by simp
  then have "(be_value bs * 256 + unat b) div 256 = be_value bs" by simp
  moreover have "(word_of_nat (be_value bs * 256 + unat b) :: u8) = b"
    using \<open>unat b < 256\<close> by (simp only: word_unat_eq_iff unat_word8_of_nat) simp
  ultimately show ?case using snoc by simp
qed

lemma from_be_to_be:
  assumes "LENGTH('a) = 8 * n"
  shows "from_be (to_be (w :: 'a::len word)) = w"
proof -
  have "unat w < 256 ^ n"
    using unat_less_exp [of w] assms by (simp add: power_mult)
  then show ?thesis
    using assms by (simp add: from_be_def to_be_def be_value_bytes)
qed

lemma to_be_from_be:
  assumes "LENGTH('a) = 8 * length bs"
  shows "to_be (from_be bs :: 'a::len word) = bs"
proof -
  have "be_value bs < 2 ^ LENGTH('a)"
    using be_value_less [of bs] assms by (simp add: power_mult)
  then show ?thesis
    using assms by (simp add: to_be_def from_be_def unat_of_nat be_bytes_value)
qed

lemma from_be_to_be_sizes [simp]:
  "from_be (to_be (a :: u16)) = a"
  "from_be (to_be (b :: u32)) = b"
  "from_be (to_be (c :: u64)) = c"
  "from_be (to_be (d :: u128)) = d"
  by (simp_all add: from_be_to_be [where n = 2] from_be_to_be [where n = 4]
      from_be_to_be [where n = 8] from_be_to_be [where n = 16])

lemma to_be_u16: "to_be (w :: u16) = [word_of_nat (unat w div 256), ucast w]"
  by (simp add: to_be_def numeral_2_eq_2)

lemma list_nths2: "length xs = 2 \<Longrightarrow> [xs ! 0, xs ! 1] = xs"
  by (auto simp: length_Suc_conv numeral_2_eq_2)

lemma list_nths4: "length xs = 4 \<Longrightarrow> [xs ! 0, xs ! 1, xs ! 2, xs ! 3] = xs"
  by (auto simp: length_Suc_conv eval_nat_numeral)

lemma unat_from_be:
  assumes "8 * length bs \<le> LENGTH('a)"
  shows "unat (from_be bs :: 'a::len word) = be_value bs"
proof -
  have "be_value bs < 2 ^ (8 * length bs)"
    using be_value_less [of bs] by (simp add: power_mult)
  also have "\<dots> \<le> 2 ^ LENGTH('a)"
    using assms by (intro power_increasing) simp_all
  finally show ?thesis by (simp add: from_be_def unat_of_nat)
qed

lemma unat_from_be16: "unat (from_be [a, b] :: u16) = unat a * 256 + unat b"
  using unat_from_be [of "[a, b]", where 'a = 16] by (simp add: be_value_def)

lemma unat_u8_less: "unat (b :: u8) < 256"
  using unat_less_exp [of b] by simp

lemma unat_u16_less: "unat (w :: u16) < 65536"
  using unat_less_exp [of w] by simp

end
