(* ===== verification/Contracts.thy ===== *)
theory Contracts
  imports Prelude
begin

text \<open>
  \<open>crates/contracts\<close>: the error categories, the process-status policy of the module \<open>exit\<close>, and
  the UTF-8 safe truncation every bounded diagnostic of the program relies on.

  A Rust \<open>str\<close> is its UTF-8 byte string; \<open>valid_utf8\<close> is the validity that the type guarantees.
  The truncation contract is stated once, as the locale \<open>utf8_truncation\<close>, because three crates
  carry a truncation of their own.
\<close>

section \<open>Error categories and process status\<close>

datatype error_category =
    Validation
  | Prerequisite
  | Connectivity
  | PartialFailure
  | TotalFailure
  | Internal
  | Permission
  | Cancelled
  | Busy

definition SUCCESS :: u8 where "SUCCESS = 0"
definition FAILURE :: u8 where "FAILURE = 1"
definition INVALID_INPUT :: u8 where "INVALID_INPUT = 11"
definition PREREQUISITE :: u8 where "PREREQUISITE = 12"
definition CONNECTIVITY :: u8 where "CONNECTIVITY = 13"
definition PARTIAL_FAILURE :: u8 where "PARTIAL_FAILURE = 14"
definition TOTAL_FAILURE :: u8 where "TOTAL_FAILURE = 15"
definition INTERNAL :: u8 where "INTERNAL = 16"
definition CANCELLED :: u8 where "CANCELLED = 130"
definition TERMINATED :: u8 where "TERMINATED = 143"

lemmas exit_codes =
  SUCCESS_def FAILURE_def INVALID_INPUT_def PREREQUISITE_def CONNECTIVITY_def
  PARTIAL_FAILURE_def TOTAL_FAILURE_def INTERNAL_def CANCELLED_def TERMINATED_def

fun exit_throughput :: "error_category \<Rightarrow> u8" where
  "exit_throughput Validation = INVALID_INPUT"
| "exit_throughput Prerequisite = PREREQUISITE"
| "exit_throughput Permission = PREREQUISITE"
| "exit_throughput Connectivity = CONNECTIVITY"
| "exit_throughput PartialFailure = PARTIAL_FAILURE"
| "exit_throughput TotalFailure = TOTAL_FAILURE"
| "exit_throughput Internal = INTERNAL"
| "exit_throughput Busy = INTERNAL"
| "exit_throughput Cancelled = CANCELLED"

definition is_interrupted :: "u8 \<Rightarrow> bool" where
  "is_interrupted code \<longleftrightarrow> code = CANCELLED \<or> code = TERMINATED"

definition for_capability :: "bool \<Rightarrow> u8 \<Rightarrow> u8" where
  "for_capability throughput code =
     (if throughput \<or> code = SUCCESS \<or> is_interrupted code then code else FAILURE)"

definition for_error :: "bool \<Rightarrow> error_category \<Rightarrow> u8" where
  "for_error throughput category = for_capability throughput (exit_throughput category)"

lemma exit_throughput_nonzero: "exit_throughput c \<noteq> SUCCESS"
  by (cases c) (simp_all add: exit_codes)

lemma for_capability_idem: "for_capability t (for_capability t code) = for_capability t code"
  by (simp add: for_capability_def)

lemma for_capability_success_iff: "for_capability t code = SUCCESS \<longleftrightarrow> code = SUCCESS"
  by (auto simp: for_capability_def exit_codes)

text \<open>
  The process status of an error is never success, is an interruption status exactly for a
  cancellation, and outside the throughput capability is otherwise the generic failure; applying
  the capability mapping again changes nothing.
\<close>

lemma for_error_policy:
  "for_error t c \<noteq> SUCCESS \<and>
   (is_interrupted (for_error t c) \<longleftrightarrow> c = Cancelled) \<and>
   (\<not> t \<and> c \<noteq> Cancelled \<longrightarrow> for_error t c = FAILURE) \<and>
   for_capability t (for_error t c) = for_error t c"
proof (intro conjI)
  show "for_error t c \<noteq> SUCCESS"
    by (simp add: for_error_def for_capability_success_iff exit_throughput_nonzero)
  show "is_interrupted (for_error t c) \<longleftrightarrow> c = Cancelled"
    by (cases c) (simp_all add: for_error_def for_capability_def is_interrupted_def exit_codes)
  show "\<not> t \<and> c \<noteq> Cancelled \<longrightarrow> for_error t c = FAILURE"
    by (cases c) (simp_all add: for_error_def for_capability_def is_interrupted_def exit_codes)
  show "for_capability t (for_error t c) = for_error t c"
    by (simp add: for_error_def for_capability_idem)
qed

section \<open>UTF-8 text\<close>

definition continuation :: "u8 \<Rightarrow> bool" where
  "continuation b \<longleftrightarrow> 128 \<le> b \<and> b < 192"

fun valid_utf8 :: "bytes \<Rightarrow> bool" where
  "valid_utf8 [] = True"
| "valid_utf8 (a # t) =
     (if a < 128 then valid_utf8 t
      else if a < 194 then False
      else if a < 224 then
        (case t of b # t' \<Rightarrow> continuation b \<and> valid_utf8 t' | _ \<Rightarrow> False)
      else if a < 240 then
        (case t of
           b # c # t' \<Rightarrow> continuation b \<and> continuation c
             \<and> (a = 224 \<longrightarrow> 160 \<le> b) \<and> (a = 237 \<longrightarrow> b < 160) \<and> valid_utf8 t'
         | _ \<Rightarrow> False)
      else if a < 245 then
        (case t of
           b # c # d # t' \<Rightarrow> continuation b \<and> continuation c \<and> continuation d
             \<and> (a = 240 \<longrightarrow> 144 \<le> b) \<and> (a = 244 \<longrightarrow> b < 144) \<and> valid_utf8 t'
         | _ \<Rightarrow> False)
      else False)"

text \<open>
  \<open>str::is_char_boundary\<close>: the ends of the string, and every index whose byte is not a
  continuation byte. The code's \<open>while !is_char_boundary(end) { end -= 1 }\<close> stops at 0 at the
  latest, so it is structural on \<open>end\<close>.
\<close>

definition is_char_boundary :: "bytes \<Rightarrow> nat \<Rightarrow> bool" where
  "is_char_boundary str i \<longleftrightarrow>
     i = 0 \<or> i = length str \<or> (i < length str \<and> \<not> continuation (str ! i))"

fun floor_boundary :: "bytes \<Rightarrow> nat \<Rightarrow> nat" where
  "floor_boundary str 0 = 0"
| "floor_boundary str (Suc e) =
     (if is_char_boundary str (Suc e) then Suc e else floor_boundary str e)"

definition bounded_text :: "bytes \<Rightarrow> nat \<Rightarrow> bytes" where
  "bounded_text str limit = take (floor_boundary str (min (length str) limit)) str"

definition MAX_DIAGNOSTIC_BYTES :: nat where
  "MAX_DIAGNOSTIC_BYTES = 16 * 1024"

record error =
  category :: error_category
  message :: bytes

definition Error_new :: "error_category \<Rightarrow> bytes \<Rightarrow> error" where
  "Error_new c msg = \<lparr>category = c, message = bounded_text msg MAX_DIAGNOSTIC_BYTES\<rparr>"

lemma floor_boundary_le: "floor_boundary str e \<le> e"
  by (induction e) (simp_all add: le_SucI)

lemma floor_boundary_is: "is_char_boundary str (floor_boundary str e)"
  by (induction e) (simp_all add: is_char_boundary_def)

lemma floor_boundary_id: "is_char_boundary str e \<Longrightarrow> floor_boundary str e = e"
  by (cases e) simp_all

lemma floor_boundary_maximal:
  "floor_boundary str e < i \<Longrightarrow> i \<le> e \<Longrightarrow> \<not> is_char_boundary str i"
  by (induction e) (auto simp: le_Suc_eq split: if_splits)

text \<open>
  A valid string is a sequence of encoded characters; \<open>utf8_char c\<close> says what one of them gives to
  a proof: a lead byte, at most three continuation bytes, and validity of the rest unaffected.
\<close>

definition utf8_char :: "bytes \<Rightarrow> bool" where
  "utf8_char c \<longleftrightarrow> c \<noteq> [] \<and> length c \<le> 4 \<and> (\<forall>b \<in> set (tl c). continuation b)
     \<and> (\<forall>s. valid_utf8 (c @ s) = valid_utf8 s)"

lemma valid_utf8_split:
  assumes "valid_utf8 (a # t)"
  obtains c s where "a # t = c @ s" and "utf8_char c" and "valid_utf8 s"
proof -
  consider "a < 128"
    | "\<not> a < 194" "a < 224" | "\<not> a < 224" "a < 240" | "\<not> a < 240" "a < 245"
    using assms by (auto split: if_splits)
  then show thesis
  proof cases
    case 1
    then show ?thesis
      using assms by (intro that [of "[a]" t]) (simp_all add: utf8_char_def)
  next
    case 2
    then have "\<not> a < 128" by (simp add: word_less_nat_alt)
    with 2 assms obtain b s where "t = b # s" "continuation b" "valid_utf8 s"
      by (auto split: list.splits)
    with 2 \<open>\<not> a < 128\<close> show ?thesis
      by (intro that [of "[a, b]" s]) (simp_all add: utf8_char_def)
  next
    case 3
    then have "\<not> a < 128" "\<not> a < 194" by (simp_all add: word_less_nat_alt)
    with 3 assms obtain b c s where "t = b # c # s" "continuation b" "continuation c" "valid_utf8 s"
        "a = 224 \<longrightarrow> 160 \<le> b" "a = 237 \<longrightarrow> b < 160"
      by (auto split: list.splits)
    with 3 \<open>\<not> a < 128\<close> \<open>\<not> a < 194\<close> show ?thesis
      by (intro that [of "[a, b, c]" s]) (simp_all add: utf8_char_def)
  next
    case 4
    then have "\<not> a < 128" "\<not> a < 194" "\<not> a < 224" by (simp_all add: word_less_nat_alt)
    with 4 assms obtain b c d s where "t = b # c # d # s" "continuation b" "continuation c"
        "continuation d" "valid_utf8 s" "a = 240 \<longrightarrow> 144 \<le> b" "a = 244 \<longrightarrow> b < 144"
      by (auto split: list.splits)
    with 4 \<open>\<not> a < 128\<close> \<open>\<not> a < 194\<close> \<open>\<not> a < 224\<close> show ?thesis
      by (intro that [of "[a, b, c, d]" s]) (simp_all add: utf8_char_def)
  qed
qed

lemma valid_utf8_induct [consumes 1, case_names Nil Char]:
  assumes "valid_utf8 t"
    and "P []"
    and "\<And>c s. utf8_char c \<Longrightarrow> valid_utf8 s \<Longrightarrow> P s \<Longrightarrow> P (c @ s)"
  shows "P t"
  using assms(1)
proof (induction t rule: length_induct)
  case (1 t)
  show ?case
  proof (cases t)
    case Nil
    with assms(2) show ?thesis by simp
  next
    case (Cons a r)
    with 1 obtain c s where t: "t = c @ s" and c: "utf8_char c" and s: "valid_utf8 s"
      by (metis valid_utf8_split)
    then have "length s < length t" by (simp add: utf8_char_def)
    with 1 s have "P s" by blast
    with t c s assms(3) show ?thesis by simp
  qed
qed

lemma boundary_inside_char:
  assumes "utf8_char c" and "is_char_boundary (c @ s) n" and "0 < n"
  shows "length c \<le> n"
proof (rule ccontr)
  assume "\<not> length c \<le> n"
  then have "(c @ s) ! n = tl c ! (n - 1)" "n - 1 < length (tl c)"
    using assms(3) by (simp_all add: nth_append nth_tl)
  then have "continuation ((c @ s) ! n)"
    using assms(1) by (auto simp: utf8_char_def)
  then show False
    using assms(2,3) \<open>\<not> length c \<le> n\<close> by (auto simp: is_char_boundary_def)
qed

lemma boundary_append: "length c \<le> n \<Longrightarrow> c \<noteq> [] \<Longrightarrow>
    is_char_boundary (c @ s) n \<Longrightarrow> is_char_boundary s (n - length c)"
  by (auto simp: is_char_boundary_def nth_append)

lemma boundary_prepend: "utf8_char c \<Longrightarrow> 0 < i \<Longrightarrow>
    is_char_boundary s i \<Longrightarrow> is_char_boundary (c @ s) (length c + i)"
  by (auto simp: is_char_boundary_def nth_append)

lemma valid_utf8_take:
  "valid_utf8 t \<Longrightarrow> is_char_boundary t n \<Longrightarrow> valid_utf8 (take n t)"
proof (induction t arbitrary: n rule: valid_utf8_induct)
  case Nil
  then show ?case by simp
next
  case (Char c s)
  show ?case
  proof (cases "n = 0")
    case False
    with Char have le: "length c \<le> n" by (blast intro: boundary_inside_char)
    have "valid_utf8 (take (n - length c) s)"
      using Char le by (intro Char.IH boundary_append) (auto simp: utf8_char_def)
    then show ?thesis
      using Char.hyps(1) le by (simp add: utf8_char_def)
  qed simp
qed

lemma valid_utf8_lead: "valid_utf8 (a # t) \<Longrightarrow> \<not> continuation a"
proof
  assume v: "valid_utf8 (a # t)" and "continuation a"
  then have "\<not> a < 128" "a < 194"
    by (simp_all add: continuation_def word_less_nat_alt word_le_nat_alt)
  with v show False by simp
qed

lemma boundary_nearby:
  "valid_utf8 t \<Longrightarrow> e \<le> length t \<Longrightarrow> \<exists>i. is_char_boundary t i \<and> i \<le> e \<and> e \<le> i + 3"
proof (induction t arbitrary: e rule: valid_utf8_induct)
  case Nil
  then show ?case by (auto simp: is_char_boundary_def)
next
  case (Char c s)
  show ?case
  proof (cases "e < length c")
    case True
    with Char.hyps(1) show ?thesis
      by (intro exI [of _ 0]) (auto simp: is_char_boundary_def utf8_char_def)
  next
    case False
    with Char.prems have "e - length c \<le> length s" by simp
    then obtain i where i: "is_char_boundary s i" "i \<le> e - length c" "e - length c \<le> i + 3"
      using Char.IH by blast
    show ?thesis
    proof (cases "i = 0")
      case False
      then show ?thesis
        using i \<open>\<not> e < length c\<close> boundary_prepend [OF Char.hyps(1)]
        by (intro exI [of _ "length c + i"]) auto
    next
      case True
      have "s = [] \<or> \<not> continuation (hd s)"
        using Char.hyps(2) valid_utf8_lead by (cases s) auto
      then have "is_char_boundary (c @ s) (length c)"
        by (cases s) (auto simp: is_char_boundary_def nth_append)
      then show ?thesis
        using True i \<open>\<not> e < length c\<close> by (intro exI [of _ "length c"]) auto
    qed
  qed
qed

section \<open>The truncation contract\<close>

text \<open>
  What a caller may rely on: the result is a prefix within the limit, a text that fits is
  returned unchanged, and a valid text stays valid and loses at most three bytes more than needed.
\<close>

locale utf8_truncation =
  fixes truncate :: "bytes \<Rightarrow> nat \<Rightarrow> bytes"
  assumes truncate_prefix: "\<exists>rest. str = truncate str limit @ rest"
    and truncate_length: "length (truncate str limit) \<le> limit"
    and truncate_fits: "length str \<le> limit \<Longrightarrow> truncate str limit = str"
    and truncate_valid: "valid_utf8 str \<Longrightarrow> valid_utf8 (truncate str limit)"
    and truncate_loses: "valid_utf8 str \<Longrightarrow> limit \<le> length str \<Longrightarrow>
          limit \<le> length (truncate str limit) + 3"
begin

lemma truncate_idem: "truncate (truncate str limit) limit = truncate str limit"
  by (rule truncate_fits) (rule truncate_length)

lemma truncate_shorter: "length (truncate str limit) \<le> length str"
  using truncate_prefix [of str limit] by (metis length_append le_add1)

lemma truncate_fits_iff: "truncate str limit = str \<longleftrightarrow> length str \<le> limit"
  using truncate_fits truncate_length by metis

end

lemma floor_boundary_length: "e \<le> length str \<Longrightarrow> floor_boundary str e \<le> length str"
  using floor_boundary_le [of str e] by linarith

lemma floor_boundary_near:
  assumes "valid_utf8 str" and "e \<le> length str"
  shows "e \<le> floor_boundary str e + 3"
proof -
  obtain i where "is_char_boundary str i" "i \<le> e" "e \<le> i + 3"
    using boundary_nearby [OF assms] by blast
  then have "i \<le> floor_boundary str e"
    using floor_boundary_maximal [of str e i] by (meson not_le)
  with \<open>e \<le> i + 3\<close> show ?thesis by linarith
qed

interpretation contracts_text: utf8_truncation bounded_text
proof
  fix str :: bytes and limit :: nat
  let ?e = "min (length str) limit"
  have le: "floor_boundary str ?e \<le> ?e" by (rule floor_boundary_le)
  show "\<exists>rest. str = bounded_text str limit @ rest"
    by (metis append_take_drop_id bounded_text_def)
  show "length (bounded_text str limit) \<le> limit"
    using le by (simp add: bounded_text_def)
  show "bounded_text str limit = str" if "length str \<le> limit"
    using that by (simp add: bounded_text_def floor_boundary_id is_char_boundary_def)
  show "valid_utf8 (bounded_text str limit)" if "valid_utf8 str"
    unfolding bounded_text_def by (rule valid_utf8_take [OF that floor_boundary_is])
  show "limit \<le> length (bounded_text str limit) + 3"
    if "valid_utf8 str" "limit \<le> length str"
    using floor_boundary_near [OF that(1), of ?e] that(2) le
    by (simp add: bounded_text_def)
qed

text \<open>
  The diagnostic text of an error built by \<open>Error::new\<close> is a valid UTF-8 prefix of the
  message it was given, at most 16 KiB long; a message that fits is kept whole, and a longer one
  loses no more than the character the limit falls into.
\<close>

lemma Error_new_bounded:
  assumes "valid_utf8 msg"
  shows "let m = message (Error_new c msg) in
    valid_utf8 m \<and> length m \<le> 16384 \<and> (\<exists>rest. msg = m @ rest) \<and>
    (m = msg \<longleftrightarrow> length msg \<le> 16384) \<and> (length msg > 16384 \<longrightarrow> length m \<ge> 16381)"
  using assms contracts_text.truncate_valid [of msg 16384]
    contracts_text.truncate_length [of msg 16384]
    contracts_text.truncate_prefix [of msg 16384]
    contracts_text.truncate_fits_iff [of msg 16384]
    contracts_text.truncate_loses [of msg 16384]
  by (auto simp: Error_new_def MAX_DIAGNOSTIC_BYTES_def Let_def)

end
