(* ===== verification/Packet_Types.thy ===== *)
theory Packet_Types
  imports Prelude
begin

text \<open>
  \<open>crates/packet\<close>, the data: addresses of \<open>std::net\<close>, probe keys, decoded ICMP and TCP
  responses, packet errors, and the correlation of a response with the probe it answers.

  An \<open>Ipv4Addr\<close> is its 32-bit value and an \<open>Ipv6Addr\<close> its 128-bit value; \<open>octets\<close> is the
  big-endian byte string of either. Record fields carry a short prefix per record, because
  Isabelle's field names are global.
\<close>

datatype address_family = Ipv4 | Ipv6

datatype transport_protocol = Icmp | Udp | Tcp

datatype ip_addr = V4 u32 | V6 u128

text \<open>The derived order of \<open>IpAddr\<close>: every IPv4 address first, then by octets.\<close>

instantiation ip_addr :: linorder
begin

fun less_eq_ip_addr :: "ip_addr \<Rightarrow> ip_addr \<Rightarrow> bool" where
  "less_eq_ip_addr (V4 a) (V4 b) = (a \<le> b)"
| "less_eq_ip_addr (V4 a) (V6 b) = True"
| "less_eq_ip_addr (V6 a) (V4 b) = False"
| "less_eq_ip_addr (V6 a) (V6 b) = (a \<le> b)"

definition less_ip_addr :: "ip_addr \<Rightarrow> ip_addr \<Rightarrow> bool" where
  "less_ip_addr x y \<longleftrightarrow> x \<le> y \<and> \<not> y \<le> x"

instance
proof
  fix x y z :: ip_addr
  show "x < y \<longleftrightarrow> x \<le> y \<and> \<not> y \<le> x" by (rule less_ip_addr_def)
  show "x \<le> x" by (cases x) simp_all
  show "x \<le> z" if "x \<le> y" "y \<le> z"
    using that by (cases x; cases y; cases z) auto
  show "x = y" if "x \<le> y" "y \<le> x"
    using that by (cases x; cases y) auto
  show "x \<le> y \<or> y \<le> x" by (cases x; cases y) auto
qed

end

record probe_key =
  pk_family :: address_family
  pk_protocol :: transport_protocol
  pk_identifier :: "u16 option"
  pk_sequence :: "u16 option"
  pk_source_port :: "u16 option"
  pk_destination_port :: "u16 option"
  pk_transport_sequence :: "u32 option"

definition ProbeKey_icmp :: "address_family \<Rightarrow> u16 \<Rightarrow> u16 \<Rightarrow> probe_key" where
  "ProbeKey_icmp family identifier sequence =
     \<lparr>pk_family = family, pk_protocol = Icmp, pk_identifier = Some identifier,
      pk_sequence = Some sequence, pk_source_port = None, pk_destination_port = None,
      pk_transport_sequence = None\<rparr>"

definition ProbeKey_ports ::
  "address_family \<Rightarrow> transport_protocol \<Rightarrow> u16 \<Rightarrow> u16 \<Rightarrow> probe_key" where
  "ProbeKey_ports family protocol source_port destination_port =
     \<lparr>pk_family = family, pk_protocol = protocol, pk_identifier = None,
      pk_sequence = None, pk_source_port = Some source_port,
      pk_destination_port = Some destination_port, pk_transport_sequence = None\<rparr>"

definition ProbeKey_tcp :: "address_family \<Rightarrow> u16 \<Rightarrow> u16 \<Rightarrow> u32 option \<Rightarrow> probe_key" where
  "ProbeKey_tcp family source_port destination_port sequence =
     (ProbeKey_ports family Tcp source_port destination_port)
       \<lparr>pk_transport_sequence := sequence\<rparr>"

lemmas probe_key_defs = ProbeKey_icmp_def ProbeKey_ports_def ProbeKey_tcp_def

lemma pk_family_keys [simp]:
  "pk_family (ProbeKey_icmp f i s) = f"
  "pk_family (ProbeKey_ports f p a b) = f"
  "pk_family (ProbeKey_tcp f a b t) = f"
  by (simp_all add: probe_key_defs)

datatype icmp_kind =
    EchoReply
  | TimeExceeded
  | DestinationUnreachable
  | PacketTooBig
  | ParameterProblem
  | Other

record mpls_label =
  ml_label :: u32
  ml_traffic_class :: u8
  ml_bottom_of_stack :: bool
  ml_ttl :: u8

definition MAX_MPLS_LABELS_PER_RESPONSE :: nat where
  "MAX_MPLS_LABELS_PER_RESPONSE = 64"

record parsed_icmp =
  pi_family :: address_family
  pi_source :: "ip_addr option"
  pi_kind :: icmp_kind
  pi_code :: u8
  pi_echoed_identifier :: "u16 option"
  pi_echoed_sequence :: "u16 option"
  pi_quoted_probe :: "probe_key option"
  pi_next_hop_mtu :: "u32 option"
  pi_mpls_labels :: "mpls_label list"

record parsed_tcp =
  pt_family :: address_family
  pt_source :: "ip_addr option"
  pt_source_port :: u16
  pt_destination_port :: u16
  pt_sequence :: u32
  pt_acknowledgment :: u32
  pt_syn :: bool
  pt_rst :: bool
  pt_ack :: bool

datatype malformed =
    InvalidIpv4HeaderLength
  | OuterIpv4NotTcp
  | OuterIpv6NotTcp
  | InvalidQuotedIpv4HeaderLength
  | UnsupportedQuotedTransport
  | ExtensionVersion
  | ExtensionChecksum
  | ExtensionObjectLength
  | NonFirstFragment
  | ZeroLengthExtension
  | ExtensionLengthOverflow
  | TooManyExtensionHeaders

datatype packet_error =
    Truncated nat nat
  | UnsupportedIpVersion u8
  | NotIcmp u8
  | Malformed malformed

section \<open>Correlation\<close>

text \<open>\<open>ParsedIcmp::correlates\<close>.\<close>

definition correlates :: "parsed_icmp \<Rightarrow> probe_key \<Rightarrow> bool" where
  "correlates p key =
     (if pi_family p \<noteq> pk_family key then False
      else case pk_protocol key of
        Icmp \<Rightarrow>
          (case pi_quoted_probe p of
             None \<Rightarrow> pi_echoed_identifier p = pk_identifier key
               \<and> pi_echoed_sequence p = pk_sequence key
               \<and> pi_echoed_identifier p \<noteq> None
           | Some candidate \<Rightarrow> candidate = key)
      | Udp \<Rightarrow>
          (case pi_quoted_probe p of None \<Rightarrow> False | Some candidate \<Rightarrow> candidate = key)
      | Tcp \<Rightarrow>
          (case pi_quoted_probe p of
             None \<Rightarrow> False
           | Some candidate \<Rightarrow>
               pk_family candidate = pk_family key
               \<and> pk_protocol candidate = pk_protocol key
               \<and> pk_source_port candidate = pk_source_port key
               \<and> pk_destination_port candidate = pk_destination_port key
               \<and> (case pk_transport_sequence key of
                    None \<Rightarrow> True
                  | Some sequence \<Rightarrow> pk_transport_sequence candidate = Some sequence)))"

text \<open>
  A key is exact when its sender filled in every field its protocol has; two different exact keys
  of the same protocol are never confused.
\<close>

definition exact_key :: "probe_key \<Rightarrow> bool" where
  "exact_key k \<longleftrightarrow>
     (\<exists>f i s. k = ProbeKey_icmp f i s) \<or> (\<exists>f a b. k = ProbeKey_ports f Udp a b) \<or>
     (\<exists>f a b s. k = ProbeKey_tcp f a b (Some s))"

lemma exact_key_intros [intro]:
  "exact_key (ProbeKey_icmp f i s)"
  "exact_key (ProbeKey_ports f Udp a b)"
  "exact_key (ProbeKey_tcp f a b (Some t))"
  by (simp_all add: exact_key_def) blast+

lemma correlates_quoted:
  assumes "pi_quoted_probe p = Some key" and "pi_family p = pk_family key"
  shows "correlates p key"
  using assms by (cases "pk_protocol key") (auto simp: correlates_def split: option.splits)

lemma correlates_quoted_iff:
  assumes "pi_quoted_probe p = Some q" and "exact_key q" and "exact_key k"
  shows "correlates p k \<longleftrightarrow> pi_family p = pk_family k \<and> q = k"
  using assms
  by (auto simp: exact_key_def correlates_def probe_key_defs split: if_splits)

lemma correlates_unique:
  assumes "correlates p k" and "correlates p k'"
    and "exact_key k" and "exact_key k'"
    and "case pi_quoted_probe p of None \<Rightarrow> True | Some q \<Rightarrow> exact_key q"
  shows "k = k'"
proof (cases "pi_quoted_probe p")
  case (Some q)
  then show ?thesis using assms by (simp add: correlates_quoted_iff)
next
  case None
  then have "pk_protocol k = Icmp" "pk_protocol k' = Icmp"
    using assms(1,2) by (auto simp: correlates_def split: transport_protocol.splits if_splits)
  with None assms show ?thesis
    by (auto simp: exact_key_def correlates_def probe_key_defs split: if_splits)
qed

end
