(* ===== verification/Packet_Checksum.thy ===== *)
theory Packet_Checksum
  imports Packet_Types
begin

text \<open>
  \<open>crates/packet\<close>, \<open>internet_checksum\<close>: the RFC 1071 one's-complement checksum, as the code
  computes it (a 32-bit accumulator folded after every word), and its specification: the
  complement of the one's-complement sum of the big-endian 16-bit words.
\<close>

section \<open>The code\<close>

text \<open>\<open>bytes.chunks(2)\<close>: pairs, and a last single byte when the length is odd.\<close>

fun chunks2 :: "bytes \<Rightarrow> bytes list" where
  "chunks2 [] = []"
| "chunks2 [a] = [[a]]"
| "chunks2 (a # b # t) = [a, b] # chunks2 t"

definition chunk_word :: "bytes \<Rightarrow> u16" where
  "chunk_word chunk =
     (if length chunk = 2 then from_be [chunk ! 0, chunk ! 1] else from_be [chunk ! 0, 0])"

text \<open>\<open>while sum > 0xffff { sum = (sum & 0xffff) + (sum >> 16) }\<close>\<close>

lemma and_65535: "unat (s AND 65535 :: u32) = unat s mod 65536"
proof -
  have "s AND 65535 = take_bit 16 s"
    by (simp only: take_bit_eq_mask mask_eq_exp_minus_1) simp
  then show ?thesis by (simp only: unsigned_take_bit_eq) (simp add: take_bit_eq_mod)
qed

lemma unat_fold_once: "unat ((s AND 65535) + drop_bit 16 s :: u32) = unat s mod 65536 + unat s div 65536"
proof -
  have "unat s < 4294967296" using unat_less_exp [of s] by simp
  then have "unat s mod 65536 + unat s div 65536 < 4294967296" by linarith
  then show ?thesis
    by (simp add: unat_word_ariths and_65535 unat_drop_bit_eq drop_bit_eq_div)
qed

lemma fold_smaller: "65535 < n \<Longrightarrow> n mod 65536 + n div 65536 < n" for n :: nat
proof -
  assume "65535 < n"
  then have "0 < n div 65536" by (simp add: div_greater_zero_iff)
  moreover have "n = 65536 * (n div 65536) + n mod 65536" by (rule mult_div_mod_eq [symmetric])
  ultimately show ?thesis by linarith
qed

function fold_carry :: "u32 \<Rightarrow> u32" where
  "fold_carry s = (if 65535 < s then fold_carry ((s AND 65535) + drop_bit 16 s) else s)"
  by pat_completeness auto
termination
proof (relation "measure unat")
  show "((s AND 65535) + drop_bit 16 s, s) \<in> measure unat" if "65535 < s" for s :: u32
    using that fold_smaller [of "unat s"] by (simp add: unat_fold_once word_less_nat_alt)
qed simp

declare fold_carry.simps [simp del]

definition checksum_step :: "u32 \<Rightarrow> bytes \<Rightarrow> u32" where
  "checksum_step acc chunk = fold_carry (acc + ucast (chunk_word chunk))"

definition internet_checksum :: "bytes \<Rightarrow> u16" where
  "internet_checksum bytes = NOT (ucast (foldl checksum_step 0 (chunks2 bytes)))"

section \<open>The specification\<close>

text \<open>
  \<open>word_sum\<close> is the plain sum of the big-endian words, \<open>ones_sum\<close> its one's-complement residue:
  zero only for zero, otherwise the representative of the class modulo 65535 in 1..65535.
\<close>

fun word_sum :: "bytes \<Rightarrow> nat" where
  "word_sum [] = 0"
| "word_sum [a] = unat a * 256"
| "word_sum (a # b # t) = unat a * 256 + unat b + word_sum t"

definition ones_sum :: "nat \<Rightarrow> nat" where
  "ones_sum n = (if n = 0 then 0 else (n - 1) mod 65535 + 1)"

lemma ones_sum_le: "ones_sum n \<le> 65535"
proof -
  have "(n - 1) mod 65535 < 65535" by simp
  then have "(n - 1) mod 65535 + 1 \<le> 65535" by linarith
  then show ?thesis by (simp add: ones_sum_def)
qed

lemma ones_sum_small: "n \<le> 65535 \<Longrightarrow> ones_sum n = n"
  by (simp add: ones_sum_def)

lemma ones_sum_fold: "65535 < n \<Longrightarrow> ones_sum (n mod 65536 + n div 65536) = ones_sum n"
proof -
  assume n: "65535 < n"
  define q r where "q = n div 65536" and "r = n mod 65536"
  have eq: "n = r + 65536 * q" and q: "0 < q"
    using n by (simp_all add: q_def r_def div_greater_zero_iff)
  have "n - 1 = (r + q - 1) + 65535 * q" using eq q by simp
  then have "(n - 1) mod 65535 = (r + q - 1) mod 65535" by simp
  then show ?thesis using n q by (simp add: ones_sum_def flip: q_def r_def)
qed

lemma ones_sum_add: "ones_sum (ones_sum m + n) = ones_sum (m + n)"
proof (cases "m = 0")
  case False
  then have "ones_sum m + n - 1 = (m - 1) mod 65535 + n" "m + n - 1 = (m - 1) + n"
    by (simp_all add: ones_sum_def)
  then show ?thesis
    using False by (simp add: ones_sum_def mod_add_left_eq)
qed (simp add: ones_sum_def)

lemma ones_sum_add': "ones_sum (n + ones_sum m) = ones_sum (n + m)"
  using ones_sum_add [of m n] by (simp add: add.commute)

lemma unat_fold_carry: "unat (fold_carry s) = ones_sum (unat s)"
proof (induction s rule: fold_carry.induct)
  case (1 s)
  show ?case
  proof (cases "65535 < s")
    case True
    with 1 have "unat (fold_carry s) = ones_sum (unat s mod 65536 + unat s div 65536)"
      by (subst fold_carry.simps) (simp add: unat_fold_once)
    moreover have "65535 < unat s" using True by (simp add: word_less_nat_alt)
    ultimately show ?thesis by (simp add: ones_sum_fold)
  next
    case False
    then have "unat s \<le> 65535" by (simp add: word_less_nat_alt)
    with False show ?thesis by (subst fold_carry.simps) (simp add: ones_sum_small)
  qed
qed

lemma unat_checksum_step:
  assumes "unat s \<le> 65535"
  shows "unat (checksum_step s chunk) = ones_sum (unat s + unat (chunk_word chunk))"
proof -
  have "unat (ucast (chunk_word chunk) :: u32) = unat (chunk_word chunk)"
    by (rule unat_ucast_up) simp
  then have "unat (s + ucast (chunk_word chunk)) = unat s + unat (chunk_word chunk)"
    using assms unat_u16_less [of "chunk_word chunk"]
    by (simp add: unat_word_ariths)
  then show ?thesis by (simp add: checksum_step_def unat_fold_carry)
qed

lemma unat_foldl_checksum:
  "unat s \<le> 65535 \<Longrightarrow>
     unat (foldl checksum_step s (chunks2 bs)) = (if bs = [] then unat s else ones_sum (unat s + word_sum bs))"
proof (induction bs arbitrary: s rule: chunks2.induct)
  case 1
  then show ?case by simp
next
  case (2 a)
  then show ?case by (simp add: unat_checksum_step chunk_word_def unat_from_be16)
next
  case (3 a b t)
  have step: "unat (checksum_step s [a, b]) = ones_sum (unat s + (unat a * 256 + unat b))"
    using 3 by (simp add: unat_checksum_step chunk_word_def unat_from_be16)
  with 3 show ?case
    by (auto simp: ones_sum_le ones_sum_add ones_sum_add' ac_simps)
qed

lemma unat_internet_checksum: "unat (internet_checksum bs) = 65535 - ones_sum (word_sum bs)"
proof -
  let ?s = "foldl checksum_step 0 (chunks2 bs)"
  have s: "unat ?s = ones_sum (word_sum bs)"
    using unat_foldl_checksum [of 0 bs] by (auto simp: ones_sum_def)
  then have "unat (ucast ?s :: u16) = ones_sum (word_sum bs)"
    using ones_sum_le [of "word_sum bs"] by (simp add: unat_ucast_mod)
  then show ?thesis
    by (simp add: internet_checksum_def unat_NOT)
qed

text \<open>
  C4. \<open>internet_checksum\<close> computes the RFC 1071 checksum: the complement of the one's-complement
  sum of the 16-bit big-endian words, an odd last byte padded with zero.
\<close>

theorem internet_checksum_spec: "unat (internet_checksum bs) = 65535 - ones_sum (word_sum bs)"
  by (rule unat_internet_checksum)

end
