(* ===== verification/Packet_Build.thy ===== *)
theory Packet_Build
  imports Packet_Checksum
begin

text \<open>
  \<open>crates/packet\<close>, the probe builders: ICMPv4 and ICMPv6 echo requests and TCP SYN segments over
  IPv4 and IPv6. Each writes its fields, computes the checksum over the buffer whose checksum
  field is still zero, and stores it. The theorems: every checksum a builder stores verifies, the
  way a receiver computes it.
\<close>

section \<open>The builders\<close>

definition octets4 :: "u32 \<Rightarrow> bytes" where
  "octets4 address = to_be address"

definition octets6 :: "u128 \<Rightarrow> bytes" where
  "octets6 address = to_be address"

definition build_icmpv4_echo :: "u16 \<Rightarrow> u16 \<Rightarrow> bytes \<Rightarrow> bytes" where
  "build_icmpv4_echo identifier sequence payload =
     (let packet = [8, 0, 0, 0] @ to_be identifier @ to_be sequence @ payload;
          checksum = internet_checksum packet
      in put packet 2 (to_be checksum))"

definition build_icmpv6_echo :: "u128 \<Rightarrow> u128 \<Rightarrow> u16 \<Rightarrow> u16 \<Rightarrow> bytes \<Rightarrow> bytes" where
  "build_icmpv6_echo source destination identifier sequence payload =
     (let packet = [128, 0, 0, 0] @ to_be identifier @ to_be sequence @ payload;
          checksum_input = octets6 source @ octets6 destination
            @ to_be (word_of_nat (length packet) :: u32) @ [0, 0, 0, 58] @ packet;
          checksum = internet_checksum checksum_input
      in put packet 2 (to_be checksum))"

definition transport_checksum_ipv4 :: "u32 \<Rightarrow> u32 \<Rightarrow> u8 \<Rightarrow> bytes \<Rightarrow> u16" where
  "transport_checksum_ipv4 source destination protocol segment =
     internet_checksum (octets4 source @ octets4 destination @ [0, protocol]
       @ to_be (word_of_nat (length segment) :: u16) @ segment)"

definition transport_checksum_ipv6 :: "u128 \<Rightarrow> u128 \<Rightarrow> u8 \<Rightarrow> bytes \<Rightarrow> u16" where
  "transport_checksum_ipv6 source destination protocol segment =
     internet_checksum (octets6 source @ octets6 destination
       @ to_be (word_of_nat (length segment) :: u32) @ [0, 0, 0, protocol] @ segment)"

record tcp_syn_spec =
  ts_source_port :: u16
  ts_destination_port :: u16
  ts_sequence :: u32
  ts_hop_limit :: u8
  ts_traffic_class :: u8
  ts_dont_fragment :: bool

definition build_tcp_syn_ipv4 :: "u32 \<Rightarrow> u32 \<Rightarrow> tcp_syn_spec \<Rightarrow> bytes" where
  "build_tcp_syn_ipv4 source destination spec =
     (let packet = replicate 40 0;
          packet = put packet 0 [0x45];
          packet = put packet 1 [ts_traffic_class spec];
          packet = put packet 2 (to_be (40 :: u16));
          packet = put packet 4 (to_be (ucast (ts_sequence spec) :: u16));
          packet = (if ts_dont_fragment spec then put packet 6 (to_be (0x4000 :: u16)) else packet);
          packet = put packet 8 [ts_hop_limit spec];
          packet = put packet 9 [6];
          packet = put packet 12 (octets4 source);
          packet = put packet 16 (octets4 destination);
          packet = put packet 20 (to_be (ts_source_port spec));
          packet = put packet 22 (to_be (ts_destination_port spec));
          packet = put packet 24 (to_be (ts_sequence spec));
          packet = put packet 32 [push_bit 4 5];
          packet = put packet 33 [0x02];
          packet = put packet 34 (to_be (64240 :: u16));
          tcp_checksum = transport_checksum_ipv4 source destination 6 (drop 20 packet);
          packet = put packet 36 (to_be tcp_checksum);
          ip_checksum = internet_checksum (take 20 packet);
          packet = put packet 10 (to_be ip_checksum)
      in packet)"

definition build_tcp_syn_ipv6 :: "u128 \<Rightarrow> u128 \<Rightarrow> tcp_syn_spec \<Rightarrow> bytes" where
  "build_tcp_syn_ipv6 source destination spec =
     (let packet = replicate 60 0;
          packet = put packet 0 [0x60 OR drop_bit 4 (ts_traffic_class spec)];
          packet = put packet 1 [push_bit 4 (ts_traffic_class spec)];
          packet = put packet 4 (to_be (20 :: u16));
          packet = put packet 6 [6];
          packet = put packet 7 [ts_hop_limit spec];
          packet = put packet 8 (octets6 source);
          packet = put packet 24 (octets6 destination);
          packet = put packet 40 (to_be (ts_source_port spec));
          packet = put packet 42 (to_be (ts_destination_port spec));
          packet = put packet 44 (to_be (ts_sequence spec));
          packet = put packet 52 [push_bit 4 5];
          packet = put packet 53 [0x02];
          packet = put packet 54 (to_be (64240 :: u16));
          checksum = transport_checksum_ipv6 source destination 6 (drop 40 packet);
          packet = put packet 56 (to_be checksum)
      in packet)"

section \<open>A stored checksum verifies\<close>

lemma word_sum_append: "even (length xs) \<Longrightarrow> word_sum (xs @ ys) = word_sum xs + word_sum ys"
  by (induction xs rule: word_sum.induct) simp_all

lemma word_sum_to_be16: "word_sum (to_be (w :: u16)) = unat w"
proof -
  have "unat w div 256 < 256" using unat_u16_less [of w] by (simp add: less_mult_imp_div_less)
  then show ?thesis by (simp add: to_be_u16 unat_ucast_mod)
qed

text \<open>
  The one fact all builders share: computing the checksum with the field at an even offset still
  zero and storing it there makes the whole buffer sum to the one's-complement zero.
\<close>

lemma checksum_stored:
  assumes "even (length a)"
  shows "internet_checksum (a @ to_be (internet_checksum (a @ [0, 0] @ c)) @ c) = 0"
proof -
  let ?w = "word_sum a + word_sum c" and ?k = "internet_checksum (a @ [0, 0] @ c)"
  have k: "unat ?k = 65535 - ones_sum ?w"
    using assms by (simp add: unat_internet_checksum word_sum_append)
  have "even (length (to_be ?k))" by simp
  then have "word_sum (a @ to_be ?k @ c) = ?w + unat ?k"
    using assms by (simp only: word_sum_append word_sum_to_be16)
  moreover have "ones_sum (?w + unat ?k) = ones_sum (ones_sum ?w + unat ?k)"
    by (simp add: ones_sum_add)
  moreover have "ones_sum ?w + unat ?k = 65535"
    using k ones_sum_le [of ?w] by simp
  ultimately have "unat (internet_checksum (a @ to_be ?k @ c)) = 0"
    by (simp add: unat_internet_checksum ones_sum_small)
  then show ?thesis by (simp add: unat_eq_0)
qed

lemma build_icmpv4_echo_eq:
  "build_icmpv4_echo identifier sequence payload =
     [8, 0] @ to_be (internet_checksum ([8, 0] @ [0, 0] @ to_be identifier @ to_be sequence @ payload))
       @ to_be identifier @ to_be sequence @ payload"
  by (simp add: build_icmpv4_echo_def put_def Let_def)

lemma build_icmpv6_echo_eq:
  "build_icmpv6_echo source destination identifier sequence payload =
     [128, 0] @ to_be (internet_checksum ((octets6 source @ octets6 destination
         @ to_be (word_of_nat (8 + length payload) :: u32) @ [0, 0, 0, 58] @ [128, 0]) @ [0, 0]
         @ to_be identifier @ to_be sequence @ payload))
       @ to_be identifier @ to_be sequence @ payload"
  by (simp add: build_icmpv6_echo_def put_def Let_def add.commute)

lemma length_octets [simp]: "length (octets4 a) = 4" "length (octets6 b) = 16"
  by (simp_all add: octets4_def octets6_def)

definition syn_segment :: "tcp_syn_spec \<Rightarrow> u16 \<Rightarrow> bytes" where
  "syn_segment spec checksum =
     to_be (ts_source_port spec) @ to_be (ts_destination_port spec) @ to_be (ts_sequence spec)
       @ [0, 0, 0, 0, 80, 2] @ to_be (64240 :: u16) @ to_be checksum @ [0, 0]"

definition syn_header4 :: "u32 \<Rightarrow> u32 \<Rightarrow> tcp_syn_spec \<Rightarrow> u16 \<Rightarrow> bytes" where
  "syn_header4 source destination spec checksum =
     [0x45, ts_traffic_class spec, 0, 40] @ to_be (ucast (ts_sequence spec) :: u16)
       @ [if ts_dont_fragment spec then 64 else 0, 0, ts_hop_limit spec, 6] @ to_be checksum
       @ octets4 source @ octets4 destination"

definition syn_header6 :: "u128 \<Rightarrow> u128 \<Rightarrow> tcp_syn_spec \<Rightarrow> bytes" where
  "syn_header6 source destination spec =
     [0x60 OR drop_bit 4 (ts_traffic_class spec), push_bit 4 (ts_traffic_class spec), 0, 0, 0, 20, 6,
      ts_hop_limit spec] @ octets6 source @ octets6 destination"

lemma zero_buffers:
  "replicate 40 (0 :: u8) = [0, 0, 0, 0, 0, 0, 0, 0, 0, 0, 0, 0, 0, 0, 0, 0, 0, 0, 0, 0, 0, 0, 0, 0, 0, 0, 0, 0, 0, 0, 0, 0, 0, 0, 0, 0, 0, 0, 0, 0]"
  "replicate 60 (0 :: u8) = [0, 0, 0, 0, 0, 0, 0, 0, 0, 0, 0, 0, 0, 0, 0, 0, 0, 0, 0, 0, 0, 0, 0, 0, 0, 0, 0, 0, 0, 0, 0, 0, 0, 0, 0, 0, 0, 0, 0, 0, 0, 0, 0, 0, 0, 0, 0, 0, 0, 0, 0, 0, 0, 0, 0, 0, 0, 0, 0, 0]"
  by code_simp+

lemma to_be_constants:
  "to_be (0 :: u16) = [0, 0]" "to_be (20 :: u16) = [0, 20]" "to_be (40 :: u16) = [0, 40]"
  "to_be (16384 :: u16) = [64, 0]" "to_be (0 :: u32) = [0, 0, 0, 0]"
  by (simp_all add: to_be_u16) code_simp

lemma build_tcp_syn_ipv4_eq:
  "build_tcp_syn_ipv4 source destination spec =
     syn_header4 source destination spec (internet_checksum (syn_header4 source destination spec 0))
     @ syn_segment spec (transport_checksum_ipv4 source destination 6 (syn_segment spec 0))"
  unfolding build_tcp_syn_ipv4_def syn_header4_def syn_segment_def zero_buffers Let_def
  by (cases "ts_dont_fragment spec") (simp_all add: put_walk to_be_constants)

lemma build_tcp_syn_ipv6_eq:
  "build_tcp_syn_ipv6 source destination spec =
     syn_header6 source destination spec
     @ syn_segment spec (transport_checksum_ipv6 source destination 6 (syn_segment spec 0))"
  unfolding build_tcp_syn_ipv6_def syn_header6_def syn_segment_def zero_buffers Let_def
  by (simp add: put_walk to_be_constants)

lemma length_syn_parts [simp]:
  "length (syn_segment spec c) = 20"
  "length (syn_header4 a b spec c) = 20"
  "length (syn_header6 x y spec) = 40"
  by (simp_all add: syn_segment_def syn_header4_def syn_header6_def)

lemma length_take_syn_header4: "length (take 10 (syn_header4 a b spec c)) = 10"
  by simp

lemma syn_segment_split:
  "syn_segment spec c = take 16 (syn_segment spec 0) @ to_be c @ [0, 0]"
  by (simp add: syn_segment_def)

lemma syn_header4_split:
  "syn_header4 a b spec c =
     take 10 (syn_header4 a b spec 0) @ to_be c @ octets4 a @ octets4 b"
  by (simp add: syn_header4_def)

text \<open>The pseudo-header checksum of a segment whose own field was filled by the same function.\<close>

lemma pseudo_checksum_stored:
  assumes "even (length pseudo)"
  shows "internet_checksum (pseudo @ syn_segment spec (internet_checksum (pseudo @ syn_segment spec 0))) = 0"
proof -
  let ?h = "take 16 (syn_segment spec 0)"
  have "syn_segment spec 0 = ?h @ [0, 0] @ [0, 0]"
    by (subst syn_segment_split) (simp add: to_be_constants)
  then have "pseudo @ syn_segment spec 0 = (pseudo @ ?h) @ [0, 0] @ [0, 0]" by simp
  moreover have "pseudo @ syn_segment spec c = (pseudo @ ?h) @ to_be c @ [0, 0]" for c
    by (subst syn_segment_split) simp
  moreover have "even (length (pseudo @ ?h))" using assms by simp
  ultimately show ?thesis using checksum_stored by metis
qed

lemma version_class_split:
  "drop_bit 4 (0x60 OR drop_bit 4 t) = 6"
  "push_bit 4 (0x60 OR drop_bit 4 t) OR drop_bit 4 (push_bit 4 t) = t"
  for t :: u8
proof -
  have z: "(1536 :: u8) = 0" by simp
  have "drop_bit 8 t = 0" by (rule bit_word_eqI) (simp add: bit_simps)
  then show "drop_bit 4 (0x60 OR drop_bit 4 t) = 6" by (simp add: drop_bit_or)
  have "push_bit 4 (drop_bit 4 t) OR drop_bit 4 (push_bit 4 t) = t"
    by (rule bit_word_eqI) (auto simp: bit_simps)
  then show "push_bit 4 (0x60 OR drop_bit 4 t) OR drop_bit 4 (push_bit 4 t) = t"
    by (simp add: push_bit_or z)
qed

section \<open>Checksums of the built packets\<close>

text \<open>
  Every echo request the program builds carries a valid checksum: the one's-complement sum of
  the ICMPv4 message, and of the ICMPv6 message with its pseudo-header, verifies; the message is
  the 8-byte header with the given identifier and sequence, followed by the payload.
\<close>

lemma build_echo_verifies:
  "internet_checksum (build_icmpv4_echo identifier sequence payload) = 0 \<and>
   internet_checksum (octets6 source @ octets6 destination @ to_be (word_of_nat (8 + length payload) :: u32)
     @ [0, 0, 0, 58] @ build_icmpv6_echo source destination identifier sequence payload) = 0 \<and>
   take 2 (build_icmpv4_echo identifier sequence payload) = [8, 0] \<and>
   take 2 (build_icmpv6_echo source destination identifier sequence payload) = [128, 0] \<and>
   drop 4 (build_icmpv4_echo identifier sequence payload)
     = to_be identifier @ to_be sequence @ payload \<and>
   drop 4 (build_icmpv6_echo source destination identifier sequence payload)
     = to_be identifier @ to_be sequence @ payload"
proof (intro conjI)
  let ?f = "to_be identifier @ to_be sequence @ payload"
  let ?pseudo = "octets6 source @ octets6 destination @ to_be (word_of_nat (8 + length payload) :: u32)
     @ [0, 0, 0, 58] @ [128, 0]"
  show "internet_checksum (build_icmpv4_echo identifier sequence payload) = 0"
    unfolding build_icmpv4_echo_eq by (rule checksum_stored) simp
  have "internet_checksum (?pseudo @ to_be (internet_checksum (?pseudo @ [0, 0] @ ?f)) @ ?f) = 0"
    by (rule checksum_stored) simp
  then show "internet_checksum (octets6 source @ octets6 destination
      @ to_be (word_of_nat (8 + length payload) :: u32) @ [0, 0, 0, 58]
      @ build_icmpv6_echo source destination identifier sequence payload) = 0"
    by (simp add: build_icmpv6_echo_eq)
qed (simp_all add: build_icmpv4_echo_eq build_icmpv6_echo_eq)

text \<open>
  A TCP SYN built over IPv4 is 40 bytes long and both of its checksums verify: the header
  checksum over the first 20 bytes, the TCP checksum over the pseudo-header and the segment.
\<close>

lemma build_tcp_syn_ipv4_verifies:
  "let packet = build_tcp_syn_ipv4 source destination spec in
     length packet = 40 \<and> internet_checksum (take 20 packet) = 0 \<and>
     transport_checksum_ipv4 source destination 6 (drop 20 packet) = 0"
proof -
  let ?c = "octets4 source @ octets4 destination"
  let ?pseudo = "octets4 source @ octets4 destination @ [0, 6] @ to_be (20 :: u16)"
  obtain h where h: "\<And>c. syn_header4 source destination spec c = h @ to_be c @ ?c" and "even (length h)"
    using syn_header4_split [of source destination spec] by (metis even_numeral length_take_syn_header4)
  then have header: "internet_checksum (syn_header4 source destination spec
      (internet_checksum (syn_header4 source destination spec 0))) = 0"
    using checksum_stored [of h ?c] by (simp add: h to_be_constants)
  have "transport_checksum_ipv4 source destination 6 (syn_segment spec c)
      = internet_checksum (?pseudo @ syn_segment spec c)" for c
    by (simp add: transport_checksum_ipv4_def)
  moreover have "even (length ?pseudo)" by simp
  ultimately have "transport_checksum_ipv4 source destination 6 (syn_segment spec
      (transport_checksum_ipv4 source destination 6 (syn_segment spec 0))) = 0"
    using pseudo_checksum_stored by metis
  with header show ?thesis by (simp add: build_tcp_syn_ipv4_eq)
qed

text \<open>
  A TCP SYN built over IPv6 is 60 bytes long and its TCP checksum verifies over the IPv6
  pseudo-header; the first word carries the version and the traffic class.
\<close>

lemma build_tcp_syn_ipv6_verifies:
  "let packet = build_tcp_syn_ipv6 source destination spec in
     length packet = 60 \<and> transport_checksum_ipv6 source destination 6 (drop 40 packet) = 0 \<and>
     drop_bit 4 (packet ! 0) = 6 \<and>
     push_bit 4 (packet ! 0) OR drop_bit 4 (packet ! 1) = ts_traffic_class spec"
proof -
  let ?pseudo = "octets6 source @ octets6 destination @ to_be (20 :: u32) @ [0, 0, 0, 6]"
  let ?t = "ts_traffic_class spec" and ?p = "build_tcp_syn_ipv6 source destination spec"
  have "transport_checksum_ipv6 source destination 6 (syn_segment spec c)
      = internet_checksum (?pseudo @ syn_segment spec c)" for c
    by (simp add: transport_checksum_ipv6_def)
  moreover have "even (length ?pseudo)" by simp
  ultimately have "transport_checksum_ipv6 source destination 6 (syn_segment spec
      (transport_checksum_ipv6 source destination 6 (syn_segment spec 0))) = 0"
    using pseudo_checksum_stored by metis
  moreover have "?p ! 0 = 0x60 OR drop_bit 4 ?t" "?p ! 1 = push_bit 4 ?t"
    by (simp_all add: build_tcp_syn_ipv6_eq syn_header6_def)
  moreover have "drop_bit 4 (0x60 OR drop_bit 4 ?t) = 6"
    "push_bit 4 (0x60 OR drop_bit 4 ?t) OR drop_bit 4 (push_bit 4 ?t) = ?t"
    by (rule version_class_split)+
  ultimately show ?thesis by (simp add: build_tcp_syn_ipv6_eq Let_def)
qed

lemma low_nibble: "push_bit 4 t AND 15 = 0" for t :: u8
proof -
  have "push_bit 4 t AND mask 4 = 0" by (rule bit_word_eqI) (auto simp: bit_simps)
  then show ?thesis by (simp add: mask_eq_exp_minus_1)
qed

text \<open>
  The fields of a SYN, as a receiver reads them: everything but the two checksums is an explicit
  function of the addresses and the specification.
\<close>

lemma build_tcp_syn_ipv4_fields:
  "let packet = build_tcp_syn_ipv4 source destination spec in
     take 10 packet = [0x45, ts_traffic_class spec] @ to_be (40 :: u16)
       @ to_be (ucast (ts_sequence spec) :: u16)
       @ to_be (if ts_dont_fragment spec then 0x4000 else 0 :: u16) @ [ts_hop_limit spec, 6] \<and>
     take 8 (drop 12 packet) = to_be source @ to_be destination \<and>
     take 16 (drop 20 packet) = to_be (ts_source_port spec) @ to_be (ts_destination_port spec)
       @ to_be (ts_sequence spec) @ to_be (0 :: u32) @ [0x50, 0x02] @ to_be (64240 :: u16) \<and>
     drop 38 packet = [0, 0]"
  by (simp add: build_tcp_syn_ipv4_eq syn_header4_def syn_segment_def octets4_def to_be_constants
      Let_def)

lemma build_tcp_syn_ipv6_fields:
  "let packet = build_tcp_syn_ipv6 source destination spec in
     packet ! 1 AND 15 = 0 \<and>
     take 6 (drop 2 packet) = [0, 0] @ to_be (20 :: u16) @ [6, ts_hop_limit spec] \<and>
     take 32 (drop 8 packet) = to_be source @ to_be destination \<and>
     take 16 (drop 40 packet) = to_be (ts_source_port spec) @ to_be (ts_destination_port spec)
       @ to_be (ts_sequence spec) @ to_be (0 :: u32) @ [0x50, 0x02] @ to_be (64240 :: u16) \<and>
     drop 58 packet = [0, 0]"
  by (simp add: build_tcp_syn_ipv6_eq syn_header6_def syn_segment_def octets6_def to_be_constants
      low_nibble Let_def)

text \<open>
  C5. Every packet the program builds carries checksums that verify and the fields it was given. An
  ICMPv4 and an ICMPv6 echo request: type and code, identifier, sequence and payload in place. A
  TCP SYN over IPv4, 40 bytes: header and TCP checksum; version, traffic class, length,
  identification (the low half of the sequence number), the don't-fragment bit as asked, hop limit,
  protocol and both addresses; both ports, the sequence number, no acknowledgement, the SYN flag
  alone and the window. A TCP SYN over IPv6, 60 bytes: TCP checksum over the pseudo-header; version,
  traffic class, flow label zero, length, next header, hop limit and both addresses, and the same
  segment.
\<close>

theorem built_packets_verify:
  "internet_checksum (build_icmpv4_echo identifier sequence payload) = 0 \<and>
   internet_checksum (octets6 source @ octets6 destination @ to_be (word_of_nat (8 + length payload) :: u32)
     @ [0, 0, 0, 58] @ build_icmpv6_echo source destination identifier sequence payload) = 0 \<and>
   take 2 (build_icmpv4_echo identifier sequence payload) = [8, 0] \<and>
   take 2 (build_icmpv6_echo source destination identifier sequence payload) = [128, 0] \<and>
   drop 4 (build_icmpv4_echo identifier sequence payload) = to_be identifier @ to_be sequence @ payload \<and>
   drop 4 (build_icmpv6_echo source destination identifier sequence payload)
     = to_be identifier @ to_be sequence @ payload \<and>
   (let packet = build_tcp_syn_ipv4 source4 destination4 spec in
     length packet = 40 \<and> internet_checksum (take 20 packet) = 0 \<and>
     transport_checksum_ipv4 source4 destination4 6 (drop 20 packet) = 0) \<and>
   (let packet = build_tcp_syn_ipv4 source4 destination4 spec in
     take 10 packet = [0x45, ts_traffic_class spec] @ to_be (40 :: u16)
       @ to_be (ucast (ts_sequence spec) :: u16)
       @ to_be (if ts_dont_fragment spec then 0x4000 else 0 :: u16) @ [ts_hop_limit spec, 6] \<and>
     take 8 (drop 12 packet) = to_be source4 @ to_be destination4 \<and>
     take 16 (drop 20 packet) = to_be (ts_source_port spec) @ to_be (ts_destination_port spec)
       @ to_be (ts_sequence spec) @ to_be (0 :: u32) @ [0x50, 0x02] @ to_be (64240 :: u16) \<and>
     drop 38 packet = [0, 0]) \<and>
   (let packet = build_tcp_syn_ipv6 source destination spec in
     length packet = 60 \<and> transport_checksum_ipv6 source destination 6 (drop 40 packet) = 0 \<and>
     drop_bit 4 (packet ! 0) = 6 \<and>
     push_bit 4 (packet ! 0) OR drop_bit 4 (packet ! 1) = ts_traffic_class spec) \<and>
   (let packet = build_tcp_syn_ipv6 source destination spec in
     packet ! 1 AND 15 = 0 \<and>
     take 6 (drop 2 packet) = [0, 0] @ to_be (20 :: u16) @ [6, ts_hop_limit spec] \<and>
     take 32 (drop 8 packet) = to_be source @ to_be destination \<and>
     take 16 (drop 40 packet) = to_be (ts_source_port spec) @ to_be (ts_destination_port spec)
       @ to_be (ts_sequence spec) @ to_be (0 :: u32) @ [0x50, 0x02] @ to_be (64240 :: u16) \<and>
     drop 58 packet = [0, 0])"
  by (intro conjI build_tcp_syn_ipv4_verifies build_tcp_syn_ipv6_verifies
      build_tcp_syn_ipv4_fields build_tcp_syn_ipv6_fields)
    (insert build_echo_verifies, blast+)

end
