(* ===== verification/Packet_Parse.thy ===== *)
theory Packet_Parse
  imports Packet_Types Packet_Checksum
begin

text \<open>
  \<open>crates/packet\<close>, the decoders of received bytes: the IPv6 extension walk, quoted probes, MPLS
  label stacks (RFC 4950 inside RFC 4884), ICMP and TCP responses. Every indexing and slicing
  operation of the code is one of the panicking operations of the prelude, so that "the decoder
  never panics, whatever bytes arrive" is a statement about these definitions.

  The order of the operations is the code's; where the code would panic after a failed test, the
  model does too.
\<close>

section \<open>The code\<close>

definition need :: "bytes \<Rightarrow> nat \<Rightarrow> (unit, packet_error) outcome" where
  "need bytes needed =
     (if length bytes < needed then Err (Truncated needed (length bytes)) else Ok ())"

definition be_u16 :: "bytes \<Rightarrow> (u16, packet_error) outcome" where
  "be_u16 bytes =
     and_then (byte_at bytes 0) (\<lambda>a. and_then (byte_at bytes 1) (\<lambda>b. Ok (from_be [a, b])))"

definition be_u32 :: "bytes \<Rightarrow> (u32, packet_error) outcome" where
  "be_u32 bytes =
     and_then (byte_at bytes 0) (\<lambda>a. and_then (byte_at bytes 1) (\<lambda>b.
     and_then (byte_at bytes 2) (\<lambda>c. and_then (byte_at bytes 3) (\<lambda>d.
       Ok (from_be [a, b, c, d])))))"

text \<open>\<open>be_u16(&bytes[a..b])\<close> and \<open>be_u32(&bytes[a..b])\<close>.\<close>

definition be_u16_at :: "bytes \<Rightarrow> nat \<Rightarrow> nat \<Rightarrow> (u16, packet_error) outcome" where
  "be_u16_at bytes a b = and_then (subslice bytes a b) be_u16"

definition be_u32_at :: "bytes \<Rightarrow> nat \<Rightarrow> nat \<Rightarrow> (u32, packet_error) outcome" where
  "be_u32_at bytes a b = and_then (subslice bytes a b) be_u32"

text \<open>
  One iteration of the \<open>match next\<close> in \<open>ipv6_transport\<close>: \<open>None\<close> for the default arm, which
  returns; otherwise the following header value and the length of this one.
\<close>

definition ipv6_header ::
  "bytes \<Rightarrow> u8 \<Rightarrow> nat \<Rightarrow> ((u8 \<times> nat) option, packet_error) outcome" where
  "ipv6_header bytes nxt offset =
     (if nxt = 0 \<or> nxt = 43 \<or> nxt = 60 then
        and_then (need bytes (offset + 2)) (\<lambda>_.
        and_then (byte_at bytes (offset + 1)) (\<lambda>len.
        and_then (byte_at bytes offset) (\<lambda>following.
          Ok (Some (following, (unat len + 1) * 8)))))
      else if nxt = 44 then
        and_then (need bytes (offset + 8)) (\<lambda>_.
        and_then (be_u16_at bytes (offset + 2) (offset + 4)) (\<lambda>fragment.
          if fragment AND 0xfff8 \<noteq> 0 then Err (Malformed NonFirstFragment)
          else and_then (byte_at bytes offset) (\<lambda>following. Ok (Some (following, 8)))))
      else if nxt = 51 then
        and_then (need bytes (offset + 2)) (\<lambda>_.
        and_then (byte_at bytes (offset + 1)) (\<lambda>len.
        and_then (byte_at bytes offset) (\<lambda>following.
          Ok (Some (following, (unat len + 2) * 4)))))
      else Ok None)"

text \<open>The loop \<open>for _ in 0..16\<close>; the first argument is the number of iterations left.\<close>

fun ipv6_walk :: "nat \<Rightarrow> bytes \<Rightarrow> u8 \<Rightarrow> nat \<Rightarrow> (u8 \<times> nat, packet_error) outcome" where
  "ipv6_walk 0 bytes nxt offset = Err (Malformed TooManyExtensionHeaders)"
| "ipv6_walk (Suc n) bytes nxt offset =
     and_then (ipv6_header bytes nxt offset) (\<lambda>header.
       case header of
         None \<Rightarrow> Ok (nxt, offset)
       | Some (following, len) \<Rightarrow>
           if len = 0 then Err (Malformed ZeroLengthExtension)
           else
             (case usize_checked_add offset len of
                None \<Rightarrow> Err (Malformed ExtensionLengthOverflow)
              | Some offset' \<Rightarrow>
                  and_then (need bytes offset') (\<lambda>_. ipv6_walk n bytes following offset')))"

definition ipv6_transport :: "bytes \<Rightarrow> (u8 \<times> nat, packet_error) outcome" where
  "ipv6_transport bytes =
     and_then (need bytes 40) (\<lambda>_.
     and_then (byte_at bytes 6) (\<lambda>nxt. ipv6_walk 16 bytes nxt 40))"

definition parse_transport ::
  "address_family \<Rightarrow> u8 \<Rightarrow> bytes \<Rightarrow> nat \<Rightarrow> (probe_key, packet_error) outcome" where
  "parse_transport family protocol bytes offset =
     and_then (need bytes (offset + 8)) (\<lambda>_.
       if protocol = 1 \<or> protocol = 58 then
         and_then (be_u16_at bytes (offset + 4) (offset + 6)) (\<lambda>identifier.
         and_then (be_u16_at bytes (offset + 6) (offset + 8)) (\<lambda>sequence.
           Ok (ProbeKey_icmp family identifier sequence)))
       else if protocol = 17 then
         and_then (be_u16_at bytes offset (offset + 2)) (\<lambda>source_port.
         and_then (be_u16_at bytes (offset + 2) (offset + 4)) (\<lambda>destination_port.
           Ok (ProbeKey_ports family Udp source_port destination_port)))
       else if protocol = 6 then
         and_then (be_u16_at bytes offset (offset + 2)) (\<lambda>source_port.
         and_then (be_u16_at bytes (offset + 2) (offset + 4)) (\<lambda>destination_port.
         and_then (be_u32_at bytes (offset + 4) (offset + 8)) (\<lambda>sequence.
           Ok (ProbeKey_tcp family source_port destination_port (Some sequence)))))
       else Err (Malformed UnsupportedQuotedTransport))"

text \<open>\<open>usize::from(bytes[0] & 0x0f) * 4\<close>: the IPv4 header length.\<close>

definition ihl_bytes :: "u8 \<Rightarrow> nat" where
  "ihl_bytes b = unat (b AND 0x0f) * 4"

definition parse_quoted_probe :: "bytes \<Rightarrow> (probe_key, packet_error) outcome" where
  "parse_quoted_probe bytes =
     and_then (need bytes 1) (\<lambda>_.
     and_then (byte_at bytes 0) (\<lambda>b0.
       let version = drop_bit 4 b0 in
       if version = 4 then
         and_then (need bytes 20) (\<lambda>_.
           let header_len = ihl_bytes b0 in
           if header_len < 20 then Err (Malformed InvalidQuotedIpv4HeaderLength)
           else and_then (byte_at bytes 9) (\<lambda>protocol.
             parse_transport Ipv4 protocol bytes header_len))
       else if version = 6 then
         and_then (need bytes 40) (\<lambda>_.
         and_then (ipv6_transport bytes) (\<lambda>(protocol, offset).
           parse_transport Ipv6 protocol bytes offset))
       else Err (UnsupportedIpVersion version)))"

text \<open>
  \<open>Ipv4Addr::new(bytes[12], .., bytes[15])\<close> and the \<open>Ipv6Addr\<close> of \<open>bytes[8..24]\<close>.
\<close>

definition ipv4_source :: "bytes \<Rightarrow> (ip_addr, packet_error) outcome" where
  "ipv4_source bytes =
     and_then (byte_at bytes 12) (\<lambda>a. and_then (byte_at bytes 13) (\<lambda>b.
     and_then (byte_at bytes 14) (\<lambda>c. and_then (byte_at bytes 15) (\<lambda>d.
       Ok (V4 (from_be [a, b, c, d]))))))"

definition ipv6_source :: "bytes \<Rightarrow> (ip_addr, packet_error) outcome" where
  "ipv6_source bytes = and_then (subslice bytes 8 24) (\<lambda>s. Ok (V6 (from_be s)))"

definition strip_outer_ip ::
  "bytes \<Rightarrow> address_family \<Rightarrow> (address_family \<times> ip_addr option \<times> bytes, packet_error) outcome" where
  "strip_outer_ip bytes expected =
     and_then (need bytes 1) (\<lambda>_.
     and_then (byte_at bytes 0) (\<lambda>b0.
       let version = drop_bit 4 b0 in
       if version = 4 then
         and_then (need bytes 20) (\<lambda>_.
           let header_len = ihl_bytes b0 in
           if header_len < 20 then Err (Malformed InvalidIpv4HeaderLength)
           else
             and_then (need bytes (header_len + 8)) (\<lambda>_.
             and_then (byte_at bytes 9) (\<lambda>protocol.
               if protocol \<noteq> 1 then Err (NotIcmp protocol)
               else
                 and_then (ipv4_source bytes) (\<lambda>source.
                 and_then (subslice_from bytes header_len) (\<lambda>rest.
                   Ok (Ipv4, Some source, rest))))))
       else if version = 6 then
         and_then (need bytes 40) (\<lambda>_.
         and_then (ipv6_transport bytes) (\<lambda>(protocol, offset).
           if protocol \<noteq> 58 then Err (NotIcmp protocol)
           else
             and_then (need bytes (offset + 8)) (\<lambda>_.
             and_then (ipv6_source bytes) (\<lambda>source.
             and_then (subslice_from bytes offset) (\<lambda>rest.
               Ok (Ipv6, Some source, rest))))))
       else if 8 \<le> length bytes then Ok (expected, None, bytes)
       else Err (UnsupportedIpVersion version)))"

subsection \<open>MPLS label stacks\<close>

text \<open>\<open>as_chunks::<4>()\<close>: the whole four-byte entries, the remainder ignored.\<close>

fun chunks4 :: "bytes \<Rightarrow> bytes list" where
  "chunks4 (a # b # c # d # t) = [a, b, c, d] # chunks4 t"
| "chunks4 _ = []"

definition decode_label :: "bytes \<Rightarrow> mpls_label" where
  "decode_label word =
     (let value = (from_be word :: u32)
      in \<lparr>ml_label = drop_bit 12 value,
          ml_traffic_class = ucast (drop_bit 9 value AND 0x7),
          ml_bottom_of_stack = (value AND 0x100 \<noteq> 0),
          ml_ttl = ucast value\<rparr>)"

text \<open>
  The inner loop. \<open>Inl\<close> is the early \<open>return Ok(labels)\<close> when the budget is reached, \<open>Inr\<close> the
  labels after the last entry.
\<close>

fun push_labels :: "mpls_label list \<Rightarrow> bytes list \<Rightarrow> mpls_label list + mpls_label list" where
  "push_labels labels [] = Inr labels"
| "push_labels labels (word # words) =
     (if length labels = MAX_MPLS_LABELS_PER_RESPONSE then Inl labels
      else push_labels (labels @ [decode_label word]) words)"

function mpls_loop :: "bytes \<Rightarrow> nat \<Rightarrow> mpls_label list \<Rightarrow> (mpls_label list, packet_error) outcome" where
  "mpls_loop bytes offset labels =
     and_then (usize_sub (length bytes) offset) (\<lambda>remaining.
       if 4 \<le> remaining then
         and_then (be_u16_at bytes offset (offset + 2)) (\<lambda>len.
           if unat len < 4 \<or> length bytes < offset + unat len then
             Err (Malformed ExtensionObjectLength)
           else
             and_then (byte_at bytes (offset + 2)) (\<lambda>class_num.
             and_then (byte_at bytes (offset + 3)) (\<lambda>c_type.
               if class_num = 1 \<and> c_type = 1 then
                 and_then (subslice bytes (offset + 4) (offset + unat len)) (\<lambda>entries.
                   case push_labels labels (chunks4 entries) of
                     Inl labels' \<Rightarrow> Ok labels'
                   | Inr labels' \<Rightarrow> mpls_loop bytes (offset + unat len) labels')
               else mpls_loop bytes (offset + unat len) labels)))
       else Ok labels)"
  by pat_completeness auto
termination
  by (relation "measure (\<lambda>(bytes, offset, labels). length bytes - offset)")
    (auto simp: usize_sub_def split: if_splits)

declare mpls_loop.simps [simp del]

definition parse_mpls_extensions :: "bytes \<Rightarrow> (mpls_label list, packet_error) outcome" where
  "parse_mpls_extensions bytes =
     and_then (need bytes 4) (\<lambda>_.
     and_then (byte_at bytes 0) (\<lambda>b0.
     and_then (byte_at bytes 1) (\<lambda>b1.
       if drop_bit 4 b0 \<noteq> 2 \<or> b0 AND 0x0f \<noteq> 0 \<or> b1 \<noteq> 0 then Err (Malformed ExtensionVersion)
       else
         and_then (be_u16_at bytes 2 4) (\<lambda>transmitted_checksum.
           if transmitted_checksum \<noteq> 0 \<and> internet_checksum bytes \<noteq> 0
           then Err (Malformed ExtensionChecksum)
           else mpls_loop bytes 4 []))))"

definition find_mpls_extension ::
  "address_family \<Rightarrow> icmp_kind \<Rightarrow> bytes \<Rightarrow> (mpls_label list, packet_error) outcome" where
  "find_mpls_extension family kind icmp =
     (if kind \<noteq> TimeExceeded \<and> kind \<noteq> DestinationUnreachable then Ok []
      else
        let units = (case get_at icmp (if family = Ipv4 then 5 else 4) of None \<Rightarrow> 0 | Some b \<Rightarrow> b);
            unit_size = (if family = Ipv4 then 4 else 8);
            original_length = (if units = 0 then 128 else unat units * unit_size)
        in
        if original_length < 128 then Ok []
        else
          (case usize_checked_add 8 original_length of
             None \<Rightarrow> Ok []
           | Some extension_offset \<Rightarrow>
               if extension_offset \<le> length icmp then
                 and_then (to_option (parse_mpls_extensions (drop extension_offset icmp))) (\<lambda>labels.
                   Ok (case labels of None \<Rightarrow> [] | Some ls \<Rightarrow> ls))
               else Ok []))"

subsection \<open>ICMP and TCP responses\<close>

definition icmp_kind_of :: "address_family \<Rightarrow> u8 \<Rightarrow> icmp_kind" where
  "icmp_kind_of family t =
     (if (family = Ipv4 \<and> t = 0) \<or> (family = Ipv6 \<and> t = 129) then EchoReply
      else if (family = Ipv4 \<and> t = 11) \<or> (family = Ipv6 \<and> t = 3) then TimeExceeded
      else if (family = Ipv4 \<and> t = 3) \<or> (family = Ipv6 \<and> t = 1) then DestinationUnreachable
      else if family = Ipv6 \<and> t = 2 then PacketTooBig
      else if (family = Ipv4 \<and> t = 12) \<or> (family = Ipv6 \<and> t = 4) then ParameterProblem
      else Other)"

definition echoed_fields ::
  "icmp_kind \<Rightarrow> bytes \<Rightarrow> (u16 option \<times> u16 option, packet_error) outcome" where
  "echoed_fields kind icmp =
     (if kind = EchoReply then
        and_then (be_u16_at icmp 4 6) (\<lambda>identifier.
        and_then (be_u16_at icmp 6 8) (\<lambda>sequence. Ok (Some identifier, Some sequence)))
      else Ok (None, None))"

definition next_hop_mtu_field ::
  "address_family \<Rightarrow> u8 \<Rightarrow> u8 \<Rightarrow> bytes \<Rightarrow> (u32 option, packet_error) outcome" where
  "next_hop_mtu_field family t code icmp =
     (if family = Ipv4 \<and> t = 3 \<and> code = 4 then
        and_then (be_u16_at icmp 6 8) (\<lambda>mtu. Ok (Some (ucast mtu)))
      else if family = Ipv6 \<and> t = 2 then
        and_then (be_u32_at icmp 4 8) (\<lambda>mtu. Ok (Some mtu))
      else Ok None)"

definition quoted_probe_field :: "icmp_kind \<Rightarrow> bytes \<Rightarrow> (probe_key option, packet_error) outcome" where
  "quoted_probe_field kind icmp =
     (if kind = TimeExceeded \<or> kind = DestinationUnreachable \<or> kind = PacketTooBig
         \<or> kind = ParameterProblem then
        and_then (subslice_from icmp 8) (\<lambda>quoted. to_option (parse_quoted_probe quoted))
      else Ok None)"

definition parse_icmp_response ::
  "bytes \<Rightarrow> address_family \<Rightarrow> (parsed_icmp, packet_error) outcome" where
  "parse_icmp_response bytes expected_family =
     and_then (strip_outer_ip bytes expected_family) (\<lambda>(family, source, icmp).
     and_then (need icmp 8) (\<lambda>_.
     and_then (byte_at icmp 0) (\<lambda>t.
     and_then (byte_at icmp 1) (\<lambda>code.
       let kind = icmp_kind_of family t in
       and_then (echoed_fields kind icmp) (\<lambda>(echoed_identifier, echoed_sequence).
       and_then (next_hop_mtu_field family t code icmp) (\<lambda>next_hop_mtu.
       and_then (quoted_probe_field kind icmp) (\<lambda>quoted_probe.
       and_then (find_mpls_extension family kind icmp) (\<lambda>mpls_labels.
         Ok \<lparr>pi_family = family, pi_source = source, pi_kind = kind, pi_code = code,
             pi_echoed_identifier = echoed_identifier, pi_echoed_sequence = echoed_sequence,
             pi_quoted_probe = quoted_probe, pi_next_hop_mtu = next_hop_mtu,
             pi_mpls_labels = mpls_labels\<rparr>))))))))"

definition tcp_segment ::
  "bytes \<Rightarrow> address_family \<Rightarrow> (address_family \<times> ip_addr option \<times> bytes, packet_error) outcome" where
  "tcp_segment bytes expected =
     and_then (byte_at bytes 0) (\<lambda>b0.
       let version = drop_bit 4 b0 in
       if version = 4 then
         let header_len = ihl_bytes b0 in
         if header_len < 20 then Err (Malformed InvalidIpv4HeaderLength)
         else
           and_then (need bytes (header_len + 20)) (\<lambda>_.
           and_then (byte_at bytes 9) (\<lambda>protocol.
             if protocol \<noteq> 6 then Err (Malformed OuterIpv4NotTcp)
             else
               and_then (ipv4_source bytes) (\<lambda>source.
               and_then (subslice_from bytes header_len) (\<lambda>segment.
                 Ok (Ipv4, Some source, segment)))))
       else if version = 6 then
         and_then (need bytes 40) (\<lambda>_.
         and_then (ipv6_transport bytes) (\<lambda>(protocol, offset).
           if protocol \<noteq> 6 then Err (Malformed OuterIpv6NotTcp)
           else
             and_then (need bytes (offset + 20)) (\<lambda>_.
             and_then (ipv6_source bytes) (\<lambda>source.
             and_then (subslice_from bytes offset) (\<lambda>segment.
               Ok (Ipv6, Some source, segment))))))
       else Ok (expected, None, bytes))"

definition parse_tcp_response ::
  "bytes \<Rightarrow> address_family \<Rightarrow> (parsed_tcp, packet_error) outcome" where
  "parse_tcp_response bytes expected =
     and_then (need bytes 20) (\<lambda>_.
     and_then (tcp_segment bytes expected) (\<lambda>(family, source, segment).
     and_then (need segment 20) (\<lambda>_.
     and_then (be_u16_at segment 0 2) (\<lambda>source_port.
     and_then (be_u16_at segment 2 4) (\<lambda>destination_port.
     and_then (be_u32_at segment 4 8) (\<lambda>sequence.
     and_then (be_u32_at segment 8 12) (\<lambda>acknowledgment.
     and_then (byte_at segment 13) (\<lambda>flags.
       Ok \<lparr>pt_family = family, pt_source = source, pt_source_port = source_port,
           pt_destination_port = destination_port, pt_sequence = sequence,
           pt_acknowledgment = acknowledgment, pt_syn = (flags AND 0x02 \<noteq> 0),
           pt_rst = (flags AND 0x04 \<noteq> 0), pt_ack = (flags AND 0x10 \<noteq> 0)\<rparr>))))))))"

end
