(* ===== verification/Packet_Safety.thy ===== *)
theory Packet_Safety
  imports Packet_Parse
begin

text \<open>
  Safety of the packet decoders: none of them panics, whatever bytes arrive, and what they return
  is within bounds. The weakest-precondition equations of the prelude (\<open>panic_simps\<close>), extended
  here to the byte readers, turn each decoder into a goal about lengths.
\<close>

section \<open>Byte readers\<close>

lemma yields_need [panic_simps]:
  "yields (need bs n) P \<longleftrightarrow> (n \<le> length bs \<longrightarrow> P ())"
  by (auto simp: need_def not_less)

lemma yields_be_u16 [panic_simps]:
  "yields (be_u16 bs) P \<longleftrightarrow> 2 \<le> length bs \<and> P (from_be [bs ! 0, bs ! 1])"
  by (auto simp: be_u16_def panic_simps)

lemma yields_be_u32 [panic_simps]:
  "yields (be_u32 bs) P \<longleftrightarrow> 4 \<le> length bs \<and> P (from_be [bs ! 0, bs ! 1, bs ! 2, bs ! 3])"
  by (auto simp: be_u32_def panic_simps)

lemma yields_be_u16_at [panic_simps]:
  "yields (be_u16_at bs a b) P \<longleftrightarrow>
     a \<le> b \<and> b \<le> length bs \<and> 2 \<le> b - a \<and> P (from_be [bs ! a, bs ! (a + 1)])"
  by (auto simp: be_u16_at_def panic_simps)

lemma yields_be_u32_at [panic_simps]:
  "yields (be_u32_at bs a b) P \<longleftrightarrow>
     a \<le> b \<and> b \<le> length bs \<and> 4 \<le> b - a \<and>
     P (from_be [bs ! a, bs ! (a + 1), bs ! (a + 2), bs ! (a + 3)])"
  by (auto simp: be_u32_at_def panic_simps)

lemma yields_if [panic_simps]:
  "yields (if b then m else m') P \<longleftrightarrow> (b \<longrightarrow> yields m P) \<and> (\<not> b \<longrightarrow> yields m' P)"
  by simp

section \<open>The IPv6 extension walk\<close>

lemma ipv6_header_yields:
  "yields (ipv6_header bytes nxt offset)
     (\<lambda>r. case r of None \<Rightarrow> True | Some (following, len) \<Rightarrow> 8 \<le> len \<and> len \<le> 2048)"
proof -
  show ?thesis
    using unat_u8_less [of "bytes ! (offset + 1)"] by (auto simp: ipv6_header_def panic_simps)
qed

lemma ipv6_walk_yields:
  "offset \<le> length bytes \<Longrightarrow>
     yields (ipv6_walk n bytes nxt offset)
       (\<lambda>(protocol, off). offset \<le> off \<and> off \<le> length bytes \<and> off \<le> offset + 2048 * n)"
proof (induction n arbitrary: nxt offset)
  case 0
  show ?case by simp
next
  case (Suc n)
  have step: "yields (ipv6_walk n bytes following (offset + len))
      (\<lambda>(protocol, off). offset \<le> off \<and> off \<le> length bytes \<and> off \<le> offset + (2048 + 2048 * n))"
    if "offset + len \<le> length bytes" "len \<le> 2048" for following len
    using that by (intro yields_mono [OF Suc.IH]) auto
  show ?case
    unfolding ipv6_walk.simps yields_and_then
    using Suc.prems
    by (intro yields_mono [OF ipv6_header_yields])
      (auto simp: panic_simps usize_checked_add_def intro: step split: option.splits)
qed

lemma ipv6_transport_yields:
  "yields (ipv6_transport bytes)
     (\<lambda>(protocol, off). 40 \<le> off \<and> off \<le> length bytes \<and> off \<le> 32808)"
proof -
  have "yields (ipv6_walk 16 bytes nxt 40)
      (\<lambda>(protocol, off). 40 \<le> off \<and> off \<le> length bytes \<and> off \<le> 32808)"
    if "40 \<le> length bytes" for nxt
    using that by (intro yields_mono [OF ipv6_walk_yields]) auto
  then show ?thesis by (simp add: ipv6_transport_def panic_simps)
qed

text \<open>The two defensive arms of the loop are dead code: a header is never empty, and the offset of
  a slice that exists cannot overflow.\<close>

lemma ipv6_walk_errors:
  assumes "offset \<le> length bytes" and "length bytes + 2048 \<le> usize_max"
  shows "ipv6_walk n bytes nxt offset \<noteq> Err (Malformed ZeroLengthExtension) \<and>
    ipv6_walk n bytes nxt offset \<noteq> Err (Malformed ExtensionLengthOverflow)"
  using assms
proof (induction n arbitrary: nxt offset)
  case 0
  show ?case by simp
next
  case (Suc n)
  have header: "ipv6_header bytes nxt offset \<noteq> Err (Malformed ZeroLengthExtension)"
    "ipv6_header bytes nxt offset \<noteq> Err (Malformed ExtensionLengthOverflow)"
    by (auto simp: ipv6_header_def and_then_def need_def be_u16_at_def be_u16_def byte_at_def
        subslice_def split: outcome.splits if_splits)
  have len: "8 \<le> len \<and> len \<le> 2048" if "ipv6_header bytes nxt offset = Ok (Some (following, len))"
    for following len
    using yields_OkD [OF ipv6_header_yields that] by simp
  show ?case
  proof (cases "ipv6_header bytes nxt offset")
    case (Ok r)
    show ?thesis
    proof (cases r)
      case (Some fl)
      obtain following l where fl: "fl = (following, l)" by (cases fl)
      with Ok Some len have "8 \<le> l" "l \<le> 2048" by auto
      with Ok Some fl Suc show ?thesis
        by (auto simp: usize_checked_add_def need_def)
    qed (use Ok in simp)
  qed (use header in auto)
qed

section \<open>MPLS label stacks\<close>

definition budget_ok :: "mpls_label list \<Rightarrow> bool" where
  "budget_ok labels \<longleftrightarrow> length labels \<le> MAX_MPLS_LABELS_PER_RESPONSE"

lemma push_labels_budget:
  "budget_ok labels \<Longrightarrow> push_labels labels words = Inl ls \<Longrightarrow> budget_ok ls"
  "budget_ok labels \<Longrightarrow> push_labels labels words = Inr ls \<Longrightarrow> budget_ok ls"
  by (induction labels words rule: push_labels.induct) (auto simp: budget_ok_def split: if_splits)

text \<open>The three ways one iteration of the object loop goes, as equations.\<close>

definition object_length :: "bytes \<Rightarrow> nat \<Rightarrow> nat" where
  "object_length bytes offset = unat (from_be [bytes ! offset, bytes ! (offset + 1)] :: u16)"

lemma mpls_loop_stop:
  "offset \<le> length bytes \<Longrightarrow> length bytes < offset + 4 \<Longrightarrow> mpls_loop bytes offset labels = Ok labels"
  by (subst mpls_loop.simps) (auto simp: usize_sub_def)

lemma object_length_read:
  "offset + 4 \<le> length bytes \<Longrightarrow>
     be_u16_at bytes offset (offset + 2) = Ok (from_be [bytes ! offset, bytes ! (offset + 1)])"
  by (simp add: be_u16_at_def be_u16_def subslice_def byte_at_def)

lemma mpls_loop_bad:
  "offset + 4 \<le> length bytes \<Longrightarrow>
     object_length bytes offset < 4 \<or> length bytes < offset + object_length bytes offset \<Longrightarrow>
     mpls_loop bytes offset labels = Err (Malformed ExtensionObjectLength)"
  by (subst mpls_loop.simps)
    (simp add: usize_sub_def object_length_read object_length_def del: add_2_eq_Suc')

lemma mpls_loop_step:
  assumes "offset + 4 \<le> length bytes" and "4 \<le> object_length bytes offset"
    and "offset + object_length bytes offset \<le> length bytes"
  shows "mpls_loop bytes offset labels =
    (let len = object_length bytes offset in
     if bytes ! (offset + 2) = 1 \<and> bytes ! (offset + 3) = 1 then
       (case push_labels labels (chunks4 (take (len - 4) (drop (offset + 4) bytes))) of
          Inl labels' \<Rightarrow> Ok labels'
        | Inr labels' \<Rightarrow> mpls_loop bytes (offset + len) labels')
     else mpls_loop bytes (offset + len) labels)"
  using assms le_diff_conv2 [of offset "length bytes" 4]
  by (subst mpls_loop.simps)
    (simp add: usize_sub_def add.commute [of 4] object_length_read object_length_def byte_at_def subslice_def Let_def
      del: add_2_eq_Suc')

lemma mpls_loop_induct [case_names Stop Bad Step]:
  assumes stop: "\<And>offset labels. offset \<le> length bytes \<Longrightarrow> length bytes < offset + 4 \<Longrightarrow> P offset labels"
    and bad: "\<And>offset labels. offset + 4 \<le> length bytes \<Longrightarrow>
      object_length bytes offset < 4 \<or> length bytes < offset + object_length bytes offset \<Longrightarrow>
      P offset labels"
    and step: "\<And>offset labels. offset + 4 \<le> length bytes \<Longrightarrow> 4 \<le> object_length bytes offset \<Longrightarrow>
      offset + object_length bytes offset \<le> length bytes \<Longrightarrow>
      (\<And>labels'. P (offset + object_length bytes offset) labels') \<Longrightarrow> P offset labels"
    and "offset \<le> length bytes"
  shows "P offset labels"
  using \<open>offset \<le> length bytes\<close>
proof (induction "length bytes - offset" arbitrary: offset labels rule: less_induct)
  case less
  let ?l = "object_length bytes offset"
  consider "length bytes < offset + 4" | "offset + 4 \<le> length bytes" "?l < 4 \<or> length bytes < offset + ?l"
    | "offset + 4 \<le> length bytes" "4 \<le> ?l" "offset + ?l \<le> length bytes"
    by linarith
  then show ?case
  proof cases
    case 3
    have "P (offset + ?l) labels'" for labels' using less 3 by simp
    with 3 show ?thesis by (rule step)
  qed (use less stop bad in auto)
qed

lemma mpls_loop_yields:
  assumes "offset \<le> length bytes" and "budget_ok labels"
  shows "yields (mpls_loop bytes offset labels) budget_ok"
  using assms(2)
proof (induction offset labels rule: mpls_loop_induct [of bytes])
  case (Step offset labels)
  then show ?case
    by (auto simp: mpls_loop_step Let_def dest: push_labels_budget split: sum.splits)
qed (use assms in \<open>simp_all add: mpls_loop_stop mpls_loop_bad\<close>)

lemma parse_mpls_extensions_yields: "yields (parse_mpls_extensions bytes) budget_ok"
proof -
  have "yields (mpls_loop bytes 4 []) budget_ok" if "4 \<le> length bytes"
    using that by (intro mpls_loop_yields) (simp_all add: budget_ok_def)
  then show ?thesis by (auto simp: parse_mpls_extensions_def panic_simps)
qed

lemma find_mpls_extension_yields:
  "yields (find_mpls_extension family kind icmp)
     (\<lambda>ls. budget_ok ls \<and> (kind \<noteq> TimeExceeded \<and> kind \<noteq> DestinationUnreachable \<longrightarrow> ls = []))"
proof -
  have empty: "budget_ok []" by (simp add: budget_ok_def)
  have tail: "yields (to_option (parse_mpls_extensions b))
      (\<lambda>r. budget_ok (case r of None \<Rightarrow> [] | Some ls \<Rightarrow> ls))" for b
    using parse_mpls_extensions_yields [of b] empty
    by (cases "parse_mpls_extensions b") simp_all
  show ?thesis
    by (auto simp: find_mpls_extension_def Let_def panic_simps empty tail split: option.splits)
qed

section \<open>Probes and responses\<close>

lemma parse_transport_yields: "yields (parse_transport family protocol bytes offset) exact_key"
  by (auto simp: parse_transport_def panic_simps)

lemma parse_quoted_probe_yields: "yields (parse_quoted_probe bytes) exact_key"
  by (auto simp: parse_quoted_probe_def Let_def panic_simps parse_transport_yields
      intro: yields_mono [OF ipv6_transport_yields])

lemma source_yields [panic_simps]:
  "yields (ipv4_source bytes) P \<longleftrightarrow>
     16 \<le> length bytes \<and> P (V4 (from_be [bytes ! 12, bytes ! 13, bytes ! 14, bytes ! 15]))"
  "yields (ipv6_source bytes) P \<longleftrightarrow> 24 \<le> length bytes \<and> P (V6 (from_be (take 16 (drop 8 bytes))))"
  by (auto simp: ipv4_source_def ipv6_source_def panic_simps)

lemma strip_outer_ip_yields:
  "yields (strip_outer_ip bytes expected) (\<lambda>(family, source, icmp). 8 \<le> length icmp)"
  by (auto simp: strip_outer_ip_def Let_def panic_simps
      intro!: yields_mono [OF ipv6_transport_yields])

lemma tcp_segment_yields:
  "20 \<le> length bytes \<Longrightarrow>
     yields (tcp_segment bytes expected) (\<lambda>(family, source, segment). 20 \<le> length segment)"
  by (auto simp: tcp_segment_def Let_def panic_simps
      intro!: yields_mono [OF ipv6_transport_yields])

definition well_formed_response :: "parsed_icmp \<Rightarrow> bool" where
  "well_formed_response p \<longleftrightarrow>
     length (pi_mpls_labels p) \<le> 64 \<and>
     (pi_mpls_labels p \<noteq> [] \<longrightarrow> pi_kind p = TimeExceeded \<or> pi_kind p = DestinationUnreachable) \<and>
     (case pi_quoted_probe p of None \<Rightarrow> True | Some q \<Rightarrow> exact_key q) \<and>
     (pi_echoed_identifier p \<noteq> None \<longleftrightarrow> pi_kind p = EchoReply) \<and>
     (pi_echoed_sequence p \<noteq> None \<longleftrightarrow> pi_kind p = EchoReply) \<and>
     (pi_kind p = EchoReply \<longrightarrow> pi_quoted_probe p = None)"

lemma to_option_quoted_yields:
  "yields (to_option (parse_quoted_probe b)) (\<lambda>q. case q of None \<Rightarrow> True | Some k \<Rightarrow> exact_key k)"
  using parse_quoted_probe_yields [of b] by (cases "parse_quoted_probe b") simp_all

lemma echoed_fields_yields:
  "8 \<le> length icmp \<Longrightarrow> yields (echoed_fields kind icmp)
     (\<lambda>(i, s). (i \<noteq> None \<longleftrightarrow> kind = EchoReply) \<and> (s \<noteq> None \<longleftrightarrow> kind = EchoReply))"
  by (auto simp: echoed_fields_def panic_simps)

lemma next_hop_mtu_field_yields:
  "8 \<le> length icmp \<Longrightarrow> yields (next_hop_mtu_field family t code icmp) (\<lambda>_. True)"
  by (auto simp: next_hop_mtu_field_def panic_simps)

lemma quoted_probe_field_yields:
  "8 \<le> length icmp \<Longrightarrow> yields (quoted_probe_field kind icmp)
     (\<lambda>q. (case q of None \<Rightarrow> True | Some k \<Rightarrow> exact_key k) \<and> (kind = EchoReply \<longrightarrow> q = None))"
  by (auto simp: quoted_probe_field_def panic_simps intro: yields_mono [OF to_option_quoted_yields])

lemma parse_icmp_response_yields: "yields (parse_icmp_response bytes expected) well_formed_response"
  unfolding parse_icmp_response_def yields_and_then
  apply (rule yields_mono [OF strip_outer_ip_yields])
  apply (clarsimp simp: Let_def panic_simps)
  apply (intro conjI, force)
  apply (rule yields_mono [OF echoed_fields_yields], assumption)
  apply (clarsimp simp: panic_simps)
  apply (rule yields_mono [OF next_hop_mtu_field_yields], assumption)
  apply (rule yields_mono [OF quoted_probe_field_yields], assumption)
  apply (rule yields_mono [OF find_mpls_extension_yields])
  apply (auto simp: well_formed_response_def budget_ok_def MAX_MPLS_LABELS_PER_RESPONSE_def)
  done

lemma parse_tcp_response_yields: "yields (parse_tcp_response bytes expected) (\<lambda>_. True)"
proof -
  have "yields (tcp_segment bytes expected) (\<lambda>(family, source, segment). 20 \<le> length segment)"
    if "20 \<le> length bytes"
    using that by (rule tcp_segment_yields)
  then show ?thesis
    by (auto simp: parse_tcp_response_def panic_simps elim!: yields_mono)
qed

text \<open>
  C1. The decoders are total on hostile input: on any byte string, the ICMP and TCP decoders and
  the MPLS extension parser return a value or an error and never panic; a decoded ICMP response
  holds at most 64 MPLS labels, and only for the two kinds that carry them, echoes an identifier
  and a sequence exactly when it is an echo reply, and quotes only complete probe keys.
\<close>

theorem decoders_never_panic:
  "parse_icmp_response bytes expected \<noteq> Panic \<and> parse_tcp_response bytes expected \<noteq> Panic \<and>
   parse_mpls_extensions bytes \<noteq> Panic \<and>
   (\<forall>p. parse_icmp_response bytes expected = Ok p \<longrightarrow> well_formed_response p)"
  using parse_icmp_response_yields parse_tcp_response_yields parse_mpls_extensions_yields
    yields_no_panic yields_OkD by metis

theorem decoders_never_panic_witness:
  "parse_icmp_response [0x45, 0, 0] Ipv4 = Err (Truncated 20 3) \<and> parse_icmp_response [0x45, 0, 0] Ipv4 \<noteq> Panic"
  using decoders_never_panic [of "[0x45, 0, 0]" Ipv4]
  by (simp add: parse_icmp_response_def strip_outer_ip_def need_def byte_at_def)

text \<open>
  C7. A received response is matched with at most one outstanding probe: no two different exact
  probe keys correlate with the same decoded ICMP response.
\<close>

theorem response_correlates_once:
  assumes "parse_icmp_response bytes expected = Ok p"
    and "correlates p k" and "correlates p k'" and "exact_key k" and "exact_key k'"
  shows "k = k'"
proof -
  have "well_formed_response p"
    by (rule yields_OkD [OF parse_icmp_response_yields assms(1)])
  then have "case pi_quoted_probe p of None \<Rightarrow> True | Some q \<Rightarrow> exact_key q"
    by (simp add: well_formed_response_def)
  then show ?thesis using assms by (intro correlates_unique)
qed

theorem response_correlates_once_witness:
  "\<exists>p. parse_icmp_response [0, 0, 0, 0, 18, 52, 0, 7] Ipv4 = Ok p \<and>
     correlates p (ProbeKey_icmp Ipv4 0x1234 7) \<and> ProbeKey_icmp Ipv4 0x1234 7 = ProbeKey_icmp Ipv4 0x1234 7"
proof -
  let ?k = "ProbeKey_icmp Ipv4 0x1234 7"
  obtain p where p: "parse_icmp_response [0, 0, 0, 0, 18, 52, 0, 7] Ipv4 = Ok p" and c: "correlates p ?k"
    by (simp add: parse_icmp_response_def strip_outer_ip_def need_def byte_at_def Let_def
        icmp_kind_of_def echoed_fields_def next_hop_mtu_field_def quoted_probe_field_def
        find_mpls_extension_def be_u16_at_def be_u16_def subslice_def from_be_def be_value_def
        correlates_def probe_key_defs)
  have e: "exact_key ?k" by blast
  show ?thesis using p c response_correlates_once [OF p c c e e] by blast
qed

end
