(* ===== verification/Packet_Roundtrip.thy ===== *)
theory Packet_Roundtrip
  imports Packet_Build Packet_Safety
begin

text \<open>
  The builders against the decoders: what a probe builder writes, the decoders read back. A TCP
  segment decodes to the fields it was built from; an ICMP error that quotes the start of one of
  our probes, behind any IP header the network puts around it, decodes to that probe's key and so
  correlates with it and with no other.
\<close>

section \<open>Reading fields written by \<open>to_be\<close>\<close>

lemma from_be_octets4: "from_be [octets4 a ! 0, octets4 a ! 1, octets4 a ! 2, octets4 a ! 3] = a"
  using list_nths4 [of "octets4 a"] by (simp only: length_octets) (simp add: octets4_def)

lemma be_u16_to_be: "be_u16 (to_be w) = Ok w"
proof -
  have "from_be [to_be w ! 0, to_be w ! 1] = w"
    by (subst list_nths2) simp_all
  then show ?thesis by (simp only: be_u16_def byte_at_def) simp
qed

lemma be_u32_to_be: "be_u32 (to_be w) = Ok w"
proof -
  have "from_be [to_be w ! 0, to_be w ! 1, to_be w ! 2, to_be w ! 3] = w"
    by (subst list_nths4) simp_all
  then show ?thesis by (simp only: be_u32_def byte_at_def) simp
qed

text \<open>A field of a buffer, given by what the buffer holds from its offset on.\<close>

lemma be_u16_at_drop:
  assumes "drop i bs = to_be w @ c" and "j = i + 2"
  shows "be_u16_at bs i j = Ok w"
proof -
  have "i + 2 \<le> length bs"
    using arg_cong [OF assms(1), of length] by simp
  then show ?thesis
    using assms by (simp add: be_u16_at_def subslice_def be_u16_to_be)
qed

lemma be_u32_at_drop:
  assumes "drop i bs = to_be w @ c" and "j = i + 4"
  shows "be_u32_at bs i j = Ok w"
proof -
  have "i + 4 \<le> length bs"
    using arg_cong [OF assms(1), of length] by simp
  then show ?thesis
    using assms by (simp add: be_u32_at_def subslice_def be_u32_to_be)
qed

section \<open>TCP segments\<close>

lemma to_be_zero32: "to_be (0 :: u32) = [0, 0, 0, 0]"
  by (simp add: to_be_def be_bytes_numeral)

lemma syn_segment_fields:
  "be_u16_at (syn_segment spec c) 0 2 = Ok (ts_source_port spec)"
  "be_u16_at (syn_segment spec c) 2 4 = Ok (ts_destination_port spec)"
  "be_u32_at (syn_segment spec c) 4 8 = Ok (ts_sequence spec)"
  "be_u32_at (syn_segment spec c) 8 12 = Ok 0"
  "syn_segment spec c ! 13 = 2"
proof -
  show "be_u16_at (syn_segment spec c) 0 2 = Ok (ts_source_port spec)"
    by (rule be_u16_at_drop) (simp_all add: syn_segment_def)
  show "be_u16_at (syn_segment spec c) 2 4 = Ok (ts_destination_port spec)"
    by (rule be_u16_at_drop) (simp_all add: syn_segment_def)
  show "be_u32_at (syn_segment spec c) 4 8 = Ok (ts_sequence spec)"
    by (rule be_u32_at_drop) (simp_all add: syn_segment_def)
  show "be_u32_at (syn_segment spec c) 8 12 = Ok 0"
    by (rule be_u32_at_drop) (simp_all add: syn_segment_def to_be_zero32)
  show "syn_segment spec c ! 13 = 2"
    by (simp add: syn_segment_def nth_append)
qed

definition syn_as_parsed :: "address_family \<Rightarrow> ip_addr \<Rightarrow> tcp_syn_spec \<Rightarrow> parsed_tcp" where
  "syn_as_parsed family source spec =
     \<lparr>pt_family = family, pt_source = Some source, pt_source_port = ts_source_port spec,
      pt_destination_port = ts_destination_port spec, pt_sequence = ts_sequence spec,
      pt_acknowledgment = 0, pt_syn = True, pt_rst = False, pt_ack = False\<rparr>"

lemma parse_tcp_of_segment:
  assumes "20 \<le> length bytes"
    and "tcp_segment bytes expected = Ok (family, Some source, syn_segment spec c)"
  shows "parse_tcp_response bytes expected = Ok (syn_as_parsed family source spec)"
  using assms
  by (simp add: parse_tcp_response_def need_def syn_segment_fields byte_at_def syn_as_parsed_def)

lemma tcp_segment_syn4:
  "tcp_segment (syn_header4 source destination spec k @ syn_segment spec c) expected =
     Ok (Ipv4, Some (V4 source), syn_segment spec c)"
proof -
  let ?b = "syn_header4 source destination spec k @ syn_segment spec c"
  have nth: "?b ! 0 = 0x45" "?b ! 9 = 6" "?b ! 12 = octets4 source ! 0" "?b ! 13 = octets4 source ! 1"
    "?b ! 14 = octets4 source ! 2" "?b ! 15 = octets4 source ! 3"
    by (simp_all add: syn_header4_def nth_append nth_Cons')
  have "tcp_segment ?b expected = Ok (Ipv4, Some (V4 (from_be [octets4 source ! 0, octets4 source ! 1,
      octets4 source ! 2, octets4 source ! 3])), syn_segment spec c)"
    by (simp add: tcp_segment_def byte_at_def nth Let_def ihl_bytes_def need_def ipv4_source_def
        subslice_from_def)
  then show ?thesis by (simp only: from_be_octets4)
qed

lemma tcp_segment_syn6:
  "tcp_segment (syn_header6 source destination spec @ syn_segment spec c) expected =
     Ok (Ipv6, Some (V6 source), syn_segment spec c)"
proof -
  let ?b = "syn_header6 source destination spec @ syn_segment spec c"
  have nth: "?b ! 0 = 0x60 OR drop_bit 4 (ts_traffic_class spec)" "?b ! 6 = 6"
    and src: "take 16 (drop 8 (syn_header6 source destination spec)) = octets6 source"
    by (simp_all add: syn_header6_def)
  have "ipv6_header ?b 6 40 = Ok None" by (simp add: ipv6_header_def)
  then have "ipv6_walk 16 ?b 6 40 = Ok (6, 40)" by (simp add: numeral_eq_Suc)
  moreover have "drop_bit 4 (?b ! 0) = 6" by (simp only: nth version_class_split)
  ultimately show ?thesis
    by (simp add: tcp_segment_def byte_at_def nth Let_def need_def ipv6_transport_def ipv6_source_def
        subslice_def subslice_from_def src) (simp add: octets6_def)
qed

text \<open>
  C6. A TCP SYN the program builds, over IPv4 or IPv6, decodes to exactly the fields it was built
  from: source address, ports and sequence number, with only the SYN flag set.
\<close>

theorem tcp_syn_roundtrip:
  "parse_tcp_response (build_tcp_syn_ipv4 source destination spec) expected
     = Ok (syn_as_parsed Ipv4 (V4 source) spec) \<and>
   parse_tcp_response (build_tcp_syn_ipv6 source6 destination6 spec) expected
     = Ok (syn_as_parsed Ipv6 (V6 source6) spec)"
  unfolding build_tcp_syn_ipv4_eq build_tcp_syn_ipv6_eq
  by (intro conjI parse_tcp_of_segment [OF _ tcp_segment_syn4] parse_tcp_of_segment [OF _ tcp_segment_syn6])
    simp_all

section \<open>ICMP errors that quote one of our probes\<close>

text \<open>Any IPv4 header (options allowed) and any IPv6 header without extensions, of one protocol.\<close>

definition ipv4_header :: "u8 \<Rightarrow> bytes \<Rightarrow> bool" where
  "ipv4_header protocol h \<longleftrightarrow>
     20 \<le> length h \<and> drop_bit 4 (h ! 0) = 4 \<and> ihl_bytes (h ! 0) = length h \<and> h ! 9 = protocol"

definition ipv6_plain_header :: "u8 \<Rightarrow> bytes \<Rightarrow> bool" where
  "ipv6_plain_header protocol h \<longleftrightarrow>
     length h = 40 \<and> drop_bit 4 (h ! 0) = 6 \<and> h ! 6 = protocol"

lemma header_nth:
  "ipv4_header protocol h \<Longrightarrow> (h @ q) ! 0 = h ! 0" "ipv4_header protocol h \<Longrightarrow> (h @ q) ! 9 = protocol"
  "ipv6_plain_header protocol h \<Longrightarrow> (h @ q) ! 0 = h ! 0"
  "ipv6_plain_header protocol h \<Longrightarrow> (h @ q) ! 6 = protocol"
  by (auto simp: ipv4_header_def ipv6_plain_header_def nth_append)

lemma ipv6_transport_plain:
  assumes "ipv6_plain_header protocol h" and "protocol \<notin> {0, 43, 44, 51, 60}"
  shows "ipv6_transport (h @ q) = Ok (protocol, 40)"
proof -
  have "ipv6_header (h @ q) protocol 40 = Ok None"
    using assms(2) by (simp add: ipv6_header_def)
  then have "ipv6_walk 16 (h @ q) protocol 40 = Ok (protocol, 40)"
    by (simp add: numeral_eq_Suc)
  then show ?thesis
    using assms(1) header_nth(4) [OF assms(1), of q]
    by (simp add: ipv6_transport_def need_def byte_at_def ipv6_plain_header_def)
qed

lemma strip_outer_ipv4:
  assumes "ipv4_header 1 h" and "8 \<le> length icmp"
  shows "\<exists>source. strip_outer_ip (h @ icmp) expected = Ok (Ipv4, source, icmp)"
  using assms header_nth(1,2) [OF assms(1), of icmp]
  by (auto simp: ipv4_header_def strip_outer_ip_def need_def byte_at_def Let_def ipv4_source_def
      subslice_from_def)

lemma strip_outer_ipv4_source:
  assumes "ipv4_header 1 h" and "8 \<le> length icmp"
  shows "strip_outer_ip (h @ icmp) expected = Ok (Ipv4, Some (V4 (from_be [h ! 12, h ! 13, h ! 14, h ! 15])), icmp)"
  using assms header_nth(1,2) [OF assms(1), of icmp]
  by (auto simp: ipv4_header_def strip_outer_ip_def need_def byte_at_def Let_def ipv4_source_def
      subslice_from_def nth_append)

lemma strip_outer_ipv6:
  assumes "h = [] \<and> expected = Ipv6 \<and> drop_bit 4 (icmp ! 0) = 0 \<or> ipv6_plain_header 58 h"
    and "8 \<le> length icmp"
  shows "\<exists>source. strip_outer_ip (h @ icmp) expected = Ok (Ipv6, source, icmp)"
  using assms(1)
proof
  assume "ipv6_plain_header 58 h"
  then show ?thesis
    using assms(2) header_nth(3) [of 58 h icmp] ipv6_transport_plain [of 58 h icmp]
    by (simp add: ipv6_plain_header_def strip_outer_ip_def need_def byte_at_def Let_def
        ipv6_source_def subslice_def subslice_from_def)
qed (use assms(2) in \<open>auto simp: strip_outer_ip_def need_def byte_at_def Let_def\<close>)

text \<open>The transport header the quote must show: its first eight bytes.\<close>

lemma parse_transport_icmp:
  assumes "drop offset bs = a # b # c # d # to_be i @ to_be s @ rest" and "protocol \<in> {1, 58}"
  shows "parse_transport family protocol bs offset = Ok (ProbeKey_icmp family i s)"
proof -
  have d: "drop (offset + 4) bs = to_be i @ to_be s @ rest" "drop (offset + 6) bs = to_be s @ rest"
    using arg_cong [OF assms(1), of "drop 4"] arg_cong [OF assms(1), of "drop 6"]
    by (simp_all add: add.commute)
  have "be_u16_at bs (offset + 4) (offset + 6) = Ok i" "be_u16_at bs (offset + 6) (offset + 8) = Ok s"
    by (rule be_u16_at_drop [OF d(1)], simp) (rule be_u16_at_drop [OF d(2)], simp)
  moreover have "need bs (offset + 8) = Ok ()"
    using arg_cong [OF assms(1), of length] by (simp add: need_def)
  ultimately show ?thesis
    using assms(2) by (auto simp: parse_transport_def)
qed

lemma parse_transport_ports:
  assumes "drop offset bs = to_be s @ to_be d @ to_be (n :: u32) @ rest"
  shows "parse_transport family 17 bs offset = Ok (ProbeKey_ports family Udp s d)"
    and "parse_transport family 6 bs offset = Ok (ProbeKey_tcp family s d (Some n))"
proof -
  have d: "drop (offset + 2) bs = to_be d @ to_be n @ rest" "drop (offset + 4) bs = to_be n @ rest"
    using arg_cong [OF assms(1), of "drop 2"] arg_cong [OF assms(1), of "drop 4"]
    by (simp_all add: add.commute)
  have "be_u16_at bs offset (offset + 2) = Ok s" "be_u16_at bs (offset + 2) (offset + 4) = Ok d"
    "be_u32_at bs (offset + 4) (offset + 8) = Ok n"
    by (rule be_u16_at_drop [OF assms], simp) (rule be_u16_at_drop [OF d(1)], simp,
      rule be_u32_at_drop [OF d(2)], simp)
  moreover have "need bs (offset + 8) = Ok ()"
    using arg_cong [OF assms(1), of length] by (simp add: need_def)
  ultimately show "parse_transport family 17 bs offset = Ok (ProbeKey_ports family Udp s d)"
    and "parse_transport family 6 bs offset = Ok (ProbeKey_tcp family s d (Some n))"
    by (simp_all add: parse_transport_def)
qed

lemma parse_quoted_ipv4:
  assumes "ipv4_header protocol h"
  shows "parse_quoted_probe (h @ q) = parse_transport Ipv4 protocol (h @ q) (length h)"
proof -
  have len: "20 \<le> length h" using assms by (simp add: ipv4_header_def)
  have "need (h @ q) 1 = Ok ()" "need (h @ q) 20 = Ok ()" 
    "byte_at (h @ q) 0 = (Ok (h ! 0) :: (u8, packet_error) outcome)"
    "byte_at (h @ q) 9 = (Ok protocol :: (u8, packet_error) outcome)"
    using len header_nth(1,2) [OF assms, of q] by (auto simp: need_def byte_at_def)
  moreover have "drop_bit 4 (h ! 0) = 4" "ihl_bytes (h ! 0) = length h" "\<not> length h < 20"
    using assms by (simp_all add: ipv4_header_def)
  ultimately show ?thesis by (simp add: parse_quoted_probe_def Let_def)
qed

lemma parse_quoted_ipv6:
  assumes "ipv6_plain_header protocol h" and "protocol \<notin> {0, 43, 44, 51, 60}"
  shows "parse_quoted_probe (h @ q) = parse_transport Ipv6 protocol (h @ q) 40"
proof -
  have "need (h @ q) 1 = Ok ()" "need (h @ q) 40 = Ok ()"
    "byte_at (h @ q) 0 = (Ok (h ! 0) :: (u8, packet_error) outcome)"
    using assms header_nth(3) [OF assms(1), of q]
    by (auto simp: ipv6_plain_header_def need_def byte_at_def)
  moreover have "drop_bit 4 (h ! 0) = 6"
    using assms by (simp add: ipv6_plain_header_def)
  ultimately show ?thesis
    using ipv6_transport_plain [OF assms, of q] by (simp add: parse_quoted_probe_def Let_def)
qed

text \<open>The rest of the response cannot fail once the outer header is stripped.\<close>

lemma find_mpls_extension_Ok: "\<exists>ls. find_mpls_extension family kind icmp = Ok ls"
proof -
  have "\<exists>r. to_option (parse_mpls_extensions b) = Ok r" for b
    using yields_no_panic [OF parse_mpls_extensions_yields, of b]
    by (cases "parse_mpls_extensions b") simp_all
  then show ?thesis
    by (auto simp: find_mpls_extension_def Let_def and_then_eq_Ok split: option.splits)
qed

lemma icmp_error_parses:
  assumes "strip_outer_ip bs expected = Ok (family, source, icmp)"
    and "icmp = [t, code, c1, c2, r1, r2, r3, r4] @ q"
    and "icmp_kind_of family t \<in> {TimeExceeded, DestinationUnreachable, PacketTooBig, ParameterProblem}"
    and "parse_quoted_probe q = Ok key"
  shows "\<exists>p. parse_icmp_response bs expected = Ok p \<and> pi_family p = family \<and>
    pi_quoted_probe p = Some key \<and> pi_kind p = icmp_kind_of family t \<and> pi_source p = source"
proof -
  let ?k = "icmp_kind_of family t"
  obtain ls where ls: "find_mpls_extension family ?k icmp = Ok ls"
    using find_mpls_extension_Ok by blast
  have "\<exists>mtu. next_hop_mtu_field family t code icmp = Ok mtu"
    by (simp add: assms(2) next_hop_mtu_field_def be_u16_at_def be_u32_at_def be_u16_def be_u32_def
        subslice_def byte_at_def)
  then obtain mtu where mtu: "next_hop_mtu_field family t code icmp = Ok mtu" ..
  have "quoted_probe_field ?k icmp = Ok (Some key)"
    using assms(3,4) by (auto simp: quoted_probe_field_def assms(2) subslice_from_def)
  moreover have "echoed_fields ?k icmp = Ok (None, None)"
    using assms(3) by (auto simp: echoed_fields_def)
  moreover have "need icmp 8 = Ok ()" "byte_at icmp 0 = (Ok t :: (u8, packet_error) outcome)"
    "byte_at icmp 1 = (Ok code :: (u8, packet_error) outcome)"
    by (simp_all add: assms(2) need_def byte_at_def)
  ultimately show ?thesis
    using assms(1) ls mtu by (simp add: parse_icmp_response_def Let_def)
qed

text \<open>\<open>answers p k\<close>: among complete probe keys, the response correlates with \<open>k\<close> and with no other.\<close>

definition answers :: "parsed_icmp \<Rightarrow> probe_key \<Rightarrow> bool" where
  "answers p k \<longleftrightarrow> (\<forall>k'. exact_key k' \<longrightarrow> (correlates p k' \<longleftrightarrow> k' = k))"

lemma answers_quoted:
  "pi_quoted_probe p = Some k \<Longrightarrow> exact_key k \<Longrightarrow> pi_family p = pk_family k \<Longrightarrow> answers p k"
  by (auto simp: answers_def correlates_quoted_iff)

lemma icmp_error_answers:
  assumes "strip_outer_ip bs expected = Ok (family, source, [t, code, c1, c2, r1, r2, r3, r4] @ quote)"
    and "icmp_kind_of family t \<in> {TimeExceeded, DestinationUnreachable, PacketTooBig, ParameterProblem}"
    and "parse_quoted_probe quote = Ok k" and "exact_key k" and "pk_family k = family"
  shows "\<exists>p. parse_icmp_response bs expected = Ok p \<and> answers p k"
proof -
  obtain p where "parse_icmp_response bs expected = Ok p" "pi_family p = family"
    "pi_quoted_probe p = Some k"
    using icmp_error_parses [OF assms(1) refl assms(2,3)] by blast
  then show ?thesis using assms(4,5) answers_quoted by metis
qed

text \<open>What our probes look like in a quote that shows at least eight transport bytes.\<close>

lemma take_echo:
  assumes "8 \<le> n"
  shows "\<exists>a b c d rest. take n (build_icmpv4_echo i s payload) = a # b # c # d # to_be i @ to_be s @ rest"
    and "\<exists>a b c d rest. take n (build_icmpv6_echo src dst i s payload) = a # b # c # d # to_be i @ to_be s @ rest"
proof -
  have cut: "\<exists>a b c d rest. take n ([x, y] @ to_be (w :: u16) @ to_be i @ to_be s @ payload) =
      a # b # c # d # to_be i @ to_be s @ rest" for x y w
  proof -
    have "take n (([x, y] @ to_be w @ to_be i @ to_be s) @ payload) =
        ([x, y] @ to_be w @ to_be i @ to_be s) @ take (n - 8) payload"
      using assms by (simp only: take_append) simp
    then show ?thesis by (simp add: to_be_u16 [of w])
  qed
  show "\<exists>a b c d rest. take n (build_icmpv4_echo i s payload) = a # b # c # d # to_be i @ to_be s @ rest"
    unfolding build_icmpv4_echo_eq by (rule cut)
  show "\<exists>a b c d rest. take n (build_icmpv6_echo src dst i s payload) = a # b # c # d # to_be i @ to_be s @ rest"
    unfolding build_icmpv6_echo_eq by (rule cut)
qed

lemma take_syn:
  assumes "8 \<le> n"
  shows "\<exists>rest. take n (syn_segment spec c) =
    to_be (ts_source_port spec) @ to_be (ts_destination_port spec) @ to_be (ts_sequence spec) @ rest"
  using assms by (simp add: syn_segment_def)

lemma take_udp:
  assumes "8 \<le> n" and "4 \<le> length r"
  shows "\<exists>w rest. take n (to_be s @ to_be d @ r) = to_be (s :: u16) @ to_be (d :: u16) @ to_be (w :: u32) @ rest"
proof -
  have "to_be (from_be (take 4 r) :: u32) = take 4 r"
    using assms(2) by (intro to_be_from_be) simp
  moreover have "take (n - 4) r = take 4 r @ take (n - 8) (drop 4 r)"
    using assms(1) take_add [of 4 "n - 8" r] by simp
  ultimately have "take n (to_be s @ to_be d @ r) =
      to_be s @ to_be d @ to_be (from_be (take 4 r) :: u32) @ take (n - 8) (drop 4 r)"
    using assms(1) by simp
  then show ?thesis by blast
qed

lemma quote_ipv4:
  "ipv4_header 1 h \<Longrightarrow> \<exists>a b c d rest. q = a # b # c # d # to_be i @ to_be s @ rest \<Longrightarrow>
     parse_quoted_probe (h @ q) = Ok (ProbeKey_icmp Ipv4 i s)"
  "ipv4_header 17 h \<Longrightarrow> \<exists>n rest. q = to_be sp @ to_be dp @ to_be (n :: u32) @ rest \<Longrightarrow>
     parse_quoted_probe (h @ q) = Ok (ProbeKey_ports Ipv4 Udp sp dp)"
  "ipv4_header 6 h \<Longrightarrow> \<exists>rest. q = to_be sp @ to_be dp @ to_be m @ rest \<Longrightarrow>
     parse_quoted_probe (h @ q) = Ok (ProbeKey_tcp Ipv4 sp dp (Some m))"
  by (auto simp: parse_quoted_ipv4 intro: parse_transport_icmp parse_transport_ports)

lemma quote_ipv6:
  "ipv6_plain_header 58 h \<Longrightarrow> \<exists>a b c d rest. q = a # b # c # d # to_be i @ to_be s @ rest \<Longrightarrow>
     parse_quoted_probe (h @ q) = Ok (ProbeKey_icmp Ipv6 i s)"
  "ipv6_plain_header 17 h \<Longrightarrow> \<exists>n rest. q = to_be sp @ to_be dp @ to_be (n :: u32) @ rest \<Longrightarrow>
     parse_quoted_probe (h @ q) = Ok (ProbeKey_ports Ipv6 Udp sp dp)"
  "ipv6_plain_header 6 h \<Longrightarrow> \<exists>rest. q = to_be sp @ to_be dp @ to_be m @ rest \<Longrightarrow>
     parse_quoted_probe (h @ q) = Ok (ProbeKey_tcp Ipv6 sp dp (Some m))"
  by (auto simp: parse_quoted_ipv6 ipv6_plain_header_def
      intro: parse_transport_icmp parse_transport_ports)

section \<open>The theorems\<close>

text \<open>
  C2. An ICMPv4 error (time exceeded, destination unreachable, parameter problem) that quotes the
  start of one of our probes, behind any outer and any inner IPv4 header and however the network
  truncates the quote after eight transport bytes, decodes and answers exactly that probe: the echo
  request, the UDP datagram with those ports, the TCP SYN with its ports and sequence number.
\<close>

theorem icmpv4_error_answers_probe:
  assumes "ipv4_header 1 outer" and "t \<in> {3, 11, 12}" and "8 \<le> n"
    and "ipv4_header 1 icmp_ip" and "ipv4_header 17 udp_ip" and "ipv4_header 6 tcp_ip"
    and "4 \<le> length udp_rest"
  shows "let response = (\<lambda>quote. parse_icmp_response (outer @ [t, code, c1, c2, r1, r2, r3, r4] @ quote) expected)
    in (\<exists>p. response (icmp_ip @ take n (build_icmpv4_echo identifier sequence payload)) = Ok p \<and>
          answers p (ProbeKey_icmp Ipv4 identifier sequence)) \<and>
       (\<exists>p. response (udp_ip @ take n (to_be source_port @ to_be destination_port @ udp_rest)) = Ok p \<and>
          answers p (ProbeKey_ports Ipv4 Udp source_port destination_port)) \<and>
       (\<exists>p. response (tcp_ip @ take n (drop 20 (build_tcp_syn_ipv4 source destination spec))) = Ok p \<and>
          answers p (ProbeKey_tcp Ipv4 (ts_source_port spec) (ts_destination_port spec) (Some (ts_sequence spec))))"
proof -
  have kind: "icmp_kind_of Ipv4 t \<in> {TimeExceeded, DestinationUnreachable, PacketTooBig, ParameterProblem}"
    using assms(2) by (auto simp: icmp_kind_of_def)
  have answer: "\<exists>p. parse_icmp_response (outer @ [t, code, c1, c2, r1, r2, r3, r4] @ quote) expected = Ok p
      \<and> answers p k"
    if "parse_quoted_probe quote = Ok k" "exact_key k" "pk_family k = Ipv4" for quote k
  proof -
    obtain src where "strip_outer_ip (outer @ [t, code, c1, c2, r1, r2, r3, r4] @ quote) expected
        = Ok (Ipv4, src, [t, code, c1, c2, r1, r2, r3, r4] @ quote)"
      using strip_outer_ipv4 [OF assms(1), of "[t, code, c1, c2, r1, r2, r3, r4] @ quote"] by auto
    then show ?thesis by (rule icmp_error_answers [OF _ kind that])
  qed
  have syn: "drop 20 (build_tcp_syn_ipv4 source destination spec) =
      syn_segment spec (transport_checksum_ipv4 source destination 6 (syn_segment spec 0))"
    by (simp add: build_tcp_syn_ipv4_eq)
  show ?thesis
    unfolding Let_def syn
    by (intro conjI answer quote_ipv4 take_echo take_udp take_syn assms)
      (simp_all add: exact_key_intros)
qed

text \<open>Sample headers for the concrete instances.\<close>

definition sample_ipv4 :: "u8 \<Rightarrow> bytes" where
  "sample_ipv4 protocol =
     [0x45, 0, 0, 56, 0, 0, 0, 0, 64, protocol, 0, 0, 192, 0, 2, 1, 192, 0, 2, 2]"

definition sample_ipv6 :: "u8 \<Rightarrow> bytes" where
  "sample_ipv6 protocol = [0x60, 0, 0, 0, 0, 16, protocol, 64] @ octets6 1 @ octets6 2"

lemma sample_headers: "ipv4_header protocol (sample_ipv4 protocol)"
  "ipv6_plain_header protocol (sample_ipv6 protocol)"
  by (simp_all add: ipv4_header_def ipv6_plain_header_def sample_ipv4_def sample_ipv6_def ihl_bytes_def)

theorem icmpv4_error_answers_probe_witness:
  "\<exists>p. parse_icmp_response (sample_ipv4 1 @ [11, 0, 0, 0, 0, 0, 0, 0]
       @ sample_ipv4 1 @ take 8 (build_icmpv4_echo 4660 7 [1, 2])) Ipv4 = Ok p \<and>
     answers p (ProbeKey_icmp Ipv4 4660 7)"
  using icmpv4_error_answers_probe [of "sample_ipv4 1" 11 8 "sample_ipv4 1" "sample_ipv4 17"
      "sample_ipv4 6" "[0, 8, 0, 0]" 0 0 0 0 0 0 0 Ipv4 4660 7 "[1, 2]"]
  by (simp only: sample_headers Let_def) simp

text \<open>
  C3. The same over IPv6: an ICMPv6 error (destination unreachable, packet too big, time exceeded,
  parameter problem), received with its IPv6 header or, as raw sockets deliver it, without, answers
  exactly the echo request, UDP datagram or TCP SYN whose first eight transport bytes it quotes.
\<close>

theorem icmpv6_error_answers_probe:
  assumes "outer = [] \<and> expected = Ipv6 \<or> ipv6_plain_header 58 outer"
    and "t \<in> {1, 2, 3, 4}" and "8 \<le> n"
    and "ipv6_plain_header 58 icmp_ip" and "ipv6_plain_header 17 udp_ip" and "ipv6_plain_header 6 tcp_ip"
    and "4 \<le> length udp_rest"
  shows "let response = (\<lambda>quote. parse_icmp_response (outer @ [t, code, c1, c2, r1, r2, r3, r4] @ quote) expected)
    in (\<exists>p. response (icmp_ip @ take n (build_icmpv6_echo source destination identifier sequence payload)) = Ok p \<and>
          answers p (ProbeKey_icmp Ipv6 identifier sequence)) \<and>
       (\<exists>p. response (udp_ip @ take n (to_be source_port @ to_be destination_port @ udp_rest)) = Ok p \<and>
          answers p (ProbeKey_ports Ipv6 Udp source_port destination_port)) \<and>
       (\<exists>p. response (tcp_ip @ take n (drop 40 (build_tcp_syn_ipv6 source destination spec))) = Ok p \<and>
          answers p (ProbeKey_tcp Ipv6 (ts_source_port spec) (ts_destination_port spec) (Some (ts_sequence spec))))"
proof -
  have kind: "icmp_kind_of Ipv6 t \<in> {TimeExceeded, DestinationUnreachable, PacketTooBig, ParameterProblem}"
    using assms(2) by (auto simp: icmp_kind_of_def)
  have answer: "\<exists>p. parse_icmp_response (outer @ [t, code, c1, c2, r1, r2, r3, r4] @ quote) expected = Ok p
      \<and> answers p k"
    if "parse_quoted_probe quote = Ok k" "exact_key k" "pk_family k = Ipv6" for quote k
  proof -
    obtain src where "strip_outer_ip (outer @ [t, code, c1, c2, r1, r2, r3, r4] @ quote) expected
        = Ok (Ipv6, src, [t, code, c1, c2, r1, r2, r3, r4] @ quote)"
      using strip_outer_ipv6 [of outer expected "[t, code, c1, c2, r1, r2, r3, r4] @ quote"] assms(1,2)
      by auto
    then show ?thesis by (rule icmp_error_answers [OF _ kind that])
  qed
  have syn: "drop 40 (build_tcp_syn_ipv6 source destination spec) =
      syn_segment spec (transport_checksum_ipv6 source destination 6 (syn_segment spec 0))"
    by (simp add: build_tcp_syn_ipv6_eq)
  show ?thesis
    unfolding Let_def syn
    by (intro conjI answer quote_ipv6 take_echo take_udp take_syn assms)
      (simp_all add: exact_key_intros)
qed

theorem icmpv6_error_answers_probe_witness:
  "\<exists>p. parse_icmp_response ([3, 0, 0, 0, 0, 0, 0, 0]
       @ sample_ipv6 58 @ take 8 (build_icmpv6_echo 1 2 4660 7 [1, 2])) Ipv6 = Ok p \<and>
     answers p (ProbeKey_icmp Ipv6 4660 7)"
  using icmpv6_error_answers_probe [of "[]" Ipv6 3 8 "sample_ipv6 58" "sample_ipv6 17"
      "sample_ipv6 6" "[0, 8, 0, 0]" 0 0 0 0 0 0 0 1 2 4660 7 "[1, 2]"]
  by (simp only: sample_headers Let_def) simp

end
