(* ===== verification/Packet_Mpls.thy ===== *)
theory Packet_Mpls
  imports Packet_Safety
begin

text \<open>
  The MPLS label parser against a reference definition. The code walks an RFC 4884 extension block
  by offset, decodes entry by entry and stops at the retention budget; the reference splits the
  block into objects, collects all label entries, and cuts the list afterwards.
\<close>

section \<open>The reference\<close>

text \<open>
  \<open>extension_entries bs\<close>: the four-byte entries of all label-stack objects up to the first
  malformed object, and whether the block ends without one.
\<close>

function extension_entries :: "bytes \<Rightarrow> bytes list \<times> bool" where
  "extension_entries bs =
     (if length bs < 4 then ([], True)
      else
        let len = be_value (take 2 bs) in
        if len < 4 \<or> length bs < len then ([], False)
        else
          let (entries, complete) = extension_entries (drop len bs) in
          ((if bs ! 2 = 1 \<and> bs ! 3 = 1 then chunks4 (drop 4 (take len bs)) else []) @ entries, complete))"
  by pat_completeness auto
termination
  by (relation "measure length") auto

declare extension_entries.simps [simp del]

definition labels_within_budget :: "bytes list \<times> bool \<Rightarrow> (mpls_label list, packet_error) outcome" where
  "labels_within_budget r =
     (if 64 < length (fst r) then Ok (map decode_label (take 64 (fst r)))
      else if snd r then Ok (map decode_label (fst r))
      else Err (Malformed ExtensionObjectLength))"

section \<open>The code refines it\<close>

lemma push_labels_eq:
  "length labels \<le> 64 \<Longrightarrow>
     push_labels labels words =
       (if 64 < length labels + length words
        then Inl (labels @ map decode_label (take (64 - length labels) words))
        else Inr (labels @ map decode_label words))"
  by (induction labels words rule: push_labels.induct)
    (auto simp: MAX_MPLS_LABELS_PER_RESPONSE_def Suc_diff_le take_Cons' split: if_splits)

lemma object_length_take:
  assumes "offset + 4 \<le> length bytes"
  shows "object_length bytes offset = be_value (take 2 (drop offset bytes))"
proof -
  have "take 2 (drop offset bytes) = [bytes ! offset, bytes ! (offset + 1)]"
    using assms by (auto intro!: nth_equalityI simp: less_Suc_eq numeral_2_eq_2 nth_Cons')
  then show ?thesis by (simp add: object_length_def unat_from_be)
qed

lemma mpls_loop_eq:
  assumes "offset \<le> length bytes" and "length labels \<le> 64"
  shows "mpls_loop bytes offset labels =
    (let (entries, complete) = extension_entries (drop offset bytes) in
     if 64 < length labels + length entries
     then Ok (labels @ map decode_label (take (64 - length labels) entries))
     else if complete then Ok (labels @ map decode_label entries)
     else Err (Malformed ExtensionObjectLength))"
  using assms(2)
proof (induction offset labels rule: mpls_loop_induct [of bytes])
  case (Stop offset labels)
  then show ?case
    by (simp add: mpls_loop_stop extension_entries.simps [of "drop offset bytes"])
next
  case (Bad offset labels)
  then show ?case
    using object_length_take [of offset bytes]
    by (auto simp: mpls_loop_bad extension_entries.simps [of "drop offset bytes"] Let_def)
next
  case (Step offset labels)
  let ?len = "object_length bytes offset"
  let ?chunk = "chunks4 (take (?len - 4) (drop (offset + 4) bytes))"
  obtain entries complete where rest: "extension_entries (drop (offset + ?len) bytes) = (entries, complete)"
    by fastforce
  have here: "extension_entries (drop offset bytes) =
      ((if bytes ! (offset + 2) = 1 \<and> bytes ! (offset + 3) = 1 then ?chunk else []) @ entries, complete)"
    using Step.hyps rest object_length_take [of offset bytes]
    by (subst extension_entries.simps) (auto simp: Let_def drop_take add.commute)
  show ?case
    using Step.hyps Step.prems Step.IH rest
    by (simp add: mpls_loop_step here Let_def push_labels_eq)
qed (use assms in simp)

lemma parse_mpls_extensions_eq:
  assumes "4 \<le> length bytes" and "bytes ! 0 = 0x20" and "bytes ! 1 = 0"
    and "bytes ! 2 = 0 \<and> bytes ! 3 = 0 \<or> internet_checksum bytes = 0"
  shows "parse_mpls_extensions bytes = labels_within_budget (extension_entries (drop 4 bytes))"
proof -
  have "be_u16_at bytes 2 4 = Ok (from_be [bytes ! 2, bytes ! 3])"
    using assms(1) by (simp add: be_u16_at_def be_u16_def subslice_def byte_at_def)
  moreover have "(from_be [0, 0] :: u16) = 0"
    by (simp add: from_be_def be_value_def)
  ultimately have "parse_mpls_extensions bytes = mpls_loop bytes 4 []"
    using assms by (auto simp: parse_mpls_extensions_def need_def byte_at_def)
  then show ?thesis
    using assms(1) mpls_loop_eq [of 4 bytes "[]"]
    by (simp add: labels_within_budget_def split: prod.splits)
qed

text \<open>
  C8. The MPLS parser implements its reference: of an extension block with a valid version and
  checksum it returns the first 64 label entries of the label-stack objects, decoded in order; a
  malformed object is an error unless the budget was already exceeded by the objects before it.
\<close>

theorem parse_mpls_extensions_spec:
  assumes "4 \<le> length bytes" and "bytes ! 0 = 0x20" and "bytes ! 1 = 0"
    and "bytes ! 2 = 0 \<and> bytes ! 3 = 0 \<or> internet_checksum bytes = 0"
  shows "parse_mpls_extensions bytes = labels_within_budget (extension_entries (drop 4 bytes))"
  using assms by (rule parse_mpls_extensions_eq)

theorem parse_mpls_extensions_spec_witness:
  "parse_mpls_extensions [0x20, 0, 0, 0, 0, 12, 1, 1, 0, 0, 0x10, 64, 0, 0, 0x21, 63]
     = labels_within_budget (extension_entries [0, 12, 1, 1, 0, 0, 0x10, 64, 0, 0, 0x21, 63])"
  using parse_mpls_extensions_spec [of "[0x20, 0, 0, 0, 0, 12, 1, 1, 0, 0, 0x10, 64, 0, 0, 0x21, 63]"]
  by simp

section \<open>One label entry\<close>

text \<open>\<open>encode_label\<close>: the entry as RFC 3032 lays it out, label, traffic class, stack bit, TTL.\<close>

definition encode_label :: "nat \<Rightarrow> nat \<Rightarrow> bool \<Rightarrow> nat \<Rightarrow> bytes" where
  "encode_label label class bottom ttl =
     to_be (word_of_nat (label * 4096 + class * 512 + (if bottom then 256 else 0) + ttl) :: u32)"

lemma unat_label_parts:
  "unat (drop_bit 12 v) = unat v div 4096"
  "unat (ucast (drop_bit 9 v AND 7) :: u8) = unat v div 512 mod 8"
  "(v AND 0x100 \<noteq> 0) \<longleftrightarrow> odd (unat v div 256)"
  "unat (ucast v :: u8) = unat v mod 256"
  for v :: u32
proof -
  show "unat (drop_bit 12 v) = unat v div 4096"
    by (simp only: unat_drop_bit_eq) (simp add: drop_bit_eq_div)
  have "drop_bit 9 v AND 7 = take_bit 3 (drop_bit 9 v)"
    by (simp only: take_bit_eq_mask mask_eq_exp_minus_1) simp
  then have "unat (drop_bit 9 v AND 7) = unat v div 512 mod 8"
    by (simp only: unsigned_take_bit_eq unat_drop_bit_eq) (simp add: take_bit_eq_mod drop_bit_eq_div)
  moreover have "unat v div 512 mod 8 < 256"
    by (rule less_trans [of _ 8]) simp_all
  ultimately show "unat (ucast (drop_bit 9 v AND 7) :: u8) = unat v div 512 mod 8"
    by (simp only: unat_ucast_mod) simp
  have "bit v 8 \<longleftrightarrow> odd (unat v div 256)"
    using bit_unsigned_iff [of v 8, where ?'a = nat] bit_iff_odd [of "unat v" 8] by simp
  moreover have "v AND 0x100 \<noteq> 0 \<longleftrightarrow> bit v 8"
    using and_exp_eq_0_iff_not_bit [of v 8] by simp
  ultimately show "(v AND 0x100 \<noteq> 0) \<longleftrightarrow> odd (unat v div 256)" by simp
  show "unat (ucast v :: u8) = unat v mod 256"
    by (simp add: unat_ucast_mod)
qed

lemma decode_encode_label:
  assumes "label < 2 ^ 20" and "class < 8" and "ttl < 256"
  shows "decode_label (encode_label label class bottom ttl) =
    \<lparr>ml_label = word_of_nat label, ml_traffic_class = word_of_nat class,
     ml_bottom_of_stack = bottom, ml_ttl = word_of_nat ttl\<rparr>"
proof -
  define n where "n = label * 4096 + class * 512 + (if bottom then 256 else 0) + ttl"
  define v :: u32 where "v = word_of_nat n"
  have "n < 2 ^ 32" using assms by (simp add: n_def)
  then have v: "unat v = n" by (simp add: v_def unat_of_nat)
  define k :: nat where "k = (if bottom then 1 else 0)"
  have n: "n = label * 4096 + class * 512 + k * 256 + ttl" and k: "k < 2" "odd k \<longleftrightarrow> bottom"
    by (simp_all add: n_def k_def)
  have d256: "n div 256 = label * 16 + class * 2 + k"
    using assms(3) div_mult_self3 [of 256 "label * 16 + class * 2 + k" ttl] by (simp add: n algebra_simps)
  then have d512: "n div 512 = label * 8 + class"
    using k(1) div_mult2_eq [of n 256 2] by simp
  then have "n div 4096 = label"
    using assms(2) div_mult2_eq [of n 512 8] by simp
  moreover have "n div 512 mod 8 = class"
    using assms(2) d512 by simp
  moreover have "odd (n div 256) \<longleftrightarrow> bottom"
    using d256 k(2) by simp
  moreover have "n mod 256 = ttl"
    using assms(3) d256 minus_mult_div_eq_mod [of n 256] by (simp add: n)
  ultimately have parts: "n div 4096 = label" "n div 512 mod 8 = class" "odd (n div 256) \<longleftrightarrow> bottom"
    "n mod 256 = ttl" by simp_all
  have "drop_bit 12 v = word_of_nat label"
    using assms(1) by (simp only: word_unat_eq_iff unat_label_parts v parts unat_of_nat) simp
  moreover have "(ucast (drop_bit 9 v AND 7) :: u8) = word_of_nat class"
  proof (rule word_unat_eq_iff [THEN iffD2])
    show "unat (ucast (drop_bit 9 v AND 7) :: u8) = unat (word_of_nat class :: u8)"
      unfolding unat_label_parts(2) v parts using assms(2) by (simp add: unat_of_nat)
  qed
  moreover have "(v AND 0x100 \<noteq> 0) \<longleftrightarrow> bottom"
    by (simp only: unat_label_parts v parts)
  moreover have "(ucast v :: u8) = word_of_nat ttl"
    using assms(3) by (simp only: word_unat_eq_iff unat_label_parts v parts unat_of_nat) simp
  ultimately show ?thesis
    unfolding decode_label_def encode_label_def n_def [symmetric] v_def [symmetric] Let_def
      from_be_to_be_sizes
    by (simp only:)
qed

text \<open>A label as the sender means it, and what the parser returns for it.\<close>

record label_entry =
  le_label :: nat
  le_class :: nat
  le_bottom :: bool
  le_ttl :: nat

definition valid_entry :: "label_entry \<Rightarrow> bool" where
  "valid_entry e \<longleftrightarrow> le_label e < 2 ^ 20 \<and> le_class e < 8 \<and> le_ttl e < 256"

definition entry_bytes :: "label_entry \<Rightarrow> bytes" where
  "entry_bytes e = encode_label (le_label e) (le_class e) (le_bottom e) (le_ttl e)"

definition entry_label :: "label_entry \<Rightarrow> mpls_label" where
  "entry_label e =
     \<lparr>ml_label = word_of_nat (le_label e), ml_traffic_class = word_of_nat (le_class e),
      ml_bottom_of_stack = le_bottom e, ml_ttl = word_of_nat (le_ttl e)\<rparr>"

definition label_stack_extension :: "label_entry list \<Rightarrow> bytes" where
  "label_stack_extension es =
     [0x20, 0, 0, 0] @ to_be (word_of_nat (4 + 4 * length es) :: u16) @ [1, 1]
       @ concat (map entry_bytes es)"

lemma length_entry_bytes [simp]: "length (entry_bytes e) = 4"
  by (simp add: entry_bytes_def encode_label_def)

lemma length_concat_entries [simp]: "length (concat (map entry_bytes es)) = 4 * length es"
  by (induction es) simp_all

lemma chunks4_append: "length a = 4 \<Longrightarrow> chunks4 (a @ b) = a # chunks4 b"
  by (auto simp: length_Suc_conv numeral_eq_Suc)

lemma chunks4_concat: "chunks4 (concat (map entry_bytes es)) = map entry_bytes es"
  by (induction es) (simp_all add: chunks4_append)

lemma decode_entry: "valid_entry e \<Longrightarrow> decode_label (entry_bytes e) = entry_label e"
  by (simp add: valid_entry_def entry_bytes_def entry_label_def decode_encode_label)

lemma extension_entries_single:
  assumes "length es < 16383"
  shows "extension_entries (to_be (word_of_nat (4 + 4 * length es) :: u16) @ [1, 1]
    @ concat (map entry_bytes es)) = (map entry_bytes es, True)"
proof -
  let ?n = "4 + 4 * length es" and ?b = "concat (map entry_bytes es)"
  let ?w = "word_of_nat ?n :: u16"
  let ?bs = "to_be ?w @ [1, 1] @ ?b"
  have "be_value (to_be ?w) = unat ?w"
    using unat_from_be [of "to_be ?w", where 'a = 16] by simp
  moreover have "unat ?w = ?n" by (simp only: unat_of_nat) (use assms in simp)
  ultimately have len: "be_value (take 2 ?bs) = ?n" by simp
  have nth: "?bs ! 2 = 1" "?bs ! 3 = 1" "length ?bs = ?n" "drop 4 (take ?n ?bs) = ?b" "drop ?n ?bs = []"
    by (simp_all add: nth_append)
  have "extension_entries [] = ([], True)" by (simp add: extension_entries.simps)
  with len nth show ?thesis
    by (subst extension_entries.simps) (simp add: Let_def chunks4_concat)
qed

text \<open>
  A label stack a router encodes as RFC 4950 says (one label-stack object of fewer than 16383
  entries with 20-bit labels, 3-bit classes and 8-bit TTLs) is decoded to exactly those entries,
  in order, up to the retention budget of 64.
\<close>

lemma mpls_stack_roundtrip:
  assumes "\<forall>e \<in> set es. valid_entry e" and "length es < 16383"
  shows "parse_mpls_extensions (label_stack_extension es) = Ok (map entry_label (take 64 es))"
proof -
  let ?bs = "label_stack_extension es"
  have "drop 4 ?bs = to_be (word_of_nat (4 + 4 * length es) :: u16) @ [1, 1] @ concat (map entry_bytes es)"
    by (simp add: label_stack_extension_def)
  then have "parse_mpls_extensions ?bs = labels_within_budget (map entry_bytes es, True)"
    using extension_entries_single [OF assms(2)]
    by (subst parse_mpls_extensions_eq) (simp_all add: label_stack_extension_def)
  moreover have "map decode_label (map entry_bytes xs) = map entry_label xs" if "set xs \<subseteq> set es" for xs
    using that assms(1) by (auto simp: decode_entry)
  ultimately show ?thesis
    using set_take_subset [of 64 es] by (simp add: labels_within_budget_def take_map)
qed

end
