(* ===== verification/Text_Format.thy ===== *)
theory Text_Format
  imports Contracts
begin

text \<open>
  The parts of Rust's text formatting and \<open>char\<close> classification that the modelled code uses:
  string literals, decimal integers, the \<open>Debug\<close> form of a \<open>Duration\<close>, the characters of a
  \<open>str\<close>, and the two Unicode classes \<open>char::is_whitespace\<close> and \<open>char::is_control\<close>.

  A \<open>Duration\<close> is its number of nanoseconds and an \<open>Instant\<close> is a number of nanoseconds since an
  origin; both are \<open>nat\<close>, because no modelled computation comes near their range.
\<close>

type_synonym duration = nat
type_synonym instant = nat

definition from_secs :: "nat \<Rightarrow> duration" where
  "from_secs s = s * 1000000000"

definition from_millis :: "nat \<Rightarrow> duration" where
  "from_millis m = m * 1000000"

definition lit :: "string \<Rightarrow> bytes" where
  "lit s = map of_char s"

definition digit :: "nat \<Rightarrow> u8" where
  "digit d = 48 + word_of_nat d"

fun decimal :: "nat \<Rightarrow> bytes" where
  "decimal n = (if n < 10 then [digit n] else decimal (n div 10) @ [digit (n mod 10)])"

declare decimal.simps [simp del]

text \<open>\<open>digits w f\<close>: the last \<open>w\<close> decimal digits of \<open>f\<close>, zeros included.\<close>

fun digits :: "nat \<Rightarrow> nat \<Rightarrow> bytes" where
  "digits 0 f = []"
| "digits (Suc w) f = digits w (f div 10) @ [digit (f mod 10)]"

definition fmt_decimal :: "nat \<Rightarrow> nat \<Rightarrow> nat \<Rightarrow> bytes" where
  "fmt_decimal i f w = decimal i @
     (if f = 0 then [] else lit ''.'' @ rev (dropWhile (\<lambda>d. d = 48) (rev (digits w f))))"

definition duration_debug :: "duration \<Rightarrow> bytes" where
  "duration_debug n = (let secs = n div 1000000000; nanos = n mod 1000000000 in
     if 0 < secs then fmt_decimal secs nanos 9 @ lit ''s''
     else if 1000000 \<le> nanos then fmt_decimal (nanos div 1000000) (nanos mod 1000000) 6 @ lit ''ms''
     else if 1000 \<le> nanos then fmt_decimal (nanos div 1000) (nanos mod 1000) 3 @ [194, 181, 115]
     else fmt_decimal nanos 0 1 @ lit ''ns'')"

section \<open>Characters of a string\<close>

text \<open>
  \<open>str::chars\<close>: the scalar values of a valid UTF-8 string. The lead byte fixes the length, the
  low six bits of each continuation byte are appended.
\<close>

definition cont_bits :: "u8 \<Rightarrow> nat" where
  "cont_bits b = unat b mod 64"

fun chars :: "bytes \<Rightarrow> nat list" where
  "chars [] = []"
| "chars (a # t) =
     (if a < 128 then unat a # chars t
      else if a < 224 then
        (case t of b # s \<Rightarrow> (unat a mod 32 * 64 + cont_bits b) # chars s | _ \<Rightarrow> [])
      else if a < 240 then
        (case t of b # c # s \<Rightarrow>
           (unat a mod 16 * 4096 + cont_bits b * 64 + cont_bits c) # chars s | _ \<Rightarrow> [])
      else
        (case t of b # c # d # s \<Rightarrow>
           (unat a mod 8 * 262144 + cont_bits b * 4096 + cont_bits c * 64 + cont_bits d) # chars s
         | _ \<Rightarrow> []))"

definition is_whitespace :: "nat \<Rightarrow> bool" where
  "is_whitespace c \<longleftrightarrow> 9 \<le> c \<and> c \<le> 13 \<or> 8192 \<le> c \<and> c \<le> 8202
     \<or> c \<in> {32, 133, 160, 5760, 8232, 8233, 8239, 8287, 12288}"

definition is_control :: "nat \<Rightarrow> bool" where
  "is_control c \<longleftrightarrow> c < 32 \<or> 127 \<le> c \<and> c < 160"

definition is_ascii_alphanumeric :: "u8 \<Rightarrow> bool" where
  "is_ascii_alphanumeric b \<longleftrightarrow> 48 \<le> b \<and> b \<le> 57 \<or> 65 \<le> b \<and> b \<le> 90 \<or> 97 \<le> b \<and> b \<le> 122"

lemma decimal_nonempty: "decimal n \<noteq> []"
  by (simp add: decimal.simps [of n])

lemma chars_ascii: "(\<forall>b \<in> set s. b < 128) \<Longrightarrow> chars s = map unat s"
  by (induction s) auto

lemma digits_numeral:
  "digits (numeral k) f = digits (pred_numeral k) (f div 10) @ [digit (f mod 10)]"
  by (simp only: numeral_eq_Suc digits.simps)

lemma duration_debug_examples:
  "duration_debug (from_secs 360) = lit ''360s''"
  "duration_debug (from_millis 1500) = lit ''1.5s''"
  "duration_debug (from_millis 250) = lit ''250ms''"
  "duration_debug 1050 = [49, 46, 48, 53, 194, 181, 115]"
  by (simp_all add: duration_debug_def from_secs_def from_millis_def fmt_decimal_def lit_def
      digits_numeral decimal.simps digit_def Let_def)

end
