(* ===== verification/F64.thy ===== *)
theory F64
  imports Prelude Complex_Main
begin

text \<open>
  Rust's \<open>f64\<close>: IEEE 754 binary64 with rounding to nearest, ties to even. A finite value is the
  rational it denotes, so every operation is the exact rational operation followed by \<open>rnd\<close>.
  The sign of a zero is not kept: no modelled code divides by a zero or prints one.

  What the proofs use of it: rounding is monotone on non-negative numbers, it keeps a bound that
  is an integer below \<open>2 ^ 53\<close>, and it is exact on such integers.
\<close>

datatype f64 = Fin rat | Pos_Inf | Neg_Inf | Not_A_Number

section \<open>Rounding\<close>

fun bits :: "nat \<Rightarrow> nat" where
  "bits n = (if n = 0 then 0 else Suc (bits (n div 2)))"

declare bits.simps [simp del]

text \<open>The exponent of a positive rational: \<open>2 powi ilog2 q \<le> q < 2 powi (ilog2 q + 1)\<close>.\<close>

definition ilog2 :: "rat \<Rightarrow> int" where
  "ilog2 q = (case quotient_of q of (n, d) \<Rightarrow>
     let e = int (bits (nat n)) - int (bits (nat d)) in
     if 2 powi e \<le> q then e else e - 1)"

definition round_even :: "rat \<Rightarrow> int" where
  "round_even q = (let f = \<lfloor>q\<rfloor>; r = q - of_int f in
     if r < 1 / 2 then f else if 1 / 2 < r then f + 1 else if even f then f else f + 1)"

definition quantum :: "rat \<Rightarrow> int" where
  "quantum q = max (- 1074) (ilog2 \<bar>q\<bar> - 52)"

definition on_grid :: "int \<Rightarrow> rat \<Rightarrow> rat" where
  "on_grid e q = of_int (round_even (q / 2 powi e)) * 2 powi e"

definition rnd :: "rat \<Rightarrow> f64" where
  "rnd q = (if q = 0 then Fin 0 else
     let v = on_grid (quantum q) q in
     if 2 ^ 1024 \<le> v then Pos_Inf else if v \<le> - (2 ^ 1024) then Neg_Inf else Fin v)"

section \<open>Arithmetic\<close>

fun f_neg :: "f64 \<Rightarrow> f64" where
  "f_neg (Fin a) = Fin (- a)"
| "f_neg Pos_Inf = Neg_Inf"
| "f_neg Neg_Inf = Pos_Inf"
| "f_neg Not_A_Number = Not_A_Number"

fun f_add :: "f64 \<Rightarrow> f64 \<Rightarrow> f64" where
  "f_add (Fin a) (Fin b) = rnd (a + b)"
| "f_add (Fin a) y = y"
| "f_add x (Fin b) = x"
| "f_add Pos_Inf Pos_Inf = Pos_Inf"
| "f_add Neg_Inf Neg_Inf = Neg_Inf"
| "f_add x y = Not_A_Number"

definition f_sub :: "f64 \<Rightarrow> f64 \<Rightarrow> f64" where
  "f_sub x y = f_add x (f_neg y)"

definition f_inf :: "rat \<Rightarrow> f64" where
  "f_inf s = (if 0 < s then Pos_Inf else if s < 0 then Neg_Inf else Not_A_Number)"

fun f_sign :: "f64 \<Rightarrow> rat" where
  "f_sign (Fin a) = sgn a"
| "f_sign Pos_Inf = 1"
| "f_sign Neg_Inf = - 1"
| "f_sign Not_A_Number = 0"

definition f_mul :: "f64 \<Rightarrow> f64 \<Rightarrow> f64" where
  "f_mul x y = (case (x, y) of
     (Fin a, Fin b) \<Rightarrow> rnd (a * b) | _ \<Rightarrow> f_inf (f_sign x * f_sign y))"

fun f_div :: "f64 \<Rightarrow> f64 \<Rightarrow> f64" where
  "f_div (Fin a) (Fin b) = (if b = 0 then f_inf a else rnd (a / b))"
| "f_div (Fin a) Not_A_Number = Not_A_Number"
| "f_div (Fin a) y = Fin 0"
| "f_div x (Fin b) = f_inf (f_sign x * (if b < 0 then - 1 else 1))"
| "f_div x y = Not_A_Number"

text \<open>Comparisons are false on a NaN; \<open>f64::min\<close> and \<open>f64::max\<close> return the other operand.\<close>

fun f_le :: "f64 \<Rightarrow> f64 \<Rightarrow> bool" where
  "f_le Not_A_Number y = False"
| "f_le x Not_A_Number = False"
| "f_le Neg_Inf y = True"
| "f_le x Pos_Inf = True"
| "f_le (Fin a) (Fin b) = (a \<le> b)"
| "f_le x y = False"

definition f_lt :: "f64 \<Rightarrow> f64 \<Rightarrow> bool" where
  "f_lt x y \<longleftrightarrow> f_le x y \<and> \<not> f_le y x"

definition f_min :: "f64 \<Rightarrow> f64 \<Rightarrow> f64" where
  "f_min x y = (if x = Not_A_Number then y else if y = Not_A_Number then x
     else if f_le x y then x else y)"

definition f_max :: "f64 \<Rightarrow> f64 \<Rightarrow> f64" where
  "f_max x y = (if x = Not_A_Number then y else if y = Not_A_Number then x
     else if f_le x y then y else x)"

fun isqrt :: "nat \<Rightarrow> nat" where
  "isqrt n = (if n = 0 then 0 else
     let r = 2 * isqrt (n div 4) in if (r + 1) * (r + 1) \<le> n then r + 1 else r)"

declare isqrt.simps [simp del]

text \<open>
  The correctly rounded square root: the root of a scaled operand, with one further bit that says
  whether it was exact. The scaling leaves at least sixty significant bits before \<open>rnd\<close>.
\<close>

definition sqrt_scaled :: "rat \<Rightarrow> rat" where
  "sqrt_scaled a = (let k = 60 - ilog2 a div 2; s = a * 2 powi (2 * k); n = nat \<lfloor>s\<rfloor>; r = isqrt n in
     (2 * of_nat r + (if of_nat (r * r) = s then 0 else 1)) / 2 powi (k + 1))"

fun f_sqrt :: "f64 \<Rightarrow> f64" where
  "f_sqrt (Fin a) = (if a < 0 then Not_A_Number else if a = 0 then Fin 0 else rnd (sqrt_scaled a))"
| "f_sqrt Pos_Inf = Pos_Inf"
| "f_sqrt Neg_Inf = Not_A_Number"
| "f_sqrt Not_A_Number = Not_A_Number"

definition f_abs :: "f64 \<Rightarrow> f64" where
  "f_abs x = (case x of Fin a \<Rightarrow> Fin \<bar>a\<bar> | Neg_Inf \<Rightarrow> Pos_Inf | _ \<Rightarrow> x)"

definition f_of_nat :: "nat \<Rightarrow> f64" where
  "f_of_nat n = rnd (of_nat n)"

definition f_sum :: "f64 list \<Rightarrow> f64" where
  "f_sum = foldl f_add (Fin 0)"

definition is_finite :: "f64 \<Rightarrow> bool" where
  "is_finite x \<longleftrightarrow> (case x of Fin a \<Rightarrow> True | _ \<Rightarrow> False)"

section \<open>The exponent\<close>

lemma bits_0 [simp]: "bits 0 = 0"
  by (simp add: bits.simps)

lemma bits_pos: "0 < n \<Longrightarrow> 0 < bits n"
  by (simp add: bits.simps)

lemma bits_upper: "n < 2 ^ bits n"
proof (induction n rule: bits.induct)
  case (1 n)
  then show ?case by (cases "n = 0") (simp_all add: bits.simps [of n])
qed

lemma bits_lower: "0 < n \<Longrightarrow> 2 ^ bits n \<le> 2 * n"
proof (induction n rule: bits.induct)
  case (1 n)
  show ?case
  proof (cases "n = 1")
    case True
    then show ?thesis by (simp add: bits.simps)
  next
    case False
    with 1 have "2 ^ bits (n div 2) \<le> 2 * (n div 2)" by simp
    then show ?thesis using 1 by (simp add: bits.simps [of n])
  qed
qed

lemma ilog2_bounds:
  assumes "0 < q"
  shows "2 powi ilog2 q \<le> q" and "q < 2 powi (ilog2 q + 1)"
proof -
  obtain n d where nd: "quotient_of q = (n, d)" by (cases "quotient_of q")
  then have d: "0 < d" and q: "q = of_int n / of_int d"
    using quotient_of_denom_pos quotient_of_div by blast+
  with assms have n: "0 < n" by (simp add: zero_less_divide_iff)
  define bn bd where "bn = bits (nat n)" and "bd = bits (nat d)"
  have "nat n < 2 ^ bn" "2 ^ bn \<le> 2 * nat n" "nat d < 2 ^ bd" "2 ^ bd \<le> 2 * nat d"
    using n d by (simp_all add: bn_def bd_def bits_upper bits_lower)
  then have "of_nat (nat n) < (of_nat (2 ^ bn) :: rat)" "of_nat (2 ^ bn) \<le> (of_nat (2 * nat n) :: rat)"
    "of_nat (nat d) < (of_nat (2 ^ bd) :: rat)" "of_nat (2 ^ bd) \<le> (of_nat (2 * nat d) :: rat)"
    by (simp_all only: of_nat_less_iff of_nat_le_iff)
  then have b: "of_int n < (2::rat) ^ bn" "(2::rat) ^ bn \<le> 2 * of_int n"
    "of_int d < (2::rat) ^ bd" "(2::rat) ^ bd \<le> 2 * of_int d"
    using n d by simp_all
  have e: "(2::rat) powi (int bn - int bd) = 2 ^ bn / 2 ^ bd"
    by (simp add: power_int_diff)
  have up: "q < 2 powi (int bn - int bd + 1)"
  proof -
    have "of_int n * 2 ^ bd < (2::rat) ^ bn * 2 ^ bd"
      using b(1) by simp
    also have "\<dots> \<le> 2 ^ bn * (2 * of_int d)"
      using b(4) by simp
    finally show ?thesis
      using d e by (simp add: q power_int_add pos_divide_less_eq) (simp add: field_simps)
  qed
  have low: "2 powi (int bn - int bd - 1) \<le> q"
  proof -
    have "(2::rat) ^ bn * of_int d \<le> 2 * of_int n * 2 ^ bd"
      using b d n by (intro mult_mono) simp_all
    then show ?thesis
      using d e by (simp add: q power_int_diff [of 2 _ 1]) (simp add: field_simps)
  qed
  show "2 powi ilog2 q \<le> q" "q < 2 powi (ilog2 q + 1)"
    using up low by (simp_all add: ilog2_def nd Let_def flip: bn_def bd_def)
qed

section \<open>Rounding to an integer and to a grid\<close>

lemma round_even_int [simp]: "round_even (of_int m) = m"
  by (simp add: round_even_def Let_def)

lemma round_even_le: "q \<le> of_int m \<Longrightarrow> round_even q \<le> m"
proof -
  assume q: "q \<le> of_int m"
  show ?thesis
  proof (cases "q = of_int m")
    case False
    with q have "\<lfloor>q\<rfloor> < m" by (simp add: floor_less_iff)
    then show ?thesis by (auto simp: round_even_def Let_def)
  qed simp
qed

lemma le_round_even: "of_int m \<le> q \<Longrightarrow> m \<le> round_even q"
proof -
  assume "of_int m \<le> q"
  then have "m \<le> \<lfloor>q\<rfloor>" by (simp add: le_floor_iff)
  then show ?thesis by (auto simp: round_even_def Let_def)
qed

lemma round_even_mono: "p \<le> q \<Longrightarrow> round_even p \<le> round_even q"
proof (cases "\<lfloor>p\<rfloor> = \<lfloor>q\<rfloor>")
  case True
  assume "p \<le> q"
  with True show ?thesis by (auto simp: round_even_def Let_def)
next
  case False
  assume "p \<le> q"
  with False have "\<lfloor>p\<rfloor> + 1 \<le> \<lfloor>q\<rfloor>" using floor_mono [of p q] by linarith
  moreover have "round_even p \<le> \<lfloor>p\<rfloor> + 1"
    by (rule round_even_le) linarith
  moreover have "\<lfloor>q\<rfloor> \<le> round_even q"
    by (rule le_round_even) simp
  ultimately show ?thesis by linarith
qed

lemma on_grid_mono: "p \<le> q \<Longrightarrow> on_grid e p \<le> on_grid e q"
  by (simp add: on_grid_def round_even_mono divide_right_mono)

lemma on_grid_int: "e \<le> 0 \<Longrightarrow> on_grid e (of_int m) = of_int m"
proof -
  assume "e \<le> 0"
  then have "(2::rat) powi e = 1 / 2 ^ nat (- e)"
    by (simp add: power_int_def inverse_eq_divide power_one_over)
  moreover have "(of_int m :: rat) * 2 ^ nat (- e) = of_int (m * 2 ^ nat (- e))" by simp
  ultimately have "on_grid e (of_int m) = of_int (m * 2 ^ nat (- e)) * (1 / 2 ^ nat (- e))"
    by (simp only: on_grid_def round_even_int divide_divide_eq_right div_by_1 mult.left_neutral)
  then show ?thesis by simp
qed

lemma on_grid_power: "e \<le> l \<Longrightarrow> on_grid e (2 powi l) = 2 powi l"
proof -
  assume "e \<le> l"
  then have "(2::rat) powi l / 2 powi e = of_int (2 ^ nat (l - e))"
    by (simp add: power_int_diff [symmetric]) (simp add: power_int_def)
  then have "on_grid e (2 powi l) = of_int (2 ^ nat (l - e)) * 2 powi e"
    by (simp only: on_grid_def round_even_int)
  also have "\<dots> = 2 powi (l - e) * 2 powi e"
    using \<open>e \<le> l\<close> by (simp add: power_int_def)
  finally show ?thesis
    by (simp add: power_int_diff)
qed

lemma on_grid_nonneg: "0 \<le> q \<Longrightarrow> 0 \<le> on_grid e q"
  using le_round_even [of 0 "q / 2 powi e"] by (simp add: on_grid_def)

lemma quantum_small:
  assumes "0 < q" and "q < 2 ^ 53"
  shows "quantum q \<le> 0"
proof (rule ccontr)
  assume "\<not> quantum q \<le> 0"
  then have "53 \<le> ilog2 q" using assms(1) by (simp add: quantum_def)
  then have "(2::rat) powi 53 \<le> 2 powi ilog2 q" by (intro power_int_increasing) simp_all
  also have "\<dots> \<le> q" using assms(1) by (rule ilog2_bounds)
  finally show False using assms(2) by (simp add: power_int_def)
qed

lemma ilog2_mono:
  assumes "0 < p" and "p \<le> q"
  shows "ilog2 p \<le> ilog2 q"
proof -
  have "2 powi ilog2 p \<le> p" using assms by (intro ilog2_bounds)
  also have "p \<le> q" by fact
  also have "q < 2 powi (ilog2 q + 1)" using assms by (intro ilog2_bounds) simp
  finally have "(2::rat) powi ilog2 p < 2 powi (ilog2 q + 1)" .
  then have "ilog2 p < ilog2 q + 1"
    using power_int_increasing [of "ilog2 q + 1" "ilog2 p" "2::rat"] by (cases "ilog2 q + 1 \<le> ilog2 p") auto
  then show ?thesis by simp
qed

text \<open>Rounding is monotone: between binades a power of two lies on both grids.\<close>

lemma on_grid_quantum_mono:
  assumes p: "0 < p" and pq: "p \<le> q"
  shows "on_grid (quantum p) p \<le> on_grid (quantum q) q"
proof (cases "quantum p = quantum q")
  case True
  with pq show ?thesis by (simp add: on_grid_mono)
next
  case False
  have q: "0 < q" using assms by simp
  from ilog2_mono [OF p pq] False p q have less: "ilog2 p < ilog2 q"
    and e: "quantum p \<le> ilog2 q" "quantum q \<le> ilog2 q"
    by (auto simp: quantum_def)
  have "p \<le> 2 powi ilog2 q"
    using ilog2_bounds(2) [OF p] less power_int_increasing [of "ilog2 p + 1" "ilog2 q" "2 :: rat"]
    by simp
  then have "on_grid (quantum p) p \<le> 2 powi ilog2 q"
    using on_grid_mono [of p "2 powi ilog2 q" "quantum p"] on_grid_power [OF e(1)] by simp
  also have "2 powi ilog2 q \<le> on_grid (quantum q) q"
    using on_grid_mono [OF ilog2_bounds(1) [OF q], of "quantum q"] on_grid_power [OF e(2)] by simp
  finally show ?thesis .
qed

section \<open>Rounded values\<close>

lemma rnd_0 [simp]: "rnd 0 = Fin 0"
  by (simp add: rnd_def)

lemma rnd_int:
  assumes "\<bar>m\<bar> < 2 ^ 53"
  shows "rnd (of_int m) = Fin (of_int m)"
proof (cases "m = 0")
  case False
  have "of_int \<bar>m\<bar> < (of_int (2 ^ 53) :: rat)" using assms by (simp only: of_int_less_iff)
  then have m: "\<bar>of_int m :: rat\<bar> < 2 ^ 53" by simp
  with False have "quantum \<bar>of_int m\<bar> \<le> 0" by (intro quantum_small) simp_all
  then have "on_grid (quantum (of_int m)) (of_int m) = of_int m"
    by (intro on_grid_int) (simp add: quantum_def)
  moreover obtain B :: rat where B: "B = 2 ^ 1024" by simp
  moreover have "(2::rat) ^ 53 \<le> 2 ^ 1024" by (rule power_increasing) simp_all
  then have "\<bar>of_int m\<bar> < B" using m unfolding B by (rule less_le_trans [rotated])
  ultimately show ?thesis
    using False by (auto simp: rnd_def Let_def abs_less_iff simp flip: B)
qed simp

lemma rnd_nonneg: "0 \<le> q \<Longrightarrow> rnd q = Pos_Inf \<or> (\<exists>v\<ge>0. rnd q = Fin v)"
  using on_grid_nonneg [of q "quantum q"]
  by (auto simp: rnd_def Let_def simp del: power_numeral)

lemma rnd_mono:
  assumes "0 \<le> p" and "p \<le> q"
  shows "f_le (rnd p) (rnd q)"
proof (cases "p = 0")
  case True
  then show ?thesis using rnd_nonneg [of q] assms by auto
next
  case False
  then have pos: "0 < p" "0 < q" using assms by simp_all
  have le: "on_grid (quantum p) p \<le> on_grid (quantum q) q"
    by (rule on_grid_quantum_mono) (use pos assms in simp_all)
  obtain B :: rat where B: "B = 2 ^ 1024" by simp
  then have "0 < B" by simp
  moreover have "0 \<le> on_grid (quantum p) p" using assms by (intro on_grid_nonneg)
  ultimately show ?thesis
    using le pos by (simp add: rnd_def Let_def flip: B)
qed

lemma rnd_bounded:
  assumes "0 \<le> q" and "q \<le> of_int m" and "m < 2 ^ 53"
  obtains v where "rnd q = Fin v" and "0 \<le> v" and "v \<le> of_int m"
proof -
  have "0 \<le> (of_int m :: rat)" using assms by simp
  then have "rnd (of_int m) = Fin (of_int m)" using assms by (intro rnd_int) simp
  with rnd_mono [OF assms(1,2)] rnd_nonneg [OF assms(1)] that show thesis by auto
qed

lemma f_of_nat: "n < 2 ^ 53 \<Longrightarrow> f_of_nat n = Fin (of_nat n)"
  using rnd_int [of "int n"] by (simp add: f_of_nat_def)

lemma f_of_u32: "f_of_nat (unat (w :: u32)) = Fin (of_nat (unat w))"
  using unat_less_exp [of w] by (intro f_of_nat) simp

lemma is_finite_simps [simp]:
  "is_finite (Fin a)" "\<not> is_finite Pos_Inf" "\<not> is_finite Neg_Inf" "\<not> is_finite Not_A_Number"
  by (simp_all add: is_finite_def)

section \<open>Comparisons\<close>

lemma f_le_refl: "x \<noteq> Not_A_Number \<Longrightarrow> f_le x x"
  by (cases x) simp_all

lemma f_le_trans: "f_le x y \<Longrightarrow> f_le y z \<Longrightarrow> f_le x z"
  by (cases x; cases y; cases z) simp_all

lemma f_le_total: "x \<noteq> Not_A_Number \<Longrightarrow> y \<noteq> Not_A_Number \<Longrightarrow> f_le x y \<or> f_le y x"
  by (cases x; cases y) auto

lemma f_min_le:
  "x \<noteq> Not_A_Number \<Longrightarrow> f_le (f_min x y) x"
  "y \<noteq> Not_A_Number \<Longrightarrow> f_le (f_min x y) y"
  using f_le_refl f_le_total by (fastforce simp: f_min_def)+

lemma f_le_max:
  "x \<noteq> Not_A_Number \<Longrightarrow> f_le x (f_max x y)"
  "y \<noteq> Not_A_Number \<Longrightarrow> f_le y (f_max x y)"
  using f_le_refl f_le_total by (fastforce simp: f_max_def)+

lemma f_min_max_number:
  "x \<noteq> Not_A_Number \<Longrightarrow> f_min x y \<noteq> Not_A_Number"
  "x \<noteq> Not_A_Number \<Longrightarrow> f_max x y \<noteq> Not_A_Number"
  by (auto simp: f_min_def f_max_def)

text \<open>
  \<open>part * 100 / whole\<close> in \<open>f64\<close> is a percentage, for a whole below \<open>2 ^ 46\<close>: then the product is
  exact. The code writes the factor on either side.
\<close>

lemma f_mul_commute: "f_mul x y = f_mul y x"
  by (cases x; cases y) (simp_all add: f_mul_def mult.commute)

lemma percentage_46:
  assumes "a \<le> b" and "0 < b" and "b < 2 ^ 46"
  obtains v where "f_div (f_mul (f_of_nat a) (Fin 100)) (f_of_nat b) = Fin v" and "0 \<le> v" and "v \<le> 100"
proof -
  have "rnd (of_int (100 * int a)) = Fin (of_int (100 * int a))"
    using assms by (intro rnd_int) simp
  then have "f_div (f_mul (f_of_nat a) (Fin 100)) (f_of_nat b) = rnd (100 * of_nat a / of_nat b)"
    using assms by (simp add: f_of_nat f_mul_def mult.commute)
  moreover have "100 * of_nat a / of_nat b \<le> (of_int 100 :: rat)"
    using assms by (simp add: divide_le_eq)
  then obtain v where "rnd (100 * of_nat a / of_nat b) = Fin v" "0 \<le> v" "v \<le> of_int 100"
    by (rule rnd_bounded [rotated]) simp_all
  ultimately show thesis
    using that by simp
qed

lemma percentage:
  assumes "a \<le> b" and "0 < b" and "b < 2 ^ 32"
  obtains v where "f_div (f_mul (Fin 100) (f_of_nat a)) (f_of_nat b) = Fin v" and "0 \<le> v" and "v \<le> 100"
  using percentage_46 [of a b] assms f_mul_commute [of "Fin 100"] by auto

end
