(* ===== verification/Path_Io.thy ===== *)
theory Path_Io
  imports Text_Format Packet_Types F64
begin

text \<open>
  \<open>crates/path-io/src/lib.rs\<close>: the boundary between the path engines and the native sockets. The
  sockets themselves are not modelled; here are the data they return (samples, hop results), the
  probe errors with their texts, the statistics over samples, and the host validation in front of
  name resolution, whose result is a parameter.
\<close>

section \<open>Data\<close>

record probe_identity =
  id_nonce :: u32
  id_ordinal :: u32

record round_parameters =
  rp_payload_size :: nat
  rp_dont_fragment :: bool
  rp_max_hops :: u8
  rp_timeout :: duration
  rp_traffic_class :: "u8 option"

datatype sample_status = Reply | Sample_Time_Exceeded | Unreachable | Sample_Timeout | Sample_Cancelled

record sample =
  sm_sequence :: u16
  sm_hop :: "ip_addr option"
  sm_elapsed_ms :: "f64 option"
  sm_status :: sample_status
  sm_next_hop_mtu :: "u32 option"
  sm_mpls :: "mpls_label list"

record hop_result =
  hr_ttl :: u8
  hr_address :: "ip_addr option"
  hr_reached_destination :: bool
  hr_samples :: "sample list"

record statistics =
  st_sent :: u32
  st_received :: u32
  st_cancelled :: u32
  st_loss_percent :: f64
  st_last_ms :: "f64 option"
  st_average_ms :: "f64 option"
  st_best_ms :: "f64 option"
  st_worst_ms :: "f64 option"
  st_stddev_ms :: "f64 option"

datatype probe_error =
    Invalid_Host bytes
  | Invalid_Plan bytes
  | Dns bytes bytes
  | Address_Family_Unavailable bytes address_family
  | Probe_Permission bytes bytes
  | Unsupported bytes bytes
  | Io bytes bytes
  | Probe_Cancelled
  | Timed_Out duration

fun family_debug :: "address_family \<Rightarrow> bytes" where
  "family_debug Ipv4 = lit ''Ipv4''"
| "family_debug Ipv6 = lit ''Ipv6''"

text \<open>The \<open>Display\<close> text of each error, as its \<open>#[error(...)]\<close> attribute says.\<close>

fun probe_error_text :: "probe_error \<Rightarrow> bytes" where
  "probe_error_text (Invalid_Host h) = lit ''invalid host: '' @ h"
| "probe_error_text (Invalid_Plan m) = lit ''invalid diagnostic plan: '' @ m"
| "probe_error_text (Dns h m) = lit ''DNS resolution failed for '' @ h @ lit '': '' @ m"
| "probe_error_text (Address_Family_Unavailable h f) =
     lit ''no '' @ family_debug f @ lit '' address was resolved for '' @ h"
| "probe_error_text (Probe_Permission op m) =
     lit ''native '' @ op @ lit '' requires permission: '' @ m"
| "probe_error_text (Unsupported op m) =
     lit ''native '' @ op @ lit '' is unsupported on this platform: '' @ m"
| "probe_error_text (Io op m) = lit ''native '' @ op @ lit '' failed: '' @ m"
| "probe_error_text Probe_Cancelled = lit ''operation cancelled''"
| "probe_error_text (Timed_Out d) = lit ''operation timed out after '' @ duration_debug d"

section \<open>Host validation and resolution\<close>

definition validate_host :: "bytes \<Rightarrow> (unit, probe_error) outcome" where
  "validate_host host =
     (if host = [] \<or> hd (chars host) = 45
         \<or> list_ex is_whitespace (chars host)
         \<or> list_ex is_control (chars host)
         \<or> list_ex (\<lambda>c. c \<in> {47, 124, 59, 38, 96, 36}) (chars host)
      then Err (Invalid_Host host) else Ok ())"

text \<open>
  \<open>resolve_target_scoped\<close>: \<open>lookup\<close> is the resolver of the operating system, \<open>None\<close> its answer
  when the cancellation token fires first; a socket address is an address and a port.
\<close>

definition matches_family :: "address_family \<Rightarrow> ip_addr \<times> u16 \<Rightarrow> bool" where
  "matches_family family address = (case (family, fst address) of
     (Ipv4, V4 _) \<Rightarrow> True | (Ipv6, V6 _) \<Rightarrow> True | _ \<Rightarrow> False)"

definition resolve_target_scoped ::
  "(bytes \<Rightarrow> (bytes + (ip_addr \<times> u16) list) option) \<Rightarrow> bytes \<Rightarrow> address_family \<Rightarrow>
     (ip_addr \<times> u16, probe_error) outcome" where
  "resolve_target_scoped lookup host family =
     and_then (validate_host host) (\<lambda>_.
       case lookup host of
         None \<Rightarrow> Err Probe_Cancelled
       | Some (Inl msg) \<Rightarrow> Err (Dns host msg)
       | Some (Inr addresses) \<Rightarrow>
           (case List.find (matches_family family) addresses of
              Some address \<Rightarrow> Ok address
            | None \<Rightarrow> Err (Address_Family_Unavailable host family)))"

datatype connect_result = Connected | Refused | Connect_Failed bytes | Connect_Elapsed

definition test_tcp_scoped ::
  "(ip_addr \<times> u16 \<Rightarrow> connect_result option) \<Rightarrow> ip_addr \<times> u16 \<Rightarrow> (bool, probe_error) outcome" where
  "test_tcp_scoped connect target =
     (if snd target = 0 then Err (Invalid_Plan (lit ''TCP port must be positive''))
      else case connect target of
        None \<Rightarrow> Err Probe_Cancelled
      | Some Connected \<Rightarrow> Ok True
      | Some Refused \<Rightarrow> Ok False
      | Some (Connect_Failed msg) \<Rightarrow> Err (Io (lit ''TCP connect'') msg)
      | Some Connect_Elapsed \<Rightarrow> Ok False)"

section \<open>Statistics\<close>

definition counted :: "sample \<Rightarrow> f64 option" where
  "counted s = (if sm_status s = Sample_Cancelled then None else sm_elapsed_ms s)"

definition loss :: "nat \<Rightarrow> nat \<Rightarrow> f64" where
  "loss lost finalized = (if finalized = 0 then Fin 0
     else f_div (f_mul (f_of_nat lost) (Fin 100)) (f_of_nat finalized))"

definition f_reduce :: "(f64 \<Rightarrow> f64 \<Rightarrow> f64) \<Rightarrow> f64 list \<Rightarrow> f64 option" where
  "f_reduce f xs = (case xs of [] \<Rightarrow> None | x # r \<Rightarrow> Some (foldl f x r))"

definition from_samples :: "sample list \<Rightarrow> statistics" where
  "from_samples samples =
     (let vals = List.map_filter counted samples;
          sent = (word_of_nat (length samples) :: u32);
          received = (word_of_nat (length vals) :: u32);
          cancelled = (word_of_nat
            (length (filter (\<lambda>s. sm_status s = Sample_Cancelled) samples)) :: u32);
          finalized = sent - cancelled;
          average = (if vals = [] then None
            else Some (f_div (f_sum vals) (f_of_nat (length vals))));
          stddev = map_option (\<lambda>mean. f_sqrt (f_div
            (f_sum (map (\<lambda>v. f_mul (f_sub v mean) (f_sub v mean)) vals))
            (f_of_nat (length vals)))) average
      in \<lparr>st_sent = sent, st_received = received, st_cancelled = cancelled,
          st_loss_percent = loss (unat (finalized - received)) (unat finalized),
          st_last_ms = (if vals = [] then None else Some (last vals)),
          st_average_ms = average,
          st_best_ms = f_reduce f_min vals,
          st_worst_ms = f_reduce f_max vals,
          st_stddev_ms = stddev\<rparr>)"

end
