(* ===== verification/Trace_Plan.thy ===== *)
theory Trace_Plan
  imports Path_Io
begin

text \<open>
  \<open>crates/path-trace/src/lib.rs\<close>, the planning half: trace types and rounds, the run settings and
  their validation, the plan with its iterator, and the identity every probe of a run carries.
  \<open>udp_destination_port\<close> is the port \<open>crates/path-io/src/native.rs\<close> derives from that identity.
\<close>

section \<open>Types and rounds\<close>

datatype trace_type = Icmp4 | Icmp6 | Udp4 | Udp6 | Tcp4 | Tcp6 | Mpls4 | Mpls6 | As4 | As6

definition TraceType_ALL :: "trace_type list" where
  "TraceType_ALL = [Icmp4, Icmp6, Udp4, Udp6, Tcp4, Tcp6, Mpls4, Mpls6, As4, As6]"

definition TraceType_DEFAULTS :: "trace_type list" where
  "TraceType_DEFAULTS = [Icmp4, Icmp6, Tcp4, Tcp6]"

definition trace_family :: "trace_type \<Rightarrow> address_family" where
  "trace_family t = (if t \<in> {Icmp4, Udp4, Tcp4, Mpls4, As4} then Ipv4 else Ipv6)"

fun type_name :: "trace_type \<Rightarrow> bytes" where
  "type_name Icmp4 = lit ''ICMP4''"
| "type_name Icmp6 = lit ''ICMP6''"
| "type_name Udp4 = lit ''UDP4''"
| "type_name Udp6 = lit ''UDP6''"
| "type_name Tcp4 = lit ''TCP4''"
| "type_name Tcp6 = lit ''TCP6''"
| "type_name Mpls4 = lit ''MPLS4''"
| "type_name Mpls6 = lit ''MPLS6''"
| "type_name As4 = lit ''AS4''"
| "type_name As6 = lit ''AS6''"

datatype trace_round =
  Standard | Mtu1400 | TosCs5 | TosAf11 | Ttl10 | Ttl64 | FirstTtl3 | Timeout5

definition TraceRound_ALL :: "trace_round list" where
  "TraceRound_ALL = [Standard, Mtu1400, TosCs5, TosAf11, Ttl10, Ttl64, FirstTtl3, Timeout5]"

fun round_name :: "trace_round \<Rightarrow> bytes" where
  "round_name Standard = lit ''Standard''"
| "round_name Mtu1400 = lit ''MTU1400''"
| "round_name TosCs5 = lit ''TOS_CS5''"
| "round_name TosAf11 = lit ''TOS_AF11''"
| "round_name Ttl10 = lit ''TTL10''"
| "round_name Ttl64 = lit ''TTL64''"
| "round_name FirstTtl3 = lit ''FirstTTL3''"
| "round_name Timeout5 = lit ''Timeout5''"

definition traffic_class :: "trace_round \<Rightarrow> u8 option" where
  "traffic_class r = (case r of TosCs5 \<Rightarrow> Some 160 | TosAf11 \<Rightarrow> Some 40 | _ \<Rightarrow> None)"

section \<open>Settings\<close>

record trace_settings =
  ts_cycles :: u16
  ts_interval :: duration
  ts_run_timeout :: duration
  ts_probe_timeout :: duration
  ts_max_hops :: u8
  ts_first_ttl :: u8
  ts_packet_size :: nat
  ts_tcp_port :: u16
  ts_udp_base_port :: u16
  ts_dns_resolver :: "(ip_addr \<times> u16) option"
  ts_dns_timeout :: duration

definition TraceSettings_default :: trace_settings where
  "TraceSettings_default =
     \<lparr>ts_cycles = 300, ts_interval = from_secs 1, ts_run_timeout = from_secs 360,
      ts_probe_timeout = from_secs 10, ts_max_hops = 30, ts_first_ttl = 1, ts_packet_size = 64,
      ts_tcp_port = 443, ts_udp_base_port = 33434, ts_dns_resolver = None,
      ts_dns_timeout = from_secs 2\<rparr>"

definition invalid_plan :: "string \<Rightarrow> ('a, probe_error) outcome" where
  "invalid_plan s = Err (Invalid_Plan (lit s))"

definition validate :: "trace_settings \<Rightarrow> (unit, probe_error) outcome" where
  "validate s =
     (if 10000 < ts_cycles s \<or> from_secs 60 < ts_interval s
         \<or> from_secs 86400 < ts_run_timeout s \<or> from_secs 300 < ts_probe_timeout s
         \<or> from_secs 300 < ts_dns_timeout s \<or> 65535 < ts_packet_size s
      then invalid_plan ''trace counts, payload or timeouts exceed supported bounds''
      else if ts_cycles s = 0 \<or> ts_max_hops s = 0 \<or> ts_first_ttl s = 0
      then invalid_plan ''cycles and hop limits must be positive''
      else if ts_max_hops s < ts_first_ttl s
      then invalid_plan ''first TTL must not exceed max hops''
      else if ts_interval s = 0 \<or> ts_run_timeout s = 0 \<or> ts_probe_timeout s = 0
         \<or> ts_dns_timeout s = 0
      then invalid_plan ''trace intervals and timeouts must be positive''
      else if ts_packet_size s < 64 \<or> ts_tcp_port s = 0 \<or> ts_udp_base_port s = 0
      then invalid_plan ''payload size and destination ports must be positive''
      else Ok ())"

definition available_ports :: "u16 \<Rightarrow> u32" where
  "available_ports base = ucast (- 1 - base) + 1"

definition last_identity :: "trace_settings \<Rightarrow> u32 option" where
  "last_identity s = Option.bind
     (checked_mul (ucast (ts_cycles s - 1)) (ucast (ts_max_hops s) + 1))
     (\<lambda>v. checked_add v (ucast (ts_max_hops s)))"

definition validate_for_type :: "trace_settings \<Rightarrow> trace_type \<Rightarrow> (unit, probe_error) outcome" where
  "validate_for_type s probe_type = and_then (validate s) (\<lambda>_.
     if probe_type \<noteq> Udp4 \<and> probe_type \<noteq> Udp6 then Ok ()
     else case last_identity s of
       None \<Rightarrow> invalid_plan ''trace probe identity overflow''
     | Some last_id \<Rightarrow>
         if available_ports (ts_udp_base_port s) \<le> last_id
         then invalid_plan ''UDP destination port range cannot uniquely encode every planned probe''
         else Ok ())"

fun round_apply :: "trace_round \<Rightarrow> trace_settings \<Rightarrow> trace_settings" where
  "round_apply Standard s = s"
| "round_apply Mtu1400 s = s\<lparr>ts_packet_size := 1400\<rparr>"
| "round_apply TosCs5 s = s"
| "round_apply TosAf11 s = s"
| "round_apply Ttl10 s = s\<lparr>ts_max_hops := 10\<rparr>"
| "round_apply Ttl64 s = s\<lparr>ts_max_hops := 64\<rparr>"
| "round_apply FirstTtl3 s = s\<lparr>ts_first_ttl := 3\<rparr>"
| "round_apply Timeout5 s = s\<lparr>ts_probe_timeout := from_secs 5\<rparr>"

text \<open>What a validated run may rely on.\<close>

definition settings_ok :: "trace_settings \<Rightarrow> bool" where
  "settings_ok s \<longleftrightarrow> 0 < unat (ts_cycles s) \<and> unat (ts_cycles s) \<le> 10000
     \<and> 0 < unat (ts_first_ttl s) \<and> unat (ts_first_ttl s) \<le> unat (ts_max_hops s)
     \<and> 64 \<le> ts_packet_size s \<and> ts_packet_size s \<le> 65535
     \<and> 0 < ts_interval s \<and> ts_interval s \<le> from_secs 60
     \<and> 0 < ts_run_timeout s \<and> 0 < ts_probe_timeout s \<and> 0 < ts_dns_timeout s
     \<and> ts_tcp_port s \<noteq> 0 \<and> ts_udp_base_port s \<noteq> 0"

lemma validate_Ok: "validate s = Ok u \<Longrightarrow> settings_ok s"
  by (auto simp: validate_def invalid_plan_def settings_ok_def word_less_nat_alt not_less
      unat_gt_0 split: if_splits)

lemma validate_no_panic: "validate s \<noteq> Panic"
  by (simp add: validate_def invalid_plan_def)

lemma validate_for_type_Ok: "validate_for_type s t = Ok u \<Longrightarrow> settings_ok s"
  by (auto simp: validate_for_type_def and_then_eq_Ok dest: validate_Ok)

section \<open>Probe identities\<close>

definition probe_ordinal :: "trace_settings \<Rightarrow> u16 \<Rightarrow> u8 \<Rightarrow> u32" where
  "probe_ordinal s cycle ttl = ucast cycle * (ucast (ts_max_hops s) + 1) + ucast ttl"

definition trace_identity :: "trace_settings \<Rightarrow> u32 \<Rightarrow> u16 \<Rightarrow> u8 \<Rightarrow> probe_identity" where
  "trace_identity s nonce cycle ttl =
     \<lparr>id_nonce = nonce, id_ordinal = probe_ordinal s cycle ttl\<rparr>"

definition udp_destination_port :: "u16 \<Rightarrow> probe_identity \<Rightarrow> u32" where
  "udp_destination_port base identity =
     ucast base + id_ordinal identity mod available_ports base"

definition udp_adjusted_base :: "u16 \<Rightarrow> probe_identity \<Rightarrow> u8 \<Rightarrow> (u16, probe_error) outcome" where
  "udp_adjusted_base base identity ttl =
     (let port = udp_destination_port base identity in
      if port \<le> ucast ttl then invalid_plan ''UDP base port cannot encode the probe identity''
      else Ok (ucast (port - ucast ttl)))"

lemma unat_available_ports: "unat (available_ports base) = 65536 - unat base"
proof -
  have b: "unat base < 65536" by (rule unat_u16_less)
  have "unat (- 1 - base) = 65535 - unat base"
    by (subst unat_sub) (simp_all add: unsigned_minus_1_eq_mask mask_eq_exp_minus_1)
  then have "unat (ucast (- 1 - base) :: u32) = 65535 - unat base"
    by (simp add: unat_ucast_up)
  with b show ?thesis by (simp add: available_ports_def unat_word_ariths)
qed

lemma ordinal_value:
  assumes "unat cycle \<le> 10000"
  shows "unat (probe_ordinal s cycle ttl)
    = unat cycle * (unat (ts_max_hops s) + 1) + unat ttl"
proof -
  have h: "unat (ts_max_hops s) < 256" "unat ttl < 256" by (rule unat_u8_less)+
  have "unat cycle * (unat (ts_max_hops s) + 1) \<le> 10000 * 256"
    using assms h by (intro mult_le_mono) simp_all
  with h show ?thesis
    by (simp add: probe_ordinal_def unat_word_ariths unat_ucast_up)
qed

lemma mixed_radix_unique:
  fixes a b c d n :: nat
  assumes "a * n + c = b * n + d" and "c < n" and "d < n"
  shows "a = b" and "c = d"
proof -
  have "(a * n + c) div n = a" "(b * n + d) div n = b"
    using assms(2,3) by (simp_all add: div_mult_self3 [of n])
  with assms(1) show "a = b" by simp
  with assms(1) show "c = d" by simp
qed

lemma last_identity_value:
  assumes "settings_ok s"
  shows "\<exists>i. last_identity s = Some i \<and>
    unat i = (unat (ts_cycles s) - 1) * (unat (ts_max_hops s) + 1) + unat (ts_max_hops s)"
proof -
  have h: "unat (ts_max_hops s) < 256" by (rule unat_u8_less)
  have c: "unat (ts_cycles s - 1) = unat (ts_cycles s) - 1" "unat (ts_cycles s) - 1 \<le> 10000"
    using assms unat_sub [of 1 "ts_cycles s"]
    by (auto simp: settings_ok_def word_le_nat_alt)
  have "(unat (ts_cycles s) - 1) * (unat (ts_max_hops s) + 1) \<le> 10000 * 256"
    using c h by (intro mult_le_mono) simp_all
  with h c show ?thesis
    by (simp add: last_identity_def checked_mul_def checked_add_def unat_word_ariths unat_ucast_up)
qed

section \<open>The plan\<close>

record trace_plan_item =
  it_round :: trace_round
  it_type :: trace_type
  it_host :: bytes

record trace_plan =
  tp_rounds :: "trace_round list"
  tp_types :: "trace_type list"
  tp_ipv4_hosts :: "bytes list"
  tp_ipv6_hosts :: "bytes list"
  tp_total_items :: u64
  tp_warnings :: "bytes list"

definition is_tcp :: "trace_type \<Rightarrow> bool" where
  "is_tcp t \<longleftrightarrow> t = Tcp4 \<or> t = Tcp6"

definition round_applies :: "trace_round \<Rightarrow> trace_type \<Rightarrow> bool" where
  "round_applies r t \<longleftrightarrow> \<not> (r = Mtu1400 \<and> is_tcp t)"

definition family_hosts :: "trace_type \<Rightarrow> bytes list \<Rightarrow> bytes list \<Rightarrow> bytes list" where
  "family_hosts t v4 v6 = (case trace_family t of Ipv4 \<Rightarrow> v4 | Ipv6 \<Rightarrow> v6)"

definition items :: "trace_plan \<Rightarrow> trace_plan_item list" where
  "items p = concat (map (\<lambda>r. concat (map (\<lambda>t.
     map (\<lambda>h. \<lparr>it_round = r, it_type = t, it_host = h\<rparr>)
       (filter (\<lambda>_. round_applies r t) (family_hosts t (tp_ipv4_hosts p) (tp_ipv6_hosts p))))
     (tp_types p))) (tp_rounds p))"

fun try_fold :: "('a \<Rightarrow> 'b \<Rightarrow> 'a option) \<Rightarrow> 'a \<Rightarrow> 'b list \<Rightarrow> 'a option" where
  "try_fold f acc [] = Some acc"
| "try_fold f acc (x # xs) = Option.bind (f acc x) (\<lambda>acc. try_fold f acc xs)"

fun validate_hosts :: "bytes list \<Rightarrow> (unit, probe_error) outcome" where
  "validate_hosts [] = Ok ()"
| "validate_hosts (h # hs) = and_then (validate_host h) (\<lambda>_. validate_hosts hs)"

definition count_type :: "bytes list \<Rightarrow> bytes list \<Rightarrow> trace_round \<Rightarrow> u64 \<Rightarrow> trace_type \<Rightarrow> u64 option" where
  "count_type v4 v6 r acc t =
     (if \<not> round_applies r t then Some acc
      else checked_add acc (word_of_nat (length (family_hosts t v4 v6))))"

definition count_items ::
  "trace_round list \<Rightarrow> trace_type list \<Rightarrow> bytes list \<Rightarrow> bytes list \<Rightarrow> u64 option" where
  "count_items rounds types v4 v6 =
     try_fold (\<lambda>acc r. try_fold (count_type v4 v6 r) acc types) 0 rounds"

definition build_plan ::
  "trace_round list \<Rightarrow> trace_type list \<Rightarrow> bytes list \<Rightarrow> bytes list \<Rightarrow>
     (trace_plan, probe_error) outcome" where
  "build_plan rounds types v4 v6 =
     (if rounds = [] \<or> types = []
      then invalid_plan ''rounds and probe types must not be empty''
      else and_then (validate_hosts (v4 @ v6)) (\<lambda>_.
        case count_items rounds types v4 v6 of
          None \<Rightarrow> invalid_plan ''trace plan cardinality overflow''
        | Some n \<Rightarrow>
            if n = 0 then invalid_plan ''no trace runs planned''
            else Ok \<lparr>tp_rounds = rounds, tp_types = types, tp_ipv4_hosts = v4,
                     tp_ipv6_hosts = v6, tp_total_items = n,
                     tp_warnings = (if Mtu1400 \<in> set rounds \<and> list_ex is_tcp types
                       then [lit ''MTU1400 round skipped for TCP trace: SYN probes have a fixed size'']
                       else [])\<rparr>))"

text \<open>The counted items are the items the iterator yields, while the count fits 64 bits.\<close>

definition round_items :: "trace_type list \<Rightarrow> bytes list \<Rightarrow> bytes list \<Rightarrow> trace_round \<Rightarrow> nat" where
  "round_items types v4 v6 r =
     (\<Sum>t\<leftarrow>types. if round_applies r t then length (family_hosts t v4 v6) else 0)"

lemma try_fold_total:
  assumes step: "\<And>a b x. f a x = Some b \<Longrightarrow> unat (b :: u64) = unat a + g x"
  shows "try_fold f a xs = Some b \<Longrightarrow> unat b = unat a + (\<Sum>x\<leftarrow>xs. g x)"
proof (induction xs arbitrary: a)
  case (Cons x xs)
  then obtain c where "f a x = Some c" "try_fold f c xs = Some b"
    by (auto simp: bind_eq_Some_conv)
  with Cons.IH step show ?case by fastforce
qed simp

lemma count_type_total:
  assumes "length v4 < 2 ^ 64" and "length v6 < 2 ^ 64" and "count_type v4 v6 r a t = Some b"
  shows "unat b = unat a + (if round_applies r t then length (family_hosts t v4 v6) else 0)"
proof -
  have "length (family_hosts t v4 v6) < 2 ^ 64"
    using assms(1,2) by (simp add: family_hosts_def split: address_family.split)
  then have "unat (word_of_nat (length (family_hosts t v4 v6)) :: u64) = length (family_hosts t v4 v6)"
    by (simp only: unat_of_nat) simp
  then show ?thesis
    using assms(3) by (auto simp: count_type_def dest: checked_add_unat split: if_splits)
qed

lemma count_items_total:
  assumes "length v4 < 2 ^ 64" and "length v6 < 2 ^ 64" and "count_items rounds types v4 v6 = Some n"
  shows "unat n = (\<Sum>r\<leftarrow>rounds. round_items types v4 v6 r)"
  using try_fold_total [where f = "\<lambda>a r. try_fold (count_type v4 v6 r) a types"
      and g = "round_items types v4 v6", OF _ assms(3) [unfolded count_items_def]]
    try_fold_total [where f = "count_type v4 v6 r" for r, OF count_type_total [OF assms(1,2)]]
  by (simp add: round_items_def)

lemma length_filter_const: "length (filter (\<lambda>_. b) xs) = (if b then length xs else 0)"
  by simp

lemma length_items:
  "length (items p) = (\<Sum>r\<leftarrow>tp_rounds p.
     round_items (tp_types p) (tp_ipv4_hosts p) (tp_ipv6_hosts p) r)"
  by (simp add: items_def length_concat o_def round_items_def length_filter_const)

lemma validate_hosts_Ok: "validate_hosts hs = Ok u \<Longrightarrow> h \<in> set hs \<Longrightarrow> validate_host h = Ok ()"
  by (induction hs) (auto simp: and_then_eq_Ok)

lemma item_in_plan:
  "i \<in> set (items p) \<longleftrightarrow> it_round i \<in> set (tp_rounds p) \<and> it_type i \<in> set (tp_types p)
     \<and> it_host i \<in> set (family_hosts (it_type i) (tp_ipv4_hosts p) (tp_ipv6_hosts p))
     \<and> round_applies (it_round i) (it_type i)"
  by (cases i) (auto simp: items_def)

lemma build_plan_fields:
  assumes "build_plan rounds types v4 v6 = Ok p"
  shows "tp_rounds p = rounds" "tp_types p = types" "tp_ipv4_hosts p = v4" "tp_ipv6_hosts p = v6"
    and "count_items rounds types v4 v6 = Some (tp_total_items p)" and "tp_total_items p \<noteq> 0"
    and "validate_hosts (v4 @ v6) = Ok ()"
  using assms by (auto simp: build_plan_def invalid_plan_def and_then_eq_Ok
      split: if_splits option.splits)

section \<open>Properties\<close>

text \<open>
  C9. A plan that \<open>build_plan\<close> returns announces exactly as many items as its iterator yields, at
  least one, and the items are the admissible combinations: each names a requested round and
  type, a host of the type's family that passed validation, and no item is an MTU1400 round of a
  TCP trace. The host counts are below \<open>2 ^ 64\<close>, as the length of every vector is.
\<close>

theorem build_plan_exact:
  assumes "build_plan rounds types v4 v6 = Ok p" and "length v4 < 2 ^ 64" and "length v6 < 2 ^ 64"
  shows "unat (tp_total_items p) = length (items p) \<and> items p \<noteq> []
    \<and> (\<forall>i. i \<in> set (items p) \<longleftrightarrow> it_round i \<in> set rounds \<and> it_type i \<in> set types
        \<and> it_host i \<in> set (case trace_family (it_type i) of Ipv4 \<Rightarrow> v4 | Ipv6 \<Rightarrow> v6)
        \<and> \<not> (it_round i = Mtu1400 \<and> it_type i \<in> {Tcp4, Tcp6}))
    \<and> (\<forall>i \<in> set (items p). validate_host (it_host i) = Ok ())"
proof -
  note p = build_plan_fields [OF assms(1)]
  have n: "unat (tp_total_items p) = length (items p)"
    using count_items_total [OF assms(2,3) p(5)] p by (simp add: length_items)
  then have "items p \<noteq> []" using p(6) by (auto simp: unat_eq_zero)
  moreover have "\<forall>i \<in> set (items p). validate_host (it_host i) = Ok ()"
    using validate_hosts_Ok [OF p(7)] p
    by (auto simp: item_in_plan family_hosts_def split: address_family.splits)
  ultimately show ?thesis
    using n p by (auto simp: item_in_plan family_hosts_def round_applies_def is_tcp_def)
qed

lemma sample_plan:
  "build_plan [Standard, Mtu1400] [Icmp4, Tcp4] [lit ''a''] [] =
     Ok \<lparr>tp_rounds = [Standard, Mtu1400], tp_types = [Icmp4, Tcp4], tp_ipv4_hosts = [lit ''a''],
        tp_ipv6_hosts = [], tp_total_items = 3,
        tp_warnings = [lit ''MTU1400 round skipped for TCP trace: SYN probes have a fixed size'']\<rparr>"
  by (simp add: build_plan_def count_items_def count_type_def round_applies_def is_tcp_def
      family_hosts_def trace_family_def checked_add_def validate_host_def chars_ascii lit_def
      is_whitespace_def is_control_def)

theorem build_plan_exact_witness:
  "\<exists>p. build_plan [Standard, Mtu1400] [Icmp4, Tcp4] [lit ''a''] [] = Ok p \<and> length (items p) = 3"
proof (rule exI, rule conjI, rule sample_plan)
  show "length (items \<lparr>tp_rounds = [Standard, Mtu1400], tp_types = [Icmp4, Tcp4],
      tp_ipv4_hosts = [lit ''a''], tp_ipv6_hosts = [], tp_total_items = 3,
      tp_warnings = [lit ''MTU1400 round skipped for TCP trace: SYN probes have a fixed size'']\<rparr>) = 3"
    using build_plan_exact [OF sample_plan] by simp
qed

text \<open>
  For a UDP trace whose settings validate, every probe of the run has a destination port of
  its own: the port is the base port plus the probe's ordinal, it does not wrap, the base the
  socket layer is given for the probe's TTL exists and leads back to that port, and two different
  probes never share it.
\<close>

lemma udp_probe_ports_unique:
  assumes "validate_for_type s t = Ok ()" and "t = Udp4 \<or> t = Udp6"
    and "c < ts_cycles s" and "d < ts_cycles s" and "x \<le> ts_max_hops s" and "y \<le> ts_max_hops s"
  shows "unat (udp_destination_port (ts_udp_base_port s) (trace_identity s nonce c x))
        = unat (ts_udp_base_port s) + unat c * (unat (ts_max_hops s) + 1) + unat x
    \<and> udp_destination_port (ts_udp_base_port s) (trace_identity s nonce c x) < 65536
    \<and> (\<exists>b. udp_adjusted_base (ts_udp_base_port s) (trace_identity s nonce c x) x = Ok b
        \<and> unat b + unat x
          = unat (udp_destination_port (ts_udp_base_port s) (trace_identity s nonce c x)))
    \<and> (udp_destination_port (ts_udp_base_port s) (trace_identity s nonce c x)
        = udp_destination_port (ts_udp_base_port s) (trace_identity s nonce d y)
       \<longrightarrow> c = d \<and> x = y)"
proof -
  have ok: "settings_ok s" using assms(1) by (rule validate_for_type_Ok)
  define n where "n = unat (ts_max_hops s) + 1"
  have "(unat (ts_cycles s) - 1) * n + (n - 1) < 65536 - unat (ts_udp_base_port s)"
    using assms(1,2) last_identity_value [OF ok]
    by (auto simp: validate_for_type_def and_then_eq_Ok invalid_plan_def word_le_nat_alt
        unat_available_ports not_le n_def split: if_splits)
  then have room: "unat (ts_udp_base_port s) + ((unat (ts_cycles s) - 1) * n + (n - 1)) < 65536"
    by linarith
  have ord: "unat (probe_ordinal s e z) = unat e * n + unat z \<and> unat z < n
      \<and> unat (ts_udp_base_port s) + (unat e * n + unat z) < 65536"
    if "e < ts_cycles s" "z \<le> ts_max_hops s" for e z
  proof -
    have e: "unat e \<le> unat (ts_cycles s) - 1" "unat z \<le> n - 1" "unat e \<le> 10000"
      using that ok by (auto simp: word_less_nat_alt word_le_nat_alt settings_ok_def n_def)
    then have "unat e * n + unat z \<le> (unat (ts_cycles s) - 1) * n + (n - 1)"
      by (intro add_mono mult_le_mono) simp_all
    with room e show ?thesis
      by (simp add: ordinal_value n_def)
  qed
  have port: "unat (udp_destination_port (ts_udp_base_port s) (trace_identity s nonce e z))
      = unat (ts_udp_base_port s) + (unat e * n + unat z)"
    if "e < ts_cycles s" "z \<le> ts_max_hops s" for e z
  proof -
    from ord [OF that] have o: "unat (probe_ordinal s e z) = unat e * n + unat z"
      and r: "unat (ts_udp_base_port s) + (unat e * n + unat z) < 65536" by blast+
    then have "(unat e * n + unat z) mod (65536 - unat (ts_udp_base_port s)) = unat e * n + unat z"
      by (intro mod_less) linarith
    then have "unat (probe_ordinal s e z mod available_ports (ts_udp_base_port s))
        = unat e * n + unat z"
      by (simp only: unat_mod unat_available_ports o)
    with r show ?thesis
      by (simp add: udp_destination_port_def trace_identity_def unat_word_ariths unat_ucast_up)
  qed
  have base: "0 < unat (ts_udp_base_port s)"
    using ok by (simp add: settings_ok_def unat_gt_0)
  let ?p = "udp_destination_port (ts_udp_base_port s) (trace_identity s nonce c x)"
  have p: "unat ?p = unat (ts_udp_base_port s) + (unat c * n + unat x)" "unat ?p < 65536"
    using port [OF assms(3,5)] ord [OF assms(3,5)] by simp_all
  have "unat x < unat ?p" using p base by simp
  then have "\<exists>b. udp_adjusted_base (ts_udp_base_port s) (trace_identity s nonce c x) x = Ok b
      \<and> unat b + unat x = unat ?p"
    using p(2) by (simp add: udp_adjusted_base_def Let_def word_le_nat_alt unat_ucast_up unat_sub
        unat_ucast_mod)
  moreover have "c = d \<and> x = y"
    if "?p = udp_destination_port (ts_udp_base_port s) (trace_identity s nonce d y)"
    using that p(1) port [OF assms(4,6)] ord [OF assms(3,5)] ord [OF assms(4,6)]
      mixed_radix_unique [of "unat c" n "unat x" "unat d" "unat y"]
    by (auto simp: word_unat_eq_iff)
  ultimately show ?thesis
    using p by (simp add: n_def word_less_nat_alt)
qed

end
