(* ===== verification/Trace_Cadence.thy ===== *)
theory Trace_Cadence
  imports Trace_Plan
begin

text \<open>
  \<open>crates/path-trace/src/cadence.rs\<close>: which TTL is probed next and when. A cycle probes the TTLs
  from \<open>first_ttl\<close> upwards until the known destination, twelve silent hops, or \<open>max_ttl\<close>.
\<close>

record cadence =
  ca_cycles :: u16
  ca_ttl :: u8
  ca_deadline :: instant
  ca_first_ttl :: u8
  ca_max_ttl :: u8
  ca_interval :: duration
  ca_estimated_hosts :: u32

definition Cadence_new :: "instant \<Rightarrow> duration \<Rightarrow> u8 \<Rightarrow> u8 \<Rightarrow> cadence" where
  "Cadence_new start interval first_ttl max_ttl =
     \<lparr>ca_cycles = 0, ca_ttl = first_ttl, ca_deadline = start + interval div 10,
      ca_first_ttl = first_ttl, ca_max_ttl = max_ttl, ca_interval = interval,
      ca_estimated_hosts = 10\<rparr>"

definition wraps :: "cadence \<Rightarrow> nat \<Rightarrow> u8 option \<Rightarrow> bool" where
  "wraps c unknown destination \<longleftrightarrow>
     (case destination of Some bound \<Rightarrow> bound \<le> ca_ttl c | None \<Rightarrow> False)
     \<or> 12 < unknown \<or> ca_ttl c = ca_max_ttl c"

definition schedule :: "instant \<Rightarrow> cadence \<Rightarrow> (cadence, 'e) outcome" where
  "schedule now c = (if ca_estimated_hosts c = 0 then Panic
     else Ok (c\<lparr>ca_deadline := now + ca_interval c div unat (ca_estimated_hosts c)\<rparr>))"

definition dispatched ::
  "instant \<Rightarrow> bool list \<Rightarrow> u8 option \<Rightarrow> cadence \<Rightarrow> (cadence, 'e) outcome" where
  "dispatched now known destination c =
     and_then (subslice known (unat (ca_first_ttl c)) (unat (ca_ttl c))) (\<lambda>below.
       let unknown = length (filter Not below) in
       if wraps c unknown destination then
         and_then (word_sub (min (case destination of Some b \<Rightarrow> b | None \<Rightarrow> ca_ttl c) (ca_ttl c))
             (ca_first_ttl c)) (\<lambda>span.
         and_then (word_add (ca_cycles c) 1) (\<lambda>cycles.
         schedule now (c\<lparr>ca_estimated_hosts := ucast span + 1, ca_cycles := cycles,
           ca_ttl := ca_first_ttl c\<rparr>)))
       else
         and_then (word_add (ca_ttl c) 1) (\<lambda>ttl. schedule now (c\<lparr>ca_ttl := ttl\<rparr>)))"

text \<open>The cadence of a run with valid settings, after any number of dispatches.\<close>

definition cadence_ok :: "cadence \<Rightarrow> bool" where
  "cadence_ok c \<longleftrightarrow> ca_first_ttl c \<le> ca_ttl c \<and> ca_ttl c \<le> ca_max_ttl c
     \<and> 0 < ca_estimated_hosts c"

lemma Cadence_new_ok: "first_ttl \<le> max_ttl \<Longrightarrow> cadence_ok (Cadence_new start interval first_ttl max_ttl)"
  by (simp add: cadence_ok_def Cadence_new_def)

lemma span_positive: "0 < (ucast (w :: u8) :: u32) + 1"
proof -
  have "unat ((ucast w :: u32) + 1) = unat w + 1"
    using unat_u8_less [of w] by (simp add: unat_word_ariths unat_ucast_up)
  then show ?thesis by (simp add: word_less_nat_alt)
qed

lemma dispatched_yields:
  assumes ok: "cadence_ok c" and known: "length known = unat (ca_max_ttl c) + 1"
    and dest: "\<And>b. destination = Some b \<Longrightarrow> ca_first_ttl c \<le> b"
    and room: "unat (ca_cycles c) < 65535"
  shows "yields (dispatched now known destination c) (\<lambda>d. cadence_ok d
    \<and> ca_first_ttl d = ca_first_ttl c \<and> ca_max_ttl d = ca_max_ttl c \<and> ca_interval d = ca_interval c
    \<and> (unat (ca_cycles d) = unat (ca_cycles c) + 1 \<and> ca_ttl d = ca_first_ttl c
       \<or> ca_cycles d = ca_cycles c \<and> unat (ca_ttl d) = unat (ca_ttl c) + 1)
    \<and> (ca_cycles d = ca_cycles c \<longrightarrow>
        ca_ttl c \<noteq> ca_max_ttl c \<and> (\<forall>b. destination = Some b \<longrightarrow> ca_ttl c < b))
    \<and> now \<le> ca_deadline d \<and> ca_deadline d \<le> now + ca_interval c)"
proof -
  have le: "unat (ca_first_ttl c) \<le> unat (ca_ttl c)" "unat (ca_ttl c) \<le> unat (ca_max_ttl c)"
    using ok by (simp_all add: cadence_ok_def word_le_nat_alt)
  have up: "unat (ca_ttl c + 1) = unat (ca_ttl c) + 1" "ca_ttl c + 1 \<le> ca_max_ttl c"
    "ca_first_ttl c \<le> ca_ttl c + 1" "unat (ca_ttl c) < 255"
    if "ca_ttl c \<noteq> ca_max_ttl c"
  proof -
    have "unat (ca_ttl c) \<noteq> unat (ca_max_ttl c)" using that by (simp add: word_unat_eq_iff)
    with le have less: "unat (ca_ttl c) < unat (ca_max_ttl c)" by simp
    with unat_u8_less [of "ca_max_ttl c"] show "unat (ca_ttl c) < 255" by linarith
    then show u: "unat (ca_ttl c + 1) = unat (ca_ttl c) + 1" by (simp add: unat_word_ariths)
    show "ca_ttl c + 1 \<le> ca_max_ttl c" "ca_first_ttl c \<le> ca_ttl c + 1"
      using u less le by (simp_all add: word_le_nat_alt)
  qed
  have cyc: "unat (ca_cycles c + 1) = unat (ca_cycles c) + 1"
    using room by (simp add: unat_word_ariths)
  have "ca_cycles c + 1 \<noteq> ca_cycles c" by simp
  have span: "ca_first_ttl c \<le> min (case destination of Some b \<Rightarrow> b | None \<Rightarrow> ca_ttl c) (ca_ttl c)"
    using ok dest by (auto simp: cadence_ok_def split: option.split)
  have fm: "ca_first_ttl c \<le> ca_max_ttl c" using ok by (auto simp: cadence_ok_def)
  have div: "x div n \<le> x" for x n :: nat by (rule div_le_dividend)
  show ?thesis
  proof (cases "wraps c (length (filter Not (take (unat (ca_ttl c) - unat (ca_first_ttl c))
        (drop (unat (ca_first_ttl c)) known)))) destination")
    case True
    then show ?thesis
      using ok le known span cyc room span_positive fm
      by (simp add: dispatched_def panic_simps schedule_def Let_def cadence_ok_def div less_imp_neq
          [symmetric])
  next
    case False
    then have "ca_ttl c \<noteq> ca_max_ttl c" by (simp add: wraps_def)
    with False up ok le known show ?thesis
      by (auto simp: dispatched_def panic_simps schedule_def Let_def cadence_ok_def div wraps_def
          split: option.splits)
  qed
qed

end
