(* ===== verification/Trace_Errors.thy ===== *)
theory Trace_Errors
  imports Path_Io
begin

text \<open>
  \<open>crates/path-trace/src/lib.rs\<close>, the error budget of a run: \<open>extend_errors\<close> adds messages while
  they fit below 16 KiB less a reserve for terminal diagnostics, \<open>normalize_errors\<close> bounds the
  final list. Both cut a message at a character boundary; their cut meets the truncation contract.
\<close>

definition MAX_ERROR_BYTES :: nat where "MAX_ERROR_BYTES = 16 * 1024"

definition EXTEND_LIMIT :: nat where "EXTEND_LIMIT = MAX_ERROR_BYTES - 256"

definition text_bytes :: "bytes list \<Rightarrow> nat" where
  "text_bytes errors = (\<Sum>e\<leftarrow>errors. length e)"

definition cut :: "bytes \<Rightarrow> nat \<Rightarrow> bytes" where
  "cut m room = take (floor_boundary m (min (length m) room)) m"

fun extend_loop :: "nat \<Rightarrow> bytes list \<Rightarrow> bytes list \<Rightarrow> bytes list" where
  "extend_loop retained errors [] = errors"
| "extend_loop retained errors (m # ms) =
     (if EXTEND_LIMIT \<le> retained then errors
      else let m = cut m (EXTEND_LIMIT - retained) in
           extend_loop (retained + length m) (errors @ [m]) ms)"

definition extend_errors :: "bytes list \<Rightarrow> bytes list \<Rightarrow> bytes list" where
  "extend_errors errors incoming = extend_loop (text_bytes errors) errors incoming"

fun normalize_loop :: "nat \<Rightarrow> bytes list \<Rightarrow> bytes list" where
  "normalize_loop retained [] = []"
| "normalize_loop retained (m # ms) =
     (if MAX_ERROR_BYTES \<le> retained then normalize_loop retained ms
      else let m = cut m (MAX_ERROR_BYTES - retained);
               rest = normalize_loop (retained + length m) ms in
           if m = [] then rest else m # rest)"

definition normalize_errors :: "bytes list \<Rightarrow> bytes list" where
  "normalize_errors = normalize_loop 0"

interpretation trace_text: utf8_truncation cut
proof -
  have "cut = bounded_text" by (intro ext) (simp add: cut_def bounded_text_def)
  then show "utf8_truncation cut" by (simp add: contracts_text.utf8_truncation_axioms)
qed

lemma text_bytes_simps [simp]:
  "text_bytes [] = 0"
  "text_bytes (m # ms) = length m + text_bytes ms"
  "text_bytes (xs @ ys) = text_bytes xs + text_bytes ys"
  by (simp_all add: text_bytes_def)

lemma extend_loop_append:
  "\<exists>new. extend_loop retained errors ms = errors @ new \<and> length new \<le> length ms
     \<and> (retained \<le> EXTEND_LIMIT \<longrightarrow> retained + text_bytes new \<le> EXTEND_LIMIT)
     \<and> (EXTEND_LIMIT \<le> retained \<longrightarrow> new = [])
     \<and> (retained + text_bytes ms \<le> EXTEND_LIMIT \<longrightarrow> text_bytes new = text_bytes ms)
     \<and> (\<forall>e \<in> set new. \<exists>m \<in> set ms. \<exists>rest. m = e @ rest)"
proof (induction retained errors ms rule: extend_loop.induct)
  case (2 retained errors m ms)
  show ?case
  proof (cases "EXTEND_LIMIT \<le> retained")
    case True
    then have "retained + (length m + text_bytes ms) \<le> EXTEND_LIMIT \<longrightarrow> m = []"
      by (cases m) auto
    with True show ?thesis by auto
  next
    case False
    define m' where "m' = cut m (EXTEND_LIMIT - retained)"
    have m': "length m' \<le> EXTEND_LIMIT - retained" "\<exists>rest. m = m' @ rest"
      "retained + length m \<le> EXTEND_LIMIT \<Longrightarrow> m' = m"
      using trace_text.truncate_length trace_text.truncate_prefix trace_text.truncate_fits False
      by (auto simp: m'_def)
    with 2 [OF False m'_def] False show ?thesis
      by (simp add: Let_def flip: m'_def) (elim exE conjE, rule_tac x = "m' # new" in exI, auto)
  qed
qed simp

lemma extend_errors_spec:
  obtains new where "extend_errors errors ms = errors @ new" and "length new \<le> length ms"
    and "text_bytes errors \<le> EXTEND_LIMIT \<Longrightarrow> text_bytes errors + text_bytes new \<le> EXTEND_LIMIT"
    and "EXTEND_LIMIT \<le> text_bytes errors \<Longrightarrow> new = []"
    and "\<forall>e \<in> set new. \<exists>m \<in> set ms. \<exists>rest. m = e @ rest"
  using extend_loop_append [of "text_bytes errors" errors ms] that
  by (auto simp: extend_errors_def)

lemma normalize_loop_bytes:
  "retained \<le> MAX_ERROR_BYTES \<Longrightarrow> retained + text_bytes (normalize_loop retained ms) \<le> MAX_ERROR_BYTES"
proof (induction retained ms rule: normalize_loop.induct)
  case (2 retained m ms)
  show ?case
  proof (cases "MAX_ERROR_BYTES \<le> retained")
    case True
    with 2 show ?thesis by simp
  next
    case False
    have "retained + length (cut m (MAX_ERROR_BYTES - retained)) \<le> MAX_ERROR_BYTES"
      using trace_text.truncate_length [of m "MAX_ERROR_BYTES - retained"] False by linarith
    with 2(2) [OF False] False show ?thesis by (auto simp: Let_def)
  qed
qed simp

lemma normalize_loop_nonempty: "e \<in> set (normalize_loop retained ms) \<Longrightarrow> e \<noteq> []"
  by (induction retained ms rule: normalize_loop.induct) (auto simp: Let_def split: if_splits)

lemma normalize_loop_prefix:
  "e \<in> set (normalize_loop retained ms) \<Longrightarrow> \<exists>m \<in> set ms. \<exists>rest. m = e @ rest"
  using trace_text.truncate_prefix
  by (induction retained ms rule: normalize_loop.induct) (auto simp: Let_def split: if_splits)

lemma normalize_loop_fits:
  "retained + text_bytes ms \<le> MAX_ERROR_BYTES \<Longrightarrow> normalize_loop retained ms = filter (\<lambda>m. m \<noteq> []) ms"
proof (induction retained ms rule: normalize_loop.induct)
  case (2 retained m ms)
  show ?case
  proof (cases "MAX_ERROR_BYTES \<le> retained")
    case True
    then have "m = []" using 2(3) by (cases m) auto
    with True 2 show ?thesis by simp
  next
    case False
    have "cut m (MAX_ERROR_BYTES - retained) = m"
      using 2(3) by (intro trace_text.truncate_fits) simp
    with 2(2) [OF False] 2(3) False show ?thesis by (cases "m = []") (simp_all add: Let_def)
  qed
qed simp

lemma normalize_loop_valid:
  "\<forall>m \<in> set ms. valid_utf8 m \<Longrightarrow> \<forall>e \<in> set (normalize_loop retained ms). valid_utf8 e"
  using trace_text.truncate_valid
  by (induction retained ms rule: normalize_loop.induct) (auto simp: Let_def)

text \<open>
  The final error list of a run is at most 16 KiB of text; every entry is a non-empty prefix
  of a recorded message, valid UTF-8 when the messages are, and when the recorded messages fit the
  budget all non-empty ones are kept whole and in order.
\<close>

lemma normalize_errors_bounded:
  "text_bytes (normalize_errors errors) \<le> 16384
   \<and> (\<forall>e \<in> set (normalize_errors errors). e \<noteq> [] \<and> (\<exists>m \<in> set errors. \<exists>rest. m = e @ rest))
   \<and> ((\<forall>m \<in> set errors. valid_utf8 m) \<longrightarrow> (\<forall>e \<in> set (normalize_errors errors). valid_utf8 e))
   \<and> (text_bytes errors \<le> 16384 \<longrightarrow> normalize_errors errors = filter (\<lambda>m. m \<noteq> []) errors)"
proof -
  have M: "16384 = MAX_ERROR_BYTES" by (simp add: MAX_ERROR_BYTES_def)
  show ?thesis
    using normalize_loop_bytes [of 0 errors] normalize_loop_nonempty [of _ 0 errors]
      normalize_loop_prefix [of _ 0 errors] normalize_loop_fits [of 0 errors]
      normalize_loop_valid [of errors 0]
    unfolding normalize_errors_def M add_0 by blast
qed


end
