(* ===== verification/Ordered_Map.thy ===== *)
theory Ordered_Map
  imports Prelude
begin

text \<open>
  \<open>std::collections::BTreeMap\<close>, as far as the code uses it: look up a key, update or create the
  entry of a key, remove one, and iterate in key order. The locale states what a client relies
  on; the association list sorted by key provides it.
\<close>

locale ordered_map =
  fixes look :: "'m \<Rightarrow> 'k::linorder \<Rightarrow> 'v option"
    and adjust :: "'k \<Rightarrow> ('v option \<Rightarrow> 'v) \<Rightarrow> 'm \<Rightarrow> 'm"
    and entries :: "'m \<Rightarrow> ('k \<times> 'v) list"
    and valid :: "'m \<Rightarrow> bool"
  assumes look_adjust: "valid m \<Longrightarrow> look (adjust k f m) j = (if j = k then Some (f (look m k)) else look m j)"
    and valid_adjust: "valid m \<Longrightarrow> valid (adjust k f m)"
    and entries_sorted: "valid m \<Longrightarrow> sorted_wrt (<) (map fst (entries m))"
    and entries_look: "valid m \<Longrightarrow> (k, v) \<in> set (entries m) \<longleftrightarrow> look m k = Some v"
begin

lemma keys_distinct: "valid m \<Longrightarrow> distinct (map fst (entries m))"
  using entries_sorted strict_sorted_iff by blast

lemma keys_set: "valid m \<Longrightarrow> set (map fst (entries m)) = {k. look m k \<noteq> None}"
  using entries_look by force

lemma count_entries: "valid m \<Longrightarrow> length (entries m) = card {k. look m k \<noteq> None}"
  using distinct_card [OF keys_distinct] keys_set by (metis length_map)

lemma finite_keys: "valid m \<Longrightarrow> finite {k. look m k \<noteq> None}"
  using keys_set by (metis finite_set)

lemma count_adjust:
  assumes "valid m"
  shows "length (entries (adjust k f m)) = length (entries m) + (if look m k = None then 1 else 0)"
proof -
  have "{j. look (adjust k f m) j \<noteq> None} = insert k {j. look m j \<noteq> None}"
    using look_adjust [OF assms] by auto
  then have "length (entries (adjust k f m)) = card (insert k {j. look m j \<noteq> None})"
    by (simp only: count_entries [OF valid_adjust [OF assms]])
  also have "\<dots> = (if look m k = None then Suc (card {j. look m j \<noteq> None}) else card {j. look m j \<noteq> None})"
    by (simp only: card_insert_if [OF finite_keys [OF assms]]) auto
  finally show ?thesis by (simp only: count_entries [OF assms]) simp
qed

lemma entries_adjust:
  assumes "valid m" and "(j, v) \<in> set (entries (adjust k f m))"
  shows "j = k \<and> v = f (look m k) \<or> (j, v) \<in> set (entries m)"
  using assms entries_look [OF valid_adjust [OF assms(1)]] entries_look [OF assms(1)]
  by (auto simp: look_adjust split: if_splits)

end

type_synonym ('k, 'v) btree = "('k \<times> 'v) list"

fun bt_get :: "('k, 'v) btree \<Rightarrow> 'k \<Rightarrow> 'v option" where
  "bt_get [] k = None"
| "bt_get ((j, v) # m) k = (if j = k then Some v else bt_get m k)"

fun bt_adjust :: "'k::linorder \<Rightarrow> ('v option \<Rightarrow> 'v) \<Rightarrow> ('k, 'v) btree \<Rightarrow> ('k, 'v) btree" where
  "bt_adjust k f [] = [(k, f None)]"
| "bt_adjust k f ((j, v) # m) =
     (if k < j then (k, f None) # (j, v) # m
      else if k = j then (k, f (Some v)) # m
      else (j, v) # bt_adjust k f m)"

definition bt_insert :: "'k::linorder \<Rightarrow> 'v \<Rightarrow> ('k, 'v) btree \<Rightarrow> ('k, 'v) btree" where
  "bt_insert k v = bt_adjust k (\<lambda>_. v)"

definition bt_remove :: "'k \<Rightarrow> ('k, 'v) btree \<Rightarrow> ('k, 'v) btree" where
  "bt_remove k m = filter (\<lambda>e. fst e \<noteq> k) m"

definition bt_valid :: "('k::linorder, 'v) btree \<Rightarrow> bool" where
  "bt_valid m \<longleftrightarrow> sorted_wrt (<) (map fst m)"

lemma bt_valid_Nil [simp]: "bt_valid []"
  by (simp add: bt_valid_def)

lemma bt_get_None: "bt_get m k = None \<longleftrightarrow> k \<notin> fst ` set m"
  by (induction m k rule: bt_get.induct) simp_all

lemma bt_adjust_keys: "fst ` set (bt_adjust k f m) = insert k (fst ` set m)"
  by (induction k f m rule: bt_adjust.induct) (simp_all add: insert_commute)

lemma bt_valid_adjust: "bt_valid m \<Longrightarrow> bt_valid (bt_adjust k f m)"
proof (induction m)
  case (Cons e m)
  then have e: "\<forall>x \<in> fst ` set m. fst e < x" "bt_valid m" by (auto simp: bt_valid_def)
  then have "\<forall>x \<in> fst ` set (bt_adjust k f m). \<not> k < fst e \<longrightarrow> k \<noteq> fst e \<longrightarrow> fst e < x"
    by (simp add: bt_adjust_keys) auto
  with Cons.IH e show ?case by (cases e) (auto simp: bt_valid_def)
qed (simp add: bt_valid_def)

lemma bt_get_adjust:
  "bt_valid m \<Longrightarrow> bt_get (bt_adjust k f m) j = (if j = k then Some (f (bt_get m k)) else bt_get m j)"
proof (induction m)
  case (Cons e m)
  then have "\<forall>x \<in> fst ` set m. fst e < x" "bt_valid m" by (auto simp: bt_valid_def)
  moreover have "k < fst e \<Longrightarrow> bt_get m k = None"
    using calculation by (auto simp: bt_get_None)
  ultimately show ?case using Cons.IH by (cases e) auto
qed simp

lemma bt_get_entry: "bt_valid m \<Longrightarrow> (k, v) \<in> set m \<longleftrightarrow> bt_get m k = Some v"
proof (induction m)
  case (Cons e m)
  then have "\<forall>x \<in> fst ` set m. fst e < x" "bt_valid m" by (auto simp: bt_valid_def)
  with Cons.IH show ?case by (cases e) force
qed simp

interpretation bt: ordered_map bt_get bt_adjust "\<lambda>m. m" bt_valid
proof
  fix m :: "('a, 'b) btree"
  show "sorted_wrt (<) (map fst m)" if "bt_valid m"
    using that by (simp add: bt_valid_def)
qed (simp_all add: bt_get_adjust bt_valid_adjust bt_get_entry)

lemma bt_valid_remove: "bt_valid m \<Longrightarrow> bt_valid (bt_remove k m)"
  by (induction m) (auto simp: bt_valid_def bt_remove_def)

lemma bt_get_remove: "bt_get (bt_remove k m) j = (if j = k then None else bt_get m j)"
  by (induction m) (auto simp: bt_remove_def)

end
