(* ===== verification/Trace_Stats.thy ===== *)
theory Trace_Stats
  imports Path_Io Ordered_Map
begin

text \<open>
  \<open>crates/path-trace/src/aggregate.rs\<close>: the running statistics of a hop and of each of its
  responders, and the bounded retention of responders and MPLS stacks.

  The counters are \<open>u32\<close> and are incremented with wrap-around, so the lemmas about them carry the
  number of samples; \<open>count_ok n\<close> says that \<open>n\<close> samples are fewer than \<open>2 ^ 32\<close>.
\<close>

section \<open>Moments\<close>

record moments =
  mo_sent :: u32
  mo_received :: u32
  mo_cancelled :: u32
  mo_mean :: f64
  mo_m2 :: f64
  mo_last :: "f64 option"
  mo_best :: "f64 option"
  mo_worst :: "f64 option"

definition Moments_default :: moments where
  "Moments_default = \<lparr>mo_sent = 0, mo_received = 0, mo_cancelled = 0, mo_mean = Fin 0,
     mo_m2 = Fin 0, mo_last = None, mo_best = None, mo_worst = None\<rparr>"

definition f_map_or :: "(f64 \<Rightarrow> f64 \<Rightarrow> f64) \<Rightarrow> f64 option \<Rightarrow> f64 \<Rightarrow> f64" where
  "f_map_or f old v = (case old of None \<Rightarrow> v | Some o' \<Rightarrow> f o' v)"

definition moments_record :: "sample \<Rightarrow> moments \<Rightarrow> moments" where
  "moments_record s m =
     (let m = m\<lparr>mo_sent := mo_sent m + 1\<rparr>;
          m = (if sm_status s = Sample_Cancelled then m\<lparr>mo_cancelled := mo_cancelled m + 1\<rparr> else m)
      in case sm_elapsed_ms s of
           Some v \<Rightarrow>
             if sm_status s \<noteq> Sample_Cancelled then
               (let received = mo_received m + 1;
                    delta = f_sub v (mo_mean m);
                    mean = f_add (mo_mean m) (f_div delta (f_of_nat (unat received)))
                in m\<lparr>mo_received := received, mo_mean := mean,
                     mo_m2 := f_add (mo_m2 m) (f_mul delta (f_sub v mean)),
                     mo_last := Some v,
                     mo_best := Some (f_map_or f_min (mo_best m) v),
                     mo_worst := Some (f_map_or f_max (mo_worst m) v)\<rparr>)
             else m
         | None \<Rightarrow> m)"

definition moments_finish :: "moments \<Rightarrow> statistics" where
  "moments_finish m =
     (let finalized = mo_sent m - mo_cancelled m in
      \<lparr>st_sent = mo_sent m, st_received = mo_received m, st_cancelled = mo_cancelled m,
       st_loss_percent = (if finalized = 0 then Fin 0
         else f_div (f_mul (Fin 100) (f_of_nat (unat (finalized - mo_received m))))
                (f_of_nat (unat finalized))),
       st_last_ms = mo_last m,
       st_average_ms = (if 0 < mo_received m then Some (mo_mean m) else None),
       st_best_ms = mo_best m,
       st_worst_ms = mo_worst m,
       st_stddev_ms = (if 0 < mo_received m
         then Some (f_sqrt (f_div (f_max (mo_m2 m) (Fin 0)) (f_of_nat (unat (mo_received m)))))
         else None)\<rparr>)"

section \<open>A hop\<close>

record hop_accumulator =
  ha_totals :: moments
  ha_responders :: "(ip_addr, moments) btree"
  ha_stacks :: "mpls_label list list"
  ha_limited :: bool

definition HopAccumulator_default :: hop_accumulator where
  "HopAccumulator_default =
     \<lparr>ha_totals = Moments_default, ha_responders = [], ha_stacks = [], ha_limited = False\<rparr>"

definition or_default :: "(moments \<Rightarrow> moments) \<Rightarrow> moments option \<Rightarrow> moments" where
  "or_default f old = f (case old of None \<Rightarrow> Moments_default | Some m \<Rightarrow> m)"

definition record_responder :: "sample \<Rightarrow> hop_accumulator \<Rightarrow> hop_accumulator" where
  "record_responder s a = (case sm_hop s of
     None \<Rightarrow> a
   | Some address \<Rightarrow>
       if length (ha_responders a) < 64 \<or> bt_get (ha_responders a) address \<noteq> None
       then a\<lparr>ha_responders := bt_adjust address (or_default (moments_record s)) (ha_responders a)\<rparr>
       else a\<lparr>ha_limited := True\<rparr>)"

definition record_stack :: "sample \<Rightarrow> hop_accumulator \<Rightarrow> hop_accumulator" where
  "record_stack s a =
     (if sm_mpls s \<noteq> [] \<and> sm_mpls s \<notin> set (ha_stacks a) then
        if length (ha_stacks a) < 64 then a\<lparr>ha_stacks := ha_stacks a @ [sm_mpls s]\<rparr>
        else a\<lparr>ha_limited := True\<rparr>
      else a)"

definition hop_record :: "hop_accumulator \<Rightarrow> sample \<Rightarrow> hop_accumulator" where
  "hop_record a s = record_stack s (record_responder s
     (a\<lparr>ha_totals := moments_record s (ha_totals a)\<rparr>))"

record trace_responder =
  tr_address :: ip_addr
  tr_statistics :: statistics

record trace_hop =
  th_ttl :: u8
  th_address :: "ip_addr option"
  th_hostname :: "bytes option"
  th_asn :: "bytes option"
  th_mpls :: "mpls_label list"
  th_mpls_stacks :: "mpls_label list list"
  th_responders :: "trace_responder list"
  th_statistics :: statistics

definition dominant_step ::
  "(ip_addr \<times> u32) option \<Rightarrow> ip_addr \<times> moments \<Rightarrow> (ip_addr \<times> u32) option" where
  "dominant_step best e = (case best of
     Some (_, count) \<Rightarrow> if mo_sent (snd e) \<le> count then best else Some (fst e, mo_sent (snd e))
   | None \<Rightarrow> Some (fst e, mo_sent (snd e)))"

definition hop_finish :: "hop_accumulator \<Rightarrow> u8 \<Rightarrow> trace_hop option" where
  "hop_finish a ttl =
     (if mo_sent (ha_totals a) = 0 then None
      else Some \<lparr>th_ttl = ttl,
        th_address = map_option fst (foldl dominant_step None (ha_responders a)),
        th_hostname = None, th_asn = None,
        th_mpls = concat (ha_stacks a), th_mpls_stacks = ha_stacks a,
        th_responders = map (\<lambda>e. \<lparr>tr_address = fst e, tr_statistics = moments_finish (snd e)\<rparr>)
          (ha_responders a),
        th_statistics = moments_finish (ha_totals a)\<rparr>)"

section \<open>The counters\<close>

definition count_ok :: "nat \<Rightarrow> bool" where
  "count_ok n \<longleftrightarrow> n < 2 ^ 32"

text \<open>The moments of the samples \<open>ss\<close>, in the terms \<open>from_samples\<close> uses.\<close>

definition moments_of :: "sample list \<Rightarrow> moments \<Rightarrow> bool" where
  "moments_of ss m \<longleftrightarrow>
     mo_sent m = word_of_nat (length ss)
   \<and> mo_received m = word_of_nat (length (List.map_filter counted ss))
   \<and> mo_cancelled m = word_of_nat (length (filter (\<lambda>s. sm_status s = Sample_Cancelled) ss))
   \<and> mo_last m = (if List.map_filter counted ss = [] then None
        else Some (last (List.map_filter counted ss)))
   \<and> mo_best m = f_reduce f_min (List.map_filter counted ss)
   \<and> mo_worst m = f_reduce f_max (List.map_filter counted ss)"

lemma map_filter_append: "List.map_filter f (xs @ ys) = List.map_filter f xs @ List.map_filter f ys"
  by (simp add: List.map_filter_def)

lemma map_filter_single: "List.map_filter f [x] = (case f x of None \<Rightarrow> [] | Some y \<Rightarrow> [y])"
  by (simp add: List.map_filter_def split: option.split)

lemma f_reduce_snoc: "f_reduce f (xs @ [v]) = Some (f_map_or f (f_reduce f xs) v)"
  by (cases xs) (simp_all add: f_reduce_def f_map_or_def)

lemma moments_of_default [simp]: "moments_of [] Moments_default"
  by (simp add: moments_of_def Moments_default_def f_reduce_def List.map_filter_def)

lemma moments_of_record: "moments_of ss m \<Longrightarrow> moments_of (ss @ [s]) (moments_record s m)"
  by (cases "sm_status s = Sample_Cancelled"; cases "sm_elapsed_ms s")
    (simp_all add: moments_of_def moments_record_def map_filter_append map_filter_single counted_def
      f_reduce_snoc Let_def add.commute)

lemma counted_split:
  "length (List.map_filter counted ss)
    + length (filter (\<lambda>s. sm_status s = Sample_Cancelled) ss) \<le> length ss"
  by (induction ss) (auto simp: List.map_filter_simps counted_def split: option.split)

lemma moments_counts:
  assumes "moments_of ss m" and "count_ok (length ss)"
  shows "unat (mo_sent m) = length ss"
    and "unat (mo_received m) = length (List.map_filter counted ss)"
    and "unat (mo_cancelled m) = length (filter (\<lambda>s. sm_status s = Sample_Cancelled) ss)"
    and "unat (mo_received m) + unat (mo_cancelled m) \<le> unat (mo_sent m)"
proof -
  have "n \<le> length ss \<Longrightarrow> unat (word_of_nat n :: u32) = n" for n
    using assms(2) by (simp only: unat_of_nat) (simp add: count_ok_def)
  then show "unat (mo_sent m) = length ss"
    "unat (mo_received m) = length (List.map_filter counted ss)"
    "unat (mo_cancelled m) = length (filter (\<lambda>s. sm_status s = Sample_Cancelled) ss)"
    using assms(1) counted_split [of ss] by (auto simp: moments_of_def)
  then show "unat (mo_received m) + unat (mo_cancelled m) \<le> unat (mo_sent m)"
    using counted_split [of ss] by simp
qed

section \<open>What an accumulator knows of its samples\<close>

definition at_hop :: "ip_addr \<Rightarrow> sample list \<Rightarrow> sample list" where
  "at_hop k ss = filter (\<lambda>s. sm_hop s = Some k) ss"

definition responders_inv :: "sample list \<Rightarrow> hop_accumulator \<Rightarrow> bool" where
  "responders_inv ss a \<longleftrightarrow> bt_valid (ha_responders a) \<and> length (ha_responders a) \<le> 64
     \<and> (\<forall>k m. bt_get (ha_responders a) k = Some m \<longrightarrow> at_hop k ss \<noteq> [] \<and> moments_of (at_hop k ss) m)
     \<and> (\<forall>k. bt_get (ha_responders a) k = None \<longrightarrow> at_hop k ss \<noteq> [] \<longrightarrow>
          ha_limited a \<and> length (ha_responders a) = 64)"

definition stacks_inv :: "sample list \<Rightarrow> hop_accumulator \<Rightarrow> bool" where
  "stacks_inv ss a \<longleftrightarrow> distinct (ha_stacks a) \<and> length (ha_stacks a) \<le> 64
     \<and> set (ha_stacks a) \<subseteq> sm_mpls ` set ss - {[]}
     \<and> (sm_mpls ` set ss - {[]} \<subseteq> set (ha_stacks a)
        \<or> ha_limited a \<and> length (ha_stacks a) = 64)"

definition hop_inv :: "sample list \<Rightarrow> hop_accumulator \<Rightarrow> bool" where
  "hop_inv ss a \<longleftrightarrow> moments_of ss (ha_totals a) \<and> responders_inv ss a \<and> stacks_inv ss a
     \<and> (ha_limited a \<longrightarrow> length (ha_responders a) = 64 \<or> length (ha_stacks a) = 64)"

lemma at_hop_snoc: "at_hop k (ss @ [s]) = at_hop k ss @ (if sm_hop s = Some k then [s] else [])"
  by (simp add: at_hop_def)

lemma moments_or_default:
  assumes "case bt_get m k of Some x \<Rightarrow> moments_of ss x | None \<Rightarrow> ss = []"
  shows "moments_of (ss @ [s]) (or_default (moments_record s) (bt_get m k))"
  using assms moments_of_record [of "[]" Moments_default s] moments_of_record [of ss _ s]
  by (auto simp: or_default_def split: option.splits)

lemma record_responder_fields [simp]:
  "ha_totals (record_responder s a) = ha_totals a"
  "ha_stacks (record_responder s a) = ha_stacks a"
  by (simp_all add: record_responder_def split: option.split)

lemma record_stack_fields [simp]:
  "ha_totals (record_stack s a) = ha_totals a"
  "ha_responders (record_stack s a) = ha_responders a"
  by (simp_all add: record_stack_def)

lemma limited_grows:
  "ha_limited a \<Longrightarrow> ha_limited (record_responder s a)"
  "ha_limited a \<Longrightarrow> ha_limited (record_stack s a)"
  by (simp_all add: record_responder_def record_stack_def split: option.split)

lemma responders_inv_record:
  assumes "responders_inv ss a"
  shows "responders_inv (ss @ [s]) (record_responder s a)"
proof (cases "sm_hop s")
  case None
  then show ?thesis using assms by (simp add: responders_inv_def record_responder_def at_hop_snoc)
next
  case (Some k)
  have v: "bt_valid (ha_responders a)" using assms by (simp add: responders_inv_def)
  show ?thesis
  proof (cases "length (ha_responders a) < 64 \<or> bt_get (ha_responders a) k \<noteq> None")
    case True
    let ?r = "bt_adjust k (or_default (moments_record s)) (ha_responders a)"
    have rec: "record_responder s a = a\<lparr>ha_responders := ?r\<rparr>"
      using Some True by (simp add: record_responder_def)
    have "length ?r \<le> 64 \<and> (length (ha_responders a) = 64 \<longrightarrow> length ?r = 64)"
      using True assms by (auto simp: bt.count_adjust [OF v] responders_inv_def)
    moreover have "moments_of (at_hop k (ss @ [s])) (or_default (moments_record s) (bt_get (ha_responders a) k))"
      unfolding at_hop_snoc using Some assms True
      by (auto simp: responders_inv_def intro!: moments_or_default split: option.splits)
    ultimately show ?thesis
      using assms Some v
      by (auto simp: rec responders_inv_def bt.look_adjust bt.valid_adjust at_hop_snoc
          split: option.splits)
  next
    case False
    then show ?thesis
      using assms Some by (auto simp: responders_inv_def record_responder_def at_hop_snoc
          split: option.splits)
  qed
qed

lemma stacks_inv_record:
  assumes "stacks_inv ss a"
  shows "stacks_inv (ss @ [s]) (record_stack s a)"
  using assms by (auto simp: stacks_inv_def record_stack_def)

lemma responders_inv_other:
  assumes "responders_inv ss a" and "ha_responders b = ha_responders a" and "ha_limited a \<longrightarrow> ha_limited b"
  shows "responders_inv ss b"
  using assms by (auto simp: responders_inv_def split: option.splits)

lemma stacks_inv_other:
  assumes "stacks_inv ss a" and "ha_stacks b = ha_stacks a" and "ha_limited a \<longrightarrow> ha_limited b"
  shows "stacks_inv ss b"
  using assms by (auto simp: stacks_inv_def)

lemma limited_cause:
  assumes "ha_limited a \<longrightarrow> length (ha_responders a) = 64 \<or> length (ha_stacks a) = 64"
    and "responders_inv ss a" and "stacks_inv ss a"
  shows "ha_limited (record_stack s (record_responder s a)) \<longrightarrow>
    length (ha_responders (record_stack s (record_responder s a))) = 64
    \<or> length (ha_stacks (record_stack s (record_responder s a))) = 64"
proof -
  have v: "bt_valid (ha_responders a)" "length (ha_responders a) \<le> 64" "length (ha_stacks a) \<le> 64"
    using assms by (simp_all add: responders_inv_def stacks_inv_def)
  have "length (ha_responders a) = 64 \<longrightarrow> length (ha_responders (record_responder s a)) = 64"
    by (auto simp: record_responder_def bt.count_adjust [OF v(1)] split: option.splits)
  moreover have "ha_limited (record_responder s a) \<longrightarrow> ha_limited a \<or> length (ha_responders (record_responder s a)) = 64"
    using v by (auto simp: record_responder_def split: option.splits)
  ultimately show ?thesis
    using assms(1) v by (auto simp: record_stack_def)
qed

lemma hop_inv_record:
  assumes "hop_inv ss a"
  shows "hop_inv (ss @ [s]) (hop_record a s)"
proof -
  let ?a = "a\<lparr>ha_totals := moments_record s (ha_totals a)\<rparr>"
  have r: "responders_inv ss ?a" and t: "stacks_inv ss ?a"
    using assms by (auto simp: hop_inv_def intro: responders_inv_other stacks_inv_other)
  have "responders_inv (ss @ [s]) (hop_record a s)"
    unfolding hop_record_def
    by (rule responders_inv_other [OF responders_inv_record [OF r]]) (simp_all add: limited_grows)
  moreover have "stacks_inv (ss @ [s]) (hop_record a s)"
    unfolding hop_record_def
    by (rule stacks_inv_record, rule stacks_inv_other [OF t]) (simp_all add: limited_grows)
  ultimately show ?thesis
    using assms limited_cause [OF _ r t, of s] moments_of_record [of ss "ha_totals a" s]
    by (simp add: hop_inv_def) (simp add: hop_record_def)
qed

lemma hop_inv_default [simp]: "hop_inv [] HopAccumulator_default"
  by (simp add: hop_inv_def HopAccumulator_default_def responders_inv_def stacks_inv_def at_hop_def)

lemma hop_inv_samples: "hop_inv ss (foldl hop_record HopAccumulator_default ss)"
  by (induction ss rule: rev_induct) (simp_all add: hop_inv_record)

section \<open>The finished hop\<close>

lemma finish_counts:
  assumes "moments_of ss m" and "count_ok (length ss)"
  shows "st_sent (moments_finish m) = st_sent (from_samples ss)"
    and "st_received (moments_finish m) = st_received (from_samples ss)"
    and "st_cancelled (moments_finish m) = st_cancelled (from_samples ss)"
    and "st_loss_percent (moments_finish m) = st_loss_percent (from_samples ss)"
    and "st_last_ms (moments_finish m) = st_last_ms (from_samples ss)"
    and "st_best_ms (moments_finish m) = st_best_ms (from_samples ss)"
    and "st_worst_ms (moments_finish m) = st_worst_ms (from_samples ss)"
  using assms(1) f_mul_commute
  by (auto simp: moments_finish_def from_samples_def moments_of_def Let_def loss_def unat_eq_zero)

lemma finish_loss:
  assumes "moments_of ss m" and "count_ok (length ss)"
  obtains v where "st_loss_percent (moments_finish m) = Fin v" and "0 \<le> v" and "v \<le> 100"
proof (cases "mo_sent m - mo_cancelled m = 0")
  case True
  with that [of 0] show thesis by (simp add: moments_finish_def)
next
  case False
  have le: "mo_cancelled m \<le> mo_sent m" "mo_received m \<le> mo_sent m - mo_cancelled m"
    using moments_counts [OF assms] by (simp_all add: word_le_nat_alt unat_sub)
  have "unat (mo_sent m - mo_cancelled m - mo_received m) \<le> unat (mo_sent m - mo_cancelled m)"
    using le(2) by (simp add: unat_sub)
  moreover have "0 < unat (mo_sent m - mo_cancelled m)"
    using False by (simp add: unat_gt_0)
  moreover have "unat (mo_sent m - mo_cancelled m) < 2 ^ 32"
    using unat_less_exp [of "mo_sent m - mo_cancelled m"] by simp
  ultimately show thesis
    using that False by (rule_tac percentage) (simp_all add: moments_finish_def Let_def)
qed

lemma dominant_step_simps [simp]:
  "dominant_step None (k, m) = Some (k, mo_sent m)"
  "dominant_step (Some (j, c)) (k, m) =
     (if mo_sent m \<le> c then Some (j, c) else Some (k, mo_sent m))"
  by (simp_all add: dominant_step_def)

lemma dominant_fold:
  assumes "sorted_wrt (<) (map fst es)"
  shows "case foldl dominant_step None es of
      None \<Rightarrow> es = []
    | Some (k, c) \<Rightarrow> (\<exists>m. (k, m) \<in> set es \<and> mo_sent m = c)
        \<and> (\<forall>(j, m) \<in> set es. mo_sent m < c \<or> mo_sent m = c \<and> k \<le> j)"
  using assms
proof (induction es rule: rev_induct)
  case (snoc e es)
  then have s: "sorted_wrt (<) (map fst es)" "\<forall>x \<in> set es. fst x < fst e"
    by (auto simp: sorted_wrt_append)
  show ?case
  proof (cases "foldl dominant_step None es")
    case None
    then show ?thesis using snoc.IH [OF s(1)] by (cases e) simp
  next
    case (Some b)
    then show ?thesis
      using snoc.IH [OF s(1)] s(2)
      by (cases b; cases e) (fastforce simp: not_le)
  qed
qed simp

lemma finish_Some:
  assumes "ss \<noteq> []" and "count_ok (length ss)" and "hop_inv ss a"
  obtains h where "hop_finish a ttl = Some h"
proof -
  have "moments_of ss (ha_totals a)" using assms by (simp add: hop_inv_def)
  then have "mo_sent (ha_totals a) \<noteq> 0"
    using moments_counts(1) [OF _ assms(2)] assms(1) by fastforce
  then show thesis using that by (simp add: hop_finish_def)
qed

definition sample_at :: "nat \<Rightarrow> u32 \<Rightarrow> rat \<Rightarrow> sample" where
  "sample_at n address ms = \<lparr>sm_sequence = word_of_nat n, sm_hop = Some (V4 address),
     sm_elapsed_ms = Some (Fin ms), sm_status = Sample_Time_Exceeded, sm_next_hop_mtu = None,
     sm_mpls = []\<rparr>"

text \<open>
  C11. A finished hop keeps at most 64 responders and 64 label stacks. What it keeps is exact: a
  responder's statistics count all samples of that address, wherever they came in the run. The
  address it reports is the responder with the most samples, the lowest address among equals; and
  when the \<open>limited\<close> flag is clear, no responder and no label stack was left out.
\<close>

theorem hop_responders_exact:
  assumes "ss \<noteq> []" and "length ss < 2 ^ 32"
  defines "a \<equiv> foldl hop_record HopAccumulator_default ss"
  shows "\<exists>h. hop_finish a ttl = Some h
    \<and> length (th_responders h) \<le> 64 \<and> length (th_mpls_stacks h) \<le> 64
    \<and> (\<forall>r \<in> set (th_responders h).
         let own = filter (\<lambda>s. sm_hop s = Some (tr_address r)) ss in
         own \<noteq> [] \<and> st_sent (tr_statistics r) = st_sent (from_samples own)
         \<and> st_received (tr_statistics r) = st_received (from_samples own)
         \<and> unat (st_sent (tr_statistics r)) = length own)
    \<and> (case th_address h of
         None \<Rightarrow> th_responders h = []
       | Some k \<Rightarrow> \<exists>r \<in> set (th_responders h). tr_address r = k
           \<and> (\<forall>q \<in> set (th_responders h).
                st_sent (tr_statistics q) < st_sent (tr_statistics r)
                \<or> st_sent (tr_statistics q) = st_sent (tr_statistics r) \<and> k \<le> tr_address q))
    \<and> (\<not> ha_limited a \<longrightarrow>
         tr_address ` set (th_responders h) = {k. \<exists>s \<in> set ss. sm_hop s = Some k}
         \<and> set (th_mpls_stacks h) = sm_mpls ` set ss - {[]})"
proof -
  have ok: "count_ok (length ss)" using assms(2) by (simp add: count_ok_def)
  have inv: "hop_inv ss a" unfolding a_def by (rule hop_inv_samples)
  then have r: "responders_inv ss a" and t: "stacks_inv ss a" by (simp_all add: hop_inv_def)
  from r have v: "bt_valid (ha_responders a)" by (simp add: responders_inv_def)
  obtain h where h: "hop_finish a ttl = Some h" using finish_Some [OF assms(1) ok inv] .
  then have fields: "th_responders h = map (\<lambda>e. \<lparr>tr_address = fst e, tr_statistics = moments_finish (snd e)\<rparr>)
      (ha_responders a)" "th_mpls_stacks h = ha_stacks a"
      "th_address h = map_option fst (foldl dominant_step None (ha_responders a))"
    by (auto simp: hop_finish_def split: if_splits)
  have sent: "st_sent (moments_finish m) = mo_sent m" for m
    by (simp add: moments_finish_def Let_def)
  have own: "filter (\<lambda>s. sm_hop s = Some k) ss \<noteq> [] \<and> moments_of (filter (\<lambda>s. sm_hop s = Some k) ss) m"
    if "(k, m) \<in> set (ha_responders a)" for k m
    using that r by (auto simp: responders_inv_def bt.entries_look at_hop_def)
  have few: "count_ok (length (filter P ss))" for P
    using ok le_less_trans [OF length_filter_le [of P ss]] by (simp only: count_ok_def)
  have own': "filter (\<lambda>s. sm_hop s = Some k) ss \<noteq> []
      \<and> mo_sent m = st_sent (from_samples (filter (\<lambda>s. sm_hop s = Some k) ss))
      \<and> st_received (moments_finish m) = st_received (from_samples (filter (\<lambda>s. sm_hop s = Some k) ss))
      \<and> unat (mo_sent m) = length (filter (\<lambda>s. sm_hop s = Some k) ss)"
    if "(k, m) \<in> set (ha_responders a)" for k m
  proof -
    note own [OF that]
    moreover from this have "moments_of (filter (\<lambda>s. sm_hop s = Some k) ss) m" by blast
    note finish_counts(1,2) [OF this few] moments_counts(1) [OF this few]
    ultimately show ?thesis unfolding sent by metis
  qed
  have 1: "\<forall>r \<in> set (th_responders h).
      let own = filter (\<lambda>s. sm_hop s = Some (tr_address r)) ss in
      own \<noteq> [] \<and> st_sent (tr_statistics r) = st_sent (from_samples own)
      \<and> st_received (tr_statistics r) = st_received (from_samples own)
      \<and> unat (st_sent (tr_statistics r)) = length own"
    using own' by (force simp: fields Let_def sent)
  have 2: "case th_address h of
         None \<Rightarrow> th_responders h = []
       | Some k \<Rightarrow> \<exists>r \<in> set (th_responders h). tr_address r = k
           \<and> (\<forall>q \<in> set (th_responders h).
                st_sent (tr_statistics q) < st_sent (tr_statistics r)
                \<or> st_sent (tr_statistics q) = st_sent (tr_statistics r) \<and> k \<le> tr_address q)"
    using dominant_fold [OF bt.entries_sorted [OF v]]
    by (cases "foldl dominant_step None (ha_responders a)") (force simp: fields sent)+
  have 3: "tr_address ` set (th_responders h) = {k. \<exists>s \<in> set ss. sm_hop s = Some k}"
    if "\<not> ha_limited a"
  proof -
    have "fst ` set (ha_responders a) = {k. at_hop k ss \<noteq> []}"
      using that r bt.keys_set [OF v] by (auto simp: responders_inv_def)
    then show ?thesis by (simp add: fields image_image at_hop_def filter_empty_conv)
  qed
  show ?thesis
    using h r t 1 2 3 by (auto simp: fields(2) responders_inv_def stacks_inv_def fields(1))
qed

theorem hop_responders_exact_witness:
  "\<exists>h. hop_finish (foldl hop_record HopAccumulator_default
      [sample_at 0 9 2, sample_at 1 7 4]) 5 = Some h
    \<and> length (th_responders h) \<le> 64 \<and> (\<exists>r \<in> set (th_responders h). th_address h = Some (tr_address r))"
proof -
  have "hop_finish (foldl hop_record HopAccumulator_default [sample_at 0 9 2, sample_at 1 7 4]) 5 = Some h
      \<Longrightarrow> th_responders h \<noteq> []" for h
    by (auto simp: hop_finish_def hop_record_def record_responder_def record_stack_def
        HopAccumulator_default_def sample_at_def split: if_splits)
  then show ?thesis
    using hop_responders_exact [of "[sample_at 0 9 2, sample_at 1 7 4]" 5]
    by (fastforce split: option.splits)
qed

end
