(* ===== verification/Trace_Run.thy ===== *)
theory Trace_Run
  imports Trace_Cadence Trace_Errors Trace_Stats
begin

text \<open>
  \<open>crates/path-trace/src/lib.rs\<close>, \<open>execute_run\<close>: the run loop as a state machine.

  One event is one branch of the loop's \<open>select!\<close>, or one result of the drain loop after it. The
  state is the local variables of the function; \<open>rs_tasks\<close> is the join set, the cycle and TTL of
  every probe still out. \<open>step\<close> is the body of the branch: \<open>Err ()\<close> says that the branch is
  disabled, \<open>Panic\<close> that the code would panic. The events carry what comes from outside: the
  results of the probes, the text of a join error, the clock at a dispatch. The \<open>biased\<close> order of
  the branches only removes behaviours, so every run of the code is a run of the model.
\<close>

section \<open>State\<close>

datatype trace_run_status = Run_Completed | Run_Partial_Failure | Run_Timed_Out | Run_Cancelled

datatype run_phase = Running | Draining | Finished

record run_state =
  rs_cadence :: cadence
  rs_pending :: "u16 list"
  rs_completed :: u16
  rs_tasks :: "(u16 \<times> u8) list"
  rs_bound :: "u8 option"
  rs_known :: "bool list"
  rs_had_ok :: "bool list"
  rs_streak :: u8
  rs_errors :: "bytes list"
  rs_hops :: "hop_accumulator list"
  rs_status :: trace_run_status
  rs_grace :: "instant option"
  rs_grace_expired :: bool
  rs_phase :: run_phase

datatype trace_event =
    Cancel_Fired
  | Deadline_Fired
  | Grace_Fired
  | Task_Done nat "probe_error + hop_result"
  | Task_Lost nat bytes
  | Dispatch instant
  | Drain_Deadline
  | Drained

definition MAX_OUTSTANDING_PROBES :: nat where "MAX_OUTSTANDING_PROBES = 512"
definition FINAL_REPLY_GRACE :: duration where "FINAL_REPLY_GRACE = from_secs 5"
definition MAX_FAILED_CYCLES :: u8 where "MAX_FAILED_CYCLES = 3"

definition initial_run :: "instant \<Rightarrow> trace_settings \<Rightarrow> run_state" where
  "initial_run started s =
     \<lparr>rs_cadence = Cadence_new started (ts_interval s) (ts_first_ttl s) (ts_max_hops s),
      rs_pending = replicate (unat (ts_cycles s)) 0, rs_completed = 0, rs_tasks = [],
      rs_bound = None, rs_known = replicate (unat (ts_max_hops s) + 1) False,
      rs_had_ok = replicate (unat (ts_cycles s)) False, rs_streak = 0, rs_errors = [],
      rs_hops = replicate (unat (ts_max_hops s) + 1) HopAccumulator_default,
      rs_status = Run_Completed, rs_grace = None, rs_grace_expired = False, rs_phase = Running\<rparr>"

section \<open>One result\<close>

definition cycle_error_text :: "u16 \<Rightarrow> u8 \<Rightarrow> probe_error \<Rightarrow> (bytes, 'e) outcome" where
  "cycle_error_text cycle ttl e = and_then (word_add cycle 1) (\<lambda>n.
     Ok (lit ''cycle '' @ decimal (unat n) @ lit '' TTL '' @ decimal (unat ttl) @ lit '': ''
         @ probe_error_text e))"

definition count_result :: "u16 \<Rightarrow> run_state \<Rightarrow> (run_state \<times> bool, 'e) outcome" where
  "count_result cycle st =
     and_then (update_at (rs_pending st) (unat cycle) (\<lambda>p. word_sub p 1)) (\<lambda>pending.
       let finished = cycle < ca_cycles (rs_cadence st) \<and> pending ! unat cycle = 0 in
       and_then (if finished then word_add (rs_completed st) 1 else Ok (rs_completed st))
         (\<lambda>completed. Ok (st\<lparr>rs_pending := pending, rs_completed := completed\<rparr>, finished)))"

fun record_samples ::
  "nat \<Rightarrow> sample list \<Rightarrow> hop_accumulator list \<Rightarrow> (hop_accumulator list, 'e) outcome" where
  "record_samples ttl [] hops = Ok hops"
| "record_samples ttl (s # ss) hops =
     and_then (update_at hops ttl (\<lambda>h. Ok (hop_record h s))) (record_samples ttl ss)"

definition stop :: "trace_run_status \<Rightarrow> run_state \<Rightarrow> run_state" where
  "stop status st = st\<lparr>rs_status := status, rs_phase := Draining\<rparr>"

definition push_error :: "bytes \<Rightarrow> run_state \<Rightarrow> run_state" where
  "push_error e st = st\<lparr>rs_errors := rs_errors st @ [e]\<rparr>"

definition add_error :: "bytes \<Rightarrow> run_state \<Rightarrow> run_state" where
  "add_error e st = st\<lparr>rs_errors := extend_errors (rs_errors st) [e]\<rparr>"

definition lower_bound :: "u8 option \<Rightarrow> u8 \<Rightarrow> u8" where
  "lower_bound old ttl = (case old of None \<Rightarrow> ttl | Some b \<Rightarrow> min b ttl)"

definition on_hop :: "u8 \<Rightarrow> hop_result \<Rightarrow> run_state \<Rightarrow> (run_state, 'e) outcome" where
  "on_hop ttl hop st =
     and_then (update_at (rs_known st) (unat ttl) (\<lambda>k. Ok (k \<or> hr_address hop \<noteq> None))) (\<lambda>known.
       let bound = (if hr_reached_destination hop then Some (lower_bound (rs_bound st) ttl)
                    else rs_bound st) in
       and_then (record_samples (unat ttl) (hr_samples hop) (rs_hops st)) (\<lambda>hops.
         Ok (st\<lparr>rs_known := known, rs_bound := bound, rs_hops := hops\<rparr>)))"

definition is_fatal :: "probe_error \<Rightarrow> bool" where
  "is_fatal e = (case e of Probe_Permission _ _ \<Rightarrow> True | Unsupported _ _ \<Rightarrow> True | _ \<Rightarrow> False)"

definition streak_text :: "probe_error \<Rightarrow> bytes" where
  "streak_text e = lit ''stopping after '' @ decimal (unat MAX_FAILED_CYCLES)
     @ lit '' cycles in which every probe failed: '' @ probe_error_text e"

definition on_error ::
  "u16 \<Rightarrow> u8 \<Rightarrow> probe_error \<Rightarrow> bool \<Rightarrow> run_state \<Rightarrow> (run_state, 'e) outcome" where
  "on_error cycle ttl e finished st =
     and_then (cycle_error_text cycle ttl e) (\<lambda>m.
       let st = add_error m st in
       if is_fatal e then Ok (stop Run_Partial_Failure st)
       else and_then (if finished then byte_at (rs_had_ok st) (unat cycle) else Ok True) (\<lambda>had_ok.
         if had_ok then Ok st
         else and_then (word_add (rs_streak st) 1) (\<lambda>streak.
           let st = st\<lparr>rs_streak := streak\<rparr> in
           if MAX_FAILED_CYCLES \<le> streak
           then Ok (stop Run_Partial_Failure (add_error (streak_text e) st))
           else Ok st)))"

definition task_result ::
  "u16 \<Rightarrow> u8 \<Rightarrow> probe_error + hop_result \<Rightarrow> run_state \<Rightarrow> (run_state, 'e) outcome" where
  "task_result cycle ttl r st =
     and_then (count_result cycle st) (\<lambda>(st, finished).
     and_then (if isl r then Ok (rs_had_ok st)
               else update_at (rs_had_ok st) (unat cycle) (\<lambda>_. Ok True)) (\<lambda>had_ok.
       let st = st\<lparr>rs_had_ok := had_ok\<rparr> in
     and_then (case r of Inr hop \<Rightarrow> on_hop ttl hop st | Inl e \<Rightarrow> on_error cycle ttl e finished st)
       (\<lambda>st. if rs_phase st \<noteq> Running then Ok st
         else and_then (if finished then byte_at had_ok (unat cycle) else Ok False) (\<lambda>reset.
           Ok (if reset then st\<lparr>rs_streak := 0\<rparr> else st)))))"

definition final_reply_deadline :: "cadence \<Rightarrow> instant" where
  "final_reply_deadline c = ca_deadline c + FINAL_REPLY_GRACE"

definition dispatch :: "trace_settings \<Rightarrow> instant \<Rightarrow> run_state \<Rightarrow> (run_state, 'e) outcome" where
  "dispatch s now st =
     (if MAX_OUTSTANDING_PROBES \<le> length (rs_tasks st) then
        Ok (stop Run_Partial_Failure (push_error
          (lit ''Native probe concurrency limit reached; remaining probes were not sent'') st))
      else let cycle = ca_cycles (rs_cadence st); ttl = ca_ttl (rs_cadence st) in
        and_then (update_at (rs_pending st) (unat cycle) (\<lambda>p. word_add p 1)) (\<lambda>pending.
        and_then (dispatched now (rs_known st) (rs_bound st) (rs_cadence st)) (\<lambda>cadence.
          Ok (st\<lparr>rs_pending := pending, rs_tasks := rs_tasks st @ [(cycle, ttl)],
              rs_cadence := cadence,
              rs_grace := if ca_cycles cadence = ts_cycles s
                then Some (final_reply_deadline cadence) else rs_grace st\<rparr>))))"

definition settle_sample :: "bool \<Rightarrow> sample \<Rightarrow> sample" where
  "settle_sample expired sm =
     (if expired \<and> sm_status sm = Sample_Cancelled
      then sm\<lparr>sm_status := Sample_Timeout, sm_elapsed_ms := None, sm_hop := None,
              sm_next_hop_mtu := None, sm_mpls := []\<rparr>
      else sm)"

definition drain_result ::
  "u16 \<Rightarrow> u8 \<Rightarrow> probe_error + hop_result \<Rightarrow> run_state \<Rightarrow> (run_state, 'e) outcome" where
  "drain_result cycle ttl r st =
     and_then (count_result cycle st) (\<lambda>(st, finished).
       case r of
         Inr hop \<Rightarrow>
           and_then (record_samples (unat ttl)
               (map (settle_sample (rs_grace_expired st)) (hr_samples hop)) (rs_hops st))
             (\<lambda>hops. Ok (st\<lparr>rs_hops := hops\<rparr>))
       | Inl e \<Rightarrow> if e = Probe_Cancelled then Ok st
           else and_then (cycle_error_text cycle ttl e) (\<lambda>m. Ok (add_error m st)))"

section \<open>The step\<close>

definition remove_at :: "nat \<Rightarrow> 'a list \<Rightarrow> 'a list" where
  "remove_at i xs = take i xs @ drop (Suc i) xs"

definition join ::
  "nat \<Rightarrow> (u16 \<Rightarrow> u8 \<Rightarrow> run_state \<Rightarrow> (run_state, unit) outcome) \<Rightarrow> run_state \<Rightarrow>
     (run_state, unit) outcome" where
  "join i f st = (case get_at (rs_tasks st) i of
     None \<Rightarrow> Err ()
   | Some (cycle, ttl) \<Rightarrow> f cycle ttl (st\<lparr>rs_tasks := remove_at i (rs_tasks st)\<rparr>))"

definition lost_text :: "bytes \<Rightarrow> bytes" where
  "lost_text m = lit ''trace probe task failed: '' @ m"

fun running_step :: "trace_settings \<Rightarrow> trace_event \<Rightarrow> run_state \<Rightarrow> (run_state, unit) outcome" where
  "running_step s Cancel_Fired st =
     Ok (stop Run_Cancelled (push_error (lit ''trace run cancelled'') st))"
| "running_step s Deadline_Fired st =
     Ok (stop Run_Timed_Out (push_error
       (lit ''trace run timed out after '' @ duration_debug (ts_run_timeout s)) st))"
| "running_step s Grace_Fired st =
     (if rs_grace st = None then Err ()
      else Ok (st\<lparr>rs_grace_expired := True, rs_phase := Draining\<rparr>))"
| "running_step s (Task_Done i r) st = join i (\<lambda>cycle ttl. task_result cycle ttl r) st"
| "running_step s (Task_Lost i m) st =
     join i (\<lambda>_ _ st. Ok (stop Run_Partial_Failure (add_error (lost_text m) st))) st"
| "running_step s (Dispatch now) st =
     (if ca_cycles (rs_cadence st) < ts_cycles s then dispatch s now st else Err ())"
| "running_step s _ st = Err ()"

fun draining_step :: "trace_event \<Rightarrow> run_state \<Rightarrow> (run_state, unit) outcome" where
  "draining_step (Task_Done i r) st = join i (\<lambda>cycle ttl. drain_result cycle ttl r) st"
| "draining_step (Task_Lost i m) st = join i (\<lambda>_ _ st. Ok (add_error (lost_text m) st)) st"
| "draining_step Drain_Deadline st =
     (if rs_tasks st = [] then Err ()
      else Ok ((push_error (lit ''Native probe shutdown deadline exceeded'') st)
             \<lparr>rs_phase := Finished\<rparr>))"
| "draining_step Drained st =
     (if rs_tasks st = [] then Ok (st\<lparr>rs_phase := Finished\<rparr>) else Err ())"
| "draining_step _ st = Err ()"

definition step :: "trace_settings \<Rightarrow> trace_event \<Rightarrow> run_state \<Rightarrow> (run_state, unit) outcome" where
  "step s ev st = (case rs_phase st of
     Running \<Rightarrow> running_step s ev st | Draining \<Rightarrow> draining_step ev st | Finished \<Rightarrow> Err ())"

fun run_events :: "trace_settings \<Rightarrow> trace_event list \<Rightarrow> run_state \<Rightarrow> (run_state, unit) outcome" where
  "run_events s [] st = Ok st"
| "run_events s (ev # evs) st = and_then (step s ev st) (run_events s evs)"

inductive reachable :: "instant \<Rightarrow> trace_settings \<Rightarrow> run_state \<Rightarrow> bool" for started s where
  start: "reachable started s (initial_run started s)"
| step: "reachable started s st \<Longrightarrow> step s ev st = Ok st' \<Longrightarrow> reachable started s st'"

lemma reachable_run:
  "reachable started s st \<Longrightarrow> run_events s evs st = Ok st' \<Longrightarrow> reachable started s st'"
  by (induction evs arbitrary: st) (auto simp: and_then_eq_Ok intro: reachable.step)

end
