(* ===== verification/Trace_Run_Safety.thy ===== *)
theory Trace_Run_Safety
  imports Trace_Run
begin

text \<open>
  Invariants of the run loop. \<open>base_ok\<close> fixes the shape of the state, \<open>tasks_ok\<close> what the
  outstanding probes are, \<open>pending_ok\<close> that the pending counters count them, \<open>completed_ok\<close> that
  the completed counter counts the cycles without pending probes. The last three speak of a list
  \<open>T\<close> of outstanding probes, so that they also describe the moment between a join and its count.
\<close>

definition settings_shape :: "trace_settings \<Rightarrow> bool" where
  "settings_shape s \<longleftrightarrow> unat (ts_cycles s) \<le> 10000 \<and> ts_first_ttl s \<le> ts_max_hops s"

lemma settings_ok_shape: "settings_ok s \<Longrightarrow> settings_shape s"
  by (simp add: settings_ok_def settings_shape_def word_le_nat_alt)

definition base_ok :: "trace_settings \<Rightarrow> run_state \<Rightarrow> bool" where
  "base_ok s st \<longleftrightarrow> cadence_ok (rs_cadence st)
     \<and> ca_first_ttl (rs_cadence st) = ts_first_ttl s \<and> ca_max_ttl (rs_cadence st) = ts_max_hops s
     \<and> unat (ca_cycles (rs_cadence st)) \<le> unat (ts_cycles s)
     \<and> length (rs_pending st) = unat (ts_cycles s)
     \<and> length (rs_had_ok st) = unat (ts_cycles s)
     \<and> length (rs_known st) = unat (ts_max_hops s) + 1
     \<and> length (rs_hops st) = unat (ts_max_hops s) + 1
     \<and> (\<forall>b. rs_bound st = Some b \<longrightarrow> ts_first_ttl s \<le> b \<and> b \<le> ts_max_hops s)
     \<and> (rs_phase st = Running \<longrightarrow> unat (rs_streak st) < 3)"

definition probes_of :: "nat \<Rightarrow> (u16 \<times> u8) list \<Rightarrow> nat" where
  "probes_of i T = length (filter (\<lambda>p. unat (fst p) = i) T)"

definition probe_ok :: "trace_settings \<Rightarrow> run_state \<Rightarrow> u16 \<times> u8 \<Rightarrow> bool" where
  "probe_ok s st p \<longleftrightarrow> fst p \<le> ca_cycles (rs_cadence st) \<and> unat (fst p) < unat (ts_cycles s)
     \<and> ts_first_ttl s \<le> snd p \<and> snd p \<le> ts_max_hops s"

definition tasks_ok :: "trace_settings \<Rightarrow> (u16 \<times> u8) list \<Rightarrow> run_state \<Rightarrow> bool" where
  "tasks_ok s T st \<longleftrightarrow> length T \<le> MAX_OUTSTANDING_PROBES \<and> (\<forall>p \<in> set T. probe_ok s st p)"

definition pending_ok :: "(u16 \<times> u8) list \<Rightarrow> run_state \<Rightarrow> bool" where
  "pending_ok T st \<longleftrightarrow> (\<forall>i < length (rs_pending st).
     probes_of i T \<le> unat (rs_pending st ! i)
     \<and> (rs_phase st = Running \<longrightarrow> unat (rs_pending st ! i) = probes_of i T))"

definition done_cycles :: "run_state \<Rightarrow> nat set" where
  "done_cycles st = {i. i < unat (ca_cycles (rs_cadence st)) \<and> rs_pending st ! i = 0}"

definition completed_ok :: "run_state \<Rightarrow> bool" where
  "completed_ok st \<longleftrightarrow> unat (rs_completed st) = card (done_cycles st)"

definition run_inv :: "trace_settings \<Rightarrow> (u16 \<times> u8) list \<Rightarrow> run_state \<Rightarrow> bool" where
  "run_inv s T st \<longleftrightarrow> base_ok s st \<and> tasks_ok s T st \<and> pending_ok T st \<and> completed_ok st"

lemma run_invD:
  assumes "run_inv s T st"
  shows "base_ok s st" "tasks_ok s T st" "pending_ok T st" "completed_ok st"
  using assms by (simp_all add: run_inv_def)

lemma done_cycles_finite [simp]: "finite (done_cycles st)"
  by (simp add: done_cycles_def)

lemma done_cycles_card: "card (done_cycles st) \<le> unat (ca_cycles (rs_cadence st))"
proof -
  have "done_cycles st \<subseteq> {..<unat (ca_cycles (rs_cadence st))}" by (auto simp: done_cycles_def)
  then show ?thesis using card_mono [of "{..<unat (ca_cycles (rs_cadence st))}"] by simp
qed

lemma probes_of_simps [simp]:
  "probes_of i [] = 0"
  "probes_of i (p # T) = (if unat (fst p) = i then 1 else 0) + probes_of i T"
  "probes_of i (T @ U) = probes_of i T + probes_of i U"
  by (auto simp: probes_of_def split: prod.split)

lemma probes_of_le: "probes_of i T \<le> length T"
  by (simp add: probes_of_def)

lemma remove_at_split:
  assumes "get_at T i = Some p"
  obtains A B where "T = A @ p # B" and "remove_at i T = A @ B"
proof -
  have "i < length T" "T ! i = p" using assms by (auto simp: get_at_def split: if_splits)
  then have "T = take i T @ p # drop (Suc i) T" by (metis id_take_nth_drop)
  with that [of "take i T" "drop (Suc i) T"] show thesis by (simp add: remove_at_def)
qed

section \<open>The pieces of a step\<close>

text \<open>What a handler leaves alone, and what it keeps.\<close>

definition keeps :: "trace_settings \<Rightarrow> run_state \<Rightarrow> run_state \<Rightarrow> bool" where
  "keeps s st st' \<longleftrightarrow> base_ok s st' \<and> rs_cadence st' = rs_cadence st \<and> rs_pending st' = rs_pending st
     \<and> rs_completed st' = rs_completed st \<and> rs_tasks st' = rs_tasks st
     \<and> (rs_phase st' = Running \<longrightarrow> rs_phase st = Running)"

lemma keeps_refl: "base_ok s st \<Longrightarrow> keeps s st st"
  by (simp add: keeps_def)

lemma keeps_trans: "keeps s a b \<Longrightarrow> keeps s b c \<Longrightarrow> keeps s a c"
  by (auto simp: keeps_def)

lemma keeps_base: "keeps s st st' \<Longrightarrow> base_ok s st'"
  by (simp add: keeps_def)

lemma keeps_inv: "run_inv s T st \<Longrightarrow> keeps s st st' \<Longrightarrow> run_inv s T st'"
  by (auto simp: run_inv_def keeps_def tasks_ok_def pending_ok_def completed_ok_def done_cycles_def
      probe_ok_def)

lemma keeps_errors:
  "base_ok s st \<Longrightarrow> keeps s st (add_error e st)"
  "base_ok s st \<Longrightarrow> keeps s st (push_error e st)"
  "base_ok s st \<Longrightarrow> keeps s st (stop status st)"
  by (simp_all add: keeps_def base_ok_def add_error_def push_error_def stop_def)

lemma record_samples_yields:
  "ttl < length hops \<Longrightarrow> yields (record_samples ttl ss hops) (\<lambda>h. length h = length hops)"
proof (induction ss arbitrary: hops)
  case (Cons x ss)
  then show ?case using Cons.IH [of "hops[ttl := hop_record (hops ! ttl) x]"]
    by (simp add: panic_simps)
qed simp

lemma on_hop_keeps:
  assumes "base_ok s st" and "ts_first_ttl s \<le> ttl" and "ttl \<le> ts_max_hops s"
  shows "yields (on_hop ttl hop st) (keeps s st)"
proof -
  have i: "unat ttl < unat (ts_max_hops s) + 1" using assms(3) by (simp add: word_le_nat_alt)
  have "yields (record_samples (unat ttl) (hr_samples hop) (rs_hops st))
      (\<lambda>h. length h = length (rs_hops st))"
    using assms(1) i by (intro record_samples_yields) (simp add: base_ok_def)
  then show ?thesis
    using assms i
    by (auto simp: on_hop_def panic_simps Let_def keeps_def base_ok_def lower_bound_def min_def
        elim!: yields_mono split: option.split)
qed

lemma cycle_error_yields: "unat cycle < 65535 \<Longrightarrow> yields (cycle_error_text cycle ttl e) (\<lambda>_. True)"
  by (simp add: cycle_error_text_def panic_simps)

lemma on_error_keeps:
  assumes "base_ok s st" and "rs_phase st = Running" and "unat cycle < unat (ts_cycles s)"
    and "settings_shape s"
  shows "yields (on_error cycle ttl e finished st) (keeps s st)"
proof -
  have c: "unat cycle < 65535" using assms by (simp add: settings_shape_def)
  have "yields (word_add (rs_streak st) 1) (\<lambda>k. unat k = unat (rs_streak st) + 1)"
    using assms by (simp add: panic_simps base_ok_def unat_word_ariths)
  then have streak: "yields (word_add (rs_streak st) 1) (\<lambda>k. \<not> MAX_FAILED_CYCLES \<le> k \<longrightarrow> unat k < 3)"
    by (rule yields_mono) (simp add: MAX_FAILED_CYCLES_def word_le_nat_alt)
  show ?thesis
    unfolding on_error_def yields_and_then
    by (rule yields_mono [OF cycle_error_yields [OF c]])
      (use assms streak in \<open>auto simp: panic_simps Let_def add_error_def stop_def keeps_def base_ok_def
        elim!: yields_mono\<close>)
qed

definition quiet :: "run_state \<Rightarrow> run_state \<Rightarrow> bool" where
  "quiet st st' \<longleftrightarrow> rs_tasks st' = rs_tasks st \<and> rs_cadence st' = rs_cadence st
     \<and> (rs_phase st' = Running \<longrightarrow> rs_phase st = Running)"

lemma keeps_quiet: "keeps s st st' \<Longrightarrow> quiet st st'"
  by (simp add: keeps_def quiet_def)

lemma quiet_trans: "quiet a b \<Longrightarrow> quiet b c \<Longrightarrow> quiet a c"
  by (auto simp: quiet_def)

lemma decrement_Ok:
  "i < length s \<Longrightarrow> 1 \<le> s ! i \<Longrightarrow> update_at s i (\<lambda>p. word_sub p 1) = Ok (s[i := s ! i - 1])"
  by (simp add: update_at_Ok word_sub_Ok)

lemma count_result_yields:
  assumes inv: "run_inv s T st" and p: "p \<in> set T" and T: "\<And>i. probes_of i T =
      (if unat (fst p) = i then 1 else 0) + probes_of i T'" and sub: "set T' \<subseteq> set T" "length T' \<le> length T"
    and shape: "settings_shape s"
  shows "yields (count_result (fst p) st) (\<lambda>(st', finished). run_inv s T' st'
    \<and> quiet st st' \<and> rs_phase st' = rs_phase st)"
proof -
  note invs = run_invD [OF inv]
  let ?c = "fst p" and ?P = "rs_pending st"
  have c: "unat ?c < length ?P"
    using p invs by (auto simp: tasks_ok_def probe_ok_def base_ok_def)
  have "1 \<le> probes_of (unat ?c) T" by (simp add: T)
  then have pos: "1 \<le> unat (?P ! unat ?c)" using invs(3) c by (auto simp: pending_ok_def)
  then have one: "1 \<le> ?P ! unat ?c" "unat (?P ! unat ?c - 1) = unat (?P ! unat ?c) - 1"
    by (simp_all add: word_le_nat_alt unat_sub)
  define P where "P = ?P[unat ?c := ?P ! unat ?c - 1]"
  have P: "length P = length ?P" "unat ?c < length ?P \<Longrightarrow> P ! unat ?c = ?P ! unat ?c - 1"
    "i \<noteq> unat ?c \<Longrightarrow> P ! i = ?P ! i" for i
    by (simp_all add: P_def)
  define fin where "fin \<longleftrightarrow> ?c < ca_cycles (rs_cadence st) \<and> P ! unat ?c = 0"
  let ?done = "{i. i < unat (ca_cycles (rs_cadence st)) \<and> P ! i = 0}"
  have out: "unat ?c \<notin> done_cycles st" using pos by (auto simp: done_cycles_def)
  have "i \<in> ?done \<longleftrightarrow> (if i = unat ?c then fin else i \<in> done_cycles st)" for i
    using P(3) [of i] by (auto simp: done_cycles_def fin_def word_less_nat_alt)
  then have "?done = (if fin then insert (unat ?c) (done_cycles st) else done_cycles st)"
    using out by auto
  with out have card: "card ?done = card (done_cycles st) + (if fin then 1 else 0)" by simp
  have small: "card (done_cycles st) \<le> 10000"
    using done_cycles_card [of st] invs(1) shape by (simp add: base_ok_def settings_shape_def)
  then have room: "unat (rs_completed st) + unat (1 :: u16) < 2 ^ 16"
    using invs(4) by (simp add: completed_ok_def)
  then have up: "unat (rs_completed st + 1) = unat (rs_completed st) + 1"
    by (simp add: unat_word_ariths)
  have each: "probes_of i T' \<le> unat (P ! i) \<and> (rs_phase st = Running \<longrightarrow> unat (P ! i) = probes_of i T')"
    if i: "i < length ?P" for i
  proof -
    have "probes_of i T \<le> unat (?P ! i) \<and> (rs_phase st = Running \<longrightarrow> unat (?P ! i) = probes_of i T)"
      using invs(3) i by (simp add: pending_ok_def)
    then show ?thesis
      using T [of i] P(2) [OF c] P(3) [of i] one(2) by (cases "i = unat ?c") auto
  qed
  have pend: "pending_ok T' (st\<lparr>rs_pending := P, rs_completed := q\<rparr>)" for q
    using each P(1) by (simp add: pending_ok_def)
  have "run_inv s T' (st\<lparr>rs_pending := P, rs_completed := if fin then rs_completed st + 1 else rs_completed st\<rparr>)"
    using invs pend card up P(1) sub
    by (auto simp: run_inv_def base_ok_def tasks_ok_def probe_ok_def completed_ok_def done_cycles_def)
  then show ?thesis
    unfolding count_result_def decrement_Ok [OF c one(1)] and_then_simps
      P_def [symmetric] Let_def fin_def [symmetric]
    using room by (cases fin) (simp_all add: word_add_Ok quiet_def)
qed

lemma had_ok_yields:
  assumes "base_ok s st" and "unat cycle < unat (ts_cycles s)"
  shows "yields (if isl r then Ok (rs_had_ok st)
      else update_at (rs_had_ok st) (unat cycle) (\<lambda>_. Ok True)) (\<lambda>h. keeps s st (st\<lparr>rs_had_ok := h\<rparr>))"
  using assms by (auto simp: panic_simps keeps_def base_ok_def)

lemma task_result_yields:
  assumes inv: "run_inv s T st" and p: "(cycle, ttl) \<in> set T" and T: "\<And>i. probes_of i T =
      (if unat cycle = i then 1 else 0) + probes_of i T'" and sub: "set T' \<subseteq> set T" "length T' \<le> length T"
    and shape: "settings_shape s" and run: "rs_phase st = Running"
  shows "yields (task_result cycle ttl r st) (\<lambda>st'. run_inv s T' st' \<and> quiet st st')"
proof -
  have po: "unat cycle < unat (ts_cycles s)" "ts_first_ttl s \<le> ttl" "ttl \<le> ts_max_hops s"
    using p run_invD(2) [OF inv] by (auto simp: tasks_ok_def probe_ok_def)
  note count = count_result_yields [OF inv p, unfolded fst_conv, OF T sub shape]
  have rest: "yields (case r of Inr hop \<Rightarrow> on_hop ttl hop b | Inl e \<Rightarrow> on_error cycle ttl e fin b)
      (\<lambda>c. yields (if rs_phase c \<noteq> Running then Ok c
         else and_then (if fin then byte_at h (unat cycle) else Ok False) (\<lambda>reset.
           Ok (if reset then c\<lparr>rs_streak := 0\<rparr> else c)))
        (\<lambda>st'. run_inv s T' st' \<and> quiet st st'))"
    if a: "run_inv s T' a" "quiet st a" "rs_phase a = Running"
      and b: "b = a\<lparr>rs_had_ok := h\<rparr>" "keeps s a b" for a b h fin
  proof -
    have bo: "base_ok s b" "rs_phase b = Running" using b a(3) by (auto simp: keeps_def)
    have "yields (case r of Inr hop \<Rightarrow> on_hop ttl hop b | Inl e \<Rightarrow> on_error cycle ttl e fin b) (keeps s b)"
      using on_hop_keeps [OF bo(1) po(2,3)] on_error_keeps [OF bo po(1) shape]
      by (cases r) simp_all
    then show ?thesis
    proof (rule yields_mono)
      fix c assume "keeps s b c"
      then have c: "keeps s a c" using b(2) keeps_trans by blast
      moreover have "keeps s c (c\<lparr>rs_streak := 0\<rparr>)"
        using keeps_base [OF c] by (simp add: keeps_def base_ok_def)
      ultimately have c0: "keeps s a (c\<lparr>rs_streak := 0\<rparr>)" by (rule keeps_trans)
      have "unat cycle < length h" using po(1) bo(1) b(1) by (simp add: base_ok_def)
      then show "yields (if rs_phase c \<noteq> Running then Ok c
         else and_then (if fin then byte_at h (unat cycle) else Ok False) (\<lambda>reset.
           Ok (if reset then c\<lparr>rs_streak := 0\<rparr> else c)))
        (\<lambda>st'. run_inv s T' st' \<and> quiet st st')"
        using keeps_inv [OF a(1) c] keeps_inv [OF a(1) c0] quiet_trans [OF a(2) keeps_quiet [OF c]]
          quiet_trans [OF a(2) keeps_quiet [OF c0]]
        by (auto simp: panic_simps)
    qed
  qed
  show ?thesis
    unfolding task_result_def yields_and_then
  proof (rule yields_mono [OF count])
    fix x :: "run_state \<times> bool"
    assume x: "case x of (a, fin) \<Rightarrow> run_inv s T' a \<and> quiet st a \<and> rs_phase a = rs_phase st"
    obtain a fin where "x = (a, fin)" by (cases x)
    with x have a: "run_inv s T' a" "quiet st a" "rs_phase a = Running"
      using run by simp_all
    note had = had_ok_yields [OF run_invD(1) [OF a(1)] po(1)]
    show "yields (case x of (st, finished) \<Rightarrow> and_then (if isl r then Ok (rs_had_ok st)
          else update_at (rs_had_ok st) (unat cycle) (\<lambda>_. Ok True)) (\<lambda>had_ok.
        let st = st\<lparr>rs_had_ok := had_ok\<rparr> in
        and_then (case r of Inr hop \<Rightarrow> on_hop ttl hop st | Inl e \<Rightarrow> on_error cycle ttl e finished st)
          (\<lambda>st. if rs_phase st \<noteq> Running then Ok st
            else and_then (if finished then byte_at had_ok (unat cycle) else Ok False) (\<lambda>reset.
              Ok (if reset then st\<lparr>rs_streak := 0\<rparr> else st)))))
        (\<lambda>st'. run_inv s T' st' \<and> quiet st st')"
      unfolding \<open>x = (a, fin)\<close> prod.case yields_and_then Let_def
      by (rule yields_mono [OF had]) (rule rest [OF a refl])
  qed
qed

lemma drain_result_yields:
  assumes inv: "run_inv s T st" and p: "(cycle, ttl) \<in> set T" and T: "\<And>i. probes_of i T =
      (if unat cycle = i then 1 else 0) + probes_of i T'" and sub: "set T' \<subseteq> set T" "length T' \<le> length T"
    and shape: "settings_shape s"
  shows "yields (drain_result cycle ttl r st) (\<lambda>st'. run_inv s T' st' \<and> quiet st st')"
proof -
  have po: "unat cycle < unat (ts_cycles s)" "ttl \<le> ts_max_hops s"
    using p run_invD(2) [OF inv] by (auto simp: tasks_ok_def probe_ok_def)
  then have c: "unat cycle < 65535" using shape by (simp add: settings_shape_def)
  note count = count_result_yields [OF inv p, unfolded fst_conv, OF T sub shape]
  have hop: "yields (record_samples (unat ttl) ss (rs_hops a)) (\<lambda>h. keeps s a (a\<lparr>rs_hops := h\<rparr>))"
    if "base_ok s a" for a ss
    using that po(2) record_samples_yields [of "unat ttl" "rs_hops a" ss]
    by (auto simp: base_ok_def keeps_def word_le_nat_alt elim!: yields_mono)
  show ?thesis
    unfolding drain_result_def yields_and_then
  proof (rule yields_mono [OF count], clarsimp)
    fix a fin
    assume a: "run_inv s T' a" "quiet st a" "rs_phase a = rs_phase st"
    note b = run_invD(1) [OF a(1)]
    have err: "yields (and_then (cycle_error_text cycle ttl e) (\<lambda>m. Ok (add_error m a)))
        (\<lambda>st'. run_inv s T' st' \<and> quiet st st')" for e
      using cycle_error_yields [OF c, of ttl e] keeps_inv [OF a(1) keeps_errors(1) [OF b]]
        quiet_trans [OF a(2) keeps_quiet [OF keeps_errors(1) [OF b]]]
      by (auto simp: panic_simps elim!: yields_mono)
    have hop': "yields (record_samples (unat ttl) ss (rs_hops a))
        (\<lambda>h. run_inv s T' (a\<lparr>rs_hops := h\<rparr>) \<and> quiet st (a\<lparr>rs_hops := h\<rparr>))" for ss
      by (rule yields_mono [OF hop [OF b]])
        (use keeps_inv [OF a(1)] quiet_trans [OF a(2) keeps_quiet] in blast)
    show "yields (case r of Inl e \<Rightarrow> if e = Probe_Cancelled then Ok a else and_then (cycle_error_text cycle ttl e) (\<lambda>m. Ok (add_error m a))
         | Inr hop \<Rightarrow> and_then (record_samples (unat ttl)
               (map (settle_sample (rs_grace_expired a)) (hr_samples hop)) (rs_hops a))
             (\<lambda>hops. Ok (a\<lparr>rs_hops := hops\<rparr>)))
        (\<lambda>st'. run_inv s T' st' \<and> quiet st st')"
      using err hop' a by (auto simp: yields_and_then split: sum.split)
  qed
qed

lemma increment_Ok:
  fixes s :: "u16 list"
  shows "i < length s \<Longrightarrow> unat (s ! i) + unat (1 :: u16) < 2 ^ 16 \<Longrightarrow>
    update_at s i (\<lambda>p. word_add p 1) = Ok (s[i := s ! i + 1])"
  by (simp add: update_at_Ok word_add_Ok)

lemma dispatch_yields:
  assumes inv: "run_inv s (rs_tasks st) st" and run: "rs_phase st = Running" and shape: "settings_shape s"
    and more: "ca_cycles (rs_cadence st) < ts_cycles s"
  shows "yields (dispatch s now st) (\<lambda>st'. run_inv s (rs_tasks st') st')"
proof (cases "MAX_OUTSTANDING_PROBES \<le> length (rs_tasks st)")
  case True
  have "keeps s st (stop Run_Partial_Failure (push_error e st))" for e
    using run_invD(1) [OF inv] by (simp add: keeps_def base_ok_def push_error_def stop_def)
  from keeps_inv [OF inv this] this show ?thesis
    using True by (simp add: dispatch_def keeps_def)
next
  case False
  note invs = run_invD [OF inv]
  let ?c = "rs_cadence st" and ?P = "rs_pending st"
  let ?i = "unat (ca_cycles ?c)"
  have i: "?i < length ?P" and cyc: "?i < unat (ts_cycles s)" "?i < 65535"
    using more invs(1) shape by (simp_all add: base_ok_def word_less_nat_alt settings_shape_def)
  have "unat (?P ! ?i) = probes_of ?i (rs_tasks st)"
    using invs(3) i run by (simp add: pending_ok_def)
  moreover have "probes_of ?i (rs_tasks st) < 512"
    using False probes_of_le [of ?i "rs_tasks st"] by (simp add: MAX_OUTSTANDING_PROBES_def)
  ultimately have inc: "unat (?P ! ?i) + unat (1 :: u16) < 2 ^ 16"
    "unat (?P ! ?i + 1) = unat (?P ! ?i) + 1"
    by (simp_all add: unat_word_ariths)
  define P where "P = ?P[?i := ?P ! ?i + 1]"
  have P: "length P = length ?P" "P ! ?i = ?P ! ?i + 1" "j \<noteq> ?i \<Longrightarrow> P ! j = ?P ! j" for j
    using i by (simp_all add: P_def)
  have new: "ts_first_ttl s \<le> ca_ttl ?c \<and> ca_ttl ?c \<le> ts_max_hops s"
    using invs(1) by (auto simp: base_ok_def cadence_ok_def)
  have cad: "yields (dispatched now (rs_known st) (rs_bound st) ?c) (\<lambda>d. cadence_ok d
      \<and> ca_first_ttl d = ts_first_ttl s \<and> ca_max_ttl d = ts_max_hops s
      \<and> (unat (ca_cycles d) = ?i + 1 \<or> ca_cycles d = ca_cycles ?c))"
    using invs(1) cyc by (intro yields_mono [OF dispatched_yields]) (auto simp: base_ok_def)
  have go: "run_inv s (rs_tasks st @ [(ca_cycles ?c, ca_ttl ?c)])
      (st\<lparr>rs_pending := P, rs_tasks := rs_tasks st @ [(ca_cycles ?c, ca_ttl ?c)],
          rs_cadence := d, rs_grace := g\<rparr>)"
    if d: "cadence_ok d \<and> ca_first_ttl d = ts_first_ttl s \<and> ca_max_ttl d = ts_max_hops s
      \<and> (unat (ca_cycles d) = ?i + 1 \<or> ca_cycles d = ca_cycles ?c)" for d g
  proof -
    have le: "?i \<le> unat (ca_cycles d)" "unat (ca_cycles d) \<le> unat (ts_cycles s)"
      "unat (ca_cycles d) \<le> ?i + 1" using d cyc by auto
    have "{j. j < unat (ca_cycles d) \<and> P ! j = 0} = done_cycles st"
    proof (intro set_eqI)
      fix j
      have "P ! ?i \<noteq> 0" using inc(2) P(2) by (metis add_is_0 one_neq_zero unat_0)
      then show "j \<in> {j. j < unat (ca_cycles d) \<and> P ! j = 0} \<longleftrightarrow> j \<in> done_cycles st"
        using le P(3) [of j] by (cases "j = ?i") (auto simp: done_cycles_def)
    qed
    then have done': "completed_ok (st\<lparr>rs_pending := P, rs_tasks := rs_tasks st @ [(ca_cycles ?c, ca_ttl ?c)],
          rs_cadence := d, rs_grace := g\<rparr>)"
      using invs(4) by (simp add: completed_ok_def done_cycles_def)
    have "pending_ok (rs_tasks st @ [(ca_cycles ?c, ca_ttl ?c)])
      (st\<lparr>rs_pending := P, rs_tasks := rs_tasks st @ [(ca_cycles ?c, ca_ttl ?c)],
          rs_cadence := d, rs_grace := g\<rparr>)"
      unfolding pending_ok_def
    proof (intro allI impI)
      fix j assume "j < length (rs_pending (st\<lparr>rs_pending := P,
          rs_tasks := rs_tasks st @ [(ca_cycles ?c, ca_ttl ?c)], rs_cadence := d, rs_grace := g\<rparr>))"
      then have "probes_of j (rs_tasks st) \<le> unat (?P ! j) \<and> unat (?P ! j) = probes_of j (rs_tasks st)"
        using invs(3) run P(1) by (simp add: pending_ok_def)
      then show "probes_of j (rs_tasks st @ [(ca_cycles ?c, ca_ttl ?c)]) \<le> unat (rs_pending (st\<lparr>rs_pending := P,
          rs_tasks := rs_tasks st @ [(ca_cycles ?c, ca_ttl ?c)], rs_cadence := d, rs_grace := g\<rparr>) ! j)
        \<and> (rs_phase (st\<lparr>rs_pending := P, rs_tasks := rs_tasks st @ [(ca_cycles ?c, ca_ttl ?c)],
            rs_cadence := d, rs_grace := g\<rparr>) = Running \<longrightarrow> unat (rs_pending (st\<lparr>rs_pending := P,
            rs_tasks := rs_tasks st @ [(ca_cycles ?c, ca_ttl ?c)], rs_cadence := d, rs_grace := g\<rparr>) ! j)
          = probes_of j (rs_tasks st @ [(ca_cycles ?c, ca_ttl ?c)]))"
        using P(2,3) inc(2) by (cases "j = ?i") auto
    qed
    with done' show ?thesis
      using invs(1,2) d le P(1) new cyc False
      by (auto simp: run_inv_def base_ok_def tasks_ok_def probe_ok_def word_le_nat_alt
          MAX_OUTSTANDING_PROBES_def)
  qed
  have go': "run_inv s (rs_tasks st @ [(ca_cycles ?c, ca_ttl ?c)])
      (st\<lparr>rs_pending := P, rs_tasks := rs_tasks st @ [(ca_cycles ?c, ca_ttl ?c)], rs_cadence := d\<rparr>)"
    if d: "cadence_ok d \<and> ca_first_ttl d = ts_first_ttl s \<and> ca_max_ttl d = ts_max_hops s
      \<and> (unat (ca_cycles d) = ?i + 1 \<or> ca_cycles d = ca_cycles ?c)" for d
    using go [OF that, of "rs_grace st"] by simp
  show ?thesis
    unfolding dispatch_def if_not_P [OF False] Let_def increment_Ok [OF i inc(1)] and_then_simps
      P_def [symmetric] yields_and_then
    by (rule yields_mono [OF cad]) (use go go' in simp)
qed

lemma join_yields:
  assumes "\<And>cycle ttl T'. (cycle, ttl) \<in> set (rs_tasks st) \<Longrightarrow>
      (\<And>i. probes_of i (rs_tasks st) = (if unat cycle = i then 1 else 0) + probes_of i T') \<Longrightarrow>
      set T' \<subseteq> set (rs_tasks st) \<Longrightarrow> length T' \<le> length (rs_tasks st) \<Longrightarrow>
      yields (f cycle ttl (st\<lparr>rs_tasks := T'\<rparr>)) P"
  shows "yields (join i f st) P"
proof (cases "get_at (rs_tasks st) i")
  case None
  then show ?thesis by (simp add: join_def)
next
  case (Some p)
  obtain A B where AB: "rs_tasks st = A @ p # B" "remove_at i (rs_tasks st) = A @ B"
    using remove_at_split [OF Some] .
  have "yields (f (fst p) (snd p) (st\<lparr>rs_tasks := A @ B\<rparr>)) P"
    by (rule assms) (auto simp: AB)
  then show ?thesis using Some AB(2) by (simp add: join_def case_prod_beta)
qed

lemma run_inv_tasks: "run_inv s T (st\<lparr>rs_tasks := T'\<rparr>) = run_inv s T st"
  by (simp add: run_inv_def base_ok_def tasks_ok_def pending_ok_def completed_ok_def done_cycles_def
      probe_ok_def)

text \<open>After a lost task the counters may exceed the outstanding probes, so the loop must have stopped.\<close>

lemma run_inv_lost:
  assumes "run_inv s T st" and "set T' \<subseteq> set T" and "length T' \<le> length T"
    and "\<And>i. probes_of i T' \<le> probes_of i T" and "rs_phase st \<noteq> Running"
  shows "run_inv s T' st"
  using assms by (auto simp: run_inv_def tasks_ok_def pending_ok_def) (meson le_trans)

lemma step_yields:
  assumes inv: "run_inv s (rs_tasks st) st" and shape: "settings_shape s"
  shows "yields (step s ev st) (\<lambda>st'. run_inv s (rs_tasks st') st')"
proof -
  note b = run_invD(1) [OF inv]
  have stopped: "run_inv s (rs_tasks st) st'" if "keeps s st st'" for st'
    using keeps_inv [OF inv that] .
  have lost: "run_inv s T' (st\<lparr>rs_tasks := T', rs_errors := es, rs_status := q, rs_phase := Draining\<rparr>)"
    if "set T' \<subseteq> set (rs_tasks st)" "length T' \<le> length (rs_tasks st)"
      "\<And>i. probes_of i T' \<le> probes_of i (rs_tasks st)" for T' es q
  proof -
    have "run_inv s (rs_tasks st) (st\<lparr>rs_errors := es, rs_status := q, rs_phase := Draining\<rparr>)"
      by (rule stopped) (use b in \<open>simp add: keeps_def base_ok_def\<close>)
    then have "run_inv s T' (st\<lparr>rs_errors := es, rs_status := q, rs_phase := Draining\<rparr>)"
      by (rule run_inv_lost) (use that in simp_all)
    then show ?thesis
      by (simp add: run_inv_def base_ok_def tasks_ok_def pending_ok_def completed_ok_def
          done_cycles_def probe_ok_def)
  qed
  show ?thesis
  proof (cases "rs_phase st")
    case Running
    have base: "keeps s st (stop q (push_error e st))" "keeps s st (st\<lparr>rs_grace_expired := True, rs_phase := Draining\<rparr>)"
      for q e using b by (simp_all add: keeps_def base_ok_def push_error_def stop_def)
    show ?thesis
    proof (cases ev)
      case (Task_Done i r)
      have "yields (join i (\<lambda>cycle ttl. task_result cycle ttl r) st) (\<lambda>st'. run_inv s (rs_tasks st') st')"
        by (rule join_yields, rule yields_mono [OF task_result_yields [where T = "rs_tasks st"]])
          (use inv Running shape in \<open>auto simp: run_inv_tasks quiet_def\<close>)
      then show ?thesis using Running Task_Done by (simp add: step_def)
    next
      case (Task_Lost i m)
      have "yields (join i (\<lambda>_ _ st. Ok (stop Run_Partial_Failure (add_error (lost_text m) st))) st)
          (\<lambda>st'. run_inv s (rs_tasks st') st')"
        by (rule join_yields) (simp add: stop_def add_error_def lost)
      then show ?thesis using Running Task_Lost by (simp add: step_def)
    next
      case (Dispatch now)
      then show ?thesis
        using Running dispatch_yields [OF inv Running shape] by (auto simp: step_def)
    qed (use Running base stopped in \<open>auto simp: step_def stop_def push_error_def\<close>)
  next
    case Draining
    have base: "keeps s st ((push_error e st)\<lparr>rs_phase := Finished\<rparr>)" "keeps s st (st\<lparr>rs_phase := Finished\<rparr>)"
      for e using b by (simp_all add: keeps_def base_ok_def push_error_def)
    show ?thesis
    proof (cases ev)
      case (Task_Done i r)
      have "yields (join i (\<lambda>cycle ttl. drain_result cycle ttl r) st) (\<lambda>st'. run_inv s (rs_tasks st') st')"
        by (rule join_yields, rule yields_mono [OF drain_result_yields [where T = "rs_tasks st"]])
          (use inv shape in \<open>auto simp: run_inv_tasks quiet_def\<close>)
      then show ?thesis using Draining Task_Done by (simp add: step_def)
    next
      case (Task_Lost i m)
      have "yields (join i (\<lambda>_ _ st. Ok (add_error (lost_text m) st)) st)
          (\<lambda>st'. run_inv s (rs_tasks st') st')"
        by (rule join_yields)
          (use lost [where q = "rs_status st"] Draining in \<open>simp add: add_error_def run_inv_def base_ok_def
            tasks_ok_def pending_ok_def completed_ok_def done_cycles_def probe_ok_def\<close>)
      then show ?thesis using Draining Task_Lost by (simp add: step_def)
    qed (use Draining base stopped in \<open>auto simp: step_def push_error_def\<close>)
  qed (simp add: step_def)
qed

section \<open>The start\<close>

lemma initial_inv:
  assumes "settings_shape s"
  shows "run_inv s (rs_tasks (initial_run started s)) (initial_run started s)"
proof -
  have "ts_first_ttl s \<le> ts_max_hops s" using assms by (simp add: settings_shape_def)
  then have "cadence_ok (Cadence_new started (ts_interval s) (ts_first_ttl s) (ts_max_hops s))"
    by (rule Cadence_new_ok)
  then show ?thesis
    by (simp add: run_inv_def base_ok_def tasks_ok_def pending_ok_def completed_ok_def done_cycles_def
        initial_run_def) (simp add: Cadence_new_def)
qed

lemma reachable_inv:
  assumes "reachable started s st" and "settings_shape s"
  shows "run_inv s (rs_tasks st) st"
  using assms(1)
proof induction
  case start
  show ?case by (rule initial_inv [OF assms(2)])
next
  case (step st ev st')
  then show ?case using step_yields [OF step.IH assms(2)] by (blast dest: yields_OkD)
qed

text \<open>
  C12. The run loop never panics. From any state a validated run can reach, whatever happens next (a
  cancellation, a timeout, any result of any outstanding probe, a lost task, a dispatch at any
  time), the code's index, subtraction and counter arithmetic stays in range.
\<close>

theorem run_never_panics:
  assumes "validate_for_type s t = Ok ()" and "reachable started s st"
  shows "step s ev st \<noteq> Panic"
  using step_yields [OF reachable_inv [OF assms(2)]] settings_ok_shape
    validate_for_type_Ok [OF assms(1)] yields_no_panic by blast

text \<open>
  C13. The counters of a run mean what their names say. In every reachable state the pending counter
  of a cycle counts at least its outstanding probes, exactly so while the loop runs; the completed
  counter is the number of finished cycles with no pending probe, so at most the planned number;
  at most 512 probes are out, each of a planned cycle and a TTL between the first and the last;
  and a destination bound is such a TTL.
\<close>

theorem run_counters_exact:
  assumes "validate_for_type s t = Ok ()" and "reachable started s st"
  shows "(\<forall>i < unat (ts_cycles s).
        length (filter (\<lambda>p. unat (fst p) = i) (rs_tasks st)) \<le> unat (rs_pending st ! i)
      \<and> (rs_phase st = Running \<longrightarrow>
          unat (rs_pending st ! i) = length (filter (\<lambda>p. unat (fst p) = i) (rs_tasks st))))
    \<and> unat (rs_completed st)
      = card {i. i < unat (ca_cycles (rs_cadence st)) \<and> rs_pending st ! i = 0}
    \<and> unat (rs_completed st) \<le> unat (ts_cycles s)
    \<and> length (rs_tasks st) \<le> 512
    \<and> (\<forall>(c, ttl) \<in> set (rs_tasks st). c < ts_cycles s \<and> ts_first_ttl s \<le> ttl \<and> ttl \<le> ts_max_hops s)
    \<and> (\<forall>b. rs_bound st = Some b \<longrightarrow> ts_first_ttl s \<le> b \<and> b \<le> ts_max_hops s)"
proof -
  note inv = run_invD [OF reachable_inv [OF assms(2) settings_ok_shape
        [OF validate_for_type_Ok [OF assms(1)]]]]
  have "unat (rs_completed st) \<le> unat (ts_cycles s)"
    using inv(1,4) done_cycles_card [of st] by (simp add: base_ok_def completed_ok_def)
  with inv show ?thesis
    by (auto simp: base_ok_def tasks_ok_def pending_ok_def completed_ok_def done_cycles_def
        probe_ok_def probes_of_def case_prod_beta MAX_OUTSTANDING_PROBES_def word_less_nat_alt)
qed

text \<open>A concrete state for the witnesses: one probe sent.\<close>

definition demo_settings :: trace_settings where
  "demo_settings = \<lparr>ts_cycles = 1, ts_interval = 10, ts_run_timeout = 9, ts_probe_timeout = 7,
     ts_max_hops = 2, ts_first_ttl = 1, ts_packet_size = 64, ts_tcp_port = 443,
     ts_udp_base_port = 33434, ts_dns_resolver = None, ts_dns_timeout = 5\<rparr>"

lemma demo_settings_valid: "validate_for_type demo_settings Icmp4 = Ok ()"
  by (simp add: demo_settings_def validate_for_type_def validate_def from_secs_def)

definition demo_state :: run_state where
  "demo_state = initial_run 0 demo_settings
     \<lparr>rs_pending := [1], rs_tasks := [(0, 1)],
      rs_cadence := \<lparr>ca_cycles = 0, ca_ttl = 2, ca_deadline = 6, ca_first_ttl = 1, ca_max_ttl = 2,
        ca_interval = 10, ca_estimated_hosts = 10\<rparr>\<rparr>"

lemma demo_step: "step demo_settings (Dispatch 5) (initial_run 0 demo_settings) = Ok demo_state"
  by (simp add: demo_state_def step_def initial_run_def demo_settings_def Cadence_new_def dispatch_def
      dispatched_def schedule_def subslice_def wraps_def word_sub_def word_add_def update_at_def
      MAX_OUTSTANDING_PROBES_def)

lemma demo_reachable: "reachable 0 demo_settings demo_state"
  by (rule reachable.step [OF reachable.start demo_step])

theorem run_never_panics_witness:
  "step demo_settings (Task_Done 0 (Inl Probe_Cancelled)) demo_state \<noteq> Panic"
  by (rule run_never_panics [OF demo_settings_valid demo_reachable])

theorem run_counters_exact_witness:
  "unat (rs_completed demo_state) \<le> 1 \<and> length (rs_tasks demo_state) \<le> 512"
  using run_counters_exact [OF demo_settings_valid demo_reachable]
  by (simp add: demo_settings_def)

end
