(* ===== verification/Trace_Progress.thy ===== *)
theory Trace_Progress
  imports Trace_Run_Safety
begin

text \<open>
  The run loop ends. \<open>run_measure\<close> counts the probes still to send twice, the outstanding ones
  once, and a constant per phase; every enabled event lowers it, and until the run is finished an
  event is always enabled. The last section bounds the text the loop collects as errors.
\<close>

definition cycle_length :: "trace_settings \<Rightarrow> nat" where
  "cycle_length s = unat (ts_max_hops s) - unat (ts_first_ttl s) + 1"

definition probes_left :: "trace_settings \<Rightarrow> cadence \<Rightarrow> nat" where
  "probes_left s c = (unat (ts_cycles s) - unat (ca_cycles c)) * cycle_length s
     - (unat (ca_ttl c) - unat (ts_first_ttl s))"

definition run_measure :: "trace_settings \<Rightarrow> run_state \<Rightarrow> nat" where
  "run_measure s st = (case rs_phase st of
     Running \<Rightarrow> 2 * probes_left s (rs_cadence st) + length (rs_tasks st) + 2
   | Draining \<Rightarrow> length (rs_tasks st) + 1
   | Finished \<Rightarrow> 0)"

lemma probes_left_dispatched:
  assumes ok: "cadence_ok c" "ca_first_ttl c = ts_first_ttl s" "ca_max_ttl c = ts_max_hops s"
    and more: "unat (ca_cycles c) < unat (ts_cycles s)"
    and d: "unat (ca_cycles d) = unat (ca_cycles c) + 1 \<and> ca_ttl d = ca_first_ttl c
      \<or> ca_cycles d = ca_cycles c \<and> unat (ca_ttl d) = unat (ca_ttl c) + 1"
    and stay: "ca_cycles d = ca_cycles c \<longrightarrow> ca_ttl c \<noteq> ca_max_ttl c"
  shows "probes_left s d < probes_left s c"
proof -
  define n where "n = cycle_length s"
  define left where "left = unat (ts_cycles s) - unat (ca_cycles c) - 1"
  have t: "unat (ts_first_ttl s) \<le> unat (ca_ttl c)" "unat (ca_ttl c) \<le> unat (ts_max_hops s)"
    using ok by (auto simp: cadence_ok_def word_le_nat_alt)
  then have off: "unat (ca_ttl c) - unat (ts_first_ttl s) < n" by (simp add: n_def cycle_length_def)
  have "unat (ts_cycles s) - unat (ca_cycles c) = Suc left" using more by (simp add: left_def)
  then have all: "(unat (ts_cycles s) - unat (ca_cycles c)) * cycle_length s = left * n + n"
    by (simp add: n_def)
  then have now: "probes_left s c = left * n + n - (unat (ca_ttl c) - unat (ts_first_ttl s))"
    by (simp add: probes_left_def)
  from d show ?thesis
  proof
    assume "unat (ca_cycles d) = unat (ca_cycles c) + 1 \<and> ca_ttl d = ca_first_ttl c"
    then have "probes_left s d = left * n"
      using ok by (simp add: probes_left_def left_def n_def)
    with now off show ?thesis by simp
  next
    assume e: "ca_cycles d = ca_cycles c \<and> unat (ca_ttl d) = unat (ca_ttl c) + 1"
    then have "probes_left s d = left * n + n - (unat (ca_ttl c) + 1 - unat (ts_first_ttl s))"
      using all by (simp add: probes_left_def)
    with now off t show ?thesis by simp
  qed
qed

lemma run_measure_grace: "run_measure s (st\<lparr>rs_grace := g\<rparr>) = run_measure s st"
  by (simp add: run_measure_def split: run_phase.split)

lemma dispatch_less:
  assumes inv: "run_inv s (rs_tasks st) st" and run: "rs_phase st = Running" and shape: "settings_shape s"
    and more: "ca_cycles (rs_cadence st) < ts_cycles s"
  shows "yields (dispatch s now st :: (run_state, 'e) outcome)
    (\<lambda>st'. run_measure s st' < run_measure s st)"
proof (cases "MAX_OUTSTANDING_PROBES \<le> length (rs_tasks st)")
  case True
  then show ?thesis using run by (simp add: dispatch_def run_measure_def stop_def push_error_def)
next
  case False
  note b = run_invD(1) [OF inv]
  have "yields (dispatched now (rs_known st) (rs_bound st) (rs_cadence st) :: (cadence, 'e) outcome)
      (\<lambda>d. probes_left s d < probes_left s (rs_cadence st))"
    using b shape more
    by (intro yields_mono [OF dispatched_yields])
      (auto simp: base_ok_def settings_shape_def word_less_nat_alt intro!: probes_left_dispatched)
  then have "yields (dispatched now (rs_known st) (rs_bound st) (rs_cadence st) :: (cadence, 'e) outcome)
      (\<lambda>d. run_measure s (st\<lparr>rs_pending := P, rs_tasks := rs_tasks st @ [p], rs_cadence := d\<rparr>)
         < run_measure s st)" for P p
    by (rule yields_mono) (use run in \<open>simp add: run_measure_def\<close>)
  then show ?thesis
    using dispatch_yields [OF inv run shape more, where 'a = 'e, of now] False
    by (simp add: dispatch_def Let_def panic_simps run_measure_grace)
qed

lemma quiet_less:
  assumes "quiet (st\<lparr>rs_tasks := T\<rparr>) st'" and "length T < length (rs_tasks st)"
    and "rs_phase st \<noteq> Finished"
  shows "run_measure s st' < run_measure s st"
  using assms by (auto simp: run_measure_def quiet_def split: run_phase.split)

lemma join_less:
  assumes "\<And>cycle ttl T'. (cycle, ttl) \<in> set (rs_tasks st) \<Longrightarrow>
      (\<And>i. probes_of i (rs_tasks st) = (if unat cycle = i then 1 else 0) + probes_of i T') \<Longrightarrow>
      set T' \<subseteq> set (rs_tasks st) \<Longrightarrow> length T' < length (rs_tasks st) \<Longrightarrow>
      yields (f cycle ttl (st\<lparr>rs_tasks := T'\<rparr>)) P"
  shows "yields (join i f st) P"
proof (cases "get_at (rs_tasks st) i")
  case None
  then show ?thesis by (simp add: join_def)
next
  case (Some p)
  obtain A B where AB: "rs_tasks st = A @ p # B" "remove_at i (rs_tasks st) = A @ B"
    using remove_at_split [OF Some] .
  have "yields (f (fst p) (snd p) (st\<lparr>rs_tasks := A @ B\<rparr>)) P"
    by (rule assms) (auto simp: AB)
  then show ?thesis using Some AB(2) by (simp add: join_def case_prod_beta)
qed

lemma step_less:
  assumes inv: "run_inv s (rs_tasks st) st" and shape: "settings_shape s"
  shows "yields (step s ev st) (\<lambda>st'. run_measure s st' < run_measure s st)"
proof (cases "rs_phase st")
  case Running
  have lost: "yields (join i (\<lambda>_ _ a. Ok (stop q (add_error m a))) st)
      (\<lambda>st'. run_measure s st' < run_measure s st)" for i q m
    by (rule join_less) (simp add: add_error_def stop_def run_measure_def Running)
  have done_step: "yields (join i (\<lambda>c t. task_result c t r) st) (\<lambda>st'. run_measure s st' < run_measure s st)" for i r
    by (rule join_less, rule yields_mono [OF task_result_yields [where T = "rs_tasks st"]])
      (use inv Running shape in \<open>auto simp: run_inv_tasks intro: quiet_less\<close>)
  have "yields (running_step s ev st) (\<lambda>st'. run_measure s st' < run_measure s st)"
    using done_step lost dispatch_less [OF inv Running shape]
    by (cases ev) (auto simp: Running run_measure_def stop_def push_error_def)
  then show ?thesis by (simp add: step_def Running)
next
  case Draining
  have lost: "yields (join i (\<lambda>_ _ a. Ok (add_error m a)) st) (\<lambda>st'. run_measure s st' < run_measure s st)" for i m
    by (rule join_less) (simp add: add_error_def run_measure_def Draining)
  have done_step: "yields (join i (\<lambda>c t. drain_result c t r) st) (\<lambda>st'. run_measure s st' < run_measure s st)" for i r
    by (rule join_less, rule yields_mono [OF drain_result_yields [where T = "rs_tasks st"]])
      (use inv Draining shape in \<open>auto simp: run_inv_tasks intro: quiet_less\<close>)
  have "yields (draining_step ev st) (\<lambda>st'. run_measure s st' < run_measure s st)"
    using done_step lost by (cases ev) (simp_all add: run_measure_def Draining)
  then show ?thesis by (simp add: step_def Draining)
qed (simp add: step_def)

lemma run_events_less:
  assumes "settings_shape s"
  shows "run_inv s (rs_tasks st) st \<Longrightarrow> run_events s evs st = Ok st' \<Longrightarrow>
    length evs + run_measure s st' \<le> run_measure s st"
proof (induction evs arbitrary: st)
  case (Cons ev evs)
  then obtain a where a: "step s ev st = Ok a" "run_events s evs a = Ok st'"
    by (auto simp: and_then_eq_Ok)
  then have "run_measure s a < run_measure s st" "run_inv s (rs_tasks a) a"
    using step_less [OF Cons.prems(1) assms] step_yields [OF Cons.prems(1) assms]
    by (blast dest: yields_OkD)+
  with Cons.IH a(2) show ?case by fastforce
qed simp

lemma initial_measure:
  "run_measure s (initial_run started s) = 2 * (unat (ts_cycles s) * cycle_length s) + 2"
  by (simp add: run_measure_def initial_run_def probes_left_def Cadence_new_def)

lemma run_events_append:
  "run_events s (xs @ ys) a = and_then (run_events s xs a) (run_events s ys)"
proof (induction xs arbitrary: a)
  case (Cons x xs)
  then show ?case by (cases "step s x a") simp_all
qed simp

lemma can_finish:
  assumes "rs_phase st \<noteq> Finished"
  obtains evs st' where "run_events s evs st = Ok st'" and "rs_phase st' = Finished" and "length evs \<le> 2"
proof -
  have drain: "\<exists>evs b. run_events s evs a = Ok b \<and> rs_phase b = Finished \<and> length evs = 1"
    if "rs_phase a = Draining" for a
  proof (cases "rs_tasks a = []")
    case True
    then show ?thesis using that by (intro exI [of _ "[Drained]"]) (simp add: step_def)
  next
    case False
    then show ?thesis using that by (intro exI [of _ "[Drain_Deadline]"]) (simp add: step_def)
  qed
  show thesis
  proof (cases "rs_phase st")
    case Running
    define a where "a = stop Run_Cancelled (push_error (lit ''trace run cancelled'') st)"
    have "step s Cancel_Fired st = Ok a" using Running by (simp add: step_def a_def)
    moreover obtain evs b where "run_events s evs a = Ok b" "rs_phase b = Finished" "length evs = 1"
      using drain [of a] by (auto simp: a_def stop_def)
    ultimately show ?thesis using that [of "Cancel_Fired # evs" b] by simp
  next
    case Draining
    with drain that show ?thesis by fastforce
  qed (use assms in simp)
qed

text \<open>
  C14. Every run ends. A run with validated settings takes at most two events per planned probe and
  two more before it is finished, whatever the network does; and as long as it is not finished, some
  event is enabled, a cancellation followed by the shutdown deadline being one way out.
\<close>

theorem run_terminates:
  assumes "validate_for_type s t = Ok ()" and "run_events s evs (initial_run started s) = Ok st"
  shows "length evs \<le>
      2 * (unat (ts_cycles s) * (unat (ts_max_hops s) - unat (ts_first_ttl s) + 1)) + 2
    \<and> (rs_phase st \<noteq> Finished \<longrightarrow>
        (\<exists>more st'. run_events s (evs @ more) (initial_run started s) = Ok st' \<and> rs_phase st' = Finished))"
proof -
  have shape: "settings_shape s" using assms(1) by (blast intro: settings_ok_shape validate_for_type_Ok)
  have "run_events s (evs @ more) (initial_run started s) = run_events s more st" for more
    by (simp add: run_events_append assms(2))
  moreover have "length evs \<le> run_measure s (initial_run started s)"
    using run_events_less [OF shape initial_inv [OF shape] assms(2)] by simp
  ultimately show ?thesis
    using can_finish [of st s] by (simp add: initial_measure cycle_length_def) metis
qed

theorem run_terminates_witness:
  "run_events demo_settings [Dispatch 5] (initial_run 0 demo_settings) = Ok demo_state \<and>
   (\<exists>more st'. run_events demo_settings ([Dispatch 5] @ more) (initial_run 0 demo_settings) = Ok st'
      \<and> rs_phase st' = Finished)"
proof -
  have run: "run_events demo_settings [Dispatch 5] (initial_run 0 demo_settings) = Ok demo_state"
    by (simp add: demo_step)
  then show ?thesis
    using run_terminates [OF demo_settings_valid run] by (simp add: demo_state_def initial_run_def)
qed

section \<open>The error budget\<close>

lemma digits_length [simp]: "length (digits w f) = w"
  by (induction w arbitrary: f) simp_all

lemma decimal_length: "n < 10 ^ k \<Longrightarrow> 0 < k \<Longrightarrow> length (decimal n) \<le> k"
proof (induction n arbitrary: k rule: decimal.induct)
  case (1 n)
  show ?case
  proof (cases "n < 10")
    case True
    then show ?thesis using 1(3) by (simp add: decimal.simps)
  next
    case False
    with 1(2) have "k \<noteq> 1" by auto
    with 1(3) obtain j where j: "k = Suc j" "0 < j" by (cases k) auto
    then have "n div 10 < 10 ^ j" using 1(2) by (simp add: less_mult_imp_div_less mult.commute)
    with 1(1) [OF False, of j] j False show ?thesis by (simp add: decimal.simps [of n])
  qed
qed

lemma fmt_decimal_length: "length (fmt_decimal i f w) \<le> length (decimal i) + 1 + w"
proof -
  have "length (dropWhile P xs) \<le> length xs" for P and xs :: bytes
    by (metis length_dropWhile_le)
  then show ?thesis by (auto simp: fmt_decimal_def lit_def) (metis digits_length length_rev)
qed

lemma duration_debug_length:
  assumes "d \<le> from_secs 86400"
  shows "length (duration_debug d) \<le> 16"
proof -
  have s: "d div 1000000000 < 10 ^ 5" "d mod 1000000000 div 1000000 < 10 ^ 3"
    "d mod 1000000000 div 1000 < 10 ^ 6" "d mod 1000000000 < 10 ^ 9"
    using assms by (simp_all add: from_secs_def)
  have l: "length (lit ''s'') = 1" "length (lit ''ms'') = 2" "length (lit ''ns'') = 2"
    by (simp_all add: lit_def)
  have a: "length (decimal (d div 1000000000)) \<le> 5" by (rule decimal_length [OF s(1)]) simp
  have b: "length (decimal (d mod 1000000000 div 1000000)) \<le> 3" by (rule decimal_length [OF s(2)]) simp
  have c: "length (decimal (d mod 1000000000 div 1000)) \<le> 6" by (rule decimal_length [OF s(3)]) simp
  have e: "length (decimal (d mod 1000000000)) \<le> 9" by (rule decimal_length [OF s(4)]) simp
  note f = fmt_decimal_length
  have "length (fmt_decimal (d div 1000000000) (d mod 1000000000) 9) \<le> 15"
    using f [of "d div 1000000000" "d mod 1000000000" 9] a by simp
  moreover have "length (fmt_decimal (d mod 1000000000 div 1000000) (d mod 1000000000 mod 1000000) 6) \<le> 10"
    using f [of "d mod 1000000000 div 1000000" "d mod 1000000000 mod 1000000" 6] b by simp
  moreover have "length (fmt_decimal (d mod 1000000000 div 1000) (d mod 1000000000 mod 1000) 3) \<le> 10"
    using f [of "d mod 1000000000 div 1000" "d mod 1000000000 mod 1000" 3] c by simp
  moreover have "length (fmt_decimal (d mod 1000000000) 0 1) \<le> 11"
    using f [of "d mod 1000000000" 0 1] e by simp
  ultimately show ?thesis by (simp add: duration_debug_def Let_def l)
qed

end
