(* ===== verification/Trace_Finish.thy ===== *)
theory Trace_Finish
  imports Trace_Progress
begin

text \<open>
  \<open>crates/path-trace/src/lib.rs\<close>, the two ends of \<open>execute_run\<close>: what it validates and prepares
  before the loop, and how it turns the final state of the loop into a result.

  The resolvers and their answers come from outside: \<open>enrichment\<close> is the outcome of the
  \<open>select!\<close> around \<open>enrich_hops\<close>, with the cache and the query errors when it ran to its end.
\<close>

section \<open>Before the loop\<close>

definition header_bytes :: "trace_type \<Rightarrow> nat" where
  "header_bytes t = (case trace_family t of Ipv4 \<Rightarrow> 28 | Ipv6 \<Rightarrow> 48)"

definition run_parameters :: "trace_plan_item \<Rightarrow> trace_settings \<Rightarrow> (round_parameters, 'e) outcome" where
  "run_parameters item s = and_then (usize_sub (ts_packet_size s) (header_bytes (it_type item)))
     (\<lambda>payload. Ok \<lparr>rp_payload_size = payload, rp_dont_fragment = False, rp_max_hops = ts_max_hops s,
        rp_timeout = ts_probe_timeout s, rp_traffic_class = traffic_class (it_round item)\<rparr>)"

definition start_run ::
  "(bytes \<Rightarrow> (bytes + (ip_addr \<times> u16) list) option) \<Rightarrow> trace_plan_item \<Rightarrow> trace_settings \<Rightarrow> bool \<Rightarrow>
     instant \<Rightarrow> (trace_settings \<times> (ip_addr \<times> u16) \<times> round_parameters \<times> run_state, probe_error) outcome" where
  "start_run lookup item settings cancelled started =
     and_then (validate_for_type settings (it_type item)) (\<lambda>_.
     if cancelled then Err Probe_Cancelled
     else let configured = round_apply (it_round item) settings in
       and_then (validate_for_type configured (it_type item)) (\<lambda>_.
       and_then (resolve_target_scoped lookup (it_host item) (trace_family (it_type item))) (\<lambda>target.
       and_then (run_parameters item configured) (\<lambda>parameters.
         Ok (configured, target, parameters, initial_run started configured)))))"

section \<open>After the loop\<close>

type_synonym name_cache = "ip_addr \<Rightarrow> (bytes option \<times> bytes option) option"

datatype enrichment =
    No_Resolvers
  | Enrichment_Cancelled
  | Enrichment_Timed_Out
  | Enriched (late_cancel: bool) (names: name_cache) (query_errors: "bytes list")

record trace_run_result =
  rr_round :: trace_round
  rr_type :: trace_type
  rr_host :: bytes
  rr_target :: ip_addr
  rr_hops :: "trace_hop list"
  rr_status :: trace_run_status
  rr_planned_cycles :: u16
  rr_completed_cycles :: u16
  rr_enrichment_complete :: bool
  rr_errors :: "bytes list"

definition retention_text :: bytes where
  "retention_text = lit ''Responder/MPLS retention reached the 64 entries per hop limit; aggregate statistics include all samples''"

definition finish_hops :: "trace_settings \<Rightarrow> hop_accumulator list \<Rightarrow> trace_hop list" where
  "finish_hops s hops = List.map_filter (\<lambda>(ttl, h). hop_finish h (word_of_nat ttl))
     (drop (unat (ts_first_ttl s)) (enumerate 0 hops))"

definition apply_names :: "name_cache \<Rightarrow> trace_hop \<Rightarrow> trace_hop" where
  "apply_names cache h = (case Option.bind (th_address h) cache of
     Some (hostname, asn) \<Rightarrow> h\<lparr>th_hostname := hostname, th_asn := asn\<rparr>
   | None \<Rightarrow> h)"

definition needs_asn :: "trace_type \<Rightarrow> bool" where
  "needs_asn t \<longleftrightarrow> t = As4 \<or> t = As6"

record finishing =
  fi_hops :: "trace_hop list"
  fi_status :: trace_run_status
  fi_errors :: "bytes list"
  fi_complete :: bool
  fi_enrichment_errors :: nat

definition enrich :: "trace_type \<Rightarrow> trace_settings \<Rightarrow> enrichment \<Rightarrow> finishing \<Rightarrow> finishing" where
  "enrich t s e f =
     (if fi_status f \<noteq> Run_Completed then f
      else case e of
        No_Resolvers \<Rightarrow>
          if needs_asn t
          then f\<lparr>fi_errors := fi_errors f
            @ [lit ''ASN DNS enrichment: no DNS resolver was configured or discoverable'']\<rparr>
          else f\<lparr>fi_complete := True\<rparr>
      | Enrichment_Cancelled \<Rightarrow>
          f\<lparr>fi_status := Run_Cancelled, fi_errors := fi_errors f @ [lit ''DNS enrichment cancelled'']\<rparr>
      | Enrichment_Timed_Out \<Rightarrow>
          f\<lparr>fi_status := Run_Timed_Out, fi_errors := fi_errors f
            @ [lit ''trace run timed out after '' @ duration_debug (ts_run_timeout s)
               @ lit '' during DNS enrichment'']\<rparr>
      | Enriched late cache errs \<Rightarrow>
          (let f = (if late then f\<lparr>fi_status := Run_Cancelled,
                      fi_errors := fi_errors f @ [lit ''DNS enrichment cancelled'']\<rparr>
                    else f\<lparr>fi_complete := errs = []\<rparr>);
               before = length (fi_errors f);
               errors = extend_errors (fi_errors f) errs
           in f\<lparr>fi_hops := map (apply_names cache) (fi_hops f), fi_errors := errors,
                fi_enrichment_errors := length errors - before\<rparr>))"

definition conclude :: "trace_type \<Rightarrow> finishing \<Rightarrow> finishing" where
  "conclude t f =
     (let f = (if fi_status f = Run_Completed
                  \<and> (fi_hops f = [] \<or> list_all (\<lambda>h. st_received (th_statistics h) = 0) (fi_hops f))
               then f\<lparr>fi_errors := fi_errors f @ [lit ''no trace probe responses were received'']\<rparr>
               else f);
          status_errors = (if needs_asn t then length (fi_errors f)
            else length (fi_errors f) - fi_enrichment_errors f);
          f = (if fi_status f = Run_Completed \<and> 0 < status_errors
               then f\<lparr>fi_status := Run_Partial_Failure\<rparr> else f)
      in f\<lparr>fi_errors := normalize_errors (fi_errors f)\<rparr>)"

definition loop_result :: "trace_settings \<Rightarrow> run_state \<Rightarrow> finishing" where
  "loop_result s st =
     \<lparr>fi_hops = finish_hops s (rs_hops st), fi_status = rs_status st,
      fi_errors = rs_errors st @ (if list_ex ha_limited (rs_hops st) then [retention_text] else []),
      fi_complete = False, fi_enrichment_errors = 0\<rparr>"

definition finish_run ::
  "trace_plan_item \<Rightarrow> trace_settings \<Rightarrow> ip_addr \<times> u16 \<Rightarrow> enrichment \<Rightarrow> run_state \<Rightarrow> trace_run_result" where
  "finish_run item s target e st =
     (let f = conclude (it_type item) (enrich (it_type item) s e (loop_result s st)) in
      \<lparr>rr_round = it_round item, rr_type = it_type item, rr_host = it_host item,
       rr_target = fst target, rr_hops = fi_hops f, rr_status = fi_status f,
       rr_planned_cycles = ts_cycles s, rr_completed_cycles = rs_completed st,
       rr_enrichment_complete = fi_complete f, rr_errors = fi_errors f\<rparr>)"

section \<open>The budget of the loop\<close>

lemma add_error_bounded:
  "EXTEND_LIMIT \<le> B \<Longrightarrow> text_bytes es \<le> B \<Longrightarrow> text_bytes (extend_errors es ms) \<le> B"
proof -
  assume "EXTEND_LIMIT \<le> B" "text_bytes es \<le> B"
  moreover obtain new where "extend_errors es ms = es @ new"
    "text_bytes es \<le> EXTEND_LIMIT \<Longrightarrow> text_bytes es + text_bytes new \<le> EXTEND_LIMIT"
    "EXTEND_LIMIT \<le> text_bytes es \<Longrightarrow> new = []"
    using extend_errors_spec [of es ms] by metis
  ultimately show ?thesis by (cases "text_bytes es \<le> EXTEND_LIMIT") auto
qed

text \<open>\<open>in_budget B ps st\<close>: at most \<open>B\<close> bytes of errors, in one of the given phases and statuses.\<close>

definition in_budget :: "nat \<Rightarrow> (run_phase \<times> trace_run_status) set \<Rightarrow> run_state \<Rightarrow> bool" where
  "in_budget B ps st \<longleftrightarrow> text_bytes (rs_errors st) \<le> B \<and> (rs_phase st, rs_status st) \<in> ps"

lemma in_budget_add: "EXTEND_LIMIT \<le> B \<Longrightarrow> in_budget B ph st \<Longrightarrow> in_budget B ph (add_error e st)"
  by (simp add: in_budget_def add_error_def add_error_bounded)

lemma in_budget_updates [simp]:
  "in_budget B ph (st\<lparr>rs_tasks := T\<rparr>) = in_budget B ph st"
  "in_budget B ph (st\<lparr>rs_hops := hs\<rparr>) = in_budget B ph st"
  "in_budget B ph (st\<lparr>rs_streak := k\<rparr>) = in_budget B ph st"
  "in_budget B ph (st\<lparr>rs_had_ok := oks\<rparr>) = in_budget B ph st"
  "in_budget B ph (st\<lparr>rs_known := kn\<rparr>) = in_budget B ph st"
  "in_budget B ph (st\<lparr>rs_bound := bd\<rparr>) = in_budget B ph st"
  "in_budget B ph (st\<lparr>rs_pending := P\<rparr>) = in_budget B ph st"
  "in_budget B ph (st\<lparr>rs_completed := c\<rparr>) = in_budget B ph st"
  "in_budget B ph (st\<lparr>rs_cadence := ca\<rparr>) = in_budget B ph st"
  "in_budget B ph (st\<lparr>rs_grace := g\<rparr>) = in_budget B ph st"
  by (simp_all add: in_budget_def)

lemma in_budget_stop: "in_budget B ph st \<Longrightarrow> (Draining, q) \<in> ph \<Longrightarrow> in_budget B ph (stop q st)"
  by (simp add: in_budget_def stop_def)

lemma count_result_budget: "in_budget B ph st \<Longrightarrow> ensures (count_result c st) (\<lambda>(a, fin). in_budget B ph a)"
  by (auto simp: count_result_def Let_def intro!: ensures_trivial)

lemma drain_result_budget:
  assumes "in_budget B ph st" and "EXTEND_LIMIT \<le> B"
  shows "ensures (drain_result c t r st) (in_budget B ph)"
  unfolding drain_result_def ensures_and_then
  by (rule ensures_mono [OF count_result_budget [OF assms(1)]])
    (simp split: sum.split prod.split, auto intro!: ensures_trivial in_budget_add assms)

lemma on_error_budget:
  assumes "in_budget B ph st" and "EXTEND_LIMIT \<le> B" and "(Draining, Run_Partial_Failure) \<in> ph"
  shows "ensures (on_error c t e fin st) (in_budget B ph)"
  using assms by (auto simp: on_error_def Let_def intro!: ensures_trivial in_budget_add in_budget_stop)

lemma on_hop_budget: "in_budget B ph st \<Longrightarrow> ensures (on_hop t hop st) (in_budget B ph)"
  by (auto simp: on_hop_def Let_def intro!: ensures_trivial)

lemma task_result_budget:
  assumes "in_budget B ph st" and "EXTEND_LIMIT \<le> B" and "(Draining, Run_Partial_Failure) \<in> ph"
  shows "ensures (task_result c t r st :: (run_state, 'e) outcome) (in_budget B ph)"
  unfolding task_result_def ensures_and_then
proof (rule ensures_mono [OF count_result_budget [OF assms(1)]], clarify, unfold ensures_and_then)
  fix a fin
  assume a: "in_budget B ph a"
  have body: "ensures (case r of Inr hop \<Rightarrow> on_hop t hop (a\<lparr>rs_had_ok := h\<rparr>)
      | Inl e \<Rightarrow> (on_error c t e fin (a\<lparr>rs_had_ok := h\<rparr>) :: (run_state, 'e) outcome))
      (in_budget B ph)" for h
    using a assms by (auto intro!: on_hop_budget on_error_budget split: sum.split)
  show "ensures (if isl r then Ok (rs_had_ok a)
       else (update_at (rs_had_ok a) (unat c) (\<lambda>_. Ok True) :: (bool list, 'e) outcome))
     (\<lambda>h. ensures (let st = a\<lparr>rs_had_ok := h\<rparr> in
        and_then (case r of Inl e \<Rightarrow> on_error c t e fin st | Inr hop \<Rightarrow> (on_hop t hop st :: (run_state, 'e) outcome))
          (\<lambda>st. if rs_phase st \<noteq> Running then Ok st
            else and_then (if fin then byte_at h (unat c) else Ok False)
              (\<lambda>reset. Ok (if reset then st\<lparr>rs_streak := 0\<rparr> else st)))) (in_budget B ph))"
    unfolding Let_def ensures_and_then
    by (rule ensures_trivial, rule ensures_mono [OF body]) (auto simp: ensures_trivial)
qed

lemma loop_texts:
  "length (lit ''trace run cancelled'') \<le> 70"
  "length (lit ''Native probe concurrency limit reached; remaining probes were not sent'') \<le> 70"
  "length (lit ''Native probe shutdown deadline exceeded'') = 39"
  "length (lit ''trace run timed out after '') = 26"
  by (simp_all add: lit_def)

lemma join_ensures:
  assumes "\<And>c t T. ensures (f c t (st\<lparr>rs_tasks := T\<rparr>)) P"
  shows "ensures (join i f st) P"
  using assms by (auto simp: join_def split: option.split)

definition budget_ok :: "run_state \<Rightarrow> bool" where
  "budget_ok st \<longleftrightarrow> (rs_phase st = Running \<longrightarrow> rs_status st = Run_Completed)
     \<and> text_bytes (rs_errors st) \<le> EXTEND_LIMIT + (if rs_status st = Run_Completed then 0 else 70)
          + (if rs_phase st = Finished then 39 else 0)"

lemma step_budget:
  assumes ok: "budget_ok st" and run_timeout: "ts_run_timeout s \<le> from_secs 86400"
  shows "ensures (step s ev st) budget_ok"
proof (cases "rs_phase st")
  case Running
  let ?ps = "{(Running, Run_Completed), (Draining, Run_Partial_Failure)}"
  have b: "in_budget EXTEND_LIMIT ?ps st"
    using ok Running by (auto simp: budget_ok_def in_budget_def)
  have ok': "budget_ok a" if "in_budget EXTEND_LIMIT ?ps a" for a
    using that by (auto simp: budget_ok_def in_budget_def)
  have ended: "budget_ok (stop q (push_error e st))" if "length e \<le> 70" "q \<noteq> Run_Completed" for q e
    using b that by (simp add: in_budget_def budget_ok_def stop_def push_error_def)
  have joined: "ensures (join i (\<lambda>c t. task_result c t r) st) budget_ok" for i r
    using b by (intro join_ensures ensures_mono [OF task_result_budget]) (auto intro: ok')
  have lost: "ensures (join i (\<lambda>_ _ st. Ok (stop Run_Partial_Failure (add_error e st))) st) budget_ok" for i e
    using b by (intro join_ensures) (auto intro!: ok' in_budget_stop in_budget_add)
  have "ensures (dispatch s now st) budget_ok" for now
    using b ended loop_texts
    by (auto simp: dispatch_def Let_def intro!: ensures_trivial ok')
  moreover have "length (lit ''trace run timed out after '' @ duration_debug (ts_run_timeout s)) \<le> 70"
    using duration_debug_length [OF run_timeout] loop_texts by simp
  moreover have "budget_ok (st\<lparr>rs_grace_expired := True, rs_phase := Draining\<rparr>)"
    using b by (auto simp: in_budget_def budget_ok_def)
  ultimately have "ensures (running_step s ev st) budget_ok"
    using joined lost ended loop_texts by (cases ev) auto
  then show ?thesis by (simp add: step_def Running)
next
  case Draining
  define B where "B = EXTEND_LIMIT + (if rs_status st = Run_Completed then 0 else 70)"
  have b: "in_budget B {(Draining, rs_status st)} st" and B: "EXTEND_LIMIT \<le> B"
    using ok Draining by (auto simp: budget_ok_def in_budget_def B_def)
  have ok': "budget_ok a" if "in_budget B {(Draining, rs_status st)} a" for a
    using that by (auto simp: budget_ok_def in_budget_def B_def)
  have joined: "ensures (join i (\<lambda>c t. drain_result c t r) st) budget_ok" for i r
    using b B by (intro join_ensures ensures_mono [OF drain_result_budget]) (auto intro: ok')
  have lost: "ensures (join i (\<lambda>_ _ st. Ok (add_error e st)) st) budget_ok" for i e
    using b B by (intro join_ensures) (auto intro!: ok' in_budget_add)
  have ended: "budget_ok (st\<lparr>rs_phase := Finished\<rparr>)"
    "budget_ok ((push_error (lit ''Native probe shutdown deadline exceeded'') st)\<lparr>rs_phase := Finished\<rparr>)"
    using b loop_texts by (simp_all add: in_budget_def budget_ok_def push_error_def B_def)
  have "ensures (draining_step ev st) budget_ok"
    using joined lost ended by (cases ev) auto
  then show ?thesis by (simp add: step_def Draining)
qed (simp add: step_def)

lemma reachable_budget:
  assumes "reachable started s st" and "ts_run_timeout s \<le> from_secs 86400"
  shows "budget_ok st"
  using assms(1)
proof induction
  case start
  show ?case by (simp add: budget_ok_def initial_run_def)
next
  case (step st ev st')
  then show ?case using step_budget [OF step.IH assms(2)] by (blast dest: ensuresD)
qed

lemma validated_timeout: "validate_for_type s t = Ok () \<Longrightarrow> ts_run_timeout s \<le> from_secs 86400"
  by (auto simp: validate_for_type_def validate_def invalid_plan_def and_then_eq_Ok split: if_splits)

section \<open>The result\<close>

lemma finish_texts:
  "length retention_text \<le> 104"
  "length (lit ''ASN DNS enrichment: no DNS resolver was configured or discoverable'') \<le> 66"
  "length (lit ''DNS enrichment cancelled'') = 24"
  "length (lit '' during DNS enrichment'') = 22"
  "length (lit ''no trace probe responses were received'') = 38"
  by (simp_all add: retention_text_def lit_def)

lemma extend_errors_few:
  "text_bytes (extend_errors es ms) \<le> max (text_bytes es) EXTEND_LIMIT"
  using add_error_bounded [of "max (text_bytes es) EXTEND_LIMIT" es ms] by simp

text \<open>A message with a plain second byte is never cut to nothing.\<close>

definition plain :: "bytes \<Rightarrow> bool" where
  "plain m \<longleftrightarrow> 2 \<le> length m \<and> \<not> continuation (m ! 1)"

lemma cut_nonempty: "plain m \<Longrightarrow> 0 < room \<Longrightarrow> cut m room \<noteq> []"
proof -
  assume m: "plain m" "0 < room"
  then have "is_char_boundary m 1" by (simp add: plain_def is_char_boundary_def)
  then have "\<not> floor_boundary m (min (length m) room) < 1"
    using floor_boundary_maximal [of m "min (length m) room" 1] m by (auto simp: plain_def)
  then show ?thesis using m by (auto simp: cut_def plain_def)
qed

lemma extend_errors_grow: "text_bytes es \<le> text_bytes (extend_errors es ms)"
  using extend_errors_spec [of es ms] by (metis le_add1 text_bytes_simps(3))

lemma extend_errors_text:
  assumes "plain m"
  shows "0 < text_bytes (extend_errors es (m # ms))"
proof (cases "EXTEND_LIMIT \<le> text_bytes es")
  case True
  moreover have "0 < EXTEND_LIMIT" by (simp add: EXTEND_LIMIT_def MAX_ERROR_BYTES_def)
  ultimately show ?thesis using extend_errors_grow [of es "m # ms"] by linarith
next
  case False
  then have "cut m (EXTEND_LIMIT - text_bytes es) \<noteq> []" using assms by (intro cut_nonempty) simp_all
  moreover have "text_bytes es' \<le> text_bytes (extend_loop n es' ms)" for n es'
    using extend_loop_append [of n es' ms] by (metis le_add1 text_bytes_simps(3))
  then have "text_bytes (es @ [cut m (EXTEND_LIMIT - text_bytes es)]) \<le> text_bytes (extend_errors es (m # ms))"
    using False by (simp add: extend_errors_def Let_def del: text_bytes_simps)
  ultimately show ?thesis by (simp add: neq_Nil_conv) auto
qed

lemma plain_prefix: "2 \<le> length s \<Longrightarrow> \<not> continuation (lit s ! 1) \<Longrightarrow> plain (lit s @ m)"
  by (simp add: plain_def nth_append lit_def)

lemma plain_texts:
  "plain (lit ''cycle '' @ m)"
  "plain (lit ''stopping after '' @ m)"
  "plain (lit ''trace probe task failed: '' @ m)"
  by (rule plain_prefix; simp add: lit_def continuation_def)+

definition explained :: "run_state \<Rightarrow> bool" where
  "explained st \<longleftrightarrow>
     (rs_status st \<noteq> Run_Completed \<or> rs_errors st \<noteq> [] \<longrightarrow> 0 < text_bytes (rs_errors st))"

lemma explained_add: "plain m \<Longrightarrow> explained (stop q (add_error m st))" "plain m \<Longrightarrow> explained (add_error m st)"
  by (simp_all add: explained_def stop_def add_error_def extend_errors_text)

lemma explained_push: "e \<noteq> [] \<Longrightarrow> explained (stop q (push_error e st))"
  by (simp add: explained_def stop_def push_error_def)

lemma explained_updates [simp]:
  "explained (st\<lparr>rs_tasks := T\<rparr>) = explained st"
  "explained (st\<lparr>rs_hops := hs\<rparr>) = explained st"
  "explained (st\<lparr>rs_streak := k\<rparr>) = explained st"
  "explained (st\<lparr>rs_had_ok := oks\<rparr>) = explained st"
  "explained (st\<lparr>rs_known := kn\<rparr>) = explained st"
  "explained (st\<lparr>rs_bound := bd\<rparr>) = explained st"
  "explained (st\<lparr>rs_pending := P\<rparr>) = explained st"
  "explained (st\<lparr>rs_completed := c\<rparr>) = explained st"
  "explained (st\<lparr>rs_cadence := ca\<rparr>) = explained st"
  "explained (st\<lparr>rs_grace := g\<rparr>) = explained st"
  "explained (st\<lparr>rs_grace_expired := x\<rparr>) = explained st"
  "explained (st\<lparr>rs_phase := p\<rparr>) = explained st"
  by (simp_all add: explained_def)

lemma cycle_error_plain: "ensures (cycle_error_text c t e) plain"
  by (auto simp: cycle_error_text_def plain_texts intro!: ensures_trivial)

lemma count_result_explained: "explained st \<Longrightarrow> ensures (count_result c st) (\<lambda>(a, fin). explained a)"
  by (auto simp: count_result_def Let_def intro!: ensures_trivial)

lemma drain_result_explained:
  "explained st \<Longrightarrow> ensures (drain_result c t r st :: (run_state, 'e) outcome) explained"
proof -
  assume st: "explained st"
  have err: "ensures (cycle_error_text c t e :: (bytes, 'e) outcome) (\<lambda>m. explained (add_error m a))" for a e
    by (rule ensures_mono [OF cycle_error_plain]) (rule explained_add)
  show ?thesis
    unfolding drain_result_def ensures_and_then
    by (rule ensures_mono [OF count_result_explained [OF st]])
      (auto simp: err ensures_trivial split: sum.split)
qed

lemma on_error_explained: "explained st \<Longrightarrow> ensures (on_error c t e fin st) explained"
  unfolding on_error_def ensures_and_then
  by (rule ensures_mono [OF cycle_error_plain])
    (auto simp: Let_def streak_text_def plain_texts intro!: ensures_trivial explained_add)

lemma on_hop_explained: "explained st \<Longrightarrow> ensures (on_hop t hop st) explained"
  by (auto simp: on_hop_def Let_def intro!: ensures_trivial)

lemma task_result_explained:
  assumes "explained st"
  shows "ensures (task_result c t r st :: (run_state, 'e) outcome) explained"
  unfolding task_result_def ensures_and_then
proof (rule ensures_mono [OF count_result_explained [OF assms]], clarify, unfold ensures_and_then)
  fix a fin
  assume a: "explained a"
  have body: "ensures (case r of Inr hop \<Rightarrow> on_hop t hop (a\<lparr>rs_had_ok := h\<rparr>)
      | Inl e \<Rightarrow> (on_error c t e fin (a\<lparr>rs_had_ok := h\<rparr>) :: (run_state, 'e) outcome)) explained" for h
    using a by (auto intro!: on_hop_explained on_error_explained split: sum.split)
  show "ensures (if isl r then Ok (rs_had_ok a)
       else (update_at (rs_had_ok a) (unat c) (\<lambda>_. Ok True) :: (bool list, 'e) outcome))
     (\<lambda>h. ensures (let st = a\<lparr>rs_had_ok := h\<rparr> in
        and_then (case r of Inl e \<Rightarrow> on_error c t e fin st | Inr hop \<Rightarrow> (on_hop t hop st :: (run_state, 'e) outcome))
          (\<lambda>st. if rs_phase st \<noteq> Running then Ok st
            else and_then (if fin then byte_at h (unat c) else Ok False)
              (\<lambda>reset. Ok (if reset then st\<lparr>rs_streak := 0\<rparr> else st)))) explained)"
    unfolding Let_def ensures_and_then
    by (rule ensures_trivial, rule ensures_mono [OF body]) (auto simp: ensures_trivial)
qed

lemma step_explained:
  assumes "explained st"
  shows "ensures (step s ev st) explained"
proof -
  have nonempty: "lit ''trace run cancelled'' \<noteq> []" "lit ''trace run timed out after '' \<noteq> []"
    "lit ''Native probe concurrency limit reached; remaining probes were not sent'' \<noteq> []"
    "lit ''Native probe shutdown deadline exceeded'' \<noteq> []"
    by (simp_all add: lit_def)
  have results: "ensures (join i (\<lambda>c t. task_result c t r) st) explained"
    "ensures (join i (\<lambda>c t. drain_result c t r) st) explained" for i r
    using assms by (auto intro!: join_ensures task_result_explained drain_result_explained)
  have "ensures (dispatch s now st) explained" for now
    using assms nonempty by (auto simp: dispatch_def Let_def intro!: ensures_trivial explained_push)
  moreover have "e \<noteq> [] \<Longrightarrow> explained (push_error e st)" for e
    by (simp add: explained_def push_error_def)
  ultimately have "ensures (running_step s ev st) explained" "ensures (draining_step ev st) explained"
    using assms results nonempty
    by (cases ev; auto simp: lost_text_def plain_texts intro!: join_ensures explained_add explained_push)+
  then show ?thesis by (simp add: step_def split: run_phase.split)
qed

lemma reachable_explained: "reachable started s st \<Longrightarrow> explained st"
proof (induction rule: reachable.induct)
  case start
  show ?case by (simp add: explained_def initial_run_def)
next
  case (step st ev st')
  then show ?case using step_explained [OF step.IH] by (blast dest: ensuresD)
qed

section \<open>From the state of the loop to the result\<close>

definition query_error :: "bytes \<Rightarrow> bool" where
  "query_error m \<longleftrightarrow> take 4 m \<in> {lit ''PTR '', lit ''ASN '', lit ''DNS ''}"

lemma query_error_plain: "query_error m \<Longrightarrow> plain m"
proof -
  assume "query_error m"
  then obtain k where k: "take 4 m = lit k" "k \<in> {''PTR '', ''ASN '', ''DNS ''}"
    by (auto simp: query_error_def)
  then have "m = lit k @ drop 4 m" by (metis append_take_drop_id)
  moreover have "plain (lit k @ drop 4 m)"
    using k(2) by (intro plain_prefix) (auto simp: lit_def continuation_def)
  ultimately show ?thesis by simp
qed

lemma text_bytes_0: "text_bytes ms = 0 \<longleftrightarrow> (\<forall>m \<in> set ms. m = [])"
  by (induction ms) auto

text \<open>What is known of the errors between the loop and the normalisation.\<close>

definition tail_budget :: "finishing \<Rightarrow> bool" where
  "tail_budget f \<longleftrightarrow> text_bytes (fi_errors f) + (if fi_status f = Run_Completed then 38 else 0)
     \<le> MAX_ERROR_BYTES"

lemma MAX_EXTEND: "MAX_ERROR_BYTES = EXTEND_LIMIT + 256"
  by (simp add: EXTEND_LIMIT_def MAX_ERROR_BYTES_def)

lemma loop_result_budget:
  assumes "budget_ok st" and "rs_phase st = Finished"
  shows "text_bytes (fi_errors (loop_result s st))
    \<le> EXTEND_LIMIT + 143 + (if rs_status st = Run_Completed then 0 else 70)"
  using assms finish_texts(1) by (auto simp: budget_ok_def loop_result_def split: if_splits)

lemma enrich_budget:
  assumes "text_bytes (fi_errors f) \<le> EXTEND_LIMIT + 143 + (if fi_status f = Run_Completed then 0 else 70)"
    and "ts_run_timeout s \<le> from_secs 86400"
  shows "tail_budget (enrich t s e f)"
proof (cases "fi_status f = Run_Completed")
  case False
  then show ?thesis using assms by (simp add: enrich_def tail_budget_def MAX_EXTEND)
next
  case True
  have d: "length (duration_debug (ts_run_timeout s)) \<le> 16" by (rule duration_debug_length [OF assms(2)])
  have x: "text_bytes (extend_errors es ms) \<le> EXTEND_LIMIT + B"
    if "text_bytes es \<le> EXTEND_LIMIT + B" for es ms B
    using that extend_errors_few [of es ms] by simp
  show ?thesis
  proof (cases e)
    case (Enriched late cache errs)
    have "text_bytes (extend_errors (fi_errors f @ [lit ''DNS enrichment cancelled'']) errs) \<le> EXTEND_LIMIT + 167"
      by (rule x) (use assms(1) True finish_texts in simp)
    moreover have "text_bytes (extend_errors (fi_errors f) errs) \<le> EXTEND_LIMIT + 143"
      by (rule x) (use assms(1) True in simp)
    ultimately show ?thesis
      using Enriched True by (auto simp: enrich_def tail_budget_def MAX_EXTEND Let_def)
  qed (use assms(1) True d finish_texts loop_texts in \<open>auto simp: enrich_def tail_budget_def MAX_EXTEND\<close>)
qed

definition replies_missing :: "finishing \<Rightarrow> bool" where
  "replies_missing f \<longleftrightarrow> fi_hops f = [] \<or> list_all (\<lambda>h. st_received (th_statistics h) = 0) (fi_hops f)"

lemma conclude_errors:
  assumes "tail_budget f"
  shows "fi_errors (conclude t f) = filter (\<lambda>m. m \<noteq> []) (fi_errors f
    @ (if fi_status f = Run_Completed \<and> replies_missing f
       then [lit ''no trace probe responses were received''] else []))"
proof -
  let ?es = "fi_errors f @ (if fi_status f = Run_Completed \<and> replies_missing f
       then [lit ''no trace probe responses were received''] else [])"
  have "text_bytes ?es \<le> MAX_ERROR_BYTES"
    using assms finish_texts(5) by (simp add: tail_budget_def split: if_splits)
  then have "normalize_errors ?es = filter (\<lambda>m. m \<noteq> []) ?es"
    using normalize_loop_fits [of 0 ?es] by (simp add: normalize_errors_def)
  moreover have "fi_errors (conclude t f) = normalize_errors ?es"
    by (auto simp: conclude_def Let_def replies_missing_def)
  ultimately show ?thesis by simp
qed

lemma conclude_status:
  "fi_enrichment_errors f \<le> length (fi_errors f) \<Longrightarrow> fi_status (conclude t f) = Run_Completed \<longleftrightarrow>
     fi_status f = Run_Completed \<and> \<not> replies_missing f
     \<and> (if needs_asn t then fi_errors f = [] else length (fi_errors f) \<le> fi_enrichment_errors f)"
  by (auto simp: conclude_def Let_def replies_missing_def)

lemma conclude_hops [simp]: "fi_hops (conclude t f) = fi_hops f"
  by (simp add: conclude_def Let_def)

lemma enrich_keeps: "set (fi_errors f) \<subseteq> set (fi_errors (enrich t s e f))"
proof -
  have x: "set es \<subseteq> set (extend_errors es ms)" for es ms
    using extend_errors_spec [of es ms] by (metis Un_upper1 set_append)
  have y: "set es \<subseteq> set (extend_errors (es @ more) ms)" for es more ms
    using x [of "es @ more" ms] by simp
  show ?thesis
    using x y by (cases e) (auto simp: enrich_def Let_def)
qed

lemma enrich_status: "fi_status (enrich t s e f) = Run_Completed \<Longrightarrow> fi_status f = Run_Completed"
  by (auto simp: enrich_def split: if_splits)

lemma enrich_clean:
  assumes "fi_status (enrich t s e f) = Run_Completed" and "fi_enrichment_errors f = 0"
    and "length (fi_errors (enrich t s e f)) \<le> fi_enrichment_errors (enrich t s e f)"
  shows "fi_errors f = []"
proof -
  have "length es \<le> length (extend_errors es ms)" for es ms
    using extend_errors_spec [of es ms] by (metis le_add1 length_append)
  then have grow: "length es \<le> length (extend_errors es ms)" for es ms .
  have zero: "es = []" if "length (extend_errors es ms) \<le> length (extend_errors es ms) - length es" for es ms
  proof -
    have "length es = 0" using that grow [of es ms] by linarith
    then show ?thesis by simp
  qed
  have c: "fi_status f = Run_Completed" by (rule enrich_status [OF assms(1)])
  show ?thesis
  proof (cases e)
    case (Enriched late cache errs)
    with c assms(1) have "\<not> late" by (auto simp: enrich_def Let_def)
    with c assms(3) Enriched show ?thesis by (simp add: enrich_def Let_def zero)
  qed (use c assms in \<open>auto simp: enrich_def split: if_splits\<close>)
qed

lemma enrich_count:
  "fi_enrichment_errors f = 0 \<Longrightarrow> fi_enrichment_errors (enrich t s e f) \<le> length (fi_errors (enrich t s e f))"
  by (cases e) (simp_all add: enrich_def Let_def)

lemma enrich_text:
  assumes "explained st"
    and "\<And>late cache errs m. e = Enriched late cache errs \<Longrightarrow> m \<in> set errs \<Longrightarrow> query_error m"
    and "fi_status (enrich t s e (loop_result s st)) \<noteq> Run_Completed
      \<or> fi_errors (enrich t s e (loop_result s st)) \<noteq> []"
  shows "0 < text_bytes (fi_errors (enrich t s e (loop_result s st)))"
proof -
  let ?f = "loop_result s st"
  have f: "0 < text_bytes (fi_errors ?f)" if "fi_status ?f \<noteq> Run_Completed \<or> fi_errors ?f \<noteq> []"
    using that assms(1) by (auto simp: loop_result_def explained_def retention_text_def lit_def split: if_splits)
  show ?thesis
  proof (cases "fi_status ?f = Run_Completed")
    case False
    with f show ?thesis by (simp add: enrich_def)
  next
    case c: True
    show ?thesis
    proof (cases e)
      case (Enriched late cache errs)
      have q: "errs = [] \<or> (\<exists>m ms. errs = m # ms \<and> plain m)"
        using assms(2) [OF Enriched] query_error_plain by (cases errs) auto
      have more: "0 < text_bytes (extend_errors es errs)" if "0 < text_bytes es \<or> errs \<noteq> []" for es
        using that q extend_errors_text extend_errors_grow [of es errs] by fastforce
      have none: "extend_errors [] [] = []" by (simp add: extend_errors_def)
      show ?thesis
        using c Enriched assms(3) f more
        by (cases late) (auto simp: enrich_def Let_def lit_def none, (metis none)+)
    qed (use c f assms(3) in \<open>auto simp: enrich_def lit_def split: if_splits\<close>)
  qed
qed

lemma finished_facts:
  assumes "validate_for_type s t = Ok ()" and "reachable started s st" and "rs_phase st = Finished"
  shows "tail_budget (enrich t' s e (loop_result s st))" and "explained st"
proof -
  have "ts_run_timeout s \<le> from_secs 86400" by (rule validated_timeout [OF assms(1)])
  then show "tail_budget (enrich t' s e (loop_result s st))"
    using loop_result_budget [OF reachable_budget [OF assms(2)] assms(3)]
    by (intro enrich_budget) (simp_all add: loop_result_def)
  show "explained st" by (rule reachable_explained [OF assms(2)])
qed

section \<open>What a run reports\<close>

text \<open>
  The diagnostics of the run, written down from the events: what the loop pushes for an event
  (a terminal diagnostic), what it reports of a probe (through the budget), and what is reported
  after the loop. \<open>st'\<close> is the state after the event: a probe error that is not fatal and still
  stops the loop was the last of too many failed cycles.
\<close>

definition pushed_texts :: "trace_settings \<Rightarrow> trace_event \<Rightarrow> run_state \<Rightarrow> bytes list" where
  "pushed_texts s ev st = (case ev of
     Cancel_Fired \<Rightarrow> [lit ''trace run cancelled'']
   | Deadline_Fired \<Rightarrow> [lit ''trace run timed out after '' @ duration_debug (ts_run_timeout s)]
   | Dispatch now \<Rightarrow> if MAX_OUTSTANDING_PROBES \<le> length (rs_tasks st)
       then [lit ''Native probe concurrency limit reached; remaining probes were not sent''] else []
   | Drain_Deadline \<Rightarrow> [lit ''Native probe shutdown deadline exceeded'']
   | _ \<Rightarrow> [])"

definition probe_text :: "u16 \<times> u8 \<Rightarrow> probe_error \<Rightarrow> bytes" where
  "probe_text task e = lit ''cycle '' @ decimal (Suc (unat (fst task))) @ lit '' TTL ''
     @ decimal (unat (snd task)) @ lit '': '' @ probe_error_text e"

definition failed_texts :: "u16 \<times> u8 \<Rightarrow> probe_error \<Rightarrow> run_state \<Rightarrow> bytes list" where
  "failed_texts task e st' = probe_text task e # (if rs_phase st' \<noteq> Running \<and> \<not> is_fatal e
     then [lit ''stopping after '' @ decimal (unat MAX_FAILED_CYCLES)
       @ lit '' cycles in which every probe failed: '' @ probe_error_text e] else [])"

definition result_texts :: "u16 \<times> u8 \<Rightarrow> probe_error + hop_result \<Rightarrow> run_state \<Rightarrow> bytes list" where
  "result_texts task r st' = (case r of Inl e \<Rightarrow> failed_texts task e st' | Inr hop \<Rightarrow> [])"

definition drained_texts :: "u16 \<times> u8 \<Rightarrow> probe_error + hop_result \<Rightarrow> bytes list" where
  "drained_texts task r = (case r of
     Inl e \<Rightarrow> if e = Probe_Cancelled then [] else [probe_text task e] | Inr hop \<Rightarrow> [])"

definition probe_texts :: "trace_event \<Rightarrow> run_state \<Rightarrow> run_state \<Rightarrow> bytes list" where
  "probe_texts ev st st' = (case ev of
     Task_Lost i m \<Rightarrow> [lit ''trace probe task failed: '' @ m]
   | Task_Done i r \<Rightarrow> if rs_phase st = Running then result_texts (rs_tasks st ! i) r st'
       else drained_texts (rs_tasks st ! i) r
   | _ \<Rightarrow> [])"

definition closing_texts :: "trace_type \<Rightarrow> trace_settings \<Rightarrow> enrichment \<Rightarrow> run_state \<Rightarrow> bytes list" where
  "closing_texts t s e st = (if list_ex ha_limited (rs_hops st) then [retention_text] else [])
     @ (if rs_status st \<noteq> Run_Completed then [] else case e of
          No_Resolvers \<Rightarrow> if needs_asn t
            then [lit ''ASN DNS enrichment: no DNS resolver was configured or discoverable''] else []
        | Enrichment_Cancelled \<Rightarrow> [lit ''DNS enrichment cancelled'']
        | Enrichment_Timed_Out \<Rightarrow> [lit ''trace run timed out after '' @ duration_debug (ts_run_timeout s)
            @ lit '' during DNS enrichment'']
        | Enriched late cache errs \<Rightarrow> if late then [lit ''DNS enrichment cancelled''] else [])"

definition query_texts :: "enrichment \<Rightarrow> run_state \<Rightarrow> bytes list" where
  "query_texts e st = (case e of
     Enriched late cache errs \<Rightarrow> if rs_status st = Run_Completed then errs else [] | _ \<Rightarrow> [])"

definition uninterrupted :: "enrichment \<Rightarrow> bool" where
  "uninterrupted e \<longleftrightarrow> (case e of No_Resolvers \<Rightarrow> True | Enriched late cache errs \<Rightarrow> \<not> late | _ \<Rightarrow> False)"

definition unanswered_texts :: "enrichment \<Rightarrow> run_state \<Rightarrow> trace_hop list \<Rightarrow> bytes list" where
  "unanswered_texts e st hops =
     (if rs_status st = Run_Completed \<and> uninterrupted e \<and> (\<forall>h \<in> set hops. st_received (th_statistics h) = 0)
      then [lit ''no trace probe responses were received''] else [])"

subsection \<open>The budget\<close>

lemma extend_errors_none [simp]: "extend_errors es [] = es"
  by (simp add: extend_errors_def)

lemma extend_loop_fits:
  "retained + text_bytes ms < EXTEND_LIMIT \<Longrightarrow> extend_loop retained es ms = es @ ms"
proof (induction retained es ms rule: extend_loop.induct)
  case (2 retained es m ms)
  then have "cut m (EXTEND_LIMIT - retained) = m" by (intro trace_text.truncate_fits) simp
  with 2 show ?case by (simp add: Let_def)
qed simp

lemma extend_errors_fits: "text_bytes (es @ ms) < EXTEND_LIMIT \<Longrightarrow> extend_errors es ms = es @ ms"
  by (simp add: extend_errors_def extend_loop_fits)

lemma extend_errors_twice: "extend_errors (extend_errors es [m]) [k] = extend_errors es [m, k]"
  by (simp add: extend_errors_def Let_def)

text \<open>\<open>told es new ms\<close>: the list \<open>es\<close> grew to \<open>new\<close> by the messages \<open>ms\<close>, within the budget.\<close>

definition told :: "bytes list \<Rightarrow> bytes list \<Rightarrow> bytes list \<Rightarrow> bool" where
  "told es new ms \<longleftrightarrow> (\<exists>kept. new = es @ kept \<and> (text_bytes (es @ ms) < EXTEND_LIMIT \<longrightarrow> kept = ms))"

lemma told_extend: "told es (extend_errors es ms) ms"
  using extend_errors_spec [of es ms] extend_errors_fits [of es ms] by (metis same_append_eq told_def)

subsection \<open>One event\<close>

lemma cycle_error_probe: "ensures (cycle_error_text c t e) (\<lambda>m. m = probe_text (c, t) e)"
  by (auto simp: cycle_error_text_def probe_text_def ensures_def word_add_def unat_word_ariths
      and_then_eq_Ok split: if_splits)

lemma count_result_same:
  "ensures (count_result c st) (\<lambda>(a, fin). rs_errors a = rs_errors st \<and> rs_phase a = rs_phase st)"
  by (auto simp: count_result_def Let_def intro!: ensures_trivial)

lemma on_hop_same: "ensures (on_hop t hop st) (\<lambda>a. rs_errors a = rs_errors st)"
  by (auto simp: on_hop_def Let_def intro!: ensures_trivial)

lemma on_error_texts:
  assumes "rs_phase st = Running"
  shows "ensures (on_error c t e fin st) (\<lambda>a. rs_errors a = extend_errors (rs_errors st) (failed_texts (c, t) e a))"
  unfolding on_error_def ensures_and_then
  by (rule ensures_mono [OF cycle_error_probe])
    (auto simp: Let_def failed_texts_def streak_text_def stop_def add_error_def extend_errors_twice assms
      intro!: ensures_trivial)

lemma result_texts_streak: "result_texts task r (st\<lparr>rs_streak := k\<rparr>) = result_texts task r st"
  by (simp add: result_texts_def failed_texts_def split: sum.split)

lemma task_result_texts:
  assumes "rs_phase st = Running"
  shows "ensures (task_result c t r st :: (run_state, 'e) outcome)
    (\<lambda>a. rs_errors a = extend_errors (rs_errors st) (result_texts (c, t) r a))"
  unfolding task_result_def ensures_and_then
proof (rule ensures_mono [OF count_result_same], clarify, unfold ensures_and_then)
  fix a :: run_state and fin
  assume a: "rs_errors a = rs_errors st" "rs_phase a = rs_phase st"
  let ?Q = "\<lambda>d. rs_errors d = extend_errors (rs_errors st) (result_texts (c, t) r d)"
  have body: "ensures (case r of Inr hop \<Rightarrow> on_hop t hop (a\<lparr>rs_had_ok := h\<rparr>)
      | Inl e \<Rightarrow> (on_error c t e fin (a\<lparr>rs_had_ok := h\<rparr>) :: (run_state, 'e) outcome)) ?Q" for h
    using on_error_texts [of "a\<lparr>rs_had_ok := h\<rparr>" c t _ fin] on_hop_same [of t _ "a\<lparr>rs_had_ok := h\<rparr>"] a assms
    by (cases r) (simp_all add: result_texts_def)
  show "ensures (if isl r then Ok (rs_had_ok a)
       else (update_at (rs_had_ok a) (unat c) (\<lambda>_. Ok True) :: (bool list, 'e) outcome))
     (\<lambda>h. ensures (let st = a\<lparr>rs_had_ok := h\<rparr> in
        and_then (case r of Inl e \<Rightarrow> on_error c t e fin st | Inr hop \<Rightarrow> (on_hop t hop st :: (run_state, 'e) outcome))
          (\<lambda>st. if rs_phase st \<noteq> Running then Ok st
            else and_then (if fin then byte_at h (unat c) else Ok False)
              (\<lambda>reset. Ok (if reset then st\<lparr>rs_streak := 0\<rparr> else st)))) ?Q)"
    unfolding Let_def ensures_and_then
    by (rule ensures_trivial, rule ensures_mono [OF body]) (auto simp: result_texts_streak intro!: ensures_trivial)
qed

lemma drain_result_texts:
  "ensures (drain_result c t r st :: (run_state, 'e) outcome) (\<lambda>a. rs_errors a = extend_errors (rs_errors st)
    (drained_texts (c, t) r))"
  unfolding drain_result_def ensures_and_then
proof (rule ensures_mono [OF count_result_same], clarify)
  fix a :: run_state and fin
  assume a: "rs_errors a = rs_errors st"
  have "ensures (cycle_error_text c t e :: (bytes, 'e) outcome) (\<lambda>m. rs_errors (add_error m a) = extend_errors (rs_errors st) [probe_text (c, t) e])" for e
    by (rule ensures_mono [OF cycle_error_probe]) (simp add: add_error_def a)
  then show "ensures (case r of
         Inr hop \<Rightarrow> and_then (record_samples (unat t)
               (map (settle_sample (rs_grace_expired a)) (hr_samples hop)) (rs_hops a))
             (\<lambda>hops. Ok (a\<lparr>rs_hops := hops\<rparr>))
       | Inl e \<Rightarrow> if e = Probe_Cancelled then Ok a
           else and_then (cycle_error_text c t e :: (bytes, 'e) outcome) (\<lambda>m. Ok (add_error m a)))
     (\<lambda>a. rs_errors a = extend_errors (rs_errors st)
    (drained_texts (c, t) r))"
    by (cases r) (simp_all add: a drained_texts_def ensures_trivial)
qed

lemma join_task:
  assumes "\<And>c t T. rs_tasks st ! i = (c, t) \<Longrightarrow> ensures (f c t (st\<lparr>rs_tasks := T\<rparr>)) P"
  shows "ensures (join i f st) P"
  using assms by (auto simp: join_def get_at_def split: option.split prod.split)

lemma dispatch_texts:
  "ensures (dispatch s now st) (\<lambda>a. rs_errors a = rs_errors st @ pushed_texts s (Dispatch now) st)"
  by (auto simp: dispatch_def pushed_texts_def push_error_def stop_def Let_def intro!: ensures_trivial)

lemma step_texts:
  "ensures (step s ev st)
    (\<lambda>a. rs_errors a = extend_errors (rs_errors st @ pushed_texts s ev st) (probe_texts ev st a))"
  (is "ensures _ ?P")
proof (cases "rs_phase st")
  case Running
  have "ensures (task_result c t q (st\<lparr>rs_tasks := T\<rparr>)) (\<lambda>a. rs_errors a = extend_errors (rs_errors st) (result_texts (c, t) q a))"
    for c t q T
    using task_result_texts [of "st\<lparr>rs_tasks := T\<rparr>" c t q] Running by simp
  then have "ensures (join i (\<lambda>c t. task_result c t q) st) ?P" if "ev = Task_Done i q" for i q
    using that Running
    by (intro join_task) (simp add: pushed_texts_def probe_texts_def)
  moreover have "ensures (join i (\<lambda>_ _ st. Ok (stop Run_Partial_Failure (add_error (lost_text m) st))) st) ?P"
    if "ev = Task_Lost i m" for i m
    using that by (intro join_task) (simp add: pushed_texts_def probe_texts_def stop_def add_error_def lost_text_def)
  moreover have "ensures (dispatch s now st) ?P" if "ev = Dispatch now" for now
    using that dispatch_texts [of s now st] by (simp add: probe_texts_def)
  ultimately have "ensures (running_step s ev st) ?P"
    by (cases ev) (auto simp: pushed_texts_def probe_texts_def stop_def push_error_def)
  then show ?thesis by (simp add: step_def Running)
next
  case Draining
  have "ensures (drain_result c t q (st\<lparr>rs_tasks := T\<rparr>)) (\<lambda>a. rs_errors a = extend_errors (rs_errors st)
      (drained_texts (c, t) q))"
    for c t q T
    using drain_result_texts [of c t q "st\<lparr>rs_tasks := T\<rparr>"] by simp
  then have "ensures (join i (\<lambda>c t. drain_result c t q) st) ?P" if "ev = Task_Done i q" for i q
    using that Draining
    by (intro join_task) (simp add: pushed_texts_def probe_texts_def)
  moreover have "ensures (join i (\<lambda>_ _ st. Ok (add_error (lost_text m) st)) st) ?P"
    if "ev = Task_Lost i m" for i m
    using that by (intro join_task) (simp add: pushed_texts_def probe_texts_def add_error_def lost_text_def)
  ultimately have "ensures (draining_step ev st) ?P"
    by (cases ev) (auto simp: pushed_texts_def probe_texts_def push_error_def)
  then show ?thesis by (simp add: step_def Draining)
qed (simp add: step_def)

lemma step_told: "step s ev st = Ok a \<Longrightarrow> told (rs_errors st @ pushed_texts s ev st) (rs_errors a) (probe_texts ev st a)"
  using told_extend ensuresD [OF step_texts, of s ev st a] by simp

lemma run_events_grow: "run_events s evs st = Ok a \<Longrightarrow> \<exists>later. rs_errors a = rs_errors st @ later"
proof (induction evs arbitrary: st)
  case (Cons ev evs)
  then obtain b where b: "step s ev st = Ok b" "run_events s evs b = Ok a" by (auto simp: and_then_eq_Ok)
  with step_told [OF b(1)] Cons.IH [OF b(2)] show ?case by (auto simp: told_def)
qed simp

subsection \<open>After the loop\<close>

lemma enrich_texts:
  "fi_errors (enrich t s e (loop_result s st))
     = extend_errors (rs_errors st @ closing_texts t s e st) (query_texts e st)"
  by (cases e) (auto simp: enrich_def loop_result_def closing_texts_def query_texts_def Let_def)

lemma enrich_completed:
  "fi_status (enrich t s e (loop_result s st)) = Run_Completed \<longleftrightarrow> rs_status st = Run_Completed \<and> uninterrupted e"
  by (cases e) (auto simp: enrich_def loop_result_def uninterrupted_def Let_def)

lemma result_told:
  assumes "tail_budget (enrich (it_type item) s e (loop_result s st))"
  shows "\<exists>kept. rr_errors (finish_run item s target e st) = filter (\<lambda>m. m \<noteq> []) (rs_errors st
      @ closing_texts (it_type item) s e st @ kept
      @ unanswered_texts e st (rr_hops (finish_run item s target e st)))
    \<and> (text_bytes (rs_errors st @ closing_texts (it_type item) s e st @ query_texts e st) < 16128
        \<longrightarrow> kept = query_texts e st)"
proof -
  let ?f = "enrich (it_type item) s e (loop_result s st)" and ?es = "rs_errors st @ closing_texts (it_type item) s e st"
  have "told ?es (fi_errors ?f) (query_texts e st)" unfolding enrich_texts by (rule told_extend)
  then obtain kept where kept: "fi_errors ?f = ?es @ kept"
    "text_bytes (?es @ query_texts e st) < EXTEND_LIMIT \<longrightarrow> kept = query_texts e st"
    by (auto simp: told_def)
  have "replies_missing ?f \<longleftrightarrow> (\<forall>h \<in> set (fi_hops ?f). st_received (th_statistics h) = 0)"
    by (auto simp: replies_missing_def list_all_iff)
  then have "fi_errors (conclude (it_type item) ?f)
      = filter (\<lambda>m. m \<noteq> []) (fi_errors ?f @ unanswered_texts e st (fi_hops ?f))"
    by (simp add: conclude_errors [OF assms] enrich_completed unanswered_texts_def)
  with kept show ?thesis
    by (intro exI [of _ kept]) (simp add: finish_run_def Let_def EXTEND_LIMIT_def MAX_ERROR_BYTES_def)
qed

text \<open>
  C15. What a finished run reports. In the loop: every event of the run that ends in \<open>st\<close> leaves its
  diagnostics in the error list, in order and for good: the terminal ones (cancelled, timed out, too
  many outstanding probes, shutdown deadline) always, whatever the budget; those of a failed or lost
  probe, the one about too many failed cycles included, whole and without exception as long as they
  fit below the reserve, 256 bytes under 16 KiB. After the loop: the result's errors are exactly
  the non-empty ones of that list, then the terminal diagnostics of the rest of the run (retention
  limited, no resolver for an AS trace, name resolution cancelled or timed out), then the resolver
  errors, all of them while they fit below the reserve, then the notice that nothing answered. The
  whole stays within 16 KiB, so the reserve is large enough and the final normalisation cuts nothing.
\<close>

theorem run_errors_kept:
  assumes "validate_for_type s t = Ok ()" and "reachable started s st" and "rs_phase st = Finished"
  shows "(\<forall>st0 ev st1 evs. step s ev st0 = Ok st1 \<and> run_events s evs st1 = Ok st \<longrightarrow>
      (\<exists>kept later. rs_errors st = rs_errors st0 @ pushed_texts s ev st0 @ kept @ later
        \<and> (text_bytes (rs_errors st0 @ pushed_texts s ev st0 @ probe_texts ev st0 st1) < 16128
            \<longrightarrow> kept = probe_texts ev st0 st1)))
    \<and> (let r = finish_run item s target e st in
        (\<exists>kept. rr_errors r = filter (\<lambda>m. m \<noteq> []) (rs_errors st @ closing_texts (it_type item) s e st
            @ kept @ unanswered_texts e st (rr_hops r))
          \<and> (text_bytes (rs_errors st @ closing_texts (it_type item) s e st @ query_texts e st) < 16128
              \<longrightarrow> kept = query_texts e st))
        \<and> text_bytes (rr_errors r) \<le> 16384)"
proof (intro conjI allI impI; (elim conjE)?)
  fix st0 ev st1 evs
  assume st1: "step s ev st0 = Ok st1" and "run_events s evs st1 = Ok st"
  then obtain later where "rs_errors st = rs_errors st1 @ later" using run_events_grow by blast
  moreover obtain kept where "rs_errors st1 = (rs_errors st0 @ pushed_texts s ev st0) @ kept"
    and "text_bytes (rs_errors st0 @ pushed_texts s ev st0 @ probe_texts ev st0 st1) < 16128
      \<longrightarrow> kept = probe_texts ev st0 st1"
    using step_told [OF st1] by (auto simp: told_def EXTEND_LIMIT_def MAX_ERROR_BYTES_def)
  ultimately show "\<exists>kept later. rs_errors st = rs_errors st0 @ pushed_texts s ev st0 @ kept @ later
      \<and> (text_bytes (rs_errors st0 @ pushed_texts s ev st0 @ probe_texts ev st0 st1) < 16128
          \<longrightarrow> kept = probe_texts ev st0 st1)"
    by (intro exI [of _ kept] exI [of _ later]) simp
next
  let ?f = "enrich (it_type item) s e (loop_result s st)"
  have b: "tail_budget ?f" by (rule finished_facts [OF assms])
  have "text_bytes (fi_errors (conclude (it_type item) ?f)) \<le> 16384"
    using normalize_loop_bytes [of 0] by (simp add: conclude_def Let_def normalize_errors_def MAX_ERROR_BYTES_def)
  then have "text_bytes (rr_errors (finish_run item s target e st)) \<le> 16384"
    by (simp add: finish_run_def Let_def)
  with result_told [OF b, of target]
  show "let r = finish_run item s target e st in
        (\<exists>kept. rr_errors r = filter (\<lambda>m. m \<noteq> []) (rs_errors st @ closing_texts (it_type item) s e st
            @ kept @ unanswered_texts e st (rr_hops r))
          \<and> (text_bytes (rs_errors st @ closing_texts (it_type item) s e st @ query_texts e st) < 16128
              \<longrightarrow> kept = query_texts e st))
        \<and> text_bytes (rr_errors r) \<le> 16384"
    unfolding Let_def by (rule conjI)
qed

text \<open>
  C16. What the status of a result says. A completed run ended by its own schedule, recorded no error
  in the loop, retained everything, and at least one hop answered; an AS trace is completed only
  without any error. A run that is not completed says why: its error list is not empty, given that
  resolver errors are the texts \<open>enrich_hops\<close> builds.
\<close>

theorem run_status_meaning:
  fixes item :: trace_plan_item and target :: "ip_addr \<times> u16"
  assumes "validate_for_type s t = Ok ()" and "reachable started s st" and "rs_phase st = Finished"
    and "\<And>late cache errs m. e = Enriched late cache errs \<Longrightarrow> m \<in> set errs \<Longrightarrow> query_error m"
  defines "r \<equiv> finish_run item s target e st"
  shows "(rr_status r = Run_Completed \<longrightarrow>
      rs_status st = Run_Completed \<and> rs_errors st = [] \<and> \<not> list_ex ha_limited (rs_hops st)
      \<and> (\<exists>h \<in> set (rr_hops r). st_received (th_statistics h) \<noteq> 0)
      \<and> (it_type item \<in> {As4, As6} \<longrightarrow> rr_errors r = []))
    \<and> (rr_status r \<noteq> Run_Completed \<longrightarrow> rr_errors r \<noteq> [])"
proof -
  let ?l = "loop_result s st"
  let ?f = "enrich (it_type item) s e ?l"
  have l0: "fi_enrichment_errors ?l = 0" by (simp add: loop_result_def)
  have b: "tail_budget ?f" by (rule finished_facts [OF assms(1-3)])
  have told: "fi_status ?f \<noteq> Run_Completed \<or> fi_errors ?f \<noteq> [] \<Longrightarrow> 0 < text_bytes (fi_errors ?f)"
    by (rule enrich_text [OF finished_facts(2) [OF assms(1-3)] assms(4)])
  note status = conclude_status [OF enrich_count [OF l0, of "it_type item" s e], of "it_type item"]
  note errors = conclude_errors [OF b, of "it_type item"]
  have r: "rr_status r = fi_status (conclude (it_type item) ?f)"
    "rr_errors r = fi_errors (conclude (it_type item) ?f)" "rr_hops r = fi_hops ?f"
    by (simp_all add: r_def finish_run_def Let_def)
  have ok: "rs_status st = Run_Completed \<and> rs_errors st = [] \<and> \<not> list_ex ha_limited (rs_hops st)
      \<and> (\<exists>h \<in> set (rr_hops r). st_received (th_statistics h) \<noteq> 0)
      \<and> (it_type item \<in> {As4, As6} \<longrightarrow> rr_errors r = [])"
    if "rr_status r = Run_Completed"
  proof -
    from that have c: "fi_status ?f = Run_Completed" "\<not> replies_missing ?f"
      "if needs_asn (it_type item) then fi_errors ?f = [] else length (fi_errors ?f) \<le> fi_enrichment_errors ?f"
      by (auto simp: r status)
    have "fi_errors ?l = []"
    proof (cases "needs_asn (it_type item)")
      case True
      with c(3) enrich_keeps [of ?l "it_type item" s e] show ?thesis by auto
    next
      case False
      with c(3) show ?thesis by (intro enrich_clean [OF c(1) l0]) simp
    qed
    moreover have "fi_status ?l = Run_Completed" by (rule enrich_status [OF c(1)])
    ultimately show ?thesis
      using c r(2) errors
      by (auto simp: loop_result_def r(3) replies_missing_def list_all_iff needs_asn_def split: if_splits)
  qed
  have "rr_errors r \<noteq> []" if "rr_status r \<noteq> Run_Completed"
  proof (cases "fi_status ?f = Run_Completed \<and> replies_missing ?f")
    case True
    then show ?thesis using errors by (simp add: r lit_def)
  next
    case False
    with that have "fi_status ?f \<noteq> Run_Completed \<or> fi_errors ?f \<noteq> []"
      by (auto simp: r status split: if_splits)
    from told [OF this] have "\<exists>m \<in> set (fi_errors ?f). m \<noteq> []"
      using text_bytes_0 [of "fi_errors ?f"] by auto
    with errors show ?thesis by (auto simp: r filter_empty_conv)
  qed
  with ok show ?thesis by blast
qed

text \<open>A run that is cancelled before its first probe, for the witnesses.\<close>

definition demo_end :: run_state where
  "demo_end = (stop Run_Cancelled (push_error (lit ''trace run cancelled'') (initial_run 0 demo_settings)))
     \<lparr>rs_phase := Finished\<rparr>"

definition demo_item :: trace_plan_item where
  "demo_item = \<lparr>it_round = Standard, it_type = Icmp4, it_host = lit ''a''\<rparr>"

lemma demo_end_reachable: "reachable 0 demo_settings demo_end"
proof -
  let ?a = "stop Run_Cancelled (push_error (lit ''trace run cancelled'') (initial_run 0 demo_settings))"
  have "step demo_settings Cancel_Fired (initial_run 0 demo_settings) = Ok ?a"
    by (simp add: step_def initial_run_def)
  then have "reachable 0 demo_settings ?a" by (rule reachable.step [OF reachable.start])
  moreover have "step demo_settings Drained ?a = Ok demo_end"
    by (simp add: step_def demo_end_def stop_def push_error_def initial_run_def)
  ultimately show ?thesis by (rule reachable.step)
qed

lemma demo_end_facts: "rs_phase demo_end = Finished" "rs_errors demo_end = [lit ''trace run cancelled'']"
  "rs_status demo_end = Run_Cancelled"
  by (simp_all add: demo_end_def push_error_def initial_run_def stop_def)

theorem run_errors_kept_witness:
  "(\<exists>later. rs_errors demo_end = lit ''trace run cancelled'' # later)
   \<and> rr_errors (finish_run demo_item demo_settings (V4 1, 0) No_Resolvers demo_end) = [lit ''trace run cancelled'']"
proof -
  let ?a = "stop Run_Cancelled (push_error (lit ''trace run cancelled'') (initial_run 0 demo_settings))"
  note kept = run_errors_kept [OF demo_settings_valid demo_end_reachable demo_end_facts(1),
      of demo_item "(V4 1, 0)" No_Resolvers]
  have s: "step demo_settings Cancel_Fired (initial_run 0 demo_settings) = Ok ?a"
    by (simp add: step_def initial_run_def)
  have d: "run_events demo_settings [Drained] ?a = Ok demo_end"
    by (simp add: step_def demo_end_def stop_def push_error_def initial_run_def)
  from kept s d have "\<exists>kept later. rs_errors demo_end = rs_errors (initial_run 0 demo_settings)
      @ pushed_texts demo_settings Cancel_Fired (initial_run 0 demo_settings) @ kept @ later"
    by blast
  then have "\<exists>later. rs_errors demo_end = lit ''trace run cancelled'' # later"
    by (auto simp: pushed_texts_def initial_run_def)
  moreover have "closing_texts (it_type demo_item) demo_settings No_Resolvers demo_end = []"
    "query_texts No_Resolvers demo_end = []" "unanswered_texts No_Resolvers demo_end hops = []" for hops
    by (simp_all add: closing_texts_def query_texts_def unanswered_texts_def demo_end_facts)
      (simp add: demo_end_def stop_def push_error_def initial_run_def list_ex_iff HopAccumulator_default_def)
  moreover have "text_bytes [lit ''trace run cancelled''] < 16128" "lit ''trace run cancelled'' \<noteq> []"
    by (simp_all add: lit_def)
  ultimately show ?thesis using kept by (simp add: demo_end_facts Let_def)
qed

theorem run_status_meaning_witness:
  "rr_status (finish_run demo_item demo_settings (V4 1, 0) No_Resolvers demo_end) = Run_Cancelled \<and>
   rr_errors (finish_run demo_item demo_settings (V4 1, 0) No_Resolvers demo_end) \<noteq> []"
proof -
  have "rr_status (finish_run demo_item demo_settings (V4 1, 0) No_Resolvers demo_end) = Run_Cancelled"
    by (simp add: finish_run_def enrich_def conclude_def loop_result_def demo_end_facts)
  then show ?thesis
    using run_status_meaning [OF demo_settings_valid demo_end_reachable demo_end_facts(1),
        of No_Resolvers demo_item "(V4 1, 0)"] by simp
qed

end
