(* ===== verification/Trace_Moments.thy ===== *)
theory Trace_Moments
  imports Trace_Stats
begin

text \<open>
  \<open>crates/path-trace/src/aggregate.rs\<close>, the mean and the deviation of a hop: \<open>Moments::record\<close>
  updates them with Welford's recurrence, \<open>Statistics::from_samples\<close> computes them in two passes
  over the list. In exact arithmetic both are the mean and the variance; in \<open>f64\<close> each rounds
  differently, so the theorem bounds the distance of either from the exact value.
\<close>

section \<open>The error of one rounding\<close>

definition unit_roundoff :: rat where
  "unit_roundoff = 1 / 2 ^ 53"

text \<open>\<open>near x q d\<close>: the float \<open>x\<close> is finite and within \<open>d\<close> of the number \<open>q\<close>.\<close>

definition near :: "f64 \<Rightarrow> rat \<Rightarrow> rat \<Rightarrow> bool" where
  "near x q d \<longleftrightarrow> (\<exists>r. x = Fin r \<and> \<bar>r - q\<bar> \<le> d)"

lemma nearE: "near x q d \<Longrightarrow> (\<And>r. x = Fin r \<Longrightarrow> \<bar>r - q\<bar> \<le> d \<Longrightarrow> thesis) \<Longrightarrow> thesis"
  by (auto simp: near_def)

lemma near_Fin [simp]: "near (Fin r) q d \<longleftrightarrow> \<bar>r - q\<bar> \<le> d"
  by (simp add: near_def)

lemma near_mono: "near x q c \<Longrightarrow> c \<le> d \<Longrightarrow> near x q d"
  by (auto simp: near_def)

lemma round_even_error: "\<bar>of_int (round_even q) - q\<bar> \<le> 1 / 2"
proof -
  have "of_int \<lfloor>q\<rfloor> \<le> q" "q < of_int \<lfloor>q\<rfloor> + 1" by linarith+
  then show ?thesis by (auto simp: round_even_def Let_def abs_if; linarith)
qed

lemma on_grid_error: "\<bar>on_grid e q - q\<bar> \<le> 2 powi e / 2"
proof -
  have "\<bar>of_int (round_even (q / 2 powi e)) - q / 2 powi e\<bar> * 2 powi e \<le> 1 / 2 * 2 powi e"
    by (rule mult_right_mono [OF round_even_error]) simp
  moreover have "\<bar>of_int (round_even (q / 2 powi e)) - q / 2 powi e\<bar> * 2 powi e
      = \<bar>(of_int (round_even (q / 2 powi e)) - q / 2 powi e) * 2 powi e\<bar>"
    by (simp add: abs_mult)
  moreover have "(of_int (round_even (q / 2 powi e)) - q / 2 powi e) * 2 powi e = on_grid e q - q"
    by (simp add: on_grid_def left_diff_distrib)
  ultimately show ?thesis by simp
qed

lemma quantum_bound:
  assumes "\<bar>q\<bar> \<le> B" and "1 \<le> B" and "q \<noteq> 0"
  shows "2 powi quantum q \<le> B / 2 ^ 52"
proof (cases "ilog2 \<bar>q\<bar> - 52 \<le> - 1074")
  case True
  then have "quantum q = - 1074" by (simp add: quantum_def)
  moreover have "(2 :: rat) powi (- 1074) \<le> 2 powi (- 52)" by (intro power_int_increasing) simp_all
  moreover have "(2 :: rat) powi (- 52) = 1 / 2 ^ 52" by (simp add: power_int_def inverse_eq_divide power_one_over)
  moreover have "1 / 2 ^ 52 \<le> B / 2 ^ 52" using assms(2) by (intro divide_right_mono) simp_all
  ultimately show ?thesis by simp
next
  case False
  then have "quantum q = ilog2 \<bar>q\<bar> - 52" by (simp add: quantum_def)
  then have "(2 :: rat) powi quantum q = 2 powi ilog2 \<bar>q\<bar> / 2 ^ 52"
    by (simp add: power_int_diff)
  moreover have "2 powi ilog2 \<bar>q\<bar> \<le> B" using ilog2_bounds(1) [of "\<bar>q\<bar>"] assms by simp
  ultimately show ?thesis by (simp add: divide_right_mono)
qed

lemma rnd_near:
  assumes "\<bar>q\<bar> \<le> B" and "1 \<le> B" and "B \<le> 2 ^ 1000"
  shows "near (rnd q) q (B * unit_roundoff)"
proof (cases "q = 0")
  case False
  have "\<bar>on_grid (quantum q) q - q\<bar> \<le> (B / 2 ^ 52) / 2"
    by (rule order_trans [OF on_grid_error]) (use quantum_bound [OF assms(1,2) False] in simp)
  then have e: "\<bar>on_grid (quantum q) q - q\<bar> \<le> B * unit_roundoff"
    by (simp add: unit_roundoff_def)
  obtain C :: rat where C: "C = 2 ^ 1024" by simp
  have u: "B * unit_roundoff \<le> B" using assms(2) by (simp add: unit_roundoff_def)
  have "2 * (2 :: rat) ^ 1000 = 2 ^ 1001" by simp
  also have "\<dots> < C" unfolding C by (rule power_strict_increasing) simp_all
  finally have "2 * B < C" using assms(3) by linarith
  with e u assms(1) have "\<not> C \<le> on_grid (quantum q) q" "\<not> on_grid (quantum q) q \<le> - C"
    by linarith+
  then show ?thesis using False e unfolding rnd_def Let_def C [symmetric] by simp
qed (use assms in \<open>simp add: unit_roundoff_def\<close>)


section \<open>The exact values\<close>

definition mean_of :: "rat list \<Rightarrow> rat" where
  "mean_of xs = sum_list xs / of_nat (length xs)"

definition deviations_of :: "rat list \<Rightarrow> rat" where
  "deviations_of xs = (\<Sum>x\<leftarrow>xs. (x - mean_of xs)\<^sup>2)"

definition variance_of :: "rat list \<Rightarrow> rat" where
  "variance_of xs = deviations_of xs / of_nat (length xs)"

definition bounded_by :: "rat \<Rightarrow> rat list \<Rightarrow> bool" where
  "bounded_by M xs \<longleftrightarrow> (\<forall>x \<in> set xs. 0 \<le> x \<and> x \<le> M)"

lemma bounded_by_simps [simp]:
  "bounded_by M []"
  "bounded_by M (x # xs) \<longleftrightarrow> 0 \<le> x \<and> x \<le> M \<and> bounded_by M xs"
  "bounded_by M (xs @ ys) \<longleftrightarrow> bounded_by M xs \<and> bounded_by M ys"
  by (auto simp: bounded_by_def)

lemma sum_within: "bounded_by M xs \<Longrightarrow> 0 \<le> sum_list xs \<and> sum_list xs \<le> of_nat (length xs) * M"
  by (induction xs) (auto simp: algebra_simps)

lemma mean_within: "bounded_by M xs \<Longrightarrow> 0 \<le> M \<Longrightarrow> 0 \<le> mean_of xs \<and> mean_of xs \<le> M"
  using sum_within [of M xs] by (auto simp: mean_of_def divide_le_eq mult.commute)

lemma deviations_nonneg: "0 \<le> deviations_of xs"
  unfolding deviations_of_def by (rule sum_list_nonneg) auto

lemma deviations_within:
  assumes "bounded_by M xs" and "0 \<le> M"
  shows "deviations_of xs \<le> of_nat (length xs) * M\<^sup>2"
proof -
  have m: "0 \<le> mean_of xs" "mean_of xs \<le> M" using mean_within [OF assms] by simp_all
  have "(x - mean_of xs)\<^sup>2 \<le> M\<^sup>2" if "x \<in> set xs" for x
    using assms(1) that m by (intro power2_le_iff_abs_le [THEN iffD2]) (auto simp: bounded_by_def abs_le_iff)
  then have "(\<Sum>x\<leftarrow>xs. (x - mean_of xs)\<^sup>2) \<le> (\<Sum>x\<leftarrow>xs. M\<^sup>2)" by (rule sum_list_mono)
  then show ?thesis by (simp add: deviations_of_def sum_list_triv)
qed

lemma mean_snoc:
  "mean_of (xs @ [x]) = mean_of xs + (x - mean_of xs) / of_nat (Suc (length xs))"
proof (cases "xs = []")
  case False
  then have "(of_nat (length xs) :: rat) \<noteq> 0" by simp
  moreover have "(of_nat (Suc (length xs)) :: rat) \<noteq> 0" by (simp del: of_nat_Suc)
  ultimately show ?thesis by (simp add: mean_of_def divide_simps del: of_nat_Suc) (simp add: algebra_simps)
qed (simp add: mean_of_def)

lemma deviations_eq: "deviations_of xs = (\<Sum>x\<leftarrow>xs. x\<^sup>2) - of_nat (length xs) * (mean_of xs)\<^sup>2"
proof -
  have expand: "(\<Sum>x\<leftarrow>xs. (x - c)\<^sup>2) = (\<Sum>x\<leftarrow>xs. x\<^sup>2) - 2 * c * sum_list xs + of_nat (length xs) * c\<^sup>2" for c :: rat
    by (induction xs) (simp_all add: power2_eq_square algebra_simps)
  moreover have "sum_list xs = of_nat (length xs) * mean_of xs"
    by (cases "xs = []") (simp_all add: mean_of_def)
  ultimately show ?thesis
    unfolding deviations_of_def expand by (simp add: power2_eq_square)
qed

lemma deviations_snoc:
  "deviations_of (xs @ [x]) = deviations_of xs + (x - mean_of xs) * (x - mean_of (xs @ [x]))"
proof -
  let ?n = "of_nat (length xs) :: rat" and ?m = "mean_of xs" and ?d = "mean_of (xs @ [x]) - mean_of xs"
  have "(of_nat (Suc (length xs)) :: rat) \<noteq> 0" by (simp del: of_nat_Suc)
  then have "of_nat (Suc (length xs)) * ?d = x - ?m" by (simp add: mean_snoc del: of_nat_Suc)
  then have d: "(?n + 1) * ?d = x - ?m" by (simp add: add.commute)
  have "deviations_of (xs @ [x]) - deviations_of xs = x\<^sup>2 - (?n + 1) * (?m + ?d)\<^sup>2 + ?n * ?m\<^sup>2"
    by (simp add: deviations_eq)
  also have "\<dots> = x\<^sup>2 - ?m\<^sup>2 - 2 * ?m * ((?n + 1) * ?d) - ?d * ((?n + 1) * ?d)"
    by (simp add: power2_eq_square algebra_simps)
  also have "\<dots> = (x - ?m) * (x - ?m - ?d)"
    unfolding d by (simp add: power2_eq_square algebra_simps)
  finally show ?thesis by simp
qed


section \<open>The error of one sample\<close>

text \<open>The scale of a run: at most \<open>2 ^ 32\<close> round trips of at most \<open>2 ^ 400\<close> milliseconds.\<close>

definition run_scale :: "rat \<Rightarrow> rat \<Rightarrow> bool" where
  "run_scale N M \<longleftrightarrow> 1 \<le> N \<and> N \<le> 2 ^ 32 \<and> 1 \<le> M \<and> M \<le> 2 ^ 400"

lemma scale_bounds:
  assumes "run_scale N M"
  shows "1 \<le> M" and "1 \<le> N" and "M \<le> M\<^sup>2" and "1 \<le> M\<^sup>2" and "16 * (N * M\<^sup>2) \<le> 2 ^ 1000" and "16 * M \<le> 2 ^ 1000"
    and "16 * (N * M) \<le> 2 ^ 1000" and "16 * M\<^sup>2 \<le> 2 ^ 1000"
proof -
  have M: "1 \<le> M" "M \<le> 2 ^ 400" and N: "1 \<le> N" "N \<le> 2 ^ 32" using assms by (simp_all only: run_scale_def)
  then show "1 \<le> M" "1 \<le> N" by simp_all
  show a: "M \<le> M\<^sup>2" and b: "1 \<le> M\<^sup>2" using M(1) mult_mono [of 1 M M M] mult_mono [of 1 M 1 M]
    by (simp_all add: power2_eq_square)
  have "0 \<le> M" using M(1) by linarith
  with M(2) have "M\<^sup>2 \<le> (2 ^ 400)\<^sup>2" by (rule power_mono)
  with N(2) have "N * M\<^sup>2 \<le> 2 ^ 32 * (2 ^ 400)\<^sup>2" by (rule mult_mono) simp_all
  then have "16 * (N * M\<^sup>2) \<le> 16 * (2 ^ 32 * (2 ^ 400)\<^sup>2)" by simp
  also have "\<dots> = 2 ^ 836" by simp
  also have "\<dots> \<le> (2 :: rat) ^ 1000" by (rule power_increasing) simp_all
  finally show c: "16 * (N * M\<^sup>2) \<le> 2 ^ 1000" .
  have "M\<^sup>2 \<le> N * M\<^sup>2" using mult_right_mono [OF N(1), of "M\<^sup>2"] by simp
  then show d: "16 * M\<^sup>2 \<le> 2 ^ 1000" using c by linarith
  then show "16 * M \<le> 2 ^ 1000" using a by linarith
  have "N * M \<le> N * M\<^sup>2" using N(1) a by (intro mult_left_mono) simp_all
  then show "16 * (N * M) \<le> 2 ^ 1000" using c by linarith
qed

lemma scale_roundoff:
  assumes "run_scale N M"
  shows "0 < unit_roundoff" and "N * unit_roundoff \<le> 1 / 1048576" and "N * (M * unit_roundoff) \<le> M / 1048576"
    and "M * unit_roundoff \<le> M / 1048576" and "M\<^sup>2 * unit_roundoff \<le> M\<^sup>2 / 1048576"
proof -
  have M: "1 \<le> M" and N: "1 \<le> N" "N \<le> 2 ^ 32" using assms by (simp_all only: run_scale_def)
  show u: "0 < unit_roundoff" by (simp add: unit_roundoff_def)
  show n: "N * unit_roundoff \<le> 1 / 1048576" using N by (simp add: unit_roundoff_def)
  have "N * unit_roundoff * M \<le> 1 / 1048576 * M" using n M by (intro mult_right_mono) simp_all
  then show "N * (M * unit_roundoff) \<le> M / 1048576" by (simp add: mult.commute mult.left_commute)
  show "M * unit_roundoff \<le> M / 1048576" "M\<^sup>2 * unit_roundoff \<le> M\<^sup>2 / 1048576"
    using M by (simp_all add: unit_roundoff_def)
qed

lemma f_sub_near:
  assumes "run_scale N M" and "0 \<le> x" "x \<le> M" and "\<bar>a\<bar> \<le> 2 * M"
  shows "near (f_sub (Fin x) (Fin a)) (x - a) (3 * (M * unit_roundoff))"
proof -
  have "near (rnd (x - a)) (x - a) ((3 * M) * unit_roundoff)"
    by (rule rnd_near) (use assms scale_bounds [OF assms(1)] in linarith)+
  then show ?thesis by (simp add: f_sub_def mult.assoc)
qed

lemma mean_step:
  assumes s: "run_scale N M" and x: "0 \<le> x" "x \<le> M" and m: "0 \<le> m" "m \<le> M"
    and a: "\<bar>a - m\<bar> \<le> 16 * ((N - 1) * (M * unit_roundoff))"
  shows "near (f_add (Fin a) (f_div (f_sub (Fin x) (Fin a)) (Fin N))) (m + (x - m) / N)
    (16 * (N * (M * unit_roundoff)))"
proof -
  define w where "w = M * unit_roundoff"
  note b = scale_bounds [OF s] and u = scale_roundoff [OF s]
  have w: "0 \<le> w" "16 * w \<le> M" "16 * (N * w) \<le> M" "(N - 1) * w = N * w - w" and N: "N \<noteq> 0" "0 < N"
    using b u by (simp_all add: w_def field_simps) 
  have a2: "\<bar>a\<bar> \<le> 2 * M" using a m w unfolding w_def [symmetric] by linarith
  obtain d where d: "f_sub (Fin x) (Fin a) = Fin d" "\<bar>d - (x - a)\<bar> \<le> 3 * w"
    using f_sub_near [OF s x a2] unfolding w_def by (rule nearE)
  have part: "\<bar>y / N\<bar> \<le> \<bar>y\<bar>" for y
    using b(2) by (simp add: abs_div divide_le_eq mult_le_cancel_left1)
  have contract: "\<bar>y - y / N\<bar> \<le> \<bar>y\<bar>" for y
    using part [of y] divide_nonneg_pos [of y N] divide_nonpos_pos [of y N] N(2) by linarith
  have "\<bar>d\<bar> \<le> 4 * M" using d(2) a2 x w by linarith
  then have dn: "\<bar>d / N\<bar> \<le> 4 * M" using part [of d] by linarith
  have "near (rnd (d / N)) (d / N) ((4 * M) * unit_roundoff)"
    by (rule rnd_near) (use dn b in linarith)+
  then obtain q where q: "rnd (d / N) = Fin q" "\<bar>q - d / N\<bar> \<le> 4 * w"
    unfolding w_def mult.assoc by (rule nearE)
  have "near (rnd (a + q)) (a + q) ((7 * M) * unit_roundoff)"
    by (rule rnd_near) (use dn q(2) a2 w b in linarith)+
  then obtain r where r: "rnd (a + q) = Fin r" "\<bar>r - (a + q)\<bar> \<le> 7 * w"
    unfolding w_def mult.assoc by (rule nearE)
  have "r - (m + (x - m) / N) = (r - (a + q)) + (q - d / N) + (d - (x - a)) / N + ((a - m) - (a - m) / N)"
    by (simp add: diff_divide_distrib)
  moreover have "\<bar>(d - (x - a)) / N\<bar> \<le> 3 * w" using part d(2) by (rule order_trans)
  moreover have "\<bar>(a - m) - (a - m) / N\<bar> \<le> \<bar>a - m\<bar>"
    by (rule contract)
  ultimately have "\<bar>r - (m + (x - m) / N)\<bar> \<le> 16 * (N * w)"
    using a r(2) q(2) w unfolding w_def [symmetric] by linarith
  then show ?thesis using N by (simp add: d(1) q(1) r(1) w_def)
qed


text \<open>A product of two differences, each known up to \<open>A\<close>.\<close>

lemma f_mul_near:
  assumes s: "run_scale N M" and d: "\<bar>d - x\<bar> \<le> A" "\<bar>d' - y\<bar> \<le> A" and x: "\<bar>x\<bar> \<le> M" "\<bar>y\<bar> \<le> M"
    and A: "0 \<le> A" "A \<le> M"
  shows "near (f_mul (Fin d) (Fin d')) (x * y) (3 * (A * M) + 4 * (M\<^sup>2 * unit_roundoff))"
    and "\<bar>d * d'\<bar> \<le> 4 * M\<^sup>2"
proof -
  note b = scale_bounds [OF s]
  have M: "0 \<le> M" using b by linarith
  have prod: "\<bar>p * q\<bar> \<le> B * C" if "\<bar>p\<bar> \<le> B" "\<bar>q\<bar> \<le> C" for p q B C :: rat
    unfolding abs_mult using that by (intro mult_mono) simp_all
  have "\<bar>d\<bar> \<le> 2 * M" "\<bar>d'\<bar> \<le> 2 * M" using assms by linarith+
  from prod [OF this] show dd: "\<bar>d * d'\<bar> \<le> 4 * M\<^sup>2" by (simp add: power2_eq_square)
  have "d * d' - x * y = (d - x) * y + (d' - y) * x + (d - x) * (d' - y)" by (simp add: algebra_simps)
  moreover have "\<bar>(d - x) * y\<bar> \<le> A * M" "\<bar>(d' - y) * x\<bar> \<le> A * M" "\<bar>(d - x) * (d' - y)\<bar> \<le> A * M"
    using prod [OF d(1) x(2)] prod [OF d(2) x(1)] prod [OF d(1) order_trans [OF d(2) A(2)]] by simp_all
  ultimately have e: "\<bar>d * d' - x * y\<bar> \<le> 3 * (A * M)" by linarith
  have "near (rnd (d * d')) (d * d') ((4 * M\<^sup>2) * unit_roundoff)"
    by (rule rnd_near) (use dd b in linarith)+
  then obtain r where "rnd (d * d') = Fin r" "\<bar>r - d * d'\<bar> \<le> 4 * (M\<^sup>2 * unit_roundoff)"
    unfolding mult.assoc by (rule nearE)
  with e show "near (f_mul (Fin d) (Fin d')) (x * y) (3 * (A * M) + 4 * (M\<^sup>2 * unit_roundoff))"
    by (simp add: f_mul_def)
qed

lemma deviation_step:
  assumes s: "run_scale N M" and x: "0 \<le> x" "x \<le> M" and m: "0 \<le> m" "m \<le> M" "0 \<le> m'" "m' \<le> M"
    and a: "\<bar>a - m\<bar> \<le> 16 * (N * (M * unit_roundoff))" "\<bar>a' - m'\<bar> \<le> 16 * (N * (M * unit_roundoff))"
    and t: "\<bar>t - S\<bar> \<le> 128 * ((N - 1)\<^sup>2 * (M\<^sup>2 * unit_roundoff))" and S: "0 \<le> S" "S \<le> (N - 1) * M\<^sup>2"
  shows "near (f_add (Fin t) (f_mul (f_sub (Fin x) (Fin a)) (f_sub (Fin x) (Fin a'))))
    (S + (x - m) * (x - m')) (128 * (N\<^sup>2 * (M\<^sup>2 * unit_roundoff)))"
proof -
  define w z where "w = M * unit_roundoff" and "z = M\<^sup>2 * unit_roundoff"
  note b = scale_bounds [OF s] and u = scale_roundoff [OF s, folded w_def z_def]
  have w: "0 \<le> w" "w \<le> N * w" using b u(1) mult_right_mono [OF b(2), of w] by (simp_all add: w_def)
  have z: "0 \<le> z" "z \<le> N * z" using b u(1) mult_right_mono [OF b(2), of z] by (simp_all add: z_def)
  have a2: "\<bar>a\<bar> \<le> 2 * M" "\<bar>a'\<bar> \<le> 2 * M" using a m u(3) b(1) unfolding w_def [symmetric] by linarith+
  obtain d where d: "f_sub (Fin x) (Fin a) = Fin d" "\<bar>d - (x - a)\<bar> \<le> 3 * w"
    using f_sub_near [OF s x a2(1)] unfolding w_def by (rule nearE)
  obtain d' where d': "f_sub (Fin x) (Fin a') = Fin d'" "\<bar>d' - (x - a')\<bar> \<le> 3 * w"
    using f_sub_near [OF s x a2(2)] unfolding w_def by (rule nearE)
  define A where "A = 19 * (N * w)"
  have A: "\<bar>d - (x - m)\<bar> \<le> A" "\<bar>d' - (x - m')\<bar> \<le> A" "0 \<le> A" "A \<le> M"
    using d(2) d'(2) a w u(3) b(1) unfolding w_def [symmetric] A_def by linarith+
  have xm: "\<bar>x - m\<bar> \<le> M" "\<bar>x - m'\<bar> \<le> M" using x m by linarith+
  have AM: "A * M = 19 * (N * z)" by (simp add: A_def w_def z_def power2_eq_square)
  obtain p where p: "f_mul (Fin d) (Fin d') = Fin p" "\<bar>p - (x - m) * (x - m')\<bar> \<le> 57 * (N * z) + 4 * z"
    using f_mul_near(1) [OF s A(1,2) xm A(3,4)] unfolding AM z_def [symmetric] by (rule nearE) simp
  have grow: "(N - 1)\<^sup>2 * z = N\<^sup>2 * z - 2 * (N * z) + z"
    by (simp add: power2_eq_square algebra_simps)
  have nz: "(N - 1)\<^sup>2 * z \<le> N * M\<^sup>2 / 1048576"
  proof -
    have "(N - 1)\<^sup>2 * z \<le> N * (N * z)"
      using z b(2) unfolding grow by (simp add: power2_eq_square)
    also have "N * z = (N * unit_roundoff) * M\<^sup>2" by (simp add: z_def)
    also have "N * ((N * unit_roundoff) * M\<^sup>2) \<le> N * (1 / 1048576 * M\<^sup>2)"
      using u(2) b(2) by (intro mult_left_mono mult_right_mono) simp_all
    finally show ?thesis by simp
  qed
  have NM: "M\<^sup>2 \<le> N * M\<^sup>2" "(N - 1) * M\<^sup>2 = N * M\<^sup>2 - M\<^sup>2" using mult_right_mono [OF b(2), of "M\<^sup>2"]
    by (simp_all add: algebra_simps)
  have "\<bar>t\<bar> \<le> 2 * (N * M\<^sup>2)" using t S nz NM b(4) unfolding z_def [symmetric] by linarith
  moreover have xy: "\<bar>(x - m) * (x - m')\<bar> \<le> M\<^sup>2"
    unfolding abs_mult power2_eq_square using xm by (intro mult_mono) simp_all
  have nz1: "N * z \<le> M\<^sup>2 / 1048576"
    using mult_right_mono [OF u(2), of "M\<^sup>2"] by (simp add: z_def mult.assoc mult.commute mult.left_commute)
  with p(2) xy z have "\<bar>p\<bar> \<le> 2 * M\<^sup>2" by linarith
  ultimately have tp: "\<bar>t + p\<bar> \<le> 4 * (N * M\<^sup>2)" using NM by linarith
  have "near (rnd (t + p)) (t + p) (4 * (N * M\<^sup>2) * unit_roundoff)"
    by (rule rnd_near [OF tp]) (use b NM in linarith)+
  then obtain r where r: "rnd (t + p) = Fin r" "\<bar>r - (t + p)\<bar> \<le> 4 * (N * z)"
    by (rule nearE) (simp add: z_def mult.assoc)
  have add: "\<bar>r - (S + y)\<bar> \<le> 128 * n2" if "\<bar>p - y\<bar> \<le> 57 * (N * z) + 4 * z"
    "\<bar>t - S\<bar> \<le> 128 * (n2 - 2 * (N * z) + z)" for y n2
  proof -
    have "\<bar>r - (S + y)\<bar> \<le> \<bar>r - (t + p)\<bar> + \<bar>t - S\<bar> + \<bar>p - y\<bar>"
      using abs_triangle_ineq [of "r - (t + p)" "t - S"] abs_triangle_ineq [of "r - (t + p) + (t - S)" "p - y"]
      by (simp add: algebra_simps)
    then show ?thesis using r(2) that z by (simp only: right_diff_distrib distrib_left)
  qed
  have "\<bar>r - (S + (x - m) * (x - m'))\<bar> \<le> 128 * (N\<^sup>2 * z)"
    using p(2) t unfolding z_def [symmetric] grow by (rule add)
  then show ?thesis by (simp add: d(1) d'(1) p(1) r(1) z_def)
qed


section \<open>The recurrence of \<open>Moments::record\<close>\<close>

definition moments_near :: "rat \<Rightarrow> rat list \<Rightarrow> moments \<Rightarrow> bool" where
  "moments_near M xs m \<longleftrightarrow> (let n = of_nat (length xs) in
     near (mo_mean m) (mean_of xs) (16 * (n * (M * unit_roundoff)))
   \<and> near (mo_m2 m) (deviations_of xs) (128 * (n\<^sup>2 * (M\<^sup>2 * unit_roundoff))))"

lemma run_scale_of: "1 \<le> n \<Longrightarrow> n < 2 ^ 32 \<Longrightarrow> 1 \<le> M \<Longrightarrow> M \<le> 2 ^ 400 \<Longrightarrow> run_scale (of_nat n) M"
proof -
  assume "1 \<le> n" "n < 2 ^ 32" and M: "1 \<le> M" "M \<le> 2 ^ 400"
  then have "of_nat 1 \<le> (of_nat n :: rat)" "of_nat n \<le> (of_nat (2 ^ 32) :: rat)"
    by (simp_all only: of_nat_le_iff less_imp_le)
  then have "1 \<le> (of_nat n :: rat)" "of_nat n \<le> (2 ^ 32 :: rat)" by simp_all
  then show ?thesis using M by (simp only: run_scale_def)
qed

lemma moments_near_record:
  assumes "moments_near M xs m" and c: "counted s = Some (Fin x)"
    and n: "unat (mo_received m) = length xs" "Suc (length xs) < 2 ^ 32"
    and b: "bounded_by M (xs @ [x])" and M: "1 \<le> M" "M \<le> 2 ^ 400"
  shows "moments_near M (xs @ [x]) (moments_record s m)"
proof -
  let ?N = "of_nat (Suc (length xs)) :: rat"
  have N: "of_nat (length xs) = ?N - 1" by simp
  have scale: "run_scale ?N M" by (rule run_scale_of) (use n M in simp_all)
  have x: "0 \<le> x" "x \<le> M" and mean: "0 \<le> mean_of xs" "mean_of xs \<le> M"
    "0 \<le> mean_of (xs @ [x])" "mean_of (xs @ [x]) \<le> M"
    using b mean_within [of M xs] mean_within [OF b] M(1) by simp_all
  obtain a where a: "mo_mean m = Fin a" "\<bar>a - mean_of xs\<bar> \<le> 16 * ((?N - 1) * (M * unit_roundoff))"
    using assms(1) unfolding moments_near_def Let_def N by (auto elim: nearE)
  obtain t where t: "mo_m2 m = Fin t"
    "\<bar>t - deviations_of xs\<bar> \<le> 128 * ((?N - 1)\<^sup>2 * (M\<^sup>2 * unit_roundoff))"
    using assms(1) unfolding moments_near_def Let_def N by (auto elim: nearE)
  have "unat (mo_received m + 1) = Suc (length xs)"
    using n by (simp add: unat_word_ariths)
  then have count: "f_of_nat (unat (mo_received m + 1)) = Fin ?N"
    using f_of_u32 [of "mo_received m + 1"] by simp
  define mean' where "mean' = f_add (Fin a) (f_div (f_sub (Fin x) (Fin a)) (Fin ?N))"
  have near': "near mean' (mean_of (xs @ [x])) (16 * (?N * (M * unit_roundoff)))"
    using mean_step [OF scale x mean(1,2) a(2)] unfolding mean'_def mean_snoc .
  then obtain a' where a': "mean' = Fin a'" "\<bar>a' - mean_of (xs @ [x])\<bar> \<le> 16 * (?N * (M * unit_roundoff))"
    by (rule nearE)
  have "(?N - 1) * (M * unit_roundoff) \<le> ?N * (M * unit_roundoff)"
    using M(1) by (intro mult_right_mono) (simp_all add: unit_roundoff_def)
  with a(2) have a_N: "\<bar>a - mean_of xs\<bar> \<le> 16 * (?N * (M * unit_roundoff))" by linarith
  have dev: "deviations_of xs \<le> (?N - 1) * M\<^sup>2" using deviations_within [of M xs] b M(1) by simp
  have "near (f_add (Fin t) (f_mul (f_sub (Fin x) (Fin a)) (f_sub (Fin x) (Fin a'))))
      (deviations_of (xs @ [x])) (128 * (?N\<^sup>2 * (M\<^sup>2 * unit_roundoff)))"
    unfolding deviations_snoc
    by (rule deviation_step [OF scale x mean a_N a'(2) t(2) deviations_nonneg dev])
  moreover have "mo_mean (moments_record s m) = mean'"
    "mo_m2 (moments_record s m) = f_add (Fin t) (f_mul (f_sub (Fin x) (Fin a)) (f_sub (Fin x) mean'))"
    using c by (auto simp: moments_record_def counted_def Let_def a t count mean'_def split: if_splits)
  moreover have "of_nat (length (xs @ [x])) = ?N" by simp
  ultimately show ?thesis
    using near' a'(1) unfolding moments_near_def Let_def by (simp only:)
qed

lemma moments_near_other:
  "counted s = None \<Longrightarrow> mo_mean (moments_record s m) = mo_mean m \<and> mo_m2 (moments_record s m) = mo_m2 m"
  by (auto simp: moments_record_def counted_def Let_def split: option.splits if_splits)

lemma moments_near_samples:
  assumes "List.map_filter counted ss = map Fin xs" and "length ss < 2 ^ 32"
    and "bounded_by M xs" and "1 \<le> M" "M \<le> 2 ^ 400"
  shows "moments_near M xs (foldl (\<lambda>m s. moments_record s m) Moments_default ss)"
  using assms
proof (induction ss arbitrary: xs rule: rev_induct)
  case Nil
  then show ?case
    by (simp add: moments_near_def Moments_default_def List.map_filter_def mean_of_def deviations_of_def)
next
  case (snoc s ss)
  let ?m = "foldl (\<lambda>m s. moments_record s m) Moments_default ss"
  show ?case
  proof (cases "counted s")
    case None
    then have "moments_near M xs ?m" using snoc by (simp add: map_filter_append map_filter_single)
    with None show ?thesis by (simp add: moments_near_def moments_near_other)
  next
    case (Some v)
    with snoc.prems(1) obtain ys x where xs: "xs = ys @ [x]" "v = Fin x" "List.map_filter counted ss = map Fin ys"
      by (auto simp: map_filter_append map_filter_single append_eq_map_conv map_eq_Cons_conv)
    then have near: "moments_near M ys ?m" using snoc by simp
    have "moments_of ss ?m"
      by (induction ss rule: rev_induct) (simp_all add: moments_of_record)
    then have "mo_received ?m = word_of_nat (length ys)" by (simp add: moments_of_def xs(3))
    moreover have "length ys \<le> length ss"
      using arg_cong [OF xs(3), of length] counted_split [of ss] by simp
    ultimately have "unat (mo_received ?m) = length ys" "Suc (length ys) < 2 ^ 32"
      using snoc.prems(2) by (simp_all add: unat_of_nat)
    with near Some xs snoc.prems show ?thesis by (simp add: moments_near_record)
  qed
qed


section \<open>The two passes of \<open>Statistics::from_samples\<close>\<close>

text \<open>A sum of floats, each near a number \<open>g x\<close> of size at most \<open>D\<close>.\<close>

lemma f_sum_near:
  assumes "\<And>x. x \<in> set xs \<Longrightarrow> near (h x) (g x) c \<and> \<bar>g x\<bar> + c \<le> D"
    and "of_nat (length xs) \<le> (2 ^ 32 :: rat)" "1 \<le> D" "2 * (2 ^ 32 * D) \<le> 2 ^ 1000" "0 \<le> c"
  shows "near (f_sum (map h xs)) (\<Sum>x\<leftarrow>xs. g x) (of_nat (length xs) * (c + of_nat (length xs) * (2 * (D * unit_roundoff))))
    \<and> \<bar>\<Sum>x\<leftarrow>xs. g x\<bar> \<le> of_nat (length xs) * (D - c)"
  using assms(1,2)
proof (induction xs rule: rev_induct)
  case Nil
  then show ?case by (simp add: f_sum_def)
next
  case (snoc x xs)
  define n k where "n = (of_nat (length xs) :: rat)" and "k = D * unit_roundoff"
  define e where "e = n * (c + n * (2 * k))"
  have n: "0 \<le> n" "n + 1 \<le> 2 ^ 32" using snoc.prems(2) by (simp_all add: n_def)
  have k: "0 \<le> k" "2 ^ 32 * k \<le> D / 1048576" using assms(3) by (simp_all add: k_def unit_roundoff_def)
  obtain r where r: "f_sum (map h xs) = Fin r" "\<bar>r - (\<Sum>x\<leftarrow>xs. g x)\<bar> \<le> e" "\<bar>\<Sum>x\<leftarrow>xs. g x\<bar> \<le> n * (D - c)"
    using snoc.IH [OF snoc.prems(1)] n(2) unfolding e_def n_def k_def by (force elim: nearE)
  obtain y where y: "h x = Fin y" "\<bar>y - g x\<bar> \<le> c" "\<bar>g x\<bar> + c \<le> D"
    using snoc.prems(1) [of x] by (auto elim: nearE)
  have "n * k \<le> 2 ^ 32 * k" using n k by (intro mult_right_mono) simp_all
  then have nk: "n * (2 * k) \<le> D" using k assms(3) by linarith
  have "n * (n * (2 * k)) \<le> n * D" using nk n(1) by (rule mult_left_mono)
  then have "\<bar>r\<bar> \<le> 2 * (n * D)" using r(2,3) unfolding e_def right_diff_distrib distrib_left by linarith
  moreover have "\<bar>y\<bar> \<le> D" using y by linarith
  ultimately have ry: "\<bar>r + y\<bar> \<le> 2 * ((n + 1) * D)" using assms(3) by (simp add: distrib_right)
  have "(n + 1) * D \<le> 2 ^ 32 * D" "1 * D \<le> (n + 1) * D"
    using n assms(3) by (intro mult_right_mono; simp)+
  then have "near (rnd (r + y)) (r + y) (2 * ((n + 1) * D) * unit_roundoff)"
    by (intro rnd_near [OF ry]) (use assms(3,4) in linarith)+
  then obtain q where q: "rnd (r + y) = Fin q" "\<bar>q - (r + y)\<bar> \<le> 2 * ((n + 1) * k)"
    by (rule nearE) (simp add: k_def mult.assoc)
  have "\<bar>q - ((\<Sum>x\<leftarrow>xs. g x) + g x)\<bar> \<le> \<bar>q - (r + y)\<bar> + \<bar>r - (\<Sum>x\<leftarrow>xs. g x)\<bar> + \<bar>y - g x\<bar>"
    by linarith
  also have "\<dots> \<le> 2 * ((n + 1) * k) + e + c" using q(2) r(2) y(2) by linarith
  also have "\<dots> \<le> (n + 1) * (c + (n + 1) * (2 * k))"
    using n(1) k(1) by (simp add: e_def algebra_simps)
  finally have "\<bar>q - ((\<Sum>x\<leftarrow>xs. g x) + g x)\<bar> \<le> (n + 1) * (c + (n + 1) * (2 * k))" .
  moreover have "f_sum (map h (xs @ [x])) = Fin q"
    using r(1) y(1) q(1) by (simp add: f_sum_def)
  moreover have "\<bar>(\<Sum>x\<leftarrow>xs. g x) + g x\<bar> \<le> (n + 1) * (D - c)"
    using r(3) y(3) by (simp add: distrib_right)
  ultimately show ?case by (simp add: n_def k_def add.commute)
qed


text \<open>Dividing by the number of samples.\<close>

lemma f_div_near:
  assumes t: "near t q (n * c)" and n: "1 \<le> n" and q: "\<bar>q\<bar> \<le> n * B" and c: "c \<le> B" "1 \<le> B" "2 * B \<le> 2 ^ 1000"
  shows "near (f_div t (Fin n)) (q / n) (c + 2 * (B * unit_roundoff))"
proof -
  obtain r where r: "t = Fin r" "\<bar>r - q\<bar> \<le> n * c" using t by (rule nearE)
  have "\<bar>r / n - q / n\<bar> = \<bar>r - q\<bar> / n" using n by (simp add: abs_div flip: diff_divide_distrib)
  also have "\<dots> \<le> c" using r(2) n by (simp add: divide_le_eq mult.commute)
  finally have d: "\<bar>r / n - q / n\<bar> \<le> c" .
  have "\<bar>q / n\<bar> \<le> B" using q n by (simp add: abs_div divide_le_eq mult.commute)
  then have b: "\<bar>r / n\<bar> \<le> 2 * B" using d c(1) by linarith
  have "near (rnd (r / n)) (r / n) (2 * B * unit_roundoff)"
    by (rule rnd_near [OF b]) (use c in linarith)+
  then obtain y where y: "rnd (r / n) = Fin y" "\<bar>y - r / n\<bar> \<le> 2 * (B * unit_roundoff)"
    by (rule nearE) (simp add: mult.assoc)
  have "\<bar>y - q / n\<bar> \<le> c + 2 * (B * unit_roundoff)" using y(2) d by linarith
  then show ?thesis using n by (simp add: r(1) y(1))
qed

lemma two_pass_mean:
  assumes "xs \<noteq> []" and "length xs < 2 ^ 32" and b: "bounded_by M xs" and M: "1 \<le> M" "M \<le> 2 ^ 400"
  shows "near (f_div (f_sum (map Fin xs)) (f_of_nat (length xs))) (mean_of xs)
    (16 * (of_nat (length xs) * (M * unit_roundoff)))"
proof -
  define n where "n = (of_nat (length xs) :: rat)"
  have "1 \<le> length xs" using assms(1) by (simp add: Suc_leI)
  then have scale: "run_scale n M" unfolding n_def using assms(2) M by (rule run_scale_of)
  have scale32: "run_scale (2 ^ 32) M" using M by (simp only: run_scale_def) simp
  note s = scale_bounds [OF scale] and u = scale_roundoff [OF scale] and s32 = scale_bounds [OF scale32]
  have n: "n \<le> 2 ^ 32" using scale by (simp only: run_scale_def)
  have "near (f_sum (map Fin xs)) (\<Sum>x\<leftarrow>xs. x) (n * (0 + n * (2 * (M * unit_roundoff))))"
    unfolding n_def
    by (rule f_sum_near [THEN conjunct1]) (use b n s s32 in \<open>auto simp: bounded_by_def n_def\<close>)
  then have "near (f_div (f_sum (map Fin xs)) (Fin n)) (sum_list xs / n) (2 * (n * (M * unit_roundoff)) + 2 * (M * unit_roundoff))"
    using sum_within [OF b] s u
    by (intro f_div_near) (simp_all add: n_def mult.left_commute)
  moreover have "M * unit_roundoff \<le> n * (M * unit_roundoff)"
    using mult_right_mono [OF s(2), of "M * unit_roundoff"] s(1) u(1) by simp
  moreover have "f_of_nat (length xs) = Fin n" using assms(2) by (simp add: n_def f_of_nat)
  ultimately show ?thesis
    by (auto simp: near_def mean_of_def n_def)
qed


lemma two_pass_variance:
  assumes "xs \<noteq> []" and "length xs < 2 ^ 32" and b: "bounded_by M xs" and M: "1 \<le> M" "M \<le> 2 ^ 400"
    and a: "near a (mean_of xs) (16 * (of_nat (length xs) * (M * unit_roundoff)))"
  shows "near (f_div (f_sum (map (\<lambda>v. f_mul (f_sub v a) (f_sub v a)) (map Fin xs))) (f_of_nat (length xs)))
    (variance_of xs) (256 * (of_nat (length xs) * (M\<^sup>2 * unit_roundoff)))"
proof -
  define n w z where "n = (of_nat (length xs) :: rat)" and "w = M * unit_roundoff" and "z = M\<^sup>2 * unit_roundoff"
  have "1 \<le> length xs" using assms(1) by (simp add: Suc_leI)
  then have scale: "run_scale n M" unfolding n_def using assms(2) M by (rule run_scale_of)
  have scale32: "run_scale (2 ^ 32) M" using M by (simp only: run_scale_def) simp
  note s = scale_bounds [OF scale] and u = scale_roundoff [OF scale, folded w_def z_def]
    and s32 = scale_bounds [OF scale32]
  have n: "n \<le> 2 ^ 32" using scale by (simp only: run_scale_def)
  have z: "0 \<le> z" "z \<le> n * z" and w: "0 \<le> w" "w \<le> n * w"
    using s u(1) mult_right_mono [OF s(2), of z] mult_right_mono [OF s(2), of w] by (simp_all add: z_def w_def)
  have nz: "n * z \<le> M\<^sup>2 / 1048576"
    using mult_right_mono [OF u(2), of "M\<^sup>2"] by (simp add: z_def mult.assoc mult.commute mult.left_commute)
  have m: "0 \<le> mean_of xs" "mean_of xs \<le> M" using mean_within [OF b] M by simp_all
  obtain c where c: "a = Fin c" "\<bar>c - mean_of xs\<bar> \<le> 16 * (n * w)"
    using a unfolding n_def w_def by (rule nearE)
  have c2: "\<bar>c\<bar> \<le> 2 * M" using c(2) m u(3) M(1) by linarith
  have square: "near (f_mul (f_sub (Fin x) a) (f_sub (Fin x) a)) ((x - mean_of xs)\<^sup>2) (61 * (n * z))
      \<and> \<bar>(x - mean_of xs)\<^sup>2\<bar> + 61 * (n * z) \<le> 2 * M\<^sup>2" if "x \<in> set xs" for x
  proof -
    have x: "0 \<le> x" "x \<le> M" using b that by (auto simp: bounded_by_def)
    obtain d where d: "f_sub (Fin x) (Fin c) = Fin d" "\<bar>d - (x - c)\<bar> \<le> 3 * w"
      using f_sub_near [OF scale x c2] unfolding w_def by (rule nearE)
    have A: "\<bar>d - (x - mean_of xs)\<bar> \<le> 19 * (n * w)" "0 \<le> 19 * (n * w)" "19 * (n * w) \<le> M"
      using d(2) c(2) w u(3) M(1) by linarith+
    have xm: "\<bar>x - mean_of xs\<bar> \<le> M" using x m by linarith
    have "near (f_mul (Fin d) (Fin d)) ((x - mean_of xs) * (x - mean_of xs)) (3 * (19 * (n * w) * M) + 4 * z)"
      using f_mul_near(1) [OF scale A(1) A(1) xm xm A(2,3)] unfolding z_def .
    moreover have "19 * (n * w) * M = 19 * (n * z)" by (simp add: w_def z_def power2_eq_square)
    ultimately have "near (f_mul (Fin d) (Fin d)) ((x - mean_of xs)\<^sup>2) (61 * (n * z))"
      using z by (auto simp: near_def power2_eq_square)
    moreover have "(x - mean_of xs)\<^sup>2 \<le> M\<^sup>2"
      using xm M(1) by (intro power2_le_iff_abs_le [THEN iffD2]) simp_all
    ultimately show ?thesis using nz s(4) by (simp add: c(1) d(1))
  qed
  have total: "near (f_sum (map (\<lambda>x. f_mul (f_sub (Fin x) a) (f_sub (Fin x) a)) xs)) (deviations_of xs)
      (n * (61 * (n * z) + n * (2 * (2 * M\<^sup>2 * unit_roundoff))))"
    unfolding n_def deviations_of_def
    by (rule f_sum_near [THEN conjunct1], rule square [unfolded n_def])
      (use n s s32 z in \<open>simp_all add: n_def\<close>)
  have B: "\<bar>deviations_of xs\<bar> \<le> n * M\<^sup>2"
    using deviations_nonneg [of xs] deviations_within [OF b] M by (simp add: n_def)
  have sz: "61 * (n * z) + n * (2 * (2 * M\<^sup>2 * unit_roundoff)) = 65 * (n * z)"
    by (simp add: z_def)
  have "near (f_div (f_sum (map (\<lambda>x. f_mul (f_sub (Fin x) a) (f_sub (Fin x) a)) xs)) (Fin n))
      (deviations_of xs / n) (65 * (n * z) + 2 * (M\<^sup>2 * unit_roundoff))"
    by (rule f_div_near [OF total [unfolded sz] s(2) B]) (use nz s in linarith)+
  moreover have "65 * (n * z) + 2 * (M\<^sup>2 * unit_roundoff) \<le> 256 * (n * z)"
    using z unfolding z_def [symmetric] by linarith
  moreover have "f_of_nat (length xs) = Fin n" using assms(2) by (simp add: n_def f_of_nat)
  ultimately show ?thesis
    unfolding variance_of_def z_def [symmetric] by (simp add: near_mono comp_def flip: n_def)
qed

text \<open>What \<open>Moments::finish\<close> makes of the recurrence.\<close>

lemma finished_variance:
  assumes "xs \<noteq> []" and "length xs < 2 ^ 32" and b: "bounded_by M xs" and M: "1 \<le> M" "M \<le> 2 ^ 400"
    and m: "moments_near M xs m"
  shows "near (f_div (f_max (mo_m2 m) (Fin 0)) (Fin (of_nat (length xs)))) (variance_of xs)
    (256 * (of_nat (length xs) * (M\<^sup>2 * unit_roundoff)))"
proof -
  define n z where "n = (of_nat (length xs) :: rat)" and "z = M\<^sup>2 * unit_roundoff"
  have "1 \<le> length xs" using assms(1) by (simp add: Suc_leI)
  then have scale: "run_scale n M" unfolding n_def using assms(2) M by (rule run_scale_of)
  note s = scale_bounds [OF scale] and u = scale_roundoff [OF scale]
  have z: "0 \<le> z" "z \<le> n * z" using s u(1) mult_right_mono [OF s(2), of z] by (simp_all add: z_def)
  have nz: "n * z \<le> M\<^sup>2 / 1048576"
    using mult_right_mono [OF u(2), of "M\<^sup>2"] by (simp add: z_def mult.assoc mult.commute mult.left_commute)
  obtain t where t: "mo_m2 m = Fin t" "\<bar>t - deviations_of xs\<bar> \<le> n * (128 * (n * z))"
    using m unfolding moments_near_def Let_def n_def [symmetric] z_def [symmetric]
    by (auto simp: power2_eq_square mult.left_commute elim: nearE)
  then have t0: "near (f_max (mo_m2 m) (Fin 0)) (deviations_of xs) (n * (128 * (n * z)))"
    using deviations_nonneg [of xs] by (auto simp: f_max_def)
  have B: "\<bar>deviations_of xs\<bar> \<le> n * M\<^sup>2"
    using deviations_nonneg [of xs] deviations_within [OF b] M by (simp add: n_def)
  have "near (f_div (f_max (mo_m2 m) (Fin 0)) (Fin n)) (deviations_of xs / n) (128 * (n * z) + 2 * (M\<^sup>2 * unit_roundoff))"
    by (rule f_div_near [OF t0 s(2) B]) (use nz s in linarith)+
  moreover have "128 * (n * z) + 2 * (M\<^sup>2 * unit_roundoff) \<le> 256 * (n * z)"
    using z unfolding z_def [symmetric] by linarith
  ultimately show ?thesis
    unfolding variance_of_def n_def [symmetric] z_def [symmetric] by (rule near_mono)
qed


section \<open>The statistics of a hop\<close>

lemma hop_totals:
  "ha_totals (foldl hop_record a ss) = foldl (\<lambda>m s. moments_record s m) (ha_totals a) ss"
  by (induction ss arbitrary: a) (simp_all add: hop_record_def)

definition close_to :: "rat list \<Rightarrow> rat \<Rightarrow> statistics \<Rightarrow> bool" where
  "close_to xs M st \<longleftrightarrow> (\<exists>p v. st_average_ms st = Some (Fin p) \<and> st_stddev_ms st = Some (f_sqrt (Fin v))
     \<and> \<bar>p - mean_of xs\<bar> \<le> of_nat (length xs) * M / 2 ^ 49
     \<and> \<bar>v - variance_of xs\<bar> \<le> of_nat (length xs) * M\<^sup>2 / 2 ^ 45)"

lemma close_toI:
  assumes "near p (mean_of xs) (16 * (of_nat (length xs) * (M * unit_roundoff)))"
    and "near v (variance_of xs) (256 * (of_nat (length xs) * (M\<^sup>2 * unit_roundoff)))"
    and "st_average_ms st = Some p" and "st_stddev_ms st = Some (f_sqrt v)"
  shows "close_to xs M st"
proof -
  obtain q w where "p = Fin q" "\<bar>q - mean_of xs\<bar> \<le> 16 * (of_nat (length xs) * (M * unit_roundoff))"
    and "v = Fin w" "\<bar>w - variance_of xs\<bar> \<le> 256 * (of_nat (length xs) * (M\<^sup>2 * unit_roundoff))"
    using assms(1,2) by (auto simp: near_def)
  with assms(3,4) show ?thesis
    unfolding close_to_def
    by (intro exI [of _ q] exI [of _ w]) (simp add: unit_roundoff_def mult.commute)
qed

lemma streaming_close:
  assumes "List.map_filter counted ss = map Fin xs" and "xs \<noteq> []" and "length ss < 2 ^ 32"
    and "bounded_by M xs" and "1 \<le> M" "M \<le> 2 ^ 400"
    and m: "m = foldl (\<lambda>m s. moments_record s m) Moments_default ss"
  shows "close_to xs M (moments_finish m)" and "close_to xs M (from_samples ss)"
proof -
  have n: "length xs < 2 ^ 32"
    using arg_cong [OF assms(1), of length] counted_split [of ss] assms(3) by simp
  have near: "moments_near M xs m" unfolding m by (rule moments_near_samples [OF assms(1,3-6)])
  have "moments_of ss m" unfolding m by (induction ss rule: rev_induct) (simp_all add: moments_of_record)
  then have r: "unat (mo_received m) = length xs"
    using n by (simp add: moments_of_def assms(1) unat_of_nat)
  then have "0 < unat (mo_received m)" "f_of_nat (unat (mo_received m)) = Fin (of_nat (length xs))"
    using assms(2) f_of_u32 [of "mo_received m"] by simp_all
  then have "0 < mo_received m" "f_of_nat (unat (mo_received m)) = Fin (of_nat (length xs))"
    by (simp_all only: unat_gt_0 word_neq_0_conv)
  then show "close_to xs M (moments_finish m)"
    using near by (intro close_toI [OF _ finished_variance [OF assms(2) n assms(4-6) near]])
      (simp_all add: moments_near_def moments_finish_def Let_def)
  have "near (f_div (f_sum (map Fin xs)) (f_of_nat (length xs))) (mean_of xs)
      (16 * (of_nat (length xs) * (M * unit_roundoff)))"
    by (rule two_pass_mean [OF assms(2) n assms(4-6)])
  from close_toI [OF this two_pass_variance [OF assms(2) n assms(4-6) this]]
  show "close_to xs M (from_samples ss)"
    using assms(1,2) by (simp add: from_samples_def Let_def)
qed

text \<open>
  C10. The statistics a hop accumulates sample by sample are those \<open>Statistics::from_samples\<close> computes
  from the whole list. The three counts, the loss, the last, best and worst round trip are the same,
  and the loss is a number between 0 and 100. Average and deviation are absent in both when no
  round trip was counted. Otherwise, for \<open>n\<close> finite round trips between 0 and \<open>M\<close> milliseconds, the
  two computations round differently and both stay close to the exact values: the average within
  \<open>n * M / 2 ^ 49\<close> of the mean, and the deviation is the square root of a number within
  \<open>n * M\<^sup>2 / 2 ^ 45\<close> of the variance.
\<close>

theorem streaming_statistics_match:
  assumes "ss \<noteq> []" and "length ss < 2 ^ 32"
  shows "\<exists>h. hop_finish (foldl hop_record HopAccumulator_default ss) ttl = Some h
    \<and> (let a = th_statistics h; b = from_samples ss in
         st_sent a = st_sent b \<and> st_received a = st_received b \<and> st_cancelled a = st_cancelled b
       \<and> st_loss_percent a = st_loss_percent b \<and> st_last_ms a = st_last_ms b
       \<and> st_best_ms a = st_best_ms b \<and> st_worst_ms a = st_worst_ms b
       \<and> (\<exists>v. st_loss_percent a = Fin v \<and> 0 \<le> v \<and> v \<le> 100)
       \<and> (List.map_filter counted ss = [] \<longrightarrow> st_average_ms a = None \<and> st_average_ms b = None
           \<and> st_stddev_ms a = None \<and> st_stddev_ms b = None)
       \<and> (\<forall>xs M. List.map_filter counted ss = map Fin xs \<and> xs \<noteq> []
             \<and> (\<forall>x \<in> set xs. 0 \<le> x \<and> x \<le> M) \<and> 1 \<le> M \<and> M \<le> 2 ^ 400 \<longrightarrow>
           close_to xs M a \<and> close_to xs M b))"
proof -
  let ?acc = "foldl hop_record HopAccumulator_default ss"
  have ok: "count_ok (length ss)" using assms(2) by (simp add: count_ok_def)
  have inv: "hop_inv ss ?acc" by (rule hop_inv_samples)
  then have m: "moments_of ss (ha_totals ?acc)" by (simp add: hop_inv_def)
  have totals: "ha_totals ?acc = foldl (\<lambda>m s. moments_record s m) Moments_default ss"
    by (simp add: hop_totals HopAccumulator_default_def)
  obtain h where h: "hop_finish ?acc ttl = Some h" using finish_Some [OF assms(1) ok inv] .
  then have fin: "th_statistics h = moments_finish (ha_totals ?acc)"
    by (auto simp: hop_finish_def split: if_splits)
  obtain v where v: "st_loss_percent (th_statistics h) = Fin v" "0 \<le> v" "v \<le> 100"
    unfolding fin by (rule finish_loss [OF m ok])
  have none: "List.map_filter counted ss = [] \<longrightarrow> st_average_ms (th_statistics h) = None
      \<and> st_average_ms (from_samples ss) = None \<and> st_stddev_ms (th_statistics h) = None
      \<and> st_stddev_ms (from_samples ss) = None"
    using m unfolding fin by (simp add: moments_of_def moments_finish_def from_samples_def Let_def)
  have close: "close_to xs M (th_statistics h) \<and> close_to xs M (from_samples ss)"
    if "List.map_filter counted ss = map Fin xs \<and> xs \<noteq> []
      \<and> (\<forall>x \<in> set xs. 0 \<le> x \<and> x \<le> M) \<and> 1 \<le> M \<and> M \<le> 2 ^ 400" for xs M
    using that streaming_close [of ss xs M, OF _ _ assms(2) _ _ _ totals]
    unfolding fin bounded_by_def by metis
  have counts: "st_sent (th_statistics h) = st_sent (from_samples ss)"
    "st_received (th_statistics h) = st_received (from_samples ss)"
    "st_cancelled (th_statistics h) = st_cancelled (from_samples ss)"
    "st_loss_percent (th_statistics h) = st_loss_percent (from_samples ss)"
    "st_last_ms (th_statistics h) = st_last_ms (from_samples ss)"
    "st_best_ms (th_statistics h) = st_best_ms (from_samples ss)"
    "st_worst_ms (th_statistics h) = st_worst_ms (from_samples ss)"
    unfolding fin by (rule finish_counts [OF m ok])+
  have all: "\<exists>v. st_loss_percent (th_statistics h) = Fin v \<and> 0 \<le> v \<and> v \<le> 100" using v by blast
  show ?thesis
    unfolding Let_def
    by (intro exI [of _ h] conjI h all none counts allI impI) (use close in blast)+
qed

text \<open>Two round trips, of 2 and 4 ms, and a cancelled one.\<close>

theorem streaming_statistics_match_witness:
  "\<exists>h. hop_finish (foldl hop_record HopAccumulator_default
     [sample_at 0 1 2, (sample_at 1 2 9)\<lparr>sm_status := Sample_Cancelled\<rparr>, sample_at 2 1 4]) 5 = Some h
   \<and> st_received (th_statistics h) = 2
   \<and> (\<exists>p. st_average_ms (th_statistics h) = Some (Fin p) \<and> \<bar>p - 3\<bar> \<le> 8 / 2 ^ 49)"
proof -
  let ?ss = "[sample_at 0 1 2, (sample_at 1 2 9)\<lparr>sm_status := Sample_Cancelled\<rparr>, sample_at 2 1 4]"
  have c: "List.map_filter counted ?ss = map Fin [2, 4]"
    by (simp add: List.map_filter_simps counted_def sample_at_def)
  obtain h where h: "hop_finish (foldl hop_record HopAccumulator_default ?ss) 5 = Some h"
    "st_received (th_statistics h) = st_received (from_samples ?ss)"
    "\<forall>xs M. List.map_filter counted ?ss = map Fin xs \<and> xs \<noteq> []
       \<and> (\<forall>x \<in> set xs. 0 \<le> x \<and> x \<le> M) \<and> 1 \<le> M \<and> M \<le> 2 ^ 400 \<longrightarrow> close_to xs M (th_statistics h)"
    using streaming_statistics_match [of ?ss 5] unfolding Let_def by auto
  have "(4 :: rat) = 2 ^ 2" by simp
  also have "\<dots> \<le> 2 ^ 400" by (rule power_increasing) simp_all
  finally have "close_to [2, 4] 4 (th_statistics h)" using h(3) c by force
  then have "\<exists>p. st_average_ms (th_statistics h) = Some (Fin p) \<and> \<bar>p - 3\<bar> \<le> 8 / 2 ^ 49"
    by (auto simp: close_to_def mean_of_def)
  moreover have "st_received (from_samples ?ss) = 2" using c by (simp add: from_samples_def Let_def)
  ultimately show ?thesis using h(1,2) by auto
qed

end
