(* ===== verification/Dns.thy ===== *)
theory Dns
  imports Path_Io
begin

text \<open>
  \<open>crates/path-trace/src/dns.rs\<close>: the names that are looked up for a hop, the DNS query that is
  sent and the decoder of the response. Sockets and the resolver list of Windows are not modelled;
  \<open>query_any\<close> takes the answers of the resolvers, in the order they are tried.
\<close>

section \<open>Text\<close>

text \<open>\<open>str::split\<close> on one ASCII character: always at least one part.\<close>

fun split_on :: "u8 \<Rightarrow> bytes \<Rightarrow> bytes list" where
  "split_on d [] = [[]]"
| "split_on d (b # s) = (if b = d then [] # split_on d s
     else (case split_on d s of [] \<Rightarrow> [[b]] | p # ps \<Rightarrow> (b # p) # ps))"

fun join_with :: "bytes \<Rightarrow> bytes list \<Rightarrow> bytes" where
  "join_with d [] = []"
| "join_with d [p] = p"
| "join_with d (p # q # ps) = p @ d @ join_with d (q # ps)"

definition dot :: u8 where "dot = 46"

abbreviation dotted :: "bytes list \<Rightarrow> bytes" where
  "dotted \<equiv> join_with [dot]"

text \<open>The encoded characters of a string, for \<open>trim\<close> and \<open>split_whitespace\<close>.\<close>

fun char_chunks :: "bytes \<Rightarrow> bytes list" where
  "char_chunks [] = []"
| "char_chunks (a # t) =
     (let n = (if a < 128 then 0 else if a < 224 then 1 else if a < 240 then 2 else 3)
      in (a # take n t) # char_chunks (drop n t))"

definition blank :: "bytes \<Rightarrow> bool" where
  "blank c \<longleftrightarrow> (case chars c of [k] \<Rightarrow> is_whitespace k | _ \<Rightarrow> False)"

definition trim :: "bytes \<Rightarrow> bytes" where
  "trim s = concat (rev (dropWhile blank (rev (dropWhile blank (char_chunks s)))))"

fun words_of :: "bytes list \<Rightarrow> bytes \<Rightarrow> bytes list" where
  "words_of [] w = (if w = [] then [] else [w])"
| "words_of (c # cs) w = (if blank c then (if w = [] then [] else [w]) @ words_of cs []
     else words_of cs (w @ c))"

definition split_whitespace :: "bytes \<Rightarrow> bytes list" where
  "split_whitespace s = words_of (char_chunks s) []"

text \<open>\<open>str::lines\<close>: no empty last line, a carriage return before the line feed is dropped.\<close>

definition lines :: "bytes \<Rightarrow> bytes list" where
  "lines s = (let ps = split_on 10 s; ps = (if last ps = [] then butlast ps else ps)
     in map (\<lambda>l. if l \<noteq> [] \<and> last l = 13 then butlast l else l) ps)"

text \<open>
  \<open>String::from_utf8_lossy\<close>: each maximal prefix of an encoded character that breaks off becomes
  one replacement character.
\<close>

definition replacement :: bytes where "replacement = [239, 191, 189]"

definition second3 :: "u8 \<Rightarrow> u8 \<Rightarrow> bool" where
  "second3 a b \<longleftrightarrow> continuation b \<and> (a = 224 \<longrightarrow> 160 \<le> b) \<and> (a = 237 \<longrightarrow> b < 160)"

definition second4 :: "u8 \<Rightarrow> u8 \<Rightarrow> bool" where
  "second4 a b \<longleftrightarrow> continuation b \<and> (a = 240 \<longrightarrow> 144 \<le> b) \<and> (a = 244 \<longrightarrow> b < 144)"

fun lossy :: "bytes \<Rightarrow> bytes" where
  "lossy [] = []"
| "lossy (a # t) =
     (if a < 128 then a # lossy t
      else if a < 194 then replacement @ lossy t
      else if a < 224 then
        (case t of b # s \<Rightarrow> if continuation b then [a, b] @ lossy s else replacement @ lossy t
         | [] \<Rightarrow> replacement)
      else if a < 240 then
        (case t of b # s \<Rightarrow>
           if second3 a b then
             (case s of c # r \<Rightarrow> if continuation c then [a, b, c] @ lossy r else replacement @ lossy s
              | [] \<Rightarrow> replacement)
           else replacement @ lossy t
         | [] \<Rightarrow> replacement)
      else if a < 245 then
        (case t of b # s \<Rightarrow>
           if second4 a b then
             (case s of c # r \<Rightarrow>
                if continuation c then
                  (case r of d # q \<Rightarrow>
                     if continuation d then [a, b, c, d] @ lossy q else replacement @ lossy r
                   | [] \<Rightarrow> replacement)
                else replacement @ lossy s
              | [] \<Rightarrow> replacement)
           else replacement @ lossy t
         | [] \<Rightarrow> replacement)
      else replacement @ lossy t)"

section \<open>The resolver configuration\<close>

definition nameserver :: "(bytes \<Rightarrow> ip_addr option) \<Rightarrow> bytes \<Rightarrow> (ip_addr \<times> u16) option" where
  "nameserver parse_ip line = (case split_whitespace line of
     [] \<Rightarrow> None
   | key # rest \<Rightarrow>
       if key = lit ''nameserver''
       then (case rest of [] \<Rightarrow> None | value # _ \<Rightarrow> map_option (\<lambda>ip. (ip, 53)) (parse_ip value))
       else None)"

definition parse_resolv_conf :: "(bytes \<Rightarrow> ip_addr option) \<Rightarrow> bytes \<Rightarrow> (ip_addr \<times> u16) list" where
  "parse_resolv_conf parse_ip str = List.map_filter (nameserver parse_ip) (lines str)"

section \<open>Names\<close>

definition hex_digit :: "nat \<Rightarrow> u8" where
  "hex_digit d = (if d < 10 then 48 + word_of_nat d else 87 + word_of_nat d)"

definition octets :: "ip_addr \<Rightarrow> bytes" where
  "octets address = (case address of V4 a \<Rightarrow> to_be a | V6 a \<Rightarrow> to_be a)"

definition reverse_labels :: "ip_addr \<Rightarrow> bytes list" where
  "reverse_labels address = (case address of
     V4 a \<Rightarrow> map (\<lambda>b. decimal (unat b)) (rev (to_be a))
   | V6 a \<Rightarrow> map (\<lambda>n. [hex_digit n]) (rev (concat (map (\<lambda>b. [unat b div 16, unat b mod 16]) (to_be a)))))"

definition reverse_pointer :: "ip_addr \<Rightarrow> bytes" where
  "reverse_pointer address = dotted (reverse_labels address) @
     (case address of V4 _ \<Rightarrow> lit ''.in-addr.arpa'' | V6 _ \<Rightarrow> lit ''.ip6.arpa'')"

definition asn_name :: "ip_addr \<Rightarrow> bytes" where
  "asn_name address = dotted (reverse_labels address) @
     (case address of V4 _ \<Rightarrow> lit ''.origin.asn.cymru.com'' | V6 _ \<Rightarrow> lit ''.origin6.asn.cymru.com'')"

definition asn_of_records :: "bytes list \<Rightarrow> bytes option" where
  "asn_of_records records = (case records of
     [] \<Rightarrow> None
   | r # _ \<Rightarrow> (let v = trim (hd (split_on 124 r)) in if v = [] then None else Some v))"

definition no_resolver :: probe_error where
  "no_resolver = Io (lit ''DNS query'') (lit ''no DNS resolver available'')"

fun query_loop :: "probe_error option \<Rightarrow> (bytes list, probe_error) outcome list \<Rightarrow>
    (bytes list, probe_error) outcome" where
  "query_loop last_error [] = Err (case last_error of None \<Rightarrow> no_resolver | Some e \<Rightarrow> e)"
| "query_loop last_error (answer # rest) = (case answer of
     Ok records \<Rightarrow> Ok records
   | Err e \<Rightarrow> if e = Probe_Cancelled then Err Probe_Cancelled else query_loop (Some e) rest
   | Panic \<Rightarrow> Panic)"

definition query_any :: "(bytes list, probe_error) outcome list \<Rightarrow> (bytes list, probe_error) outcome" where
  "query_any = query_loop None"

definition reverse_name :: "(bytes list, probe_error) outcome list \<Rightarrow> (bytes option, probe_error) outcome" where
  "reverse_name answers = and_then (query_any answers) (\<lambda>records.
     Ok (case records of [] \<Rightarrow> None | r # _ \<Rightarrow> Some r))"

definition lookup_asn :: "(bytes list, probe_error) outcome list \<Rightarrow> (bytes option, probe_error) outcome" where
  "lookup_asn answers = and_then (query_any answers) (\<lambda>records. Ok (asn_of_records records))"

section \<open>The wire format\<close>

fun encode_labels :: "bytes list \<Rightarrow> (bytes, probe_error) outcome" where
  "encode_labels [] = Ok []"
| "encode_labels (l # ls) =
     (if l = [] \<or> 63 < length l then Err (Invalid_Plan (lit ''invalid DNS query label''))
      else and_then (encode_labels ls) (\<lambda>rest. Ok (word_of_nat (length l) # l @ rest)))"

definition build_query :: "u16 \<Rightarrow> bytes \<Rightarrow> u16 \<Rightarrow> (bytes, probe_error) outcome" where
  "build_query transaction name query_type =
     and_then (encode_labels (split_on dot name)) (\<lambda>labels.
       Ok (to_be transaction @ [1, 0, 0, 1, 0, 0, 0, 0, 0, 0] @ labels @ [0] @ to_be query_type
           @ to_be (1 :: u16)))"

definition dns_parse :: "string \<Rightarrow> ('a, probe_error) outcome" where
  "dns_parse m = Err (Io (lit ''parse DNS response'') (lit m))"

text \<open>
  One name. A label is followed within the loop, a compression pointer by a call one level deeper;
  the depth is at most 17 levels and inside a level the offset grows, which is the measure.
\<close>

function read_labels :: "bytes \<Rightarrow> nat \<Rightarrow> nat \<Rightarrow> bytes list \<Rightarrow> (nat \<times> bytes, probe_error) outcome" where
  "read_labels bs depth offset labels =
     (if 16 < depth then dns_parse ''compression pointer loop''
      else case get_at bs offset of
        None \<Rightarrow> dns_parse ''truncated name''
      | Some len \<Rightarrow>
          if len AND 0xC0 = 0xC0 then
            (case get_at bs (offset + 1) of
               None \<Rightarrow> dns_parse ''truncated compression pointer''
             | Some low \<Rightarrow>
                 (case read_labels bs (depth + 1) (unat (len AND 0x3F) * 256 + unat low) [] of
                    Ok (_, suffix) \<Rightarrow>
                      Ok (offset + 2, dotted (labels @ (if suffix = [] then [] else [suffix])))
                  | Err e \<Rightarrow> Err e
                  | Panic \<Rightarrow> Panic))
          else if len = 0 then Ok (offset + 1, dotted labels)
          else if length bs < offset + 1 + unat len then dns_parse ''truncated label''
          else read_labels bs depth (offset + 1 + unat len)
                 (labels @ [lossy (take (unat len) (drop (offset + 1) bs))]))"
  by pat_completeness auto

termination
  by (relation "measures [\<lambda>(bs, depth, offset, labels). 17 - depth,
        \<lambda>(bs, depth, offset, labels). length bs - offset]")
    (auto simp: get_at_def split: if_splits)

declare read_labels.simps [simp del]

definition read_name :: "bytes \<Rightarrow> nat \<Rightarrow> nat \<Rightarrow> (nat \<times> bytes, probe_error) outcome" where
  "read_name bs offset depth = read_labels bs depth offset []"

definition skip_name :: "bytes \<Rightarrow> nat \<Rightarrow> (nat, probe_error) outcome" where
  "skip_name bs offset = and_then (read_name bs offset 0) (\<lambda>(next_offset, _). Ok next_offset)"

fun skip_questions :: "nat \<Rightarrow> bytes \<Rightarrow> nat \<Rightarrow> (nat, probe_error) outcome" where
  "skip_questions 0 bs offset = Ok offset"
| "skip_questions (Suc n) bs offset = and_then (skip_name bs offset) (\<lambda>offset.
     case usize_checked_add offset 4 of
       None \<Rightarrow> dns_parse ''truncated question''
     | Some v \<Rightarrow> if v \<le> length bs then skip_questions n bs v else dns_parse ''truncated question'')"

function txt_strings :: "bytes \<Rightarrow> nat \<Rightarrow> nat \<Rightarrow> bytes \<Rightarrow> (bytes, probe_error) outcome" where
  "txt_strings bs cursor stop_at str =
     (if stop_at \<le> cursor then Ok str
      else and_then (byte_at bs cursor) (\<lambda>part.
        if stop_at < cursor + 1 + unat part then dns_parse ''truncated TXT string''
        else and_then (subslice bs (cursor + 1) (cursor + 1 + unat part)) (\<lambda>piece.
          txt_strings bs (cursor + 1 + unat part) stop_at (str @ lossy piece))))"
  by pat_completeness auto

termination
  by (relation "measure (\<lambda>(bs, cursor, stop_at, str). stop_at - cursor)") auto

declare txt_strings.simps [simp del]

definition read_record :: "u16 \<Rightarrow> u16 \<Rightarrow> bytes \<Rightarrow> nat \<Rightarrow> nat \<Rightarrow> (bytes list, probe_error) outcome" where
  "read_record query_type record_type bs data len =
     (if record_type \<noteq> query_type then Ok []
      else if query_type = 12 then and_then (read_name bs data 0) (\<lambda>(_, name). Ok [name])
      else if query_type = 16 then and_then (txt_strings bs data (data + len) []) (\<lambda>str. Ok [str])
      else Ok [])"

fun read_answers :: "nat \<Rightarrow> u16 \<Rightarrow> bytes \<Rightarrow> nat \<Rightarrow> bytes list \<Rightarrow> (bytes list, probe_error) outcome" where
  "read_answers 0 query_type bs offset records = Ok records"
| "read_answers (Suc n) query_type bs offset records =
     and_then (skip_name bs offset) (\<lambda>offset.
       if length bs < offset + 10 then dns_parse ''truncated answer''
       else and_then (subslice bs offset (offset + 2)) (\<lambda>record_type.
         and_then (subslice bs (offset + 8) (offset + 10)) (\<lambda>len.
           let data = offset + 10; len = unat (from_be len :: u16) in
           if length bs < data + len then dns_parse ''truncated answer data''
           else and_then (read_record query_type (from_be record_type) bs data len) (\<lambda>new.
             read_answers n query_type bs (data + len) (records @ new)))))"

definition parse_response :: "u16 \<Rightarrow> u16 \<Rightarrow> bytes \<Rightarrow> (bytes list, probe_error) outcome" where
  "parse_response transaction query_type bs =
     (if length bs < 12 \<or> from_be (take 2 bs) \<noteq> transaction
      then dns_parse ''header or transaction mismatch''
      else and_then (byte_at bs 3) (\<lambda>flags.
        if flags AND 0x0F \<noteq> 0 then Ok []
        else and_then (subslice bs 4 6) (\<lambda>questions.
          and_then (subslice bs 6 8) (\<lambda>answers.
            and_then (skip_questions (unat (from_be questions :: u16)) bs 12) (\<lambda>offset.
              read_answers (unat (from_be answers :: u16)) query_type bs offset [])))))"

end
