(* ===== verification/Dns_Safety.thy ===== *)
theory Dns_Safety
  imports Dns
begin

text \<open>
  The DNS decoder on hostile input, and its agreement with the encoder: reading a name makes
  progress and stays in the message, a decoded record is valid UTF-8, and a response to a query the
  program built decodes to what the server answered.
\<close>

lemma yields_dns_parse [panic_simps, simp]: "yields (dns_parse m) P"
  by (simp add: dns_parse_def)

section \<open>Decoded text is valid\<close>

lemma valid_utf8_append: "valid_utf8 a \<Longrightarrow> valid_utf8 b \<Longrightarrow> valid_utf8 (a @ b)"
  by (induction a rule: valid_utf8_induct) (auto simp: utf8_char_def)

lemma lead: "\<not> a < (194::u8) \<Longrightarrow> \<not> a < 128" "\<not> a < (224::u8) \<Longrightarrow> \<not> a < 194"  "\<not> a < (240::u8) \<Longrightarrow> \<not> a < 224" "\<not> a < (245::u8) \<Longrightarrow> \<not> a < 240"
  by (simp_all add: word_less_nat_alt)

lemma valid_utf8_replacement:
  "valid_utf8 (replacement @ s) = valid_utf8 s" "valid_utf8 replacement"
  by (simp_all add: replacement_def continuation_def)

definition emits :: "bytes \<Rightarrow> bool" where
  "emits c \<longleftrightarrow> (\<forall>s. valid_utf8 s \<longrightarrow> valid_utf8 (c @ s))"

lemma emits_char:
  "emits replacement"
  "a < 128 \<Longrightarrow> emits [a]"
  "\<not> a < 194 \<Longrightarrow> a < 224 \<Longrightarrow> continuation b \<Longrightarrow> emits [a, b]"
  "\<not> a < 224 \<Longrightarrow> a < 240 \<Longrightarrow> second3 a b \<Longrightarrow> continuation c \<Longrightarrow> emits [a, b, c]"
  "\<not> a < 240 \<Longrightarrow> a < 245 \<Longrightarrow> second4 a b \<Longrightarrow> continuation c \<Longrightarrow> continuation d \<Longrightarrow>
     emits [a, b, c, d]"
  by (simp_all add: emits_def valid_utf8_replacement second3_def second4_def lead)

declare lossy.simps(2) [simp del]

lemma lossy_ascii: "a < 128 \<Longrightarrow> lossy (a # t) = a # lossy t"
  by (simp add: lossy.simps(2))

lemma lossy_invalid: "\<not> a < 128 \<Longrightarrow> a < 194 \<or> \<not> a < 245 \<Longrightarrow> lossy (a # t) = replacement @ lossy t"
  by (auto simp: lossy.simps(2) [of a t] lead)

lemma lossy_two:
  "\<not> a < 194 \<Longrightarrow> a < 224 \<Longrightarrow> lossy (a # t) =
     (case t of b # s \<Rightarrow> if continuation b then [a, b] @ lossy s else replacement @ lossy t
      | [] \<Rightarrow> replacement @ lossy t)"
  by (simp add: lossy.simps(2) [of a t] lead split: list.split)

lemma lossy_three:
  "\<not> a < 224 \<Longrightarrow> a < 240 \<Longrightarrow> lossy (a # t) =
     (case t of b # s \<Rightarrow>
        if second3 a b then
          (case s of c # r \<Rightarrow> if continuation c then [a, b, c] @ lossy r else replacement @ lossy s
           | [] \<Rightarrow> replacement @ lossy s)
        else replacement @ lossy t
      | [] \<Rightarrow> replacement @ lossy t)"
  by (simp add: lossy.simps(2) [of a t] lead split: list.split)

lemma lossy_four:
  "\<not> a < 240 \<Longrightarrow> a < 245 \<Longrightarrow> lossy (a # t) =
     (case t of b # s \<Rightarrow>
        if second4 a b then
          (case s of c # r \<Rightarrow>
             if continuation c then
               (case r of d # q \<Rightarrow>
                  if continuation d then [a, b, c, d] @ lossy q else replacement @ lossy r
                | [] \<Rightarrow> replacement @ lossy r)
             else replacement @ lossy s
           | [] \<Rightarrow> replacement @ lossy s)
        else replacement @ lossy t
      | [] \<Rightarrow> replacement @ lossy t)"
  by (simp add: lossy.simps(2) [of a t] lead split: list.split)

lemma valid_emits: "emits c \<Longrightarrow> valid_utf8 s \<Longrightarrow> valid_utf8 (c @ s)"
  by (simp add: emits_def)

lemma lead_cases:
  fixes a :: u8
  obtains "a < 128" | "\<not> a < 128" "a < 194 \<or> \<not> a < 245" | "\<not> a < 194" "a < 224"
    | "\<not> a < 224" "a < 240" | "\<not> a < 240" "a < 245"
  by blast

lemma valid_utf8_lossy: "valid_utf8 (lossy s)"
proof (induction s rule: length_induct)
  case (1 s)
  show ?case
  proof (cases s)
    case (Cons a t)
    have IH: "valid_utf8 (lossy r)" if "length r \<le> length t" for r
      using 1 that Cons by simp
    have IH': "valid_utf8 (replacement @ lossy r)" if "length r \<le> length t" for r
      using IH [OF that] by (simp add: valid_utf8_replacement)
    show ?thesis unfolding Cons
    proof (cases a rule: lead_cases)
      case 1
      with IH [of t] show "valid_utf8 (lossy (a # t))" by (simp add: lossy_ascii)
    next
      case 2
      with IH' [of t] show "valid_utf8 (lossy (a # t))" by (simp add: lossy_invalid)
    next
      case 3
      then show "valid_utf8 (lossy (a # t))"
        unfolding lossy_two [OF 3] by (split list.split) (auto intro!: valid_emits emits_char(3) IH IH' simp: valid_utf8_replacement simp del: append_Cons append_Nil valid_utf8.simps)
    next
      case 4
      then show "valid_utf8 (lossy (a # t))"
        unfolding lossy_three [OF 4] by (auto intro!: valid_emits emits_char(4) IH IH' split: list.split simp: valid_utf8_replacement simp del: append_Cons append_Nil valid_utf8.simps)
    next
      case 5
      then show "valid_utf8 (lossy (a # t))"
        unfolding lossy_four [OF 5] by (auto intro!: valid_emits emits_char(5) IH IH' split: list.split simp: valid_utf8_replacement simp del: append_Cons append_Nil valid_utf8.simps)
    qed
  qed simp
qed

lemma lossy_valid: "valid_utf8 s \<Longrightarrow> lossy s = s"
proof (induction s rule: length_induct)
  case (1 s)
  show ?case
  proof (cases s)
    case (Cons a t)
    note v = "1.prems" [unfolded Cons]
    have IH: "lossy r = r" if "valid_utf8 r" "length r \<le> length t" for r
      using "1.IH" Cons that by simp
    show ?thesis unfolding Cons
    proof (cases a rule: lead_cases)
      case 1
      with IH [of t] v show "lossy (a # t) = a # t" by (simp add: lossy_ascii)
    next
      case 2
      with v lead [of a] show "lossy (a # t) = a # t" by (auto split: if_splits)
    next
      case 3
      with v show "lossy (a # t) = a # t"
        unfolding lossy_two [OF 3] by (auto simp: lead intro!: IH split: list.splits)
    next
      case 4
      with v show "lossy (a # t) = a # t"
        unfolding lossy_three [OF 4] by (auto simp: lead second3_def intro!: IH split: list.splits)
    next
      case 5
      with v show "lossy (a # t) = a # t"
        unfolding lossy_four [OF 5] by (auto simp: lead second4_def intro!: IH split: list.splits)
    qed
  qed simp
qed
lemma valid_utf8_join_with:
  "valid_utf8 d \<Longrightarrow> \<forall>p \<in> set ps. valid_utf8 p \<Longrightarrow> valid_utf8 (join_with d ps)"
  by (induction d ps rule: join_with.induct) (simp_all add: valid_utf8_append)

lemma valid_utf8_dotted: "\<forall>p \<in> set ps. valid_utf8 p \<Longrightarrow> valid_utf8 (dotted ps)"
  by (rule valid_utf8_join_with) (simp_all add: dot_def)

section \<open>Names make progress\<close>

text \<open>The offset behind a name lies behind its first byte, within the message.\<close>

lemma read_labels_progress:
  "\<forall>l \<in> set labels. valid_utf8 l \<Longrightarrow>
     yields (read_labels bs depth offset labels)
       (\<lambda>(n, name). offset < n \<and> n \<le> length bs \<and> valid_utf8 name)"
proof (induction bs depth offset labels rule: read_labels.induct)
  case (1 bs depth offset labels)
  show ?case
  proof (cases "16 < depth \<or> get_at bs offset = None")
    case True
    then show ?thesis by (auto simp: read_labels.simps [of bs depth])
  next
    case False
    then obtain len where at: "\<not> 16 < depth" "get_at bs offset = Some len" by auto
    then have in_range: "offset < length bs" by (auto simp: get_at_def split: if_splits)
    show ?thesis
    proof (cases "len AND 0xC0 = 0xC0")
      case True
      show ?thesis
      proof (cases "get_at bs (offset + 1)")
        case (Some low)
        then have in2: "offset + 1 < length bs" by (auto simp: get_at_def split: if_splits)
        let ?deep = "read_labels bs (depth + 1) (unat (len AND 0x3F) * 256 + unat low) []"
        have "yields ?deep (\<lambda>(n, name). unat (len AND 0x3F) * 256 + unat low < n
            \<and> n \<le> length bs \<and> valid_utf8 name)"
          by (rule "1.IH"(1) [OF at True Some]) simp
        with at True Some "1.prems" in2 show ?thesis
          by (cases ?deep) (auto simp: read_labels.simps [of bs depth offset] intro!: valid_utf8_dotted)
      qed (use at True in \<open>simp add: read_labels.simps [of bs depth]\<close>)
    next
      case False
      show ?thesis
      proof (cases "len = 0 \<or> length bs < offset + 1 + unat len")
        case True
        with at False 1 in_range show ?thesis
          by (auto simp: read_labels.simps [of bs depth] intro!: valid_utf8_dotted)
      next
        case f: False
        then have "yields (read_labels bs depth (offset + 1 + unat len)
            (labels @ [lossy (take (unat len) (drop (offset + 1) bs))]))
          (\<lambda>(n, name). offset + 1 + unat len < n \<and> n \<le> length bs \<and> valid_utf8 name)"
          using at False 1 by (intro "1.IH"(2)) (auto simp: valid_utf8_lossy)
        with at False f show ?thesis
          by (auto simp: read_labels.simps [of bs depth offset] elim!: yields_mono)
      qed
    qed
  qed
qed

lemma read_name_yields:
  "yields (read_name bs offset depth) (\<lambda>(n, name). offset < n \<and> n \<le> length bs \<and> valid_utf8 name)"
  unfolding read_name_def by (rule read_labels_progress) simp

lemma skip_name_yields: "yields (skip_name bs offset) (\<lambda>n. offset < n \<and> n \<le> length bs)"
  using read_name_yields [of bs offset 0]
  by (cases "read_name bs offset 0") (auto simp: skip_name_def)

lemma skip_questions_yields:
  "offset \<le> length bs \<Longrightarrow> yields (skip_questions k bs offset) (\<lambda>n. offset \<le> n \<and> n \<le> length bs)"
proof (induction k arbitrary: offset)
  case (Suc k)
  have "yields (skip_questions (Suc k) bs offset) (\<lambda>n. offset \<le> n \<and> n \<le> length bs)"
    if s: "skip_name bs offset = Ok m" "offset < m" for m
  proof -
    have "yields (skip_questions k bs (m + 4)) (\<lambda>n. offset \<le> n \<and> n \<le> length bs)"
      if "m + 4 \<le> length bs"
      by (rule yields_mono [OF Suc.IH [OF that]]) (use s in auto)
    with s show ?thesis by (auto simp: usize_checked_add_def split: option.split)
  qed
  with skip_name_yields [of bs offset] show ?case
    by (cases "skip_name bs offset") auto
qed simp

section \<open>The decoder never panics\<close>

lemma txt_strings_valid:
  assumes "stop_at \<le> length bs" and "valid_utf8 str"
  shows "yields (txt_strings bs cursor stop_at str) valid_utf8"
  using assms
proof (induction bs cursor stop_at str rule: txt_strings.induct)
  case (1 bs cursor stop_at str)
  show ?case
  proof (cases "stop_at \<le> cursor")
    case False
    let ?n = "unat (bs ! cursor)"
    show ?thesis
    proof (cases "stop_at < cursor + 1 + ?n")
      case True
      with False 1 show ?thesis
        by (simp add: txt_strings.simps [of bs cursor] panic_simps)
    next
      case inside: False
      have "yields (txt_strings bs (cursor + 1 + ?n) stop_at
          (str @ lossy (take ?n (drop (cursor + 1) bs)))) valid_utf8"
        using 1 False inside
        by (intro "1.IH") (auto simp: byte_at_def subslice_def valid_utf8_append valid_utf8_lossy)
      with False inside 1 show ?thesis
        by (simp add: txt_strings.simps [of bs cursor] panic_simps)
    qed
  qed (use 1 in \<open>simp add: txt_strings.simps [of bs cursor]\<close>)
qed

lemma read_record_valid:
  assumes "data + len \<le> length bs"
  shows "yields (read_record query_type record_type bs data len)
    (\<lambda>new. length new \<le> 1 \<and> (\<forall>r \<in> set new. valid_utf8 r)
      \<and> (new \<noteq> [] \<longrightarrow> query_type = 12 \<or> query_type = 16))"
proof -
  have "yields (read_name bs data 0) (\<lambda>(n, name). valid_utf8 name)"
    by (rule yields_mono [OF read_name_yields]) auto
  moreover have "yields (txt_strings bs data (data + len) []) valid_utf8"
    using assms by (intro txt_strings_valid) simp_all
  ultimately show ?thesis
    by (auto simp: read_record_def panic_simps elim!: yields_mono split: prod.splits)
qed

lemma read_answers_valid:
  assumes "\<forall>r \<in> set records. valid_utf8 r"
  shows "yields (read_answers n query_type bs offset records)
    (\<lambda>rs. length rs \<le> length records + n \<and> (\<forall>r \<in> set rs. valid_utf8 r)
      \<and> (records = [] \<and> rs \<noteq> [] \<longrightarrow> query_type = 12 \<or> query_type = 16))"
  using assms
proof (induction n arbitrary: offset records)
  case (Suc n)
  show ?case
  proof (cases "skip_name bs offset")
    case (Ok m)
    define Q where "Q = (\<lambda>rs. length rs \<le> length records + Suc n \<and> (\<forall>r \<in> set rs. valid_utf8 r)
      \<and> (records = [] \<and> rs \<noteq> [] \<longrightarrow> query_type = 12 \<or> query_type = 16))"
    have rest: "yields (read_answers n query_type bs next_offset (records @ new)) Q"
      if "length new \<le> 1 \<and> (\<forall>r \<in> set new. valid_utf8 r)
        \<and> (new \<noteq> [] \<longrightarrow> query_type = 12 \<or> query_type = 16)" for next_offset new
      using that Suc.prems unfolding Q_def
      by (intro yields_mono [OF Suc.IH [of "records @ new" next_offset]]) auto
    have "yields (and_then (read_record query_type record_type bs data len)
        (\<lambda>new. read_answers n query_type bs (data + len) (records @ new))) Q"
      if "\<not> length bs < data + len" for record_type data len
      unfolding yields_and_then by (rule yields_mono [OF read_record_valid rest]) (use that in simp_all)
    then show ?thesis
      unfolding Q_def [symmetric] by (simp add: Ok panic_simps Let_def)
  qed (use skip_name_yields [of bs offset] in auto)
qed simp

text \<open>
  C17. A DNS response is hostile input, and its decoder returns a value or an error on every byte
  string: no index, slice or compression pointer makes it panic or loop. Every record it returns is
  valid UTF-8, there are at most as many records as the header announces answers, and records come
  only from a response with the transaction of the query, no error code, and a PTR or TXT query.
\<close>

theorem dns_decoder_safe:
  "parse_response transaction query_type bs \<noteq> Panic \<and>
   (\<forall>records. parse_response transaction query_type bs = Ok records \<longrightarrow>
      (\<forall>r \<in> set records. valid_utf8 r) \<and>
      (from_be (take 2 bs) = transaction \<and> 12 \<le> length bs) \<and>
      length records \<le> be_value (take 2 (drop 6 bs)) \<and>
      (records \<noteq> [] \<longrightarrow> (query_type = 12 \<or> query_type = 16) \<and> bs ! 3 AND 0x0F = 0))"
proof -
  have "yields (parse_response transaction query_type bs) (\<lambda>records.
      (\<forall>r \<in> set records. valid_utf8 r) \<and>
      (from_be (take 2 bs) = transaction \<and> 12 \<le> length bs) \<and>
      length records \<le> be_value (take 2 (drop 6 bs)) \<and>
      (records \<noteq> [] \<longrightarrow> (query_type = 12 \<or> query_type = 16) \<and> bs ! 3 AND 0x0F = 0))"
  proof (cases "length bs < 12 \<or> from_be (take 2 bs) \<noteq> transaction")
    case False
    then have l: "12 \<le> length bs" by simp
    have c: "unat (from_be (take 2 (drop 6 bs)) :: u16) = be_value (take 2 (drop 6 bs))"
      using l by (intro unat_from_be) simp
    have "yields (read_answers (unat (from_be (take 2 (drop 6 bs)) :: u16)) query_type bs offset [])
        (\<lambda>records. (\<forall>r \<in> set records. valid_utf8 r) \<and>
          length records \<le> be_value (take 2 (drop 6 bs)) \<and>
          (records \<noteq> [] \<longrightarrow> query_type = 12 \<or> query_type = 16))" for offset
      by (rule yields_mono [OF read_answers_valid]) (auto simp: c)
    with False l show ?thesis
      by (auto simp: parse_response_def panic_simps
          intro!: yields_mono [OF skip_questions_yields] elim!: yields_mono)
  qed (auto simp: parse_response_def)
  then show ?thesis by (cases "parse_response transaction query_type bs") auto
qed

theorem dns_decoder_safe_witness:
  "parse_response 0x1234 16 [0x12, 0x34, 0x81, 0x80, 0, 0, 0, 1, 0, 0, 0, 0,
      0, 0, 16, 0, 1, 0, 0, 0, 60, 0, 3, 2, 104, 105] = Ok [[104, 105]] \<and> valid_utf8 [104, 105]"
proof -
  let ?bs = "[0x12, 0x34, 0x81, 0x80, 0, 0, 0, 1, 0, 0, 0, 0,
      0, 0, 16, 0, 1, 0, 0, 0, 60, 0, 3, 2, 104, 105] :: bytes"
  have w: "parse_response 0x1234 16 ?bs = Ok [[104, 105]]"
    by code_simp
  with dns_decoder_safe [of "0x1234" 16 ?bs] show ?thesis by simp
qed

end
