(* ===== verification/Dns_Roundtrip.thy ===== *)
theory Dns_Roundtrip
  imports Dns_Safety
begin

text \<open>
  The encoder and the decoder of DNS messages together: the query that is sent for an address asks
  for the name that was built, and a server's answer to it decodes to the records of the server.
\<close>

section \<open>Labels on the wire\<close>

text \<open>RFC 1035 label and character-string encoding: a length byte and that many bytes.\<close>

definition enc :: "bytes list \<Rightarrow> bytes" where
  "enc ls = concat (map (\<lambda>l. word_of_nat (length l) # l) ls)"

lemma enc_simps [simp]:
  "enc [] = []"
  "enc (l # ls) = word_of_nat (length l) # l @ enc ls"
  by (simp_all add: enc_def)

definition label_ok :: "bytes \<Rightarrow> bool" where
  "label_ok l \<longleftrightarrow> l \<noteq> [] \<and> length l \<le> 63"

lemma encode_labels_iff:
  "encode_labels ls = Ok x \<longleftrightarrow> (\<forall>l \<in> set ls. label_ok l) \<and> x = enc ls"
  by (induction ls arbitrary: x) (auto simp: label_ok_def and_then_eq_Ok not_less)

lemma label_length:
  assumes "label_ok l"
  shows "unat (word_of_nat (length l) :: u8) = length l"
    and "(word_of_nat (length l) :: u8) AND 0xC0 \<noteq> 0xC0"
    and "(word_of_nat (length l) :: u8) \<noteq> 0"
proof -
  show n: "unat (word_of_nat (length l) :: u8) = length l"
    using assms by (simp add: label_ok_def)
  show "(word_of_nat (length l) :: u8) AND 0xC0 \<noteq> 0xC0"
  proof
    assume "(word_of_nat (length l) :: u8) AND 0xC0 = 0xC0"
    then have "0xC0 \<le> (word_of_nat (length l) :: u8)"
      by (metis word_and_le2)
    with n assms show False by (simp add: word_le_nat_alt label_ok_def)
  qed
  show "(word_of_nat (length l) :: u8) \<noteq> 0"
    using n assms by (metis label_ok_def length_0_conv unsigned_0)
qed

lemma read_labels_enc:
  assumes "depth \<le> 16" and "\<forall>l \<in> set ls. label_ok l"
  shows "read_labels (pre @ enc ls @ 0 # post) depth (length pre) labels =
    Ok (length pre + length (enc ls) + 1, dotted (labels @ map lossy ls))"
  using assms(2)
proof (induction ls arbitrary: pre labels)
  case Nil
  then show ?case using assms(1) by (subst read_labels.simps) (simp add: get_at_def)
next
  case (Cons l ls)
  then have l: "label_ok l" by simp
  have "read_labels (pre @ enc (l # ls) @ 0 # post) depth (length pre) labels =
      read_labels ((pre @ word_of_nat (length l) # l) @ enc ls @ 0 # post) depth
        (length (pre @ word_of_nat (length l) # l)) (labels @ [lossy l])"
    using assms(1) label_length [OF l]
    by (subst read_labels.simps) (simp add: get_at_def nth_append)
  also have "\<dots> = Ok (length (pre @ word_of_nat (length l) # l) + length (enc ls) + 1,
      dotted ((labels @ [lossy l]) @ map lossy ls))"
    using Cons.prems by (intro Cons.IH) simp
  finally show ?case by simp
qed

lemma read_name_enc:
  "depth \<le> 16 \<Longrightarrow> \<forall>l \<in> set ls. label_ok l \<Longrightarrow> bs = pre @ enc ls @ 0 # post \<Longrightarrow> offset = length pre \<Longrightarrow>
     read_name bs offset depth = Ok (length pre + length (enc ls) + 1, dotted (map lossy ls))"
  using read_labels_enc [of depth ls pre post "[]"] by (simp add: read_name_def)

text \<open>A compression pointer to the first byte behind the header, as every server sends it.\<close>

lemma skip_pointer:
  assumes "get_at bs offset = Some 0xC0" and "get_at bs (offset + 1) = Some 0x0C"
    and "read_name bs 12 1 = Ok x"
  shows "skip_name bs offset = Ok (offset + 2)"
  using assms by (auto simp: skip_name_def read_name_def read_labels.simps [of bs 0] split: prod.split)

section \<open>Answers\<close>

definition answer :: "u16 \<Rightarrow> u32 \<Rightarrow> bytes \<Rightarrow> bytes" where
  "answer record_type ttl rdata =
     [0xC0, 0x0C] @ to_be record_type @ to_be (1 :: u16) @ to_be ttl
     @ to_be (word_of_nat (length rdata) :: u16) @ rdata"

definition response_to :: "bytes \<Rightarrow> bytes list \<Rightarrow> bytes" where
  "response_to query answers = take 2 query @ [0x81, 0x80] @ take 2 (drop 4 query)
     @ to_be (word_of_nat (length answers) :: u16) @ drop 8 query @ concat answers"

definition decodes :: "u16 \<Rightarrow> bytes \<Rightarrow> bytes \<Rightarrow> bool" where
  "decodes query_type rdata str \<longleftrightarrow> length rdata < 65536 \<and>
     (\<forall>pre post. read_record query_type query_type (pre @ rdata @ post) (length pre) (length rdata) = Ok [str])"

lemma read_answers_all:
  assumes "\<forall>(ttl, rdata, str) \<in> set as. decodes query_type rdata str"
    and "bs = pre @ concat (map (\<lambda>(ttl, rdata, str). answer query_type ttl rdata) as)"
    and "read_name bs 12 1 = Ok x"
  shows "read_answers (length as) query_type bs (length pre) records =
    Ok (records @ map (\<lambda>(ttl, rdata, str). str) as)"
  using assms
proof (induction as arbitrary: pre records)
  case (Cons a as)
  obtain ttl rdata str where a: "a = (ttl, rdata, str)" by (cases a)
  let ?more = "concat (map (\<lambda>(ttl, rdata, str). answer query_type ttl rdata) as)"
  let ?head = "[0xC0, 0x0C] @ to_be query_type @ to_be (1 :: u16) @ to_be ttl
     @ to_be (word_of_nat (length rdata) :: u16)"
  have bs: "bs = pre @ ?head @ rdata @ ?more" and bs': "bs = (pre @ ?head) @ rdata @ ?more"
    and bs'': "bs = (pre @ ?head @ rdata) @ ?more"
    using Cons.prems(2) by (simp_all add: a answer_def)
  have d: "length rdata < 65536" "read_record query_type query_type bs (length pre + 2 + 10) (length rdata) = Ok [str]"
  proof -
    have "decodes query_type rdata str" using Cons.prems(1) a by simp
    then have "length rdata < 65536"
      and "read_record query_type query_type ((pre @ ?head) @ rdata @ ?more) (length (pre @ ?head))
        (length rdata) = Ok [str]"
      unfolding decodes_def by blast+
    moreover have "length (pre @ ?head) = length pre + 2 + 10" by simp
    ultimately show "length rdata < 65536"
      and "read_record query_type query_type bs (length pre + 2 + 10) (length rdata) = Ok [str]"
      by (simp_all only: bs')
  qed
  define k where "k = length pre + 2"
  have s: "skip_name bs (length pre) = Ok k" unfolding k_def
    by (rule skip_pointer [OF _ _ Cons.prems(3)]) (simp_all add: bs get_at_def nth_append)
  have rest: "read_answers (length as) query_type bs (k + 10 + length rdata) (records @ [str]) =
      Ok (records @ str # map (\<lambda>(ttl, rdata, str). str) as)"
    using Cons.IH [of "pre @ ?head @ rdata" "records @ [str]", OF _ bs'' Cons.prems(3)] Cons.prems(1)
    by (simp add: k_def ac_simps)
  have t: "subslice bs k (k + 2) = (Ok (to_be query_type) :: (bytes, probe_error) outcome)"
    "subslice bs (k + 8) (k + 10) = (Ok (to_be (word_of_nat (length rdata) :: u16)) :: (bytes, probe_error) outcome)"
    by (simp_all add: bs subslice_def k_def)
  have "length bs = k + 10 + length rdata + length ?more" by (simp add: bs k_def)
  with s t d [folded k_def] rest show ?case
    by (simp add: a Let_def unat_of_nat)
qed simp

section \<open>Records\<close>

lemma ptr_decodes:
  assumes "\<forall>l \<in> set ls. label_ok l \<and> valid_utf8 l" and "length (enc ls) < 65535"
  shows "decodes 12 (enc ls @ [0]) (dotted ls)"
proof -
  have "map lossy ls = ls" using assms(1) by (simp add: map_idI lossy_valid)
  moreover have "read_name (pre @ (enc ls @ [0]) @ post) (length pre) 0 =
      Ok (length pre + length (enc ls) + 1, dotted (map lossy ls))" for pre post
    using assms by (intro read_name_enc) simp_all
  ultimately show ?thesis using assms by (simp add: decodes_def read_record_def)
qed

lemma txt_strings_enc:
  "\<forall>s \<in> set ss. length s \<le> 255 \<and> valid_utf8 s \<Longrightarrow>
     txt_strings (pre @ enc ss @ post) (length pre) (length pre + length (enc ss)) str = Ok (str @ concat ss)"
proof (induction ss arbitrary: pre str)
  case Nil
  show ?case by (subst txt_strings.simps) simp
next
  case (Cons s ss)
  then have n: "unat (word_of_nat (length s) :: u8) = length s" and s: "lossy s = s"
    by (simp_all add: lossy_valid)
  have "txt_strings (pre @ enc (s # ss) @ post) (length pre) (length pre + length (enc (s # ss))) str =
      txt_strings ((pre @ word_of_nat (length s) # s) @ enc ss @ post)
        (length (pre @ word_of_nat (length s) # s))
        (length (pre @ word_of_nat (length s) # s) + length (enc ss)) (str @ s)"
    by (subst txt_strings.simps)
      (simp add: byte_at_def subslice_def n s nth_append add.assoc del: unat_word8_of_nat)
  also have "\<dots> = Ok ((str @ s) @ concat ss)"
    using Cons.prems by (intro Cons.IH) simp
  finally show ?case by simp
qed

lemma txt_decodes:
  assumes "\<forall>s \<in> set ss. length s \<le> 255 \<and> valid_utf8 s" and "length (enc ss) < 65536"
  shows "decodes 16 (enc ss) (concat ss)"
  using assms txt_strings_enc [OF assms(1), where str = "[]"]
  by (simp add: decodes_def read_record_def)

section \<open>Whole messages\<close>

lemma build_query_Ok:
  assumes "build_query transaction name query_type = Ok q"
  shows "q = to_be transaction @ [1, 0, 0, 1, 0, 0, 0, 0, 0, 0] @ enc (split_on dot name) @ 0
      # to_be query_type @ to_be (1 :: u16)"
    and "\<forall>l \<in> set (split_on dot name). label_ok l"
  using assms by (auto simp: build_query_def and_then_eq_Ok encode_labels_iff)

text \<open>
  C18. A server's answers reach the trace. Take a query the program built, and the response in which
  the server repeats the question and appends any number of answers whose data encode their values
  (label sequences for PTR, character strings for TXT), each with the compressed name 0xC00C: the
  decoder returns exactly these values, in order. A label or string is decoded as it is, because it
  is valid UTF-8.
\<close>

theorem dns_response_roundtrip:
  assumes "build_query transaction name query_type = Ok q"
    and "length q < 65536" and "length as < 65536"
    and "query_type = 12 \<and>
           (\<forall>(ttl, rdata, str) \<in> set as. \<exists>ls. rdata = enc ls @ [0] \<and> str = dotted ls \<and>
              length rdata < 65536 \<and> (\<forall>l \<in> set ls. label_ok l \<and> valid_utf8 l))
       \<or> query_type = 16 \<and>
           (\<forall>(ttl, rdata, str) \<in> set as. \<exists>ss. rdata = enc ss \<and> str = concat ss \<and>
              length rdata < 65536 \<and> (\<forall>s \<in> set ss. length s \<le> 255 \<and> valid_utf8 s))"
  shows "parse_response transaction query_type
      (response_to q (map (\<lambda>(ttl, rdata, str). answer query_type ttl rdata) as)) =
    Ok (map (\<lambda>(ttl, rdata, str). str) as)"
proof -
  let ?answers = "map (\<lambda>(ttl, rdata, str). answer query_type ttl rdata) as"
  let ?ls = "split_on dot name"
  let ?count = "to_be (word_of_nat (length as) :: u16)"
  let ?bs = "response_to q ?answers"
  let ?head = "to_be transaction @ [0x81, 0x80, 0, 1] @ ?count @ [0, 0, 0, 0]"
  let ?question = "to_be query_type @ to_be (1 :: u16)"
  note q = build_query_Ok [OF assms(1)]
  have bs: "?bs = ?head @ enc ?ls @ 0 # ?question @ concat ?answers"
    by (simp add: response_to_def q(1))
  have c: "unat (from_be ?count :: u16) = length as"
    using assms(3) by (simp add: unat_of_nat)
  have name: "read_name ?bs 12 depth = Ok (12 + length (enc ?ls) + 1, dotted (map lossy ?ls))"
    if "depth \<le> 16" for depth
    using read_name_enc [OF that q(2) bs] by simp
  have one: "unat (from_be [0, 1] :: u16) = Suc 0"
    by (simp add: unat_from_be16)
  define m where "m = 17 + length (enc ?ls)"
  have m: "m \<le> usize_max" "m \<le> length ?bs"
    unfolding bs using assms(2) by (simp_all add: m_def q(1) usize_max_def)
  have qs: "skip_questions (Suc 0) ?bs 12 = Ok m"
    using m name [of 0] by (simp add: skip_name_def usize_checked_add_def m_def)
  have "\<forall>(ttl, rdata, str) \<in> set as. decodes query_type rdata str"
    using assms(4) by (auto intro!: ptr_decodes txt_decodes)
  then have "read_answers (length as) query_type ?bs m [] = Ok (map (\<lambda>(ttl, rdata, str). str) as)"
    using read_answers_all [where pre = "?head @ enc ?ls @ 0 # ?question" and records = "[]"
        and bs = ?bs and as = as and query_type = query_type] name [of 1]
    by (simp add: bs m_def)
  moreover have "take 2 ?bs = to_be transaction" "\<not> length ?bs < 12" "byte_at ?bs 3 = (Ok 0x80 :: (u8, probe_error) outcome)"
    "subslice ?bs 4 6 = (Ok [0, 1] :: (bytes, probe_error) outcome)"
    "subslice ?bs 6 8 = (Ok ?count :: (bytes, probe_error) outcome)"
    by (simp_all add: bs byte_at_def subslice_def nth_append)
  ultimately show ?thesis
    using c by (simp add: parse_response_def one qs del: skip_questions.simps)
qed

theorem dns_response_roundtrip_witness:
  "\<exists>q. build_query 0x1234 (lit ''a.b'') 16 = Ok q \<and>
     parse_response 0x1234 16 (response_to q [answer 16 60 [2, 104, 105], answer 16 60 [1, 33]])
       = Ok [[104, 105], [33]]"
proof -
  let ?q = "[0x12, 0x34, 1, 0, 0, 1, 0, 0, 0, 0, 0, 0, 1, 97, 1, 98, 0, 0, 16, 0, 1] :: bytes"
  have q: "build_query 0x1234 (lit ''a.b'') 16 = Ok ?q"
    by (simp add: build_query_def lit_def dot_def to_be_u16)
  have "parse_response 0x1234 16 (response_to ?q (map (\<lambda>(ttl, rdata, str). answer 16 ttl rdata)
      [(60 :: u32, [2, 104, 105] :: bytes, [104, 105] :: bytes), (60, [1, 33], [33])])) =
    Ok (map (\<lambda>(ttl, rdata, str). str)
      [(60 :: u32, [2, 104, 105] :: bytes, [104, 105] :: bytes), (60, [1, 33], [33])])"
    by (rule dns_response_roundtrip [OF q])
      (auto intro: exI [of _ "[[104, 105]]"] exI [of _ "[[33]]"])
  with q show ?thesis by auto
qed

section \<open>The names that are asked for\<close>

lemma split_on_label: "dot \<notin> set l \<Longrightarrow> split_on dot l = [l]"
  by (induction l) auto

lemma split_on_append: "dot \<notin> set l \<Longrightarrow> split_on dot (l @ dot # s) = l # split_on dot s"
  by (induction l) auto

lemma split_on_dotted: "ls \<noteq> [] \<Longrightarrow> \<forall>l \<in> set ls. dot \<notin> set l \<Longrightarrow> split_on dot (dotted ls) = ls"
proof (induction "[dot]" ls rule: join_with.induct)
  case (3 p q ps)
  then show ?case by (simp add: split_on_append)
qed (simp_all add: split_on_label)

lemma dotted_append: "xs \<noteq> [] \<Longrightarrow> ys \<noteq> [] \<Longrightarrow> dotted (xs @ ys) = dotted xs @ dot # dotted ys"
proof (induction "[dot]" xs rule: join_with.induct)
  case (2 p)
  then show ?case by (cases ys) simp_all
qed simp_all

text \<open>A label of digits and letters, at most 63 bytes, all of them ASCII and none a dot.\<close>

definition plain_label :: "bytes \<Rightarrow> bool" where
  "plain_label l \<longleftrightarrow> label_ok l \<and> (\<forall>b \<in> set l. b < 128 \<and> b \<noteq> dot)"

lemma valid_utf8_ascii: "\<forall>b \<in> set s. b < 128 \<Longrightarrow> valid_utf8 s"
  by (induction s) auto

lemma digit_props: "d < 10 \<Longrightarrow> digit d < 128 \<and> digit d \<noteq> dot"
  by (auto simp: digit_def dot_def word_less_nat_alt word_unat_eq_iff unat_word_ariths)

lemma decimal_plain: "n < 256 \<Longrightarrow> plain_label (decimal n)"
proof -
  assume n: "n < 256"
  then consider "n < 10" | "\<not> n < 10" "n div 10 < 10" | "\<not> n div 10 < 10" by linarith
  then show "plain_label (decimal n)"
  proof cases
    case 3
    with n have "n div 10 div 10 < 10" "\<not> n < 10" by linarith+
    with 3 show ?thesis
      by (simp add: decimal.simps [of n] decimal.simps [of "n div 10"] decimal.simps [of "n div 10 div 10"]
          plain_label_def label_ok_def digit_props)
  qed (simp_all add: decimal.simps [of n] decimal.simps [of "n div 10"] plain_label_def label_ok_def digit_props)
qed

lemma hex_plain: "n < 16 \<Longrightarrow> plain_label [hex_digit n]"
  by (auto simp: hex_digit_def plain_label_def label_ok_def dot_def word_less_nat_alt
      word_unat_eq_iff unat_word_ariths)

lemma reverse_labels_plain: "reverse_labels a \<noteq> [] \<and> (\<forall>l \<in> set (reverse_labels a). plain_label l)"
proof (cases a)
  case (V4 w)
  have "to_be w \<noteq> []" by (simp flip: length_0_conv)
  with V4 show ?thesis
    by (auto simp: reverse_labels_def intro!: decimal_plain unat_u8_less)
next
  case (V6 w)
  have "to_be w \<noteq> []" by (simp flip: length_0_conv)
  moreover have "unat (b :: u8) div 16 < 16" for b
    using unat_u8_less [of b] by linarith
  ultimately show ?thesis using V6
    by (cases "to_be w") (auto simp: reverse_labels_def intro!: hex_plain)
qed

lemma length_enc: "\<forall>l \<in> set ls. label_ok l \<Longrightarrow> length (enc ls) \<le> 64 * length ls"
  by (induction ls) (auto simp: label_ok_def)

lemma length_reverse_labels: "length (reverse_labels a) \<le> 32"
proof (cases a)
  case (V6 w)
  have "length (concat (map (\<lambda>b. [unat b div 16, unat b mod 16]) xs)) = 2 * length xs" for xs :: bytes
    by (induction xs) simp_all
  with V6 show ?thesis by (simp add: reverse_labels_def)
qed (simp add: reverse_labels_def)

lemma query_for_labels:
  assumes "ls \<noteq> []" and plain: "\<forall>l \<in> set ls. plain_label l" and "length ls \<le> 36"
  shows "\<exists>q. build_query transaction (dotted ls) query_type = Ok q \<and> length q \<le> 4096 \<and>
    read_name q 12 0 = Ok (length q - 4, dotted ls)"
proof -
  let ?q = "to_be transaction @ [1, 0, 0, 1, 0, 0, 0, 0, 0, 0] @ enc ls @ 0
      # to_be query_type @ to_be (1 :: u16)"
  have ok: "\<forall>l \<in> set ls. label_ok l" using plain by (simp add: plain_label_def)
  have split: "split_on dot (dotted ls) = ls"
    using assms by (intro split_on_dotted) (auto simp: plain_label_def)
  have "map lossy ls = ls"
    using plain by (intro map_idI lossy_valid valid_utf8_ascii) (auto simp: plain_label_def)
  then have "read_name ?q 12 0 = Ok (12 + length (enc ls) + 1, dotted ls)"
    using ok read_name_enc [where depth = 0 and bs = ?q and offset = 12 and ls = ls
        and pre = "to_be transaction @ [1, 0, 0, 1, 0, 0, 0, 0, 0, 0]"] by simp
  moreover have "build_query transaction (dotted ls) query_type = Ok ?q"
    using ok by (simp add: build_query_def split encode_labels_iff [THEN iffD2])
  moreover have "length ?q \<le> 4096"
    using length_enc [OF ok] assms(3) by simp
  ultimately show ?thesis by (intro exI [of _ ?q]) simp
qed

lemma plain_literals:
  "plain_label (lit ''in-addr'')" "plain_label (lit ''arpa'')" "plain_label (lit ''ip6'')"
  "plain_label (lit ''origin'')" "plain_label (lit ''origin6'')" "plain_label (lit ''asn'')"
  "plain_label (lit ''cymru'')" "plain_label (lit ''com'')"
  by (simp_all add: plain_label_def label_ok_def lit_def dot_def)

lemma names_as_labels:
  "reverse_pointer a = dotted (reverse_labels a @ (case a of
     V4 _ \<Rightarrow> [lit ''in-addr'', lit ''arpa''] | V6 _ \<Rightarrow> [lit ''ip6'', lit ''arpa'']))"
  "asn_name a = dotted (reverse_labels a @ (case a of
     V4 _ \<Rightarrow> [lit ''origin'', lit ''asn'', lit ''cymru'', lit ''com'']
   | V6 _ \<Rightarrow> [lit ''origin6'', lit ''asn'', lit ''cymru'', lit ''com'']))"
  using reverse_labels_plain [of a]
  by (cases a; simp add: reverse_pointer_def asn_name_def dotted_append; simp add: lit_def dot_def)+

text \<open>
  The lookups of a hop can be asked for every address: the reverse-pointer name and the ASN name
  of each IPv4 and IPv6 address are accepted by the query builder (no empty or oversized label), the
  query fits the receive buffer, and the question in it decodes to that very name, ending four
  bytes before the end of the query.
\<close>

lemma lookup_names_encode:
  "(\<exists>q. build_query transaction (reverse_pointer a) 12 = Ok q \<and> length q \<le> 4096 \<and>
     read_name q 12 0 = Ok (length q - 4, reverse_pointer a)) \<and>
   (\<exists>q. build_query transaction (asn_name a) 16 = Ok q \<and> length q \<le> 4096 \<and>
     read_name q 12 0 = Ok (length q - 4, asn_name a))"
  unfolding names_as_labels
  using reverse_labels_plain [of a] length_reverse_labels [of a]
  by (intro conjI query_for_labels; auto simp: plain_literals split: ip_addr.split)

end
