(* ===== verification/Throughput_Config.thy ===== *)
theory Throughput_Config
  imports Text_Format F64
begin

text \<open>
  \<open>crates/throughput/src/config.rs\<close> and \<open>error.rs\<close>: the configuration of a throughput suite, the
  classes it can mark its packets with, and the errors of a run.
\<close>

section \<open>Configuration\<close>

definition MAX_UDP_RATE_BPS :: u64 where
  "MAX_UDP_RATE_BPS = 10000000000"

datatype protocol = Proto_Tcp | Proto_Udp | Proto_Both

datatype direction = Dir_Tx | Dir_Rx | Dir_Bidirectional

datatype dscp_class =
    CS0 | CS1 | CS2 | CS3 | CS4
  | AF11 | AF12 | AF13 | AF21 | AF22 | AF23 | AF31 | AF32 | AF33 | AF41 | AF42 | AF43
  | CS5 | CS6 | CS7 | EF

fun tos :: "dscp_class \<Rightarrow> u8" where
  "tos CS0 = 0"
| "tos CS1 = 32"
| "tos CS2 = 64"
| "tos CS3 = 96"
| "tos CS4 = 128"
| "tos AF11 = 40"
| "tos AF12 = 48"
| "tos AF13 = 56"
| "tos AF21 = 72"
| "tos AF22 = 80"
| "tos AF23 = 88"
| "tos AF31 = 104"
| "tos AF32 = 112"
| "tos AF33 = 120"
| "tos AF41 = 136"
| "tos AF42 = 144"
| "tos AF43 = 152"
| "tos CS5 = 160"
| "tos CS6 = 192"
| "tos CS7 = 224"
| "tos EF = 184"

datatype ip_version = Ip_Auto | Ip_V4 | Ip_V6

record retry_policy =
  rp_max_retries :: u8
  rp_backoff_ms :: u64

definition RetryPolicy_default :: retry_policy where
  "RetryPolicy_default = \<lparr>rp_max_retries = 0, rp_backoff_ms = 2000\<rparr>"

record server_capabilities =
  sc_bidirectional :: bool

definition ServerCapabilities_default :: server_capabilities where
  "ServerCapabilities_default = \<lparr>sc_bidirectional = True\<rparr>"

record suite_config =
  sc_target :: bytes
  sc_skip_reachability_check :: bool
  sc_disable_mtu_probe :: bool
  sc_mtu_sizes :: "u16 list"
  sc_port :: u16
  sc_duration_secs :: u64
  sc_omit_secs :: u64
  sc_protocol :: protocol
  sc_single_test :: bool
  sc_udp_start_bps :: u64
  sc_udp_max_bps :: u64
  sc_udp_step_bps :: u64
  sc_udp_loss_threshold_pct :: f64
  sc_tcp_streams :: "u16 list"
  sc_tcp_windows_bytes :: "u32 option list"
  sc_dscp_classes :: "dscp_class list"
  sc_ip_version :: ip_version
  sc_retry :: retry_policy
  sc_max_total_tests :: "u64 option"
  sc_connect_timeout_ms :: u64
  sc_control_timeout_ms :: u64
  sc_max_control_json_bytes :: nat

definition SuiteConfig_default :: suite_config where
  "SuiteConfig_default = \<lparr>
     sc_target = [],
     sc_skip_reachability_check = False,
     sc_disable_mtu_probe = False,
     sc_mtu_sizes = [1400, 1472, 1600],
     sc_port = 5201,
     sc_duration_secs = 10,
     sc_omit_secs = 1,
     sc_protocol = Proto_Both,
     sc_single_test = False,
     sc_udp_start_bps = 1000000,
     sc_udp_max_bps = 1000000000,
     sc_udp_step_bps = 10000000,
     sc_udp_loss_threshold_pct = Fin 5,
     sc_tcp_streams = [1, 4, 8],
     sc_tcp_windows_bytes = [None, Some (128 * 1024), Some (256 * 1024)],
     sc_dscp_classes = [CS0, AF11, CS5, EF, AF41],
     sc_ip_version = Ip_Auto,
     sc_retry = RetryPolicy_default,
     sc_max_total_tests = None,
     sc_connect_timeout_ms = 60000,
     sc_control_timeout_ms = 60000,
     sc_max_control_json_bytes = 1024 * 1024\<rparr>"

section \<open>Errors\<close>

text \<open>
  The source of an I/O error and of a JSON error is the text the library gives it. The retry error
  boxes the last one.
\<close>

datatype throughput_error =
    TE_Validation bytes
  | TE_Budget_Exceeded u64 u64
  | TE_Cancelled
  | TE_Timeout string u64
  | TE_Server_Busy
  | TE_Server "32 word" "32 word"
  | TE_Unexpected_State u8 string
  | TE_Control_Message_Too_Large nat nat
  | TE_Invalid_Control_Json bytes
  | TE_Io string bytes
  | TE_Malformed_Result bytes
  | TE_Retries_Exhausted u8 throughput_error

fun retryable :: "throughput_error \<Rightarrow> bool" where
  "retryable (TE_Io _ _) = True"
| "retryable (TE_Timeout _ _) = True"
| "retryable TE_Server_Busy = True"
| "retryable _ = False"

text \<open>
  The traffic-class octets are six-bit code points with the ECN bits clear, and no two classes
  share one.
\<close>

lemma tos_ecn_clear: "tos c AND 3 = 0"
  by (cases c) simp_all

lemma inj_tos: "inj tos"
proof (rule injI)
  fix c d assume "tos c = tos d"
  then show "c = d" by (cases c; cases d; simp)
qed

end
