(* ===== verification/Throughput_Plan.thy ===== *)
theory Throughput_Plan
  imports Throughput_Config
begin

text \<open>
  \<open>crates/throughput/src/plan.rs\<close>: validation of a suite, the number of tests it plans, and the
  iterator that yields them one by one.
\<close>

section \<open>Data\<close>

definition MAX_CLIENT_TIMEOUT_MS :: u64 where
  "MAX_CLIENT_TIMEOUT_MS = 300000"

datatype test_phase = Tcp_Matrix | Udp_Fixed | Udp_Saturation | Single

record test_spec =
  sp_id :: u64
  sp_target :: bytes
  sp_port :: u16
  sp_ip_version :: ip_version
  sp_protocol :: protocol
  sp_direction :: direction
  sp_dscp :: dscp_class
  sp_tos :: u8
  sp_streams :: u16
  sp_tcp_window_bytes :: "u32 option"
  sp_udp_rate_bps :: "u64 option"
  sp_duration_secs :: u64
  sp_omit_secs :: u64
  sp_phase :: test_phase

record throughput_plan =
  tp_config :: suite_config
  tp_capabilities :: server_capabilities
  tp_total_tests :: u64
  tp_estimated_test_seconds :: u64
  tp_max_total_tests :: "u64 option"
  tp_within_budget :: bool

section \<open>Validation\<close>

definition invalid :: "bytes \<Rightarrow> ('a, throughput_error) outcome" where
  "invalid m = Err (TE_Validation m)"

definition bad_target_char :: "nat \<Rightarrow> bool" where
  "bad_target_char c \<longleftrightarrow> is_whitespace c \<or> is_control c \<or> c \<in> {47, 92, 59, 38, 124, 96, 36}"

definition validate_config :: "suite_config \<Rightarrow> (unit, throughput_error) outcome" where
  "validate_config c =
     (if sc_target c = [] \<or> 253 < length (sc_target c) \<or> list_ex bad_target_char (chars (sc_target c))
      then invalid (lit ''target must be a valid hostname or IP address up to 253 bytes'')
      else if sc_port c = 0 then invalid (lit ''port must be between 1 and 65535'')
      else if \<not> (1 \<le> sc_duration_secs c \<and> sc_duration_secs c \<le> 3600)
      then invalid (lit ''duration_secs must be between 1 and 3600'')
      else if (case sc_max_total_tests c of None \<Rightarrow> False | Some n \<Rightarrow> 1000000 < n)
      then invalid (lit ''max_total_tests must be in 0..=1000000'')
      else if 60 < sc_omit_secs c then invalid (lit ''omit_secs must be at most 60'')
      else if sc_mtu_sizes c = [] \<or> 128 < length (sc_mtu_sizes c)
        \<or> list_ex (\<lambda>n. n = 0 \<or> 65500 < n) (sc_mtu_sizes c)
      then invalid (lit ''mtu_sizes must contain 1'' @ [226, 128, 147] @ lit ''128 payload sizes in 1..=65500'')
      else if sc_dscp_classes c = [] then invalid (lit ''at least one DSCP class is required'')
      else if sc_tcp_streams c = [] \<or> 128 < length (sc_tcp_streams c)
        \<or> list_ex (\<lambda>n. \<not> (1 \<le> n \<and> n \<le> 128)) (sc_tcp_streams c)
      then invalid (lit ''tcp_streams must contain values between 1 and 128'')
      else if sc_tcp_windows_bytes c = [] \<or> 128 < length (sc_tcp_windows_bytes c)
      then invalid (lit ''tcp_windows_bytes must not be empty'')
      else if sc_udp_start_bps c = 0 \<or> sc_udp_step_bps c = 0
      then invalid (lit ''UDP start and step rates must be greater than zero'')
      else if MAX_UDP_RATE_BPS < sc_udp_start_bps c \<or> MAX_UDP_RATE_BPS < sc_udp_max_bps c
        \<or> MAX_UDP_RATE_BPS < sc_udp_step_bps c
      then invalid (lit ''UDP rates must not exceed '' @ decimal (unat MAX_UDP_RATE_BPS)
        @ lit '' bits per second'')
      else if \<not> is_finite (sc_udp_loss_threshold_pct c)
        \<or> \<not> (f_le (Fin 0) (sc_udp_loss_threshold_pct c) \<and> f_le (sc_udp_loss_threshold_pct c) (Fin 100))
      then invalid (lit ''udp_loss_threshold_pct must be finite and between 0 and 100'')
      else if 5 < rp_max_retries (sc_retry c) then invalid (lit ''retry.max_retries must be at most 5'')
      else if 21 < length (sc_dscp_classes c)
      then invalid (lit ''dscp_classes contains more values than the 21 supported classes'')
      else if \<not> (1 \<le> sc_connect_timeout_ms c \<and> sc_connect_timeout_ms c \<le> MAX_CLIENT_TIMEOUT_MS)
        \<or> \<not> (1 \<le> sc_control_timeout_ms c \<and> sc_control_timeout_ms c \<le> MAX_CLIENT_TIMEOUT_MS)
        \<or> \<not> (2 \<le> sc_max_control_json_bytes c \<and> sc_max_control_json_bytes c \<le> 1024 * 1024)
      then invalid (lit ''timeouts must be between 1 and '' @ decimal (unat MAX_CLIENT_TIMEOUT_MS)
        @ lit '' ms and max_control_json_bytes between 2 and 1048576'')
      else Ok ())"

section \<open>Counting\<close>

text \<open>
  The unchecked arithmetic of the code panics on overflow here, as in a checked build; a division by
  zero panics in every build.
\<close>

definition word_mul :: "'a::len word \<Rightarrow> 'a word \<Rightarrow> ('a word, 'e) outcome" where
  "word_mul a b = (if unat a * unat b < 2 ^ LENGTH('a) then Ok (a * b) else Panic)"

definition word_div :: "'a::len word \<Rightarrow> 'a word \<Rightarrow> ('a word, 'e) outcome" where
  "word_div a b = (if b = 0 then Panic else Ok (a div b))"

definition len_u64 :: "'a list \<Rightarrow> u64" where
  "len_u64 xs = word_of_nat (length xs)"

text \<open>\<open>((max - start) / step + 1).min(1000)\<close>, in \<open>plan\<close> and again in the iterator.\<close>

definition steps_of :: "suite_config \<Rightarrow> (u64, throughput_error) outcome" where
  "steps_of c =
     and_then (word_sub (sc_udp_max_bps c) (sc_udp_start_bps c)) (\<lambda>span.
     and_then (word_div span (sc_udp_step_bps c)) (\<lambda>n.
     and_then (word_add n 1) (\<lambda>n. Ok (min n 1000))))"

definition saturation_steps :: "suite_config \<Rightarrow> (u64, throughput_error) outcome" where
  "saturation_steps c =
     (if sc_protocol c = Proto_Tcp \<or> sc_single_test c \<or> sc_udp_max_bps c \<le> sc_udp_start_bps c
      then Ok 0 else steps_of c)"

definition tcp_per_dscp :: "suite_config \<Rightarrow> server_capabilities \<Rightarrow> (u64, throughput_error) outcome" where
  "tcp_per_dscp c caps =
     (if sc_protocol c = Proto_Udp \<or> sc_single_test c then Ok 0
      else and_then (word_mul (if sc_bidirectional caps then 3 else 2) (len_u64 (sc_tcp_streams c)))
        (\<lambda>n. word_mul n (len_u64 (sc_tcp_windows_bytes c))))"

definition udp_per_dscp :: "suite_config \<Rightarrow> u64 \<Rightarrow> (u64, throughput_error) outcome" where
  "udp_per_dscp c steps =
     (if sc_protocol c = Proto_Tcp \<or> sc_single_test c then Ok 0
      else and_then (word_mul 2 steps) (word_add 2))"

definition total_tests :: "suite_config \<Rightarrow> server_capabilities \<Rightarrow> (u64, throughput_error) outcome" where
  "total_tests c caps =
     and_then (tcp_per_dscp c caps) (\<lambda>tcp.
     and_then (saturation_steps c) (\<lambda>steps.
     and_then (udp_per_dscp c steps) (\<lambda>udp.
       if sc_single_test c then Ok 1
       else and_then (word_add tcp udp) (word_mul (len_u64 (sc_dscp_classes c))))))"

definition budget :: "suite_config \<Rightarrow> u64 option" where
  "budget c = (case sc_max_total_tests c of
     None \<Rightarrow> None | Some m \<Rightarrow> if m \<noteq> 0 then Some m else None)"

definition plan :: "suite_config \<Rightarrow> server_capabilities \<Rightarrow> (throughput_plan, throughput_error) outcome" where
  "plan c caps =
     and_then (validate_config c) (\<lambda>_.
     and_then (total_tests c caps) (\<lambda>tests.
       if (case budget c of None \<Rightarrow> False | Some maximum \<Rightarrow> maximum < tests)
       then Err (TE_Budget_Exceeded tests (the (budget c)))
       else Ok \<lparr>tp_config = c, tp_capabilities = caps, tp_total_tests = tests,
         tp_estimated_test_seconds =
           saturating_mul tests (saturating_add (sc_duration_secs c) (sc_omit_secs c)),
         tp_max_total_tests = budget c, tp_within_budget = True\<rparr>))"

section \<open>The iterator\<close>

record plan_iter =
  pi_next_id :: u64
  pi_dscp :: nat
  pi_stage :: nat
  pi_direction :: nat
  pi_stream :: nat
  pi_window :: nat
  pi_saturation_step :: u64
  pi_emitted_single :: bool

definition tests :: plan_iter where
  "tests = \<lparr>pi_next_id = 1, pi_dscp = 0, pi_stage = 0, pi_direction = 0, pi_stream = 0,
     pi_window = 0, pi_saturation_step = 0, pi_emitted_single = False\<rparr>"

record plan_case =
  pc_protocol :: protocol
  pc_direction :: direction
  pc_dscp :: dscp_class
  pc_streams :: u16
  pc_window :: "u32 option"
  pc_udp_rate :: "u64 option"
  pc_phase :: test_phase

definition spec_of :: "suite_config \<Rightarrow> u64 \<Rightarrow> plan_case \<Rightarrow> test_spec" where
  "spec_of c ident pc = \<lparr>sp_id = ident, sp_target = sc_target c, sp_port = sc_port c,
     sp_ip_version = sc_ip_version c, sp_protocol = pc_protocol pc, sp_direction = pc_direction pc,
     sp_dscp = pc_dscp pc, sp_tos = tos (pc_dscp pc), sp_streams = pc_streams pc,
     sp_tcp_window_bytes = pc_window pc, sp_udp_rate_bps = pc_udp_rate pc,
     sp_duration_secs = sc_duration_secs c, sp_omit_secs = sc_omit_secs c, sp_phase = pc_phase pc\<rparr>"

definition emit ::
  "suite_config \<Rightarrow> plan_case \<Rightarrow> plan_iter \<Rightarrow> (test_spec option \<times> plan_iter, throughput_error) outcome" where
  "emit c pc it = and_then (word_add (pi_next_id it) 1) (\<lambda>n.
     Ok (Some (spec_of c (pi_next_id it) pc), it\<lparr>pi_next_id := n\<rparr>))"

definition directions :: "server_capabilities \<Rightarrow> direction list" where
  "directions caps = (if sc_bidirectional caps then [Dir_Tx, Dir_Rx, Dir_Bidirectional]
     else [Dir_Tx, Dir_Rx])"

definition next_single :: "suite_config \<Rightarrow> plan_iter \<Rightarrow>
    (test_spec option \<times> plan_iter, throughput_error) outcome" where
  "next_single c it =
     (if pi_emitted_single it then Ok (None, it)
      else let protocol = (if sc_protocol c = Proto_Udp then Proto_Udp else Proto_Tcp) in
        and_then (byte_at (sc_dscp_classes c) 0) (\<lambda>dscp.
          emit c \<lparr>pc_protocol = protocol, pc_direction = Dir_Tx, pc_dscp = dscp, pc_streams = 1,
              pc_window = None,
              pc_udp_rate = (if protocol = Proto_Udp then Some (sc_udp_start_bps c) else None),
              pc_phase = Single\<rparr>
            (it\<lparr>pi_emitted_single := True\<rparr>)))"

text \<open>The next window, and with the carry the next stream count and the next direction.\<close>

definition advance_tcp :: "suite_config \<Rightarrow> plan_iter \<Rightarrow> plan_iter" where
  "advance_tcp c it =
     (let w = pi_window it + 1 in
      if w = length (sc_tcp_windows_bytes c) then
        (let s = pi_stream it + 1 in
         if s = length (sc_tcp_streams c)
         then it\<lparr>pi_window := 0, pi_stream := 0, pi_direction := pi_direction it + 1\<rparr>
         else it\<lparr>pi_window := 0, pi_stream := s\<rparr>)
      else it\<lparr>pi_window := w\<rparr>)"

definition next_tcp :: "suite_config \<Rightarrow> direction \<Rightarrow> dscp_class \<Rightarrow> plan_iter \<Rightarrow>
    (test_spec option \<times> plan_iter, throughput_error) outcome" where
  "next_tcp c dir dscp it =
     and_then (byte_at (sc_tcp_streams c) (pi_stream it)) (\<lambda>streams.
     and_then (byte_at (sc_tcp_windows_bytes c) (pi_window it)) (\<lambda>window.
     and_then (emit c \<lparr>pc_protocol = Proto_Tcp, pc_direction = dir, pc_dscp = dscp,
         pc_streams = streams, pc_window = window, pc_udp_rate = None, pc_phase = Tcp_Matrix\<rparr> it)
       (\<lambda>(spec, it). Ok (spec, advance_tcp c it))))"

definition udp_case :: "direction \<Rightarrow> dscp_class \<Rightarrow> u64 \<Rightarrow> test_phase \<Rightarrow> plan_case" where
  "udp_case dir dscp rate phase = \<lparr>pc_protocol = Proto_Udp, pc_direction = dir, pc_dscp = dscp,
     pc_streams = 1, pc_window = None, pc_udp_rate = Some rate, pc_phase = phase\<rparr>"

definition next_fixed :: "suite_config \<Rightarrow> dscp_class \<Rightarrow> plan_iter \<Rightarrow>
    (test_spec option \<times> plan_iter, throughput_error) outcome" where
  "next_fixed c dscp it =
     and_then (byte_at [Dir_Tx, Dir_Rx] (pi_direction it)) (\<lambda>dir.
       emit c (udp_case dir dscp (sc_udp_start_bps c) Udp_Fixed)
         (it\<lparr>pi_direction := pi_direction it + 1\<rparr>))"

definition saturation_rate :: "suite_config \<Rightarrow> u64 \<Rightarrow> u64" where
  "saturation_rate c k =
     saturating_add (sc_udp_start_bps c) (saturating_mul (sc_udp_step_bps c) k)"

definition next_saturation :: "suite_config \<Rightarrow> dscp_class \<Rightarrow> plan_iter \<Rightarrow>
    (test_spec option \<times> plan_iter, throughput_error) outcome" where
  "next_saturation c dscp it =
     and_then (byte_at [Dir_Tx, Dir_Rx] (pi_direction it)) (\<lambda>dir.
     and_then (if pi_direction it + 1 = 2
         then and_then (word_add (pi_saturation_step it) 1) (\<lambda>k.
           Ok (it\<lparr>pi_direction := 0, pi_saturation_step := k\<rparr>))
         else Ok (it\<lparr>pi_direction := pi_direction it + 1\<rparr>)) (\<lambda>it'.
       emit c (udp_case dir dscp (saturation_rate c (pi_saturation_step it)) Udp_Saturation) it'))"

text \<open>
  \<open>Iterator::next\<close>: one pass of the \<open>while\<close> loop either returns a test or moves to the next DSCP
  class, so the classes that are left are the measure.
\<close>

definition enter_stage :: "nat \<Rightarrow> plan_iter \<Rightarrow> plan_iter" where
  "enter_stage stage it = (if pi_stage it = stage then it\<lparr>pi_stage := stage + 1, pi_direction := 0\<rparr> else it)"

definition next_dscp :: "plan_iter \<Rightarrow> plan_iter" where
  "next_dscp it = it\<lparr>pi_dscp := pi_dscp it + 1, pi_stage := 0, pi_direction := 0, pi_saturation_step := 0\<rparr>"

function next_loop :: "suite_config \<Rightarrow> server_capabilities \<Rightarrow> plan_iter \<Rightarrow>
    (test_spec option \<times> plan_iter, throughput_error) outcome" where
  "next_loop c caps it =
     (if length (sc_dscp_classes c) \<le> pi_dscp it then Ok (None, it)
      else let dscp = sc_dscp_classes c ! pi_dscp it in
        if pi_stage it = 0 \<and> sc_protocol c \<noteq> Proto_Udp \<and> pi_direction it < length (directions caps)
        then next_tcp c (directions caps ! pi_direction it) dscp it
        else let it1 = enter_stage 0 it in
          if pi_stage it1 = 1 \<and> sc_protocol c \<noteq> Proto_Tcp \<and> pi_direction it1 < 2
          then next_fixed c dscp it1
          else let it2 = enter_stage 1 it1 in
            and_then
              (if sc_protocol c \<noteq> Proto_Tcp \<and> sc_udp_start_bps c < sc_udp_max_bps c
               then and_then (steps_of c) (\<lambda>steps. Ok (pi_saturation_step it2 < steps))
               else Ok False)
              (\<lambda>more. if more then next_saturation c dscp it2 else next_loop c caps (next_dscp it2)))"
  by pat_completeness auto

termination
  by (relation "measure (\<lambda>(c, caps, it). length (sc_dscp_classes c) - pi_dscp it)")
    (auto simp: next_dscp_def enter_stage_def)

declare next_loop.simps [simp del]

definition next_test :: "throughput_plan \<Rightarrow> plan_iter \<Rightarrow>
    (test_spec option \<times> plan_iter, throughput_error) outcome" where
  "next_test p it =
     (if sc_single_test (tp_config p) then next_single (tp_config p) it
      else next_loop (tp_config p) (tp_capabilities p) it)"

definition size_hint :: "throughput_plan \<Rightarrow> plan_iter \<Rightarrow> (nat, throughput_error) outcome" where
  "size_hint p it = and_then (word_sub (pi_next_id it) 1) (\<lambda>taken.
     Ok (unat (saturating_sub (tp_total_tests p) taken)))"

text \<open>The first \<open>fuel\<close> tests, as a consumer of the iterator collects them.\<close>

fun collect :: "nat \<Rightarrow> throughput_plan \<Rightarrow> plan_iter \<Rightarrow> (test_spec list, throughput_error) outcome" where
  "collect 0 p it = Ok []"
| "collect (Suc fuel) p it = and_then (next_test p it) (\<lambda>(spec, it').
     case spec of None \<Rightarrow> Ok []
     | Some s \<Rightarrow> and_then (collect fuel p it') (\<lambda>rest. Ok (s # rest)))"

end
