(* ===== verification/Throughput_Data.thy ===== *)
theory Throughput_Data
  imports Throughput_Config
begin

text \<open>
  \<open>crates/throughput/src/protocol/data.rs\<close>: the loops that move the data of one stream, and the
  datagram statistics. Each loop is a function of the events its \<open>select!\<close> sees, in their order; the
  end of the list is the end of the measurement. An event carries what the operating system returned
  and whether the warm-up was over when it was handled (\<open>Instant::now() >= omit_end\<close>).
\<close>

section \<open>Outcome of a stream\<close>

record stream_outcome =
  so_id :: nat
  so_sender :: bool
  so_bytes :: u64
  so_packets :: u64
  so_errors :: u64
  so_jitter_seconds :: f64
  so_duration_seconds :: f64
  so_wire_packets :: u64
  so_wire_errors :: u64

definition stream_result :: "nat \<Rightarrow> bool \<Rightarrow> u64 \<Rightarrow> f64 \<Rightarrow> stream_outcome" where
  "stream_result ident sender bytes duration = \<lparr>so_id = ident, so_sender = sender, so_bytes = bytes,
     so_packets = 0, so_errors = 0, so_jitter_seconds = Fin 0, so_duration_seconds = duration,
     so_wire_packets = 0, so_wire_errors = 0\<rparr>"

section \<open>TCP\<close>

text \<open>
  \<open>Tcp_Moved n measured early\<close>: \<open>n\<close> bytes were written or read, after the warm-up or not, and more
  than 20 ms before the end of the measurement or not.
\<close>

datatype tcp_event =
    Tcp_Cancelled
  | Tcp_Failed bytes
  | Tcp_Moved nat bool bool

definition count_bytes :: "bool \<Rightarrow> nat \<Rightarrow> u64 \<Rightarrow> u64" where
  "count_bytes measured n bytes = (if measured then saturating_add bytes (word_of_nat n) else bytes)"

fun tcp_send_loop :: "u64 \<Rightarrow> tcp_event list \<Rightarrow> (u64, throughput_error) outcome" where
  "tcp_send_loop bytes [] = Ok bytes"
| "tcp_send_loop bytes (Tcp_Cancelled # evs) = Err TE_Cancelled"
| "tcp_send_loop bytes (Tcp_Failed e # evs) = Err (TE_Io ''TCP send'' e)"
| "tcp_send_loop bytes (Tcp_Moved n measured early # evs) =
     (if n = 0 then Err (TE_Io ''TCP send'' (lit ''write zero''))
      else tcp_send_loop (count_bytes measured n bytes) evs)"

definition tcp_send :: "nat \<Rightarrow> f64 \<Rightarrow> tcp_event list \<Rightarrow> (stream_outcome, throughput_error) outcome" where
  "tcp_send ident duration evs = and_then (tcp_send_loop 0 evs) (\<lambda>bytes.
     Ok (stream_result ident True bytes duration))"

text \<open>An end of file is a failure unless the measurement is about to end.\<close>

definition unexpected_eof :: throughput_error where
  "unexpected_eof = TE_Io ''TCP receive'' (lit ''unexpected end of file'')"

fun tcp_receive_loop :: "u64 \<Rightarrow> tcp_event list \<Rightarrow> (u64, throughput_error) outcome" where
  "tcp_receive_loop bytes [] = Ok bytes"
| "tcp_receive_loop bytes (Tcp_Cancelled # evs) = Err TE_Cancelled"
| "tcp_receive_loop bytes (Tcp_Failed e # evs) = Err (TE_Io ''TCP receive'' e)"
| "tcp_receive_loop bytes (Tcp_Moved n measured early # evs) =
     (if n = 0 then (if early then Err unexpected_eof else Ok bytes)
      else tcp_receive_loop (count_bytes measured n bytes) evs)"

definition tcp_receive :: "nat \<Rightarrow> f64 \<Rightarrow> tcp_event list \<Rightarrow> (stream_outcome, throughput_error) outcome" where
  "tcp_receive ident duration evs = and_then (tcp_receive_loop 0 evs) (\<lambda>bytes.
     Ok (stream_result ident False bytes duration))"

section \<open>The pacer and the UDP sender\<close>

definition PACER_MAX_BACKLOG :: duration where
  "PACER_MAX_BACKLOG = from_millis 10"

definition next_deadline :: "instant \<Rightarrow> duration \<Rightarrow> instant \<Rightarrow> instant" where
  "next_deadline deadline interval now =
     (if max interval PACER_MAX_BACKLOG < now - (deadline + interval) then now else deadline + interval)"

text \<open>
  One pass of the send loop: the timestamp (seconds and microseconds since the epoch) is read, the
  sequence number advances, and then the datagram is sent, or the sending fails, is cancelled or
  meets the end of the measurement.
\<close>

datatype send_result = Sent nat bool instant | Send_Failed bytes | Send_Cancelled | Send_Ended

datatype send_event = Wait_Cancelled | Send_Pass u64 u32 send_result

record send_state =
  ss_deadline :: instant
  ss_sequence :: u64
  ss_bytes :: u64
  ss_packets :: u64
  ss_wire :: "bytes list"

definition datagram :: "u64 \<Rightarrow> u32 \<Rightarrow> u64 \<Rightarrow> bytes \<Rightarrow> bytes" where
  "datagram secs micros sequence payload = to_be (ucast secs :: u32) @ to_be micros @ to_be sequence @ payload"

fun udp_send_loop :: "duration \<Rightarrow> bytes \<Rightarrow> send_state \<Rightarrow> send_event list \<Rightarrow> (send_state, throughput_error) outcome" where
  "udp_send_loop interval payload st [] = Ok st"
| "udp_send_loop interval payload st (Wait_Cancelled # evs) = Err TE_Cancelled"
| "udp_send_loop interval payload st (Send_Pass secs micros r # evs) =
     (case checked_add (ss_sequence st) 1 of
        None \<Rightarrow> Err (TE_Validation (lit ''UDP sequence exhausted''))
      | Some sequence \<Rightarrow>
          let packet = datagram secs micros sequence payload; st = st\<lparr>ss_sequence := sequence\<rparr> in
          (case r of
             Send_Cancelled \<Rightarrow> Err TE_Cancelled
           | Send_Ended \<Rightarrow> Ok st
           | Send_Failed e \<Rightarrow> Err (TE_Io ''UDP send'' e)
           | Sent n measured now \<Rightarrow>
               if n \<noteq> length packet then Err (TE_Io ''UDP send'' (lit ''write zero''))
               else and_then (if measured then word_add (ss_packets st) 1 else Ok (ss_packets st)) (\<lambda>packets.
                 udp_send_loop interval payload
                   (st\<lparr>ss_bytes := count_bytes measured n (ss_bytes st), ss_packets := packets,
                       ss_wire := ss_wire st @ [packet],
                       ss_deadline := next_deadline (ss_deadline st) interval now\<rparr>) evs)))"

text \<open>
  \<open>interval\<close> is \<open>Duration::from_secs_f64(block_size * 8 / rate)\<close>; \<open>payload\<close> is the random content of
  the packet behind its 16 header bytes.
\<close>

definition send_start :: "instant \<Rightarrow> send_state" where
  "send_start origin =
     \<lparr>ss_deadline = origin, ss_sequence = 0, ss_bytes = 0, ss_packets = 0, ss_wire = []\<rparr>"

definition udp_send :: "nat \<Rightarrow> duration \<Rightarrow> instant \<Rightarrow> bytes \<Rightarrow> f64 \<Rightarrow> send_event list \<Rightarrow>
    (stream_outcome, throughput_error) outcome" where
  "udp_send ident interval origin payload duration evs =
     (if interval = 0 then Err (TE_Validation (lit ''UDP pacing interval rounded to zero''))
      else and_then (udp_send_loop interval payload (send_start origin) evs) (\<lambda>st.
        Ok ((stream_result ident True (ss_bytes st) duration)
          \<lparr>so_packets := ss_packets st, so_wire_packets := ss_sequence st\<rparr>)))"

section \<open>Datagram statistics\<close>

definition REORDER_WINDOW :: nat where
  "REORDER_WINDOW = 65536"

record datagram_stats =
  ds_baseline :: u64
  ds_highest :: u64
  ds_unique :: u64
  ds_seen :: "u64 list"
  ds_bytes :: u64
  ds_prior_transit :: "f64 option"
  ds_jitter :: f64

definition DatagramStats_new :: "u64 \<Rightarrow> datagram_stats" where
  "DatagramStats_new baseline = \<lparr>ds_baseline = baseline, ds_highest = baseline, ds_unique = 0,
     ds_seen = replicate REORDER_WINDOW 0, ds_bytes = 0, ds_prior_transit = None, ds_jitter = Fin 0\<rparr>"

definition after_omission :: "datagram_stats \<Rightarrow> datagram_stats" where
  "after_omission all_seen = (DatagramStats_new (ds_highest all_seen))\<lparr>ds_prior_transit := ds_prior_transit all_seen\<rparr>"

definition next_jitter :: "f64 option \<Rightarrow> f64 \<Rightarrow> f64 \<Rightarrow> f64" where
  "next_jitter prior transit jitter = (case prior of None \<Rightarrow> jitter
     | Some previous \<Rightarrow> f_add jitter (f_div (f_sub (f_abs (f_sub transit previous)) jitter) (Fin 16)))"

definition observe :: "u64 \<Rightarrow> nat \<Rightarrow> f64 \<Rightarrow> f64 \<Rightarrow> datagram_stats \<Rightarrow> (datagram_stats, throughput_error) outcome" where
  "observe sequence bytes arrival sent st =
     (if sequence = 0 then Err (TE_Malformed_Result (lit ''UDP sequence zero''))
      else if sequence \<le> ds_baseline st then Ok st
      else if REORDER_WINDOW \<le> unat (saturating_sub (ds_highest st) sequence)
      then Err (TE_Malformed_Result (lit ''UDP reordering exceeds the bounded correlation window''))
      else let slot = unat sequence mod REORDER_WINDOW in
        and_then (byte_at (ds_seen st) slot) (\<lambda>previous.
          if previous = sequence then Ok st
          else and_then (word_add (ds_unique st) 1) (\<lambda>unique.
            let transit = f_sub arrival sent in
            Ok (st\<lparr>ds_seen := (ds_seen st)[slot := sequence],
                   ds_highest := max (ds_highest st) sequence,
                   ds_unique := unique,
                   ds_bytes := saturating_add (ds_bytes st) (word_of_nat bytes),
                   ds_jitter := next_jitter (ds_prior_transit st) transit (ds_jitter st),
                   ds_prior_transit := Some transit\<rparr>))))"

definition expected :: "datagram_stats \<Rightarrow> (u64, throughput_error) outcome" where
  "expected st = word_sub (ds_highest st) (ds_baseline st)"

definition lost :: "datagram_stats \<Rightarrow> (u64, throughput_error) outcome" where
  "lost st = and_then (expected st) (\<lambda>n. Ok (saturating_sub n (ds_unique st)))"

section \<open>The UDP receiver\<close>

text \<open>A datagram event carries the bytes read, the arrival time and whether the warm-up was over.\<close>

datatype receive_event = Receive_Cancelled | Receive_Failed bytes | Received bytes f64 bool

definition sent_time :: "u32 \<Rightarrow> u32 \<Rightarrow> f64" where
  "sent_time secs micros = f_add (f_of_nat (unat secs)) (f_div (f_of_nat (unat micros)) (Fin 1000000))"

definition measure ::
  "u64 \<Rightarrow> nat \<Rightarrow> f64 \<Rightarrow> f64 \<Rightarrow> datagram_stats \<Rightarrow> datagram_stats option \<Rightarrow> (datagram_stats, throughput_error) outcome" where
  "measure sequence n arrival sent all_seen measured =
     observe sequence n arrival sent (case measured of None \<Rightarrow> after_omission all_seen | Some m \<Rightarrow> m)"

definition receive_datagram ::
  "bytes \<Rightarrow> f64 \<Rightarrow> bool \<Rightarrow> datagram_stats \<Rightarrow> datagram_stats option \<Rightarrow>
     (datagram_stats \<times> datagram_stats option, throughput_error) outcome" where
  "receive_datagram bs arrival measuring all_seen measured =
     (if length bs < 16 then Ok (all_seen, measured)
      else and_then (subslice bs 4 8) (\<lambda>micros.
        if 1000000 \<le> (from_be micros :: u32)
        then Err (TE_Malformed_Result (lit ''Invalid UDP timestamp''))
        else and_then (subslice bs 8 16) (\<lambda>sequence.
          and_then (subslice bs 0 4) (\<lambda>secs.
            let sent = sent_time (from_be secs) (from_be micros) in
            and_then (if measuring
                then and_then (measure (from_be sequence) (length bs) arrival sent all_seen measured) (\<lambda>m. Ok (Some m))
                else Ok measured) (\<lambda>measured.
              and_then (observe (from_be sequence) (length bs) arrival sent all_seen) (\<lambda>all_seen.
                Ok (all_seen, measured)))))))"

fun udp_receive_loop ::
  "datagram_stats \<Rightarrow> datagram_stats option \<Rightarrow> receive_event list \<Rightarrow>
     (datagram_stats \<times> datagram_stats option, throughput_error) outcome" where
  "udp_receive_loop all_seen measured [] = Ok (all_seen, measured)"
| "udp_receive_loop all_seen measured (Receive_Cancelled # evs) = Err TE_Cancelled"
| "udp_receive_loop all_seen measured (Receive_Failed e # evs) = Err (TE_Io ''UDP receive'' e)"
| "udp_receive_loop all_seen measured (Received bs arrival measuring # evs) =
     and_then (receive_datagram bs arrival measuring all_seen measured) (\<lambda>(all_seen, measured).
       udp_receive_loop all_seen measured evs)"

definition udp_receive :: "nat \<Rightarrow> f64 \<Rightarrow> receive_event list \<Rightarrow> (stream_outcome, throughput_error) outcome" where
  "udp_receive ident duration evs =
     and_then (udp_receive_loop (DatagramStats_new 0) None evs) (\<lambda>(all_seen, measured).
       let m = (case measured of None \<Rightarrow> DatagramStats_new (ds_highest all_seen) | Some m \<Rightarrow> m) in
       and_then (expected m) (\<lambda>packets.
       and_then (lost m) (\<lambda>errors.
       and_then (lost all_seen) (\<lambda>wire_errors.
         Ok ((stream_result ident False (ds_bytes m) duration)
           \<lparr>so_packets := packets, so_errors := errors, so_jitter_seconds := ds_jitter m,
             so_wire_packets := ds_highest all_seen, so_wire_errors := wire_errors\<rparr>)))))"

end
