(* ===== verification/Throughput_Metrics.thy ===== *)
theory Throughput_Metrics
  imports Throughput_Plan Throughput_Data
begin

text \<open>
  \<open>crates/throughput/src/protocol/metrics.rs\<close>: the result of a test, from the outcomes of its own
  streams and the results the peer sent. JSON is a third-party library: its values are a type
  parameter, and the accessors the code calls are the fields of a record that the definitions take.
\<close>

section \<open>The JSON values of the peer\<close>

text \<open>The argument of a \<open>json!\<close> literal: what the code puts into a value it sends.\<close>

datatype json_arg =
    J_Num int
  | J_Float f64
  | J_Bool bool
  | J_Text bytes
  | J_Array "json_arg list"
  | J_Object "(bytes \<times> json_arg) list"

record 'v json_api =
  js_make :: "json_arg \<Rightarrow> 'v"
  js_get :: "'v \<Rightarrow> bytes \<Rightarrow> 'v option"
  js_array :: "'v \<Rightarrow> 'v list option"
  js_u64 :: "'v \<Rightarrow> u64 option"
  js_i64 :: "'v \<Rightarrow> int option"
  js_f64 :: "'v \<Rightarrow> f64 option"
  js_encode :: "'v \<Rightarrow> bytes + bytes"
  js_decode :: "bytes \<Rightarrow> bytes + 'v"

definition bad :: "bytes \<Rightarrow> ('a, throughput_error) outcome" where
  "bad m = Err (TE_Malformed_Result m)"

definition integer :: "'v json_api \<Rightarrow> 'v \<Rightarrow> bytes \<Rightarrow> (u64, throughput_error) outcome" where
  "integer js v key = (case Option.bind (js_get js v key) (js_u64 js) of
     Some n \<Rightarrow> Ok n | None \<Rightarrow> bad (lit ''Invalid '' @ key @ lit '' counter''))"

definition number :: "'v json_api \<Rightarrow> 'v \<Rightarrow> bytes \<Rightarrow> (f64, throughput_error) outcome" where
  "number js v key = (case Option.bind (js_get js v key) (js_f64 js) of
     Some n \<Rightarrow> if is_finite n \<and> f_le (Fin 0) n then Ok n else bad (lit ''Invalid '' @ key @ lit '' metric'')
   | None \<Rightarrow> bad (lit ''Invalid '' @ key @ lit '' metric''))"

section \<open>One stream of the peer\<close>

record peer_totals =
  pt_ids :: "u64 list"
  pt_bytes :: u64
  pt_rate :: f64
  pt_retransmits :: "u64 option"

definition peer_start :: peer_totals where
  "peer_start = \<lparr>pt_ids = [], pt_bytes = 0, pt_rate = Fin 0, pt_retransmits = None\<rparr>"

definition mbps :: "u64 \<Rightarrow> f64 \<Rightarrow> f64" where
  "mbps bytes seconds =
     f_div (f_div (f_mul (f_of_nat (unat bytes)) (Fin 8)) seconds) (Fin 1000000)"

definition add_retransmits :: "'v json_api \<Rightarrow> 'v \<Rightarrow> u64 option \<Rightarrow> (u64 option, throughput_error) outcome" where
  "add_retransmits js stream retransmits =
     (case Option.bind (js_get js stream (lit ''retransmits'')) (js_i64 js) of
        None \<Rightarrow> Ok retransmits
      | Some n \<Rightarrow> if n < 0 then Ok retransmits
          else (case checked_add (case retransmits of None \<Rightarrow> 0 | Some r \<Rightarrow> r) (word_of_int n) of
                  None \<Rightarrow> bad (lit ''Retransmit counter overflow'') | Some r \<Rightarrow> Ok (Some r)))"

definition check_udp_fields :: "'v json_api \<Rightarrow> test_spec \<Rightarrow> 'v \<Rightarrow> (unit, throughput_error) outcome" where
  "check_udp_fields js spec stream =
     (if sp_protocol spec = Proto_Udp then
        and_then (integer js stream (lit ''packets'')) (\<lambda>packets.
        and_then (integer js stream (lit ''errors'')) (\<lambda>errors.
          if packets < errors then bad (lit ''Peer loss count exceeds packets'')
          else and_then (number js stream (lit ''jitter'')) (\<lambda>_. Ok ())))
      else Ok ())"

definition peer_stream ::
  "'v json_api \<Rightarrow> test_spec \<Rightarrow> stream_outcome list \<Rightarrow> 'v \<Rightarrow> peer_totals \<Rightarrow> (peer_totals, throughput_error) outcome" where
  "peer_stream js spec outcomes stream pt =
     and_then (integer js stream (lit ''id'')) (\<lambda>ident.
     if ident \<in> set (pt_ids pt) \<or> \<not> list_ex (\<lambda>o'. word_of_nat (so_id o') = ident) outcomes
     then bad (lit ''Unknown or duplicate stream ID'')
     else and_then (integer js stream (lit ''bytes'')) (\<lambda>bytes.
     case checked_add (pt_bytes pt) bytes of
       None \<Rightarrow> bad (lit ''Peer byte count overflow'')
     | Some remote \<Rightarrow>
         and_then (number js stream (lit ''start_time'')) (\<lambda>start.
         and_then (number js stream (lit ''end_time'')) (\<lambda>stop_time.
         if f_le stop_time start then bad (lit ''Non-positive peer measurement duration'')
         else and_then (add_retransmits js stream (pt_retransmits pt)) (\<lambda>retransmits.
           and_then (check_udp_fields js spec stream) (\<lambda>_.
             Ok \<lparr>pt_ids = ident # pt_ids pt, pt_bytes = remote,
               pt_rate = f_add (pt_rate pt) (mbps bytes (f_sub stop_time start)),
               pt_retransmits = retransmits\<rparr>))))))"

fun peer_streams ::
  "'v json_api \<Rightarrow> test_spec \<Rightarrow> stream_outcome list \<Rightarrow> 'v list \<Rightarrow> peer_totals \<Rightarrow> (peer_totals, throughput_error) outcome" where
  "peer_streams js spec outcomes [] pt = Ok pt"
| "peer_streams js spec outcomes (s # ss) pt =
     and_then (peer_stream js spec outcomes s pt) (peer_streams js spec outcomes ss)"

section \<open>The local streams\<close>

fun sum_checked :: "bytes \<Rightarrow> u64 \<Rightarrow> u64 list \<Rightarrow> (u64, throughput_error) outcome" where
  "sum_checked m acc [] = Ok acc"
| "sum_checked m acc (n # ns) = (case checked_add acc n of
     None \<Rightarrow> bad m | Some acc \<Rightarrow> sum_checked m acc ns)"

definition of_role :: "bool \<Rightarrow> stream_outcome list \<Rightarrow> stream_outcome list" where
  "of_role sender outcomes = filter (\<lambda>o'. so_sender o' = sender) outcomes"

definition sum_bytes :: "stream_outcome list \<Rightarrow> bool \<Rightarrow> (u64, throughput_error) outcome" where
  "sum_bytes outcomes sender =
     sum_checked (lit ''Local byte count overflow'') 0 (map so_bytes (of_role sender outcomes))"

fun sum_rate_loop :: "f64 \<Rightarrow> stream_outcome list \<Rightarrow> (f64, throughput_error) outcome" where
  "sum_rate_loop acc [] = Ok acc"
| "sum_rate_loop acc (o' # os) =
     (if \<not> is_finite (so_duration_seconds o') \<or> f_le (so_duration_seconds o') (Fin 0)
      then bad (lit ''Invalid local measurement duration'')
      else sum_rate_loop (f_add acc (mbps (so_bytes o') (so_duration_seconds o'))) os)"

definition sum_rate :: "stream_outcome list \<Rightarrow> bool \<Rightarrow> (f64, throughput_error) outcome" where
  "sum_rate outcomes sender = sum_rate_loop (Fin 0) (of_role sender outcomes)"

text \<open>\<open>Iterator::sum\<close> of \<open>u64\<close>: an overflow is a panic of the checked build.\<close>

fun sum_words :: "u64 \<Rightarrow> u64 list \<Rightarrow> (u64, throughput_error) outcome" where
  "sum_words acc [] = Ok acc"
| "sum_words acc (n # ns) = and_then (word_add acc n) (\<lambda>acc. sum_words acc ns)"

section \<open>UDP metrics\<close>

fun integers :: "'v json_api \<Rightarrow> bytes \<Rightarrow> bytes \<Rightarrow> u64 \<Rightarrow> 'v list \<Rightarrow> (u64, throughput_error) outcome" where
  "integers js key m acc [] = Ok acc"
| "integers js key m acc (v # vs) = and_then (integer js v key) (\<lambda>n.
     case checked_add acc n of None \<Rightarrow> bad m | Some acc \<Rightarrow> integers js key m acc vs)"

fun numbers_of :: "'v json_api \<Rightarrow> bytes \<Rightarrow> 'v list \<Rightarrow> (f64 list, throughput_error) outcome" where
  "numbers_of js key [] = Ok []"
| "numbers_of js key (v # vs) = and_then (number js v key) (\<lambda>n.
     and_then (numbers_of js key vs) (\<lambda>ns. Ok (n # ns)))"

definition f_reduce_max :: "f64 list \<Rightarrow> f64 option" where
  "f_reduce_max xs = (case xs of [] \<Rightarrow> None | x # r \<Rightarrow> Some (foldl f_max x r))"

definition loss_percent :: "u64 \<Rightarrow> u64 \<Rightarrow> f64 option" where
  "loss_percent errors packets = (if 0 < packets
     then Some (f_div (f_mul (f_of_nat (unat errors)) (Fin 100)) (f_of_nat (unat packets))) else None)"

definition in_millis :: "f64 option \<Rightarrow> f64 option" where
  "in_millis jitter = map_option (\<lambda>j. f_mul j (Fin 1000)) jitter"

definition udp_metrics ::
  "'v json_api \<Rightarrow> test_spec \<Rightarrow> stream_outcome list \<Rightarrow> 'v list \<Rightarrow> (f64 option \<times> f64 option, throughput_error) outcome" where
  "udp_metrics js spec outcomes remote =
     (if sp_protocol spec \<noteq> Proto_Udp then Ok (None, None)
      else if sp_direction spec \<noteq> Dir_Tx then
        and_then (sum_words 0 (map so_packets (of_role False outcomes))) (\<lambda>packets.
        and_then (sum_words 0 (map so_errors (of_role False outcomes))) (\<lambda>errors.
          Ok (loss_percent errors packets,
              in_millis (f_reduce_max (map so_jitter_seconds (of_role False outcomes))))))
      else
        and_then (integers js (lit ''packets'') (lit ''Packet count overflow'') 0 remote) (\<lambda>packets.
        and_then (integers js (lit ''errors'') (lit ''Loss count overflow'') 0 remote) (\<lambda>errors.
        and_then (numbers_of js (lit ''jitter'') remote) (\<lambda>jitters.
          Ok (loss_percent errors packets, in_millis (f_reduce_max jitters))))))"

section \<open>The result\<close>

definition bounded_diagnostic :: "bytes \<Rightarrow> nat \<Rightarrow> bytes \<times> bool" where
  "bounded_diagnostic str maximum =
     (if length str \<le> maximum then (str, False) else (take (floor_boundary str maximum) str, True))"

record test_result =
  tr_spec :: test_spec
  tr_attempts :: u8
  tr_elapsed_ms :: u64
  tr_bytes_sent :: u64
  tr_bytes_received :: u64
  tr_tx_mbps :: "f64 option"
  tr_rx_mbps :: "f64 option"
  tr_retransmits :: "u64 option"
  tr_loss_pct :: "f64 option"
  tr_loss_scope :: "bytes option"
  tr_jitter_ms :: "f64 option"
  tr_server_result :: bytes
  tr_server_result_truncated :: bool
  tr_unavailable_metrics :: "bytes list"

definition millis :: "duration \<Rightarrow> u64" where
  "millis d = word_of_nat (min (d div 1000000) (2 ^ 64 - 1))"

definition traffic ::
  "test_spec \<Rightarrow> stream_outcome list \<Rightarrow> peer_totals \<Rightarrow> (u64 \<times> u64 \<times> f64 \<times> f64, throughput_error) outcome" where
  "traffic spec outcomes pt = (case sp_direction spec of
     Dir_Tx \<Rightarrow> and_then (sum_bytes outcomes True) (\<lambda>sent. and_then (sum_rate outcomes True) (\<lambda>tx.
       Ok (sent, pt_bytes pt, tx, pt_rate pt)))
   | Dir_Rx \<Rightarrow> and_then (sum_bytes outcomes False) (\<lambda>received. and_then (sum_rate outcomes False) (\<lambda>rx.
       Ok (pt_bytes pt, received, pt_rate pt, rx)))
   | Dir_Bidirectional \<Rightarrow> and_then (sum_bytes outcomes True) (\<lambda>sent. and_then (sum_bytes outcomes False) (\<lambda>received.
       and_then (sum_rate outcomes True) (\<lambda>tx. and_then (sum_rate outcomes False) (\<lambda>rx.
         Ok (sent, received, tx, rx))))))"

definition unavailable :: "test_spec \<Rightarrow> u64 option \<Rightarrow> bytes list" where
  "unavailable spec retransmits =
     (if sp_protocol spec = Proto_Udp \<and> sp_direction spec = Dir_Tx \<and> 0 < sp_omit_secs spec
      then [lit ''Post-omission receiver loss: iperf3 control results omit the receiver's warm-up loss baseline'']
      else [])
     @ (if sp_protocol spec = Proto_Tcp \<and> retransmits = None
        then [lit ''TCP sender retransmit counter not supplied by the peer''] else [])"

definition loss_scope :: "test_spec \<Rightarrow> bytes option" where
  "loss_scope spec = (if sp_protocol spec = Proto_Udp
     then Some (if sp_direction spec = Dir_Tx then lit ''whole_run'' else lit ''post_omit'') else None)"

definition encode_json :: "'v json_api \<Rightarrow> 'v \<Rightarrow> (bytes, throughput_error) outcome" where
  "encode_json js v = (case js_encode js v of
     Inl e \<Rightarrow> Err (TE_Invalid_Control_Json e) | Inr bs \<Rightarrow> Ok bs)"

definition build_result ::
  "'v json_api \<Rightarrow> test_spec \<Rightarrow> u8 \<Rightarrow> duration \<Rightarrow> stream_outcome list \<Rightarrow> 'v \<Rightarrow> (test_result, throughput_error) outcome" where
  "build_result js spec attempts elapsed outcomes server_result =
     (case Option.bind (js_get js server_result (lit ''streams'')) (js_array js) of
        None \<Rightarrow> bad (lit ''Missing streams array'')
      | Some streams \<Rightarrow>
          if length streams \<noteq> length outcomes
          then bad (lit ''Peer stream count does not match established streams'')
          else and_then (peer_streams js spec outcomes streams peer_start) (\<lambda>pt.
            and_then (traffic spec outcomes pt) (\<lambda>(sent, received, tx, rx).
            and_then (udp_metrics js spec outcomes streams) (\<lambda>(loss, jitter).
            and_then (encode_json js server_result) (\<lambda>encoded.
              let d = bounded_diagnostic encoded (16 * 1024) in
              Ok \<lparr>tr_spec = spec, tr_attempts = attempts, tr_elapsed_ms = millis elapsed,
                tr_bytes_sent = sent, tr_bytes_received = received, tr_tx_mbps = Some tx, tr_rx_mbps = Some rx,
                tr_retransmits = pt_retransmits pt, tr_loss_pct = loss, tr_loss_scope = loss_scope spec,
                tr_jitter_ms = jitter, tr_server_result = fst d, tr_server_result_truncated = snd d,
                tr_unavailable_metrics = unavailable spec (pt_retransmits pt)\<rparr>)))))"

end
