(* ===== verification/Throughput_Client.thy ===== *)
theory Throughput_Client
  imports Throughput_Metrics
begin

text \<open>
  \<open>crates/throughput/src/protocol.rs\<close>: the iperf3 client. The control connection is the bytes the
  peer has sent, how its sending ends, and what becomes of each write; the sockets of the data
  streams, the resolver, the random cookie and JSON are parameters. A state of the control protocol
  is the byte on the wire, so the negative states \<open>-1\<close> and \<open>-2\<close> are 255 and 254.
\<close>

section \<open>Constants and the client\<close>

definition PARAM_EXCHANGE :: u8 where "PARAM_EXCHANGE = 9"
definition CREATE_STREAMS :: u8 where "CREATE_STREAMS = 10"
definition SERVER_TERMINATE :: u8 where "SERVER_TERMINATE = 11"
definition CLIENT_TERMINATE :: u8 where "CLIENT_TERMINATE = 12"
definition EXCHANGE_RESULTS :: u8 where "EXCHANGE_RESULTS = 13"
definition DISPLAY_RESULTS :: u8 where "DISPLAY_RESULTS = 14"
definition IPERF_DONE :: u8 where "IPERF_DONE = 16"
definition ACCESS_DENIED :: u8 where "ACCESS_DENIED = 255"
definition SERVER_ERROR :: u8 where "SERVER_ERROR = 254"
definition TEST_START :: u8 where "TEST_START = 1"
definition TEST_RUNNING :: u8 where "TEST_RUNNING = 2"
definition TEST_END :: u8 where "TEST_END = 4"

lemmas control_states = PARAM_EXCHANGE_def CREATE_STREAMS_def SERVER_TERMINATE_def CLIENT_TERMINATE_def
  EXCHANGE_RESULTS_def DISPLAY_RESULTS_def IPERF_DONE_def ACCESS_DENIED_def SERVER_ERROR_def
  TEST_START_def TEST_RUNNING_def TEST_END_def

definition COOKIE_SIZE :: nat where "COOKIE_SIZE = 37"
definition TCP_BLOCK_SIZE :: nat where "TCP_BLOCK_SIZE = 128 * 1024"
definition UDP_BLOCK_SIZE_V4 :: nat where "UDP_BLOCK_SIZE_V4 = 1460"
definition UDP_BLOCK_SIZE_V6 :: nat where "UDP_BLOCK_SIZE_V6 = 1440"
definition UDP_CONNECT_REPLY :: bytes where "UDP_CONNECT_REPLY = lit ''6789''"
definition UDP_LEGACY_REPLY_LE :: bytes where "UDP_LEGACY_REPLY_LE = rev (to_be (987654321 :: u32))"

definition state_name :: "u8 \<Rightarrow> string" where
  "state_name s =
     (if s = PARAM_EXCHANGE then ''PARAM_EXCHANGE'' else if s = CREATE_STREAMS then ''CREATE_STREAMS''
      else if s = TEST_START then ''TEST_START'' else if s = TEST_RUNNING then ''TEST_RUNNING''
      else if s = EXCHANGE_RESULTS then ''EXCHANGE_RESULTS'' else if s = DISPLAY_RESULTS then ''DISPLAY_RESULTS''
      else if s = IPERF_DONE then ''IPERF_DONE'' else ''known state'')"

record iperf3_client =
  ic_connect_timeout :: duration
  ic_control_timeout :: duration
  ic_max_control_json_bytes :: nat

definition Iperf3Client_new :: iperf3_client where
  "Iperf3Client_new = \<lparr>ic_connect_timeout = from_millis 60000, ic_control_timeout = from_millis 60000,
     ic_max_control_json_bytes = 1024 * 1024\<rparr>"

definition with_limits :: "u64 \<Rightarrow> u64 \<Rightarrow> nat \<Rightarrow> (iperf3_client, throughput_error) outcome" where
  "with_limits connect_ms control_ms max_json =
     (if \<not> (1 \<le> connect_ms \<and> connect_ms \<le> MAX_CLIENT_TIMEOUT_MS)
        \<or> \<not> (1 \<le> control_ms \<and> control_ms \<le> MAX_CLIENT_TIMEOUT_MS)
        \<or> \<not> (2 \<le> max_json \<and> max_json \<le> 1024 * 1024)
      then invalid (lit ''client timeouts must be between 1 and '' @ decimal (unat MAX_CLIENT_TIMEOUT_MS)
        @ lit '' ms and max_control_json_bytes between 2 and 1048576'')
      else Ok \<lparr>ic_connect_timeout = from_millis (unat connect_ms), ic_control_timeout = from_millis (unat control_ms),
        ic_max_control_json_bytes = max_json\<rparr>)"

definition from_suite :: "suite_config \<Rightarrow> (iperf3_client, throughput_error) outcome" where
  "from_suite c = with_limits (sc_connect_timeout_ms c) (sc_control_timeout_ms c) (sc_max_control_json_bytes c)"

section \<open>The control connection\<close>

datatype fault = Peer_Error bytes | Timed_Out_Waiting | Cancel_Requested

record control =
  ct_input :: bytes
  ct_ending :: fault
  ct_output :: bytes
  ct_write_faults :: "fault option list"

text \<open>
  \<open>phase\<close> puts the control timeout and the cancellation around an exchange; an error of the socket
  itself is reported under the name the exchange gives it.
\<close>

definition fail :: "iperf3_client \<Rightarrow> string \<Rightarrow> string \<Rightarrow> fault \<Rightarrow> ('a, throughput_error) outcome" where
  "fail cl phase io f = Err (case f of
     Peer_Error e \<Rightarrow> TE_Io io e
   | Timed_Out_Waiting \<Rightarrow> TE_Timeout phase (millis (ic_control_timeout cl))
   | Cancel_Requested \<Rightarrow> TE_Cancelled)"

definition read_exact ::
  "iperf3_client \<Rightarrow> string \<Rightarrow> string \<Rightarrow> nat \<Rightarrow> control \<Rightarrow> (bytes \<times> control, throughput_error) outcome" where
  "read_exact cl phase io n ctl =
     (if n \<le> length (ct_input ctl)
      then Ok (take n (ct_input ctl), ctl\<lparr>ct_input := drop n (ct_input ctl)\<rparr>)
      else fail cl phase io (ct_ending ctl))"

definition write_all ::
  "iperf3_client \<Rightarrow> string \<Rightarrow> bytes \<Rightarrow> control \<Rightarrow> (control, throughput_error) outcome" where
  "write_all cl phase data ctl = (case ct_write_faults ctl of
     Some f # _ \<Rightarrow> fail cl phase phase f
   | fs \<Rightarrow> Ok (ctl\<lparr>ct_output := ct_output ctl @ data, ct_write_faults := tl fs\<rparr>))"

definition server_codes :: "bytes \<Rightarrow> throughput_error" where
  "server_codes codes = TE_Server (from_be (take 4 codes)) (from_be (drop 4 codes))"

definition expect_state :: "iperf3_client \<Rightarrow> u8 \<Rightarrow> control \<Rightarrow> (control, throughput_error) outcome" where
  "expect_state cl wanted ctl =
     and_then (read_exact cl ''control state'' ''control state'' 1 ctl) (\<lambda>(bs, ctl).
     and_then (byte_at bs 0) (\<lambda>state.
       if state = ACCESS_DENIED then Err TE_Server_Busy
       else if state = SERVER_TERMINATE then Err (TE_Server (ucast SERVER_TERMINATE) 0)
       else if state = SERVER_ERROR then
         and_then (read_exact cl ''server error'' ''server error'' 8 ctl) (\<lambda>(codes, ctl). Err (server_codes codes))
       else if state = wanted then Ok ctl
       else Err (TE_Unexpected_State state (state_name wanted))))"

definition u32_max :: nat where "u32_max = 2 ^ 32 - 1"

definition write_json ::
  "'v json_api \<Rightarrow> iperf3_client \<Rightarrow> 'v \<Rightarrow> control \<Rightarrow> (control, throughput_error) outcome" where
  "write_json js cl v ctl =
     and_then (encode_json js v) (\<lambda>encoded.
       if ic_max_control_json_bytes cl < length encoded \<or> u32_max < length encoded
       then Err (TE_Control_Message_Too_Large (length encoded) (ic_max_control_json_bytes cl))
       else and_then (write_all cl ''control JSON write'' (to_be (word_of_nat (length encoded) :: u32)) ctl)
         (write_all cl ''control JSON write'' encoded))"

definition decode_json :: "'v json_api \<Rightarrow> bytes \<Rightarrow> ('v, throughput_error) outcome" where
  "decode_json js bs = (case js_decode js bs of
     Inl e \<Rightarrow> Err (TE_Invalid_Control_Json e) | Inr v \<Rightarrow> Ok v)"

definition read_json ::
  "'v json_api \<Rightarrow> iperf3_client \<Rightarrow> control \<Rightarrow> ('v \<times> control, throughput_error) outcome" where
  "read_json js cl ctl =
     and_then (read_exact cl ''control JSON read'' ''control JSON read'' 1 ctl) (\<lambda>(first, ctl).
     and_then (byte_at first 0) (\<lambda>state.
       if state = SERVER_ERROR then
         and_then (read_exact cl ''control JSON read'' ''server error'' 8 ctl) (\<lambda>(codes, ctl). Err (server_codes codes))
       else if state = ACCESS_DENIED then Err TE_Server_Busy
       else and_then (read_exact cl ''control JSON read'' ''control JSON read'' 3 ctl) (\<lambda>(rest, ctl).
         let len = unat (from_be (first @ rest) :: u32) in
         if ic_max_control_json_bytes cl < len
         then Err (TE_Control_Message_Too_Large len (ic_max_control_json_bytes cl))
         else and_then (read_exact cl ''control JSON read'' ''control JSON read'' len ctl) (\<lambda>(encoded, ctl).
           and_then (decode_json js encoded) (\<lambda>v. Ok (v, ctl))))))"

section \<open>The specification of one test\<close>

definition validate_spec :: "test_spec \<Rightarrow> (unit, throughput_error) outcome" where
  "validate_spec spec =
     (if sp_id spec = 0 \<or> list_all is_whitespace (chars (sp_target spec)) \<or> 253 < length (sp_target spec)
        \<or> list_ex bad_target_char (chars (sp_target spec)) \<or> sp_port spec = 0
        \<or> \<not> (1 \<le> sp_duration_secs spec \<and> sp_duration_secs spec \<le> 3600) \<or> 60 < sp_omit_secs spec
        \<or> sp_streams spec = 0 \<or> 128 < sp_streams spec \<or> sp_tos spec \<noteq> tos (sp_dscp spec)
      then invalid (lit ''invalid concrete test specification'')
      else if sp_protocol spec = Proto_Both then invalid (lit ''a concrete test cannot use protocol both'')
      else if sp_protocol spec = Proto_Udp then
        (let rate = (case sp_udp_rate_bps spec of None \<Rightarrow> 0 | Some r \<Rightarrow> r) in
         if rate = 0 \<or> MAX_UDP_RATE_BPS < rate
         then invalid (lit ''UDP tests require a rate between 1 and '' @ decimal (unat MAX_UDP_RATE_BPS)
           @ lit '' bits per second'')
         else Ok ())
      else Ok ())"

definition udp_block_size :: "bool \<Rightarrow> nat" where
  "udp_block_size is_ipv6 = (if is_ipv6 then UDP_BLOCK_SIZE_V6 else UDP_BLOCK_SIZE_V4)"

definition parameters :: "bytes \<Rightarrow> test_spec \<Rightarrow> nat \<Rightarrow> json_arg" where
  "parameters version spec block = J_Object
     ([(lit ''omit'', J_Num (uint (sp_omit_secs spec))), (lit ''time'', J_Num (uint (sp_duration_secs spec))),
       (lit ''num'', J_Num 0), (lit ''blockcount'', J_Num 0), (lit ''parallel'', J_Num (uint (sp_streams spec))),
       (lit ''client_version'', J_Text (lit ''network-lantern/'' @ version)),
       (if sp_protocol spec = Proto_Udp then lit ''udp'' else lit ''tcp'', J_Bool True)]
      @ (case sp_direction spec of Dir_Rx \<Rightarrow> [(lit ''reverse'', J_Bool True)]
         | Dir_Bidirectional \<Rightarrow> [(lit ''bidirectional'', J_Bool True)] | Dir_Tx \<Rightarrow> [])
      @ (if sp_tos spec \<noteq> 0 then [(lit ''TOS'', J_Num (uint (sp_tos spec)))] else [])
      @ (case sp_tcp_window_bytes spec of None \<Rightarrow> [] | Some w \<Rightarrow> [(lit ''window'', J_Num (uint w))])
      @ (if sp_protocol spec = Proto_Udp
         then [(lit ''bandwidth'', J_Num (uint (case sp_udp_rate_bps spec of None \<Rightarrow> 1000000 | Some r \<Rightarrow> r))),
           (lit ''len'', J_Num (int block)), (lit ''udp_counters_64bit'', J_Num 1)]
         else [(lit ''len'', J_Num (int TCP_BLOCK_SIZE))]))"

definition stream_json :: "stream_outcome \<Rightarrow> json_arg" where
  "stream_json o' = J_Object
     [(lit ''id'', J_Num (int (so_id o'))), (lit ''bytes'', J_Num (uint (so_bytes o'))),
      (lit ''retransmits'', J_Num (- 1)), (lit ''jitter'', J_Float (so_jitter_seconds o')),
      (lit ''errors'', J_Num (uint (so_wire_errors o'))), (lit ''packets'', J_Num (uint (so_wire_packets o'))),
      (lit ''start_time'', J_Float (Fin 0)), (lit ''end_time'', J_Float (so_duration_seconds o'))]"

definition client_results :: "stream_outcome list \<Rightarrow> json_arg" where
  "client_results outcomes = J_Object
     [(lit ''cpu_util_total'', J_Float (Fin (- 1))), (lit ''cpu_util_user'', J_Float (Fin (- 1))),
      (lit ''cpu_util_system'', J_Float (Fin (- 1))), (lit ''sender_has_retransmits'', J_Num (- 1)),
      (lit ''streams'', J_Array (map stream_json outcomes))]"

section \<open>Data streams\<close>

text \<open>
  The handshake of a UDP stream: \<open>replies\<close> are the datagrams that arrive. A receiver (\<open>reverse\<close>) may
  see up to two data datagrams before the reply.
\<close>

definition is_reply :: "bytes \<Rightarrow> bool" where
  "is_reply r \<longleftrightarrow> length r = 4 \<and> (r = UDP_CONNECT_REPLY \<or> r = UDP_LEGACY_REPLY_LE)"

fun handshake_loop ::
  "iperf3_client \<Rightarrow> bool \<Rightarrow> fault \<Rightarrow> nat \<Rightarrow> bytes list \<Rightarrow> (unit, throughput_error) outcome" where
  "handshake_loop cl reverse ending left [] = fail cl ''UDP stream handshake'' ''UDP stream handshake'' ending"
| "handshake_loop cl reverse ending left (r # rs) =
     (if is_reply r then Ok ()
      else if \<not> reverse \<or> length r < 16 \<or> left = 0
      then Err (TE_Unexpected_State 0 ''UDP connect reply'')
      else handshake_loop cl reverse ending (left - 1) rs)"

definition udp_handshake ::
  "iperf3_client \<Rightarrow> bool \<Rightarrow> fault \<Rightarrow> bytes list \<Rightarrow> (unit, throughput_error) outcome" where
  "udp_handshake cl reverse ending replies =
     handshake_loop cl reverse ending (if reverse then 2 else 0) replies"

text \<open>
  The streams of a test: \<open>open_stream index sender\<close> is the result of connecting and handshaking one.
  The streams are numbered 1, 3, 4, 5, ... as the peer numbers them.
\<close>

definition roles :: "direction \<Rightarrow> bool list" where
  "roles dir = (case dir of Dir_Tx \<Rightarrow> [True] | Dir_Rx \<Rightarrow> [False] | Dir_Bidirectional \<Rightarrow> [True, False])"

fun open_streams ::
  "(nat \<Rightarrow> bool \<Rightarrow> (unit, throughput_error) outcome) \<Rightarrow> nat \<Rightarrow> bool list \<Rightarrow> (bool list, throughput_error) outcome" where
  "open_streams open_stream i [] = Ok []"
| "open_streams open_stream i (sender # rest) = and_then (open_stream i sender) (\<lambda>_.
     and_then (open_streams open_stream (i + 1) rest) (\<lambda>opened. Ok (sender # opened)))"

definition create_streams ::
  "(nat \<Rightarrow> bool \<Rightarrow> (unit, throughput_error) outcome) \<Rightarrow> test_spec \<Rightarrow> (bool list, throughput_error) outcome" where
  "create_streams open_stream spec =
     (let wanted = concat (map (\<lambda>sender. replicate (unat (sp_streams spec)) sender) (roles (sp_direction spec))) in
      if sp_protocol spec = Proto_Both \<and> wanted \<noteq> []
      then invalid (lit ''a concrete TestSpec protocol cannot be both'')
      else open_streams open_stream 0 wanted)"

definition stream_id :: "nat \<Rightarrow> nat" where
  "stream_id index = (if index = 0 then 1 else index + 2)"

text \<open>
  \<open>run_data\<close>: every stream runs as a task; \<open>tasks\<close> gives the results in the order the tasks end. The
  first error ends the test; the outcomes are sorted by their id.
\<close>

fun gather :: "(stream_outcome, throughput_error) outcome list \<Rightarrow> (stream_outcome list, throughput_error) outcome" where
  "gather [] = Ok []"
| "gather (r # rs) = and_then r (\<lambda>o'. and_then (gather rs) (\<lambda>os. Ok (o' # os)))"

definition run_data ::
  "((nat \<times> bool) list \<Rightarrow> (stream_outcome, throughput_error) outcome list) \<Rightarrow> bool list \<Rightarrow>
     (stream_outcome list, throughput_error) outcome" where
  "run_data tasks senders =
     and_then (gather (tasks (map (\<lambda>i. (stream_id i, senders ! i)) [0..<length senders])))
       (\<lambda>outcomes. Ok (sort_key so_id outcomes))"

section \<open>Resolution and the control connection\<close>

definition no_address :: "test_spec \<Rightarrow> ('a, throughput_error) outcome" where
  "no_address spec = invalid (lit ''target '' @ [39] @ sp_target spec @ [39] @ lit '' has no address matching ''
     @ (case sp_ip_version spec of Ip_Auto \<Rightarrow> lit ''Auto'' | Ip_V4 \<Rightarrow> lit ''Ipv4'' | Ip_V6 \<Rightarrow> lit ''Ipv6''))"

text \<open>An address is its text and whether it is IPv6.\<close>

definition matches_version :: "ip_version \<Rightarrow> bytes \<times> bool \<Rightarrow> bool" where
  "matches_version v address = (case v of Ip_Auto \<Rightarrow> True | Ip_V4 \<Rightarrow> \<not> snd address | Ip_V6 \<Rightarrow> snd address)"

definition resolve ::
  "(bytes \<Rightarrow> ((bytes \<times> bool) list, throughput_error) outcome) \<Rightarrow> test_spec \<Rightarrow>
     ((bytes \<times> bool) list, throughput_error) outcome" where
  "resolve lookup spec = and_then (lookup (sp_target spec)) (\<lambda>addresses.
     let matching = filter (matches_version (sp_ip_version spec)) addresses in
     if matching = [] then no_address spec else Ok matching)"

fun connect_any ::
  "(bytes \<times> bool \<Rightarrow> (control, throughput_error) outcome) \<Rightarrow> test_spec \<Rightarrow> throughput_error option \<Rightarrow>
     (bytes \<times> bool) list \<Rightarrow> ((bytes \<times> bool) \<times> control, throughput_error) outcome" where
  "connect_any connect spec last_error [] = (case last_error of Some e \<Rightarrow> Err e | None \<Rightarrow> no_address spec)"
| "connect_any connect spec last_error (a # as) = (case connect a of
     Ok ctl \<Rightarrow> Ok (a, ctl)
   | Err e \<Rightarrow> if e = TE_Cancelled then Err TE_Cancelled else connect_any connect spec (Some e) as
   | Panic \<Rightarrow> Panic)"

section \<open>One attempt\<close>

record 'v net =
  nt_json :: "'v json_api"
  nt_lookup :: "bytes \<Rightarrow> ((bytes \<times> bool) list, throughput_error) outcome"
  nt_connect :: "bytes \<times> bool \<Rightarrow> (control, throughput_error) outcome"
  nt_nodelay :: "(unit, throughput_error) outcome"
  nt_cookie :: bytes
  nt_version :: bytes
  nt_open_stream :: "nat \<Rightarrow> bool \<Rightarrow> (unit, throughput_error) outcome"
  nt_tasks :: "(nat \<times> bool) list \<Rightarrow> (stream_outcome, throughput_error) outcome list"
  nt_elapsed :: duration

text \<open>The exchange on the control connection, from the cookie to the start of the test.\<close>

definition negotiate ::
  "'v net \<Rightarrow> iperf3_client \<Rightarrow> test_spec \<Rightarrow> nat \<Rightarrow> control \<Rightarrow> (bool list \<times> control, throughput_error) outcome" where
  "negotiate net cl spec block ctl =
     and_then (write_all cl ''control cookie'' (nt_cookie net) ctl) (\<lambda>ctl.
     and_then (expect_state cl PARAM_EXCHANGE ctl) (\<lambda>ctl.
     and_then (write_json (nt_json net) cl (js_make (nt_json net) (parameters (nt_version net) spec block)) ctl) (\<lambda>ctl.
     and_then (expect_state cl CREATE_STREAMS ctl) (\<lambda>ctl.
     and_then (create_streams (nt_open_stream net) spec) (\<lambda>senders.
     and_then (expect_state cl TEST_START ctl) (\<lambda>ctl.
     and_then (expect_state cl TEST_RUNNING ctl) (\<lambda>ctl. Ok (senders, ctl))))))))"

text \<open>From the end of the data to the completion state. A failed write of \<open>CLIENT_TERMINATE\<close> after a
  data error is ignored by the code, so it has no part in the result.\<close>

definition exchange_results ::
  "'v net \<Rightarrow> iperf3_client \<Rightarrow> stream_outcome list \<Rightarrow> control \<Rightarrow> ('v \<times> control, throughput_error) outcome" where
  "exchange_results net cl outcomes ctl =
     and_then (write_all cl ''test end'' [TEST_END] ctl) (\<lambda>ctl.
     and_then (expect_state cl EXCHANGE_RESULTS ctl) (\<lambda>ctl.
     and_then (write_json (nt_json net) cl (js_make (nt_json net) (client_results outcomes)) ctl) (\<lambda>ctl.
     and_then (read_json (nt_json net) cl ctl) (\<lambda>(v, ctl).
     and_then (expect_state cl DISPLAY_RESULTS ctl) (\<lambda>ctl.
     and_then (write_all cl ''completion state'' [IPERF_DONE] ctl) (\<lambda>ctl. Ok (v, ctl)))))))"

definition run_test_once ::
  "'v net \<Rightarrow> iperf3_client \<Rightarrow> test_spec \<Rightarrow> u8 \<Rightarrow> (test_result \<times> control, throughput_error) outcome" where
  "run_test_once net cl spec attempt =
     and_then (validate_spec spec) (\<lambda>_.
     and_then (resolve (nt_lookup net) spec) (\<lambda>addresses.
     and_then (connect_any (nt_connect net) spec None addresses) (\<lambda>(address, ctl).
     and_then (nt_nodelay net) (\<lambda>_.
     and_then (negotiate net cl spec (udp_block_size (snd address)) ctl) (\<lambda>(senders, ctl).
     and_then (run_data (nt_tasks net) senders) (\<lambda>outcomes.
     and_then (exchange_results net cl outcomes ctl) (\<lambda>(server_result, ctl).
     and_then (build_result (nt_json net) spec attempt (nt_elapsed net) outcomes server_result) (\<lambda>r.
       Ok (r, ctl)))))))))"

section \<open>Retries\<close>

text \<open>
  \<open>run attempt\<close> is the result of one attempt, \<open>cancelled attempt\<close> the state of the cancellation token
  after it, \<open>backoff attempt\<close> whether the pause after it ends by itself.
\<close>

fun retry_loop ::
  "(u8 \<Rightarrow> ('a, throughput_error) outcome) \<Rightarrow> (u8 \<Rightarrow> bool) \<Rightarrow> (u8 \<Rightarrow> bool) \<Rightarrow> u8 \<Rightarrow>
     throughput_error option \<Rightarrow> u8 list \<Rightarrow> ('a, throughput_error) outcome" where
  "retry_loop run cancelled backoff attempts last_error [] =
     Err (TE_Retries_Exhausted attempts (case last_error of None \<Rightarrow> TE_Cancelled | Some e \<Rightarrow> e))"
| "retry_loop run cancelled backoff attempts last_error (attempt # rest) = (case run attempt of
     Ok r \<Rightarrow> Ok r
   | Panic \<Rightarrow> Panic
   | Err e \<Rightarrow>
       if e = TE_Cancelled \<or> cancelled attempt then Err TE_Cancelled
       else if retryable e \<and> attempt < attempts then
         (if backoff attempt then retry_loop run cancelled backoff attempts (Some e) rest else Err TE_Cancelled)
       else if attempt = 1 then Err e
       else Err (TE_Retries_Exhausted attempt e))"

definition run_test_with_retry ::
  "(u8 \<Rightarrow> ('a, throughput_error) outcome) \<Rightarrow> (u8 \<Rightarrow> bool) \<Rightarrow> (u8 \<Rightarrow> bool) \<Rightarrow> retry_policy \<Rightarrow>
     ('a, throughput_error) outcome" where
  "run_test_with_retry run cancelled backoff retry =
     (let attempts = saturating_add (rp_max_retries retry) 1 in
      retry_loop run cancelled backoff attempts None (map word_of_nat [1..<Suc (unat attempts)]))"

end
