(* ===== verification/Throughput_Plan_Exact.thy ===== *)
theory Throughput_Plan_Exact
  imports Throughput_Plan
begin

text \<open>
  What a throughput plan promises: the iterator yields the tests of a reference enumeration, in its
  order and with consecutive ids, and the announced number of tests is their number.
\<close>

section \<open>What validation guarantees\<close>

definition valid_config :: "suite_config \<Rightarrow> bool" where
  "valid_config c \<longleftrightarrow> validate_config c = Ok ()"

lemma valid_configD:
  assumes "valid_config c"
  shows "sc_dscp_classes c \<noteq> []" "length (sc_dscp_classes c) \<le> 21"
    "sc_tcp_streams c \<noteq> []" "length (sc_tcp_streams c) \<le> 128"
    "\<forall>n \<in> set (sc_tcp_streams c). 1 \<le> n \<and> n \<le> 128"
    "sc_tcp_windows_bytes c \<noteq> []" "length (sc_tcp_windows_bytes c) \<le> 128"
    "0 < unat (sc_udp_start_bps c)" "unat (sc_udp_start_bps c) \<le> 10000000000"
    "0 < unat (sc_udp_step_bps c)" "unat (sc_udp_step_bps c) \<le> 10000000000"
    "unat (sc_udp_max_bps c) \<le> 10000000000"
    "sc_target c \<noteq> []" "length (sc_target c) \<le> 253" "\<not> list_ex bad_target_char (chars (sc_target c))"
    "sc_port c \<noteq> 0" "1 \<le> sc_duration_secs c" "sc_duration_secs c \<le> 3600" "sc_omit_secs c \<le> 60"
    "rp_max_retries (sc_retry c) \<le> 5"
    "1 \<le> sc_connect_timeout_ms c" "sc_connect_timeout_ms c \<le> MAX_CLIENT_TIMEOUT_MS"
    "1 \<le> sc_control_timeout_ms c" "sc_control_timeout_ms c \<le> MAX_CLIENT_TIMEOUT_MS"
    "2 \<le> sc_max_control_json_bytes c" "sc_max_control_json_bytes c \<le> 1024 * 1024"
    "case sc_max_total_tests c of None \<Rightarrow> True | Some n \<Rightarrow> n \<le> 1000000"
  using assms unfolding valid_config_def validate_config_def invalid_def
  by (auto simp: not_less list_ex_iff word_le_nat_alt MAX_UDP_RATE_BPS_def unat_gt_0 split: if_splits option.splits)

section \<open>The reference enumeration\<close>

definition tcp_case :: "dscp_class \<Rightarrow> direction \<Rightarrow> u16 \<Rightarrow> u32 option \<Rightarrow> plan_case" where
  "tcp_case dscp dir streams window = \<lparr>pc_protocol = Proto_Tcp, pc_direction = dir, pc_dscp = dscp,
     pc_streams = streams, pc_window = window, pc_udp_rate = None, pc_phase = Tcp_Matrix\<rparr>"

definition tcp_row :: "suite_config \<Rightarrow> dscp_class \<Rightarrow> direction \<Rightarrow> u16 \<Rightarrow> plan_case list" where
  "tcp_row c dscp dir streams = map (tcp_case dscp dir streams) (sc_tcp_windows_bytes c)"

definition tcp_block :: "suite_config \<Rightarrow> dscp_class \<Rightarrow> direction \<Rightarrow> plan_case list" where
  "tcp_block c dscp dir = concat (map (tcp_row c dscp dir) (sc_tcp_streams c))"

definition tcp_cases :: "suite_config \<Rightarrow> server_capabilities \<Rightarrow> dscp_class \<Rightarrow> plan_case list" where
  "tcp_cases c caps dscp = (if sc_protocol c = Proto_Udp then []
     else concat (map (tcp_block c dscp) (directions caps)))"

definition fixed_cases :: "suite_config \<Rightarrow> dscp_class \<Rightarrow> plan_case list" where
  "fixed_cases c dscp = (if sc_protocol c = Proto_Tcp then []
     else map (\<lambda>dir. udp_case dir dscp (sc_udp_start_bps c) Udp_Fixed) [Dir_Tx, Dir_Rx])"

definition steps_n :: "suite_config \<Rightarrow> nat" where
  "steps_n c = (if unat (sc_udp_max_bps c) \<le> unat (sc_udp_start_bps c) then 0
     else min ((unat (sc_udp_max_bps c) - unat (sc_udp_start_bps c)) div unat (sc_udp_step_bps c) + 1) 1000)"

definition rate_n :: "suite_config \<Rightarrow> nat \<Rightarrow> u64" where
  "rate_n c k = word_of_nat (unat (sc_udp_start_bps c) + unat (sc_udp_step_bps c) * k)"

definition step_cases :: "suite_config \<Rightarrow> dscp_class \<Rightarrow> nat \<Rightarrow> plan_case list" where
  "step_cases c dscp k = map (\<lambda>dir. udp_case dir dscp (rate_n c k) Udp_Saturation) [Dir_Tx, Dir_Rx]"

definition saturation_cases :: "suite_config \<Rightarrow> dscp_class \<Rightarrow> nat \<Rightarrow> plan_case list" where
  "saturation_cases c dscp k = (if sc_protocol c = Proto_Tcp then []
     else concat (map (step_cases c dscp) [k..<steps_n c]))"

definition dscp_cases :: "suite_config \<Rightarrow> server_capabilities \<Rightarrow> dscp_class \<Rightarrow> plan_case list" where
  "dscp_cases c caps dscp = tcp_cases c caps dscp @ fixed_cases c dscp @ saturation_cases c dscp 0"

definition single_case :: "suite_config \<Rightarrow> plan_case" where
  "single_case c = (let protocol = (if sc_protocol c = Proto_Udp then Proto_Udp else Proto_Tcp) in
     \<lparr>pc_protocol = protocol, pc_direction = Dir_Tx, pc_dscp = hd (sc_dscp_classes c), pc_streams = 1,
      pc_window = None, pc_udp_rate = (if protocol = Proto_Udp then Some (sc_udp_start_bps c) else None),
      pc_phase = Single\<rparr>)"

definition suite_cases :: "suite_config \<Rightarrow> server_capabilities \<Rightarrow> plan_case list" where
  "suite_cases c caps = (if sc_single_test c then [single_case c]
     else concat (map (dscp_cases c caps) (sc_dscp_classes c)))"

fun numbered :: "suite_config \<Rightarrow> u64 \<Rightarrow> plan_case list \<Rightarrow> test_spec list" where
  "numbered c ident [] = []"
| "numbered c ident (pc # pcs) = spec_of c ident pc # numbered c (ident + 1) pcs"

section \<open>The step count and the rates\<close>

lemma steps_of_Ok:
  assumes "valid_config c" and "sc_udp_start_bps c < sc_udp_max_bps c"
  shows "\<exists>w. steps_of c = Ok w \<and> unat w = steps_n c"
proof -
  note v = valid_configD [OF assms(1)]
  let ?span = "sc_udp_max_bps c - sc_udp_start_bps c"
  let ?q = "?span div sc_udp_step_bps c"
  have lt: "unat (sc_udp_start_bps c) < unat (sc_udp_max_bps c)"
    using assms(2) by (simp add: word_less_nat_alt)
  have span: "unat ?span = unat (sc_udp_max_bps c) - unat (sc_udp_start_bps c)"
    using assms(2) by (simp add: unat_sub less_imp_le)
  have q: "unat ?q = unat ?span div unat (sc_udp_step_bps c)"
    by (simp add: unat_div_distrib)
  have small: "unat ?q \<le> 10000000000"
    unfolding q span using v(12) by (meson diff_le_self div_le_dividend le_trans)
  have add: "word_add ?q 1 = (Ok (?q + 1) :: (u64, throughput_error) outcome)"
    using small by (simp add: word_add_def)
  have "unat (?q + 1) = unat ?q + 1"
    using small by (simp add: unat_word_ariths)
  then have "unat (min (?q + 1) 1000) = min (unat ?q + 1) 1000"
    by (simp add: min_def word_le_nat_alt)
  then have "unat (min (?q + 1) 1000) = steps_n c"
    using lt by (simp add: steps_n_def q span)
  moreover have "steps_of c = Ok (min (?q + 1) 1000)"
    using assms(2) v(10) add by (auto simp: steps_of_def word_sub_def word_div_def unat_gt_0)
  ultimately show ?thesis by blast
qed

lemma rate_bound:
  assumes "valid_config c" and "k < steps_n c"
  shows "unat (sc_udp_start_bps c) + unat (sc_udp_step_bps c) * k \<le> unat (sc_udp_max_bps c)"
proof -
  let ?d = "unat (sc_udp_max_bps c) - unat (sc_udp_start_bps c)"
  have lt: "\<not> unat (sc_udp_max_bps c) \<le> unat (sc_udp_start_bps c)" and k: "k \<le> ?d div unat (sc_udp_step_bps c)"
    using assms(2) by (simp_all add: steps_n_def split: if_splits)
  have "unat (sc_udp_step_bps c) * k \<le> unat (sc_udp_step_bps c) * (?d div unat (sc_udp_step_bps c))"
    using k by (rule mult_le_mono2)
  also have "\<dots> \<le> ?d" by simp
  finally show ?thesis using lt by linarith
qed

lemma saturation_rate_n:
  assumes "valid_config c" and "unat k < steps_n c"
  shows "saturation_rate c k = rate_n c (unat k)"
    and "unat (rate_n c (unat k)) = unat (sc_udp_start_bps c) + unat (sc_udp_step_bps c) * unat k"
proof -
  note b = rate_bound [OF assms]
  have m: "unat (sc_udp_max_bps c) \<le> 10000000000" by (rule valid_configD [OF assms(1)])
  show u: "unat (rate_n c (unat k)) = unat (sc_udp_start_bps c) + unat (sc_udp_step_bps c) * unat k"
    unfolding rate_n_def unat_of_nat using b m by (intro mod_less) simp
  have "unat (saturation_rate c k) = unat (sc_udp_start_bps c) + unat (sc_udp_step_bps c) * unat k"
    using b m by (simp add: saturation_rate_def unat_saturating_add unat_saturating_mul)
  with u show "saturation_rate c k = rate_n c (unat k)"
    by (simp add: word_unat_eq_iff)
qed

section \<open>What the iterator has left\<close>

definition tcp_from :: "suite_config \<Rightarrow> server_capabilities \<Rightarrow> dscp_class \<Rightarrow> nat \<Rightarrow> nat \<Rightarrow> nat \<Rightarrow> plan_case list" where
  "tcp_from c caps dscp d s w =
     (if sc_protocol c = Proto_Udp \<or> length (directions caps) \<le> d then []
      else drop w (tcp_row c dscp (directions caps ! d) (sc_tcp_streams c ! s))
        @ concat (map (tcp_row c dscp (directions caps ! d)) (drop (Suc s) (sc_tcp_streams c)))
        @ concat (map (tcp_block c dscp) (drop (Suc d) (directions caps))))"

definition saturation_from :: "suite_config \<Rightarrow> dscp_class \<Rightarrow> nat \<Rightarrow> nat \<Rightarrow> plan_case list" where
  "saturation_from c dscp k d = drop d (saturation_cases c dscp k)"

definition rest_of_dscp :: "suite_config \<Rightarrow> server_capabilities \<Rightarrow> dscp_class \<Rightarrow> plan_iter \<Rightarrow> plan_case list" where
  "rest_of_dscp c caps dscp it =
     (if pi_stage it = 0
      then tcp_from c caps dscp (pi_direction it) (pi_stream it) (pi_window it)
        @ fixed_cases c dscp @ saturation_cases c dscp 0
      else if pi_stage it = 1 then drop (pi_direction it) (fixed_cases c dscp) @ saturation_cases c dscp 0
      else saturation_from c dscp (unat (pi_saturation_step it)) (pi_direction it))"

definition remaining :: "suite_config \<Rightarrow> server_capabilities \<Rightarrow> plan_iter \<Rightarrow> plan_case list" where
  "remaining c caps it =
     (if length (sc_dscp_classes c) \<le> pi_dscp it then []
      else rest_of_dscp c caps (sc_dscp_classes c ! pi_dscp it) it
        @ concat (map (dscp_cases c caps) (drop (Suc (pi_dscp it)) (sc_dscp_classes c))))"

definition iter_inv :: "suite_config \<Rightarrow> server_capabilities \<Rightarrow> plan_iter \<Rightarrow> bool" where
  "iter_inv c caps it \<longleftrightarrow> pi_stage it \<le> 2 \<and>
     (pi_stage it = 0 \<longrightarrow> pi_stream it < length (sc_tcp_streams c)
        \<and> pi_window it < length (sc_tcp_windows_bytes c) \<and> pi_saturation_step it = 0) \<and>
     (pi_stage it = 0 \<and> (sc_protocol c = Proto_Udp \<or> length (directions caps) \<le> pi_direction it) \<longrightarrow>
        pi_stream it = 0 \<and> pi_window it = 0) \<and>
     (pi_stage it \<noteq> 0 \<longrightarrow> pi_stream it = 0 \<and> pi_window it = 0) \<and>
     (pi_stage it = 1 \<longrightarrow> pi_saturation_step it = 0) \<and>
     (pi_stage it = 2 \<longrightarrow> pi_direction it < 2)"

lemma tcp_from_step:
  assumes "d < length (directions caps)" "s < length (sc_tcp_streams c)"
    "w < length (sc_tcp_windows_bytes c)" "sc_protocol c \<noteq> Proto_Udp"
  shows "tcp_from c caps dscp d s w =
    tcp_case dscp (directions caps ! d) (sc_tcp_streams c ! s) (sc_tcp_windows_bytes c ! w) #
    (if Suc w < length (sc_tcp_windows_bytes c) then tcp_from c caps dscp d s (Suc w)
     else if Suc s < length (sc_tcp_streams c) then tcp_from c caps dscp d (Suc s) 0
     else tcp_from c caps dscp (Suc d) 0 0)"
proof -
  have row: "drop w (tcp_row c dscp dir st) =
      tcp_case dscp dir st (sc_tcp_windows_bytes c ! w) # drop (Suc w) (tcp_row c dscp dir st)" for dir st
    using Cons_nth_drop_Suc [of w "tcp_row c dscp dir st"] assms(3) by (simp add: tcp_row_def)
  have last_row: "drop (Suc w) (tcp_row c dscp dir st) = []" if "\<not> Suc w < length (sc_tcp_windows_bytes c)" for dir st
    using that by (simp add: tcp_row_def)
  have streams: "drop (Suc s) (sc_tcp_streams c) =
      sc_tcp_streams c ! Suc s # drop (Suc (Suc s)) (sc_tcp_streams c)" if "Suc s < length (sc_tcp_streams c)"
    using that by (rule Cons_nth_drop_Suc [symmetric])
  have dirs: "drop (Suc d) (directions caps) =
      directions caps ! Suc d # drop (Suc (Suc d)) (directions caps)" if "Suc d < length (directions caps)"
    using that by (rule Cons_nth_drop_Suc [symmetric])
  have block: "tcp_block c dscp dir = tcp_row c dscp dir (sc_tcp_streams c ! 0)
      @ concat (map (tcp_row c dscp dir) (drop (Suc 0) (sc_tcp_streams c)))" for dir
    using assms(2) by (cases "sc_tcp_streams c") (simp_all add: tcp_block_def)
  show ?thesis
    using assms row last_row streams dirs by (auto simp: tcp_from_def block not_less le_Suc_eq)
qed

lemma saturation_cases_step:
  "k < steps_n c \<Longrightarrow> sc_protocol c \<noteq> Proto_Tcp \<Longrightarrow>
     saturation_cases c dscp k = step_cases c dscp k @ saturation_cases c dscp (Suc k)"
  by (simp add: saturation_cases_def upt_conv_Cons)

lemma saturation_from_step:
  assumes "k < steps_n c" and "sc_protocol c \<noteq> Proto_Tcp" and "d < 2"
  shows "saturation_from c dscp k d =
    udp_case ([Dir_Tx, Dir_Rx] ! d) dscp (rate_n c k) Udp_Saturation #
    (if Suc d = 2 then saturation_from c dscp (Suc k) 0 else saturation_from c dscp k (Suc d))"
  using assms by (auto simp: saturation_from_def saturation_cases_step step_cases_def less_2_cases_iff)

lemma fixed_step:
  "sc_protocol c \<noteq> Proto_Tcp \<Longrightarrow> d < 2 \<Longrightarrow> drop d (fixed_cases c dscp) =
     udp_case ([Dir_Tx, Dir_Rx] ! d) dscp (sc_udp_start_bps c) Udp_Fixed # drop (Suc d) (fixed_cases c dscp)"
  by (auto simp: fixed_cases_def less_2_cases_iff)

lemma rest_of_dscp_start:
  assumes "valid_config c"
  shows "pi_stage it = 0 \<Longrightarrow> pi_direction it = 0 \<Longrightarrow> pi_stream it = 0 \<Longrightarrow> pi_window it = 0 \<Longrightarrow>
    rest_of_dscp c caps dscp it = dscp_cases c caps dscp"
proof -
  assume it: "pi_stage it = 0" "pi_direction it = 0" "pi_stream it = 0" "pi_window it = 0"
  have s: "sc_tcp_streams c \<noteq> []" by (rule valid_configD [OF assms])
  then have "tcp_block c dscp dir = tcp_row c dscp dir (sc_tcp_streams c ! 0)
      @ concat (map (tcp_row c dscp dir) (drop (Suc 0) (sc_tcp_streams c)))" for dir
    by (cases "sc_tcp_streams c") (simp_all add: tcp_block_def)
  then have "tcp_from c caps dscp 0 0 0 = tcp_cases c caps dscp"
    by (auto simp: tcp_from_def tcp_cases_def directions_def)
  with it show ?thesis by (simp add: rest_of_dscp_def dscp_cases_def)
qed

section \<open>One call of the iterator\<close>

definition takes_case ::
  "suite_config \<Rightarrow> server_capabilities \<Rightarrow> plan_iter \<Rightarrow> (test_spec option \<times> plan_iter, throughput_error) outcome \<Rightarrow> bool" where
  "takes_case c caps it r \<longleftrightarrow> (\<exists>pc it'. r = Ok (Some (spec_of c (pi_next_id it) pc), it') \<and>
     remaining c caps it = pc # remaining c caps it' \<and> iter_inv c caps it' \<and>
     pi_next_id it' = pi_next_id it + 1)"

lemma takes_caseI:
  "r = Ok (Some (spec_of c (pi_next_id it) pc), it') \<Longrightarrow> remaining c caps it = pc # remaining c caps it' \<Longrightarrow>
     iter_inv c caps it' \<Longrightarrow> pi_next_id it' = pi_next_id it + 1 \<Longrightarrow> takes_case c caps it r"
  unfolding takes_case_def by blast

lemma emit_Ok:
  "unat (pi_next_id it) + 1 < 2 ^ 64 \<Longrightarrow>
     emit c pc it = Ok (Some (spec_of c (pi_next_id it) pc), it\<lparr>pi_next_id := pi_next_id it + 1\<rparr>)"
  by (simp add: emit_def word_add_Ok)

lemma next_tcp_takes:
  assumes inv: "iter_inv c caps it" and i: "pi_dscp it < length (sc_dscp_classes c)"
    and it: "pi_stage it = 0" "sc_protocol c \<noteq> Proto_Udp" "pi_direction it < length (directions caps)"
    and id: "unat (pi_next_id it) + 1 < 2 ^ 64"
  shows "takes_case c caps it (next_tcp c (directions caps ! pi_direction it) (sc_dscp_classes c ! pi_dscp it) it)"
proof -
  let ?dscp = "sc_dscp_classes c ! pi_dscp it"
  have b: "pi_stream it < length (sc_tcp_streams c)" "pi_window it < length (sc_tcp_windows_bytes c)"
    "pi_saturation_step it = 0"
    using inv it by (simp_all add: iter_inv_def)
  let ?it = "advance_tcp c (it\<lparr>pi_next_id := pi_next_id it + 1\<rparr>)"
  let ?pc = "tcp_case ?dscp (directions caps ! pi_direction it) (sc_tcp_streams c ! pi_stream it)
    (sc_tcp_windows_bytes c ! pi_window it)"
  note step = tcp_from_step [OF it(3) b(1,2) it(2), of ?dscp]
  show ?thesis
  proof (rule takes_caseI)
    show "next_tcp c (directions caps ! pi_direction it) ?dscp it
        = Ok (Some (spec_of c (pi_next_id it) ?pc), ?it)"
      using b by (simp add: next_tcp_def byte_at_Ok emit_Ok [OF id] tcp_case_def)
    show "remaining c caps it = ?pc # remaining c caps ?it"
      using i it b step by (auto simp: remaining_def rest_of_dscp_def advance_tcp_def Let_def)
    show "iter_inv c caps ?it"
      using it b by (auto simp: iter_inv_def advance_tcp_def Let_def)
    show "pi_next_id ?it = pi_next_id it + 1"
      by (simp add: advance_tcp_def Let_def)
  qed
qed

lemma next_fixed_takes:
  assumes inv: "iter_inv c caps it" and i: "pi_dscp it < length (sc_dscp_classes c)"
    and it: "pi_stage it = 1" "sc_protocol c \<noteq> Proto_Tcp" "pi_direction it < 2"
    and id: "unat (pi_next_id it) + 1 < 2 ^ 64"
  shows "takes_case c caps it (next_fixed c (sc_dscp_classes c ! pi_dscp it) it)"
proof (rule takes_caseI)
  let ?dscp = "sc_dscp_classes c ! pi_dscp it"
  let ?it = "it\<lparr>pi_direction := pi_direction it + 1, pi_next_id := pi_next_id it + 1\<rparr>"
  let ?pc = "udp_case ([Dir_Tx, Dir_Rx] ! pi_direction it) ?dscp (sc_udp_start_bps c) Udp_Fixed"
  show "next_fixed c ?dscp it = Ok (Some (spec_of c (pi_next_id it) ?pc), ?it)"
    using it emit_Ok [of "it\<lparr>pi_direction := pi_direction it + 1\<rparr>" c ?pc] id
    by (simp add: next_fixed_def byte_at_Ok)
  show "remaining c caps it = ?pc # remaining c caps ?it"
    using i it fixed_step [OF it(2,3), of ?dscp] by (simp add: remaining_def rest_of_dscp_def)
  show "iter_inv c caps ?it"
    using inv it by (simp add: iter_inv_def)
qed simp

lemma next_saturation_takes:
  assumes v: "valid_config c" and inv: "iter_inv c caps it" and i: "pi_dscp it < length (sc_dscp_classes c)"
    and it: "pi_stage it = 2" "sc_protocol c \<noteq> Proto_Tcp" "unat (pi_saturation_step it) < steps_n c"
    and id: "unat (pi_next_id it) + 1 < 2 ^ 64"
  shows "takes_case c caps it (next_saturation c (sc_dscp_classes c ! pi_dscp it) it)"
proof -
  let ?dscp = "sc_dscp_classes c ! pi_dscp it"
  let ?k = "pi_saturation_step it"
  let ?pc = "udp_case ([Dir_Tx, Dir_Rx] ! pi_direction it) ?dscp (rate_n c (unat ?k)) Udp_Saturation"
  let ?moved = "if pi_direction it + 1 = 2 then it\<lparr>pi_direction := 0, pi_saturation_step := ?k + 1\<rparr>
    else it\<lparr>pi_direction := pi_direction it + 1\<rparr>"
  let ?it = "?moved\<lparr>pi_next_id := pi_next_id it + 1\<rparr>"
  have d: "pi_direction it < 2" using inv it by (simp add: iter_inv_def)
  have k: "unat ?k + 1 < 2 ^ 64"
    using it(3) by (simp add: steps_n_def split: if_splits)
  then have k1: "unat (?k + 1) = Suc (unat ?k)"
    by (simp add: unat_word_ariths)
  note rate = saturation_rate_n(1) [OF v it(3)]
  show ?thesis
  proof (rule takes_caseI)
    show "next_saturation c ?dscp it = Ok (Some (spec_of c (pi_next_id it) ?pc), ?it)"
      using d k emit_Ok [of ?moved c ?pc] id
      by (auto simp: next_saturation_def byte_at_Ok word_add_Ok rate)
    show "remaining c caps it = ?pc # remaining c caps ?it"
      using i it saturation_from_step [OF it(3,2) d, of ?dscp] k1
      by (auto simp: remaining_def rest_of_dscp_def)
    show "iter_inv c caps ?it"
      using inv it d by (auto simp: iter_inv_def)
  qed simp
qed

text \<open>Falling through to the next class leaves the same tests.\<close>

lemma next_dscp_remaining:
  assumes v: "valid_config c" and inv: "iter_inv c caps it" and i: "pi_dscp it < length (sc_dscp_classes c)"
    and empty: "rest_of_dscp c caps (sc_dscp_classes c ! pi_dscp it) it = []"
    and it': "it' = next_dscp (enter_stage 1 (enter_stage 0 it))"
  shows "remaining c caps it' = remaining c caps it" and "iter_inv c caps it'"
    and "pi_next_id it' = pi_next_id it"
proof -
  note cv = valid_configD [OF v]
  have e: "enter_stage 1 (enter_stage 0 it) = it \<or> enter_stage 1 (enter_stage 0 it) = it\<lparr>pi_stage := 2, pi_direction := 0\<rparr>"
    by (auto simp: enter_stage_def)
  have zero: "pi_stream it = 0 \<and> pi_window it = 0"
  proof (cases "pi_stage it = 0")
    case True
    have "sc_protocol c = Proto_Udp \<or> length (directions caps) \<le> pi_direction it"
    proof (rule ccontr)
      assume "\<not> ?thesis"
      then have "tcp_from c caps (sc_dscp_classes c ! pi_dscp it) (pi_direction it) (pi_stream it) (pi_window it) \<noteq> []"
        using inv True tcp_from_step [of "pi_direction it" caps "pi_stream it" c "pi_window it"]
        by (simp add: iter_inv_def not_le)
      with empty True show False by (simp add: rest_of_dscp_def)
    qed
    with inv True show ?thesis by (auto simp: iter_inv_def)
  qed (use inv in \<open>simp add: iter_inv_def\<close>)
  from e zero cv show "iter_inv c caps it'"
    by (auto simp: it' iter_inv_def next_dscp_def directions_def)
  show "pi_next_id it' = pi_next_id it"
    using e by (auto simp: it' next_dscp_def)
  have "drop (Suc (pi_dscp it)) (sc_dscp_classes c) =
      sc_dscp_classes c ! Suc (pi_dscp it) # drop (Suc (Suc (pi_dscp it))) (sc_dscp_classes c)"
    if "Suc (pi_dscp it) < length (sc_dscp_classes c)"
    using that by (rule Cons_nth_drop_Suc [symmetric])
  moreover have "rest_of_dscp c caps dscp it' = dscp_cases c caps dscp" for dscp
    using e zero by (intro rest_of_dscp_start [OF v]) (auto simp: it' next_dscp_def)
  moreover have "pi_dscp it' = Suc (pi_dscp it)"
    using e by (auto simp: it' next_dscp_def)
  ultimately show "remaining c caps it' = remaining c caps it"
    using i empty by (auto simp: remaining_def not_le)
qed

lemma rest_after_stage:
  assumes "\<not> (pi_stage it = 0 \<and> sc_protocol c \<noteq> Proto_Udp \<and> pi_direction it < length (directions caps))"
  shows "rest_of_dscp c caps dscp (enter_stage 0 it) = rest_of_dscp c caps dscp it"
    and "iter_inv c caps it \<Longrightarrow> iter_inv c caps (enter_stage 0 it)"
  using assms by (auto simp: enter_stage_def rest_of_dscp_def tcp_from_def iter_inv_def)

lemma rest_after_fixed:
  assumes "\<not> (pi_stage it = 1 \<and> sc_protocol c \<noteq> Proto_Tcp \<and> pi_direction it < 2)" and "pi_stage it \<noteq> 0"
  shows "rest_of_dscp c caps dscp (enter_stage 1 it) = rest_of_dscp c caps dscp it \<or> iter_inv c caps it \<longrightarrow>
      rest_of_dscp c caps dscp (enter_stage 1 it) = rest_of_dscp c caps dscp it"
    and "iter_inv c caps it \<Longrightarrow> iter_inv c caps (enter_stage 1 it) \<and> pi_stage (enter_stage 1 it) = 2"
  using assms by (auto simp: enter_stage_def rest_of_dscp_def iter_inv_def fixed_cases_def saturation_from_def)

lemma takes_case_cong:
  "remaining c caps it' = remaining c caps it \<Longrightarrow> pi_next_id it' = pi_next_id it \<Longrightarrow>
     takes_case c caps it' r \<Longrightarrow> takes_case c caps it r"
  by (simp add: takes_case_def)

lemma next_loop_step:
  assumes "valid_config c" and "iter_inv c caps it" and "unat (pi_next_id it) + 1 < 2 ^ 64"
  shows "takes_case c caps it (next_loop c caps it) \<or>
    remaining c caps it = [] \<and> (\<exists>it'. next_loop c caps it = Ok (None, it'))"
  using assms
proof (induction c caps it rule: next_loop.induct)
  case (1 c caps it)
  note v = "1.prems"(1) and inv = "1.prems"(2) and id = "1.prems"(3)
  note loop = next_loop.simps [of c caps it]
  show ?case
  proof (cases "length (sc_dscp_classes c) \<le> pi_dscp it")
    case True
    then show ?thesis by (simp add: loop remaining_def)
  next
    case i: False
    then have i': "pi_dscp it < length (sc_dscp_classes c)" by simp
    let ?dscp = "sc_dscp_classes c ! pi_dscp it"
    show ?thesis
    proof (cases "pi_stage it = 0 \<and> sc_protocol c \<noteq> Proto_Udp \<and> pi_direction it < length (directions caps)")
      case True
      with i show ?thesis
        using next_tcp_takes [OF inv i' _ _ _ id] by (simp add: loop Let_def)
    next
      case tcp: False
      let ?it1 = "enter_stage 0 it"
      have same1: "pi_next_id ?it1 = pi_next_id it" "pi_dscp ?it1 = pi_dscp it" "pi_stage ?it1 \<noteq> 0"
        by (simp_all add: enter_stage_def)
      have rem1: "remaining c caps ?it1 = remaining c caps it"
        by (simp add: remaining_def same1 rest_after_stage(1) [OF tcp])
      note inv1 = rest_after_stage(2) [OF tcp inv]
      show ?thesis
      proof (cases "pi_stage ?it1 = 1 \<and> sc_protocol c \<noteq> Proto_Tcp \<and> pi_direction ?it1 < 2")
        case True
        then have "takes_case c caps ?it1 (next_fixed c ?dscp ?it1)"
          using next_fixed_takes [OF inv1] i' id same1 by simp
        then have "takes_case c caps it (next_fixed c ?dscp ?it1)"
          by (rule takes_case_cong [OF rem1 same1(1)])
        moreover have "next_loop c caps it = next_fixed c ?dscp ?it1"
          using i tcp True by (auto simp: loop Let_def)
        ultimately show ?thesis by simp
      next
        case fixed: False
        let ?it2 = "enter_stage 1 ?it1"
        have same2: "pi_next_id ?it2 = pi_next_id it" "pi_dscp ?it2 = pi_dscp it"
          using same1 by (simp_all add: enter_stage_def)
        have rest2: "rest_of_dscp c caps ?dscp ?it2 = rest_of_dscp c caps ?dscp it"
          using rest_after_fixed(1) [OF fixed same1(3)] inv1 rest_after_stage(1) [OF tcp] by metis
        then have rem2: "remaining c caps ?it2 = remaining c caps it"
          by (simp only: remaining_def same2)
        note inv2 = rest_after_fixed(2) [OF fixed same1(3) inv1]
        let ?steps = "if sc_protocol c \<noteq> Proto_Tcp \<and> sc_udp_start_bps c < sc_udp_max_bps c
            then and_then (steps_of c) (\<lambda>steps. Ok (pi_saturation_step ?it2 < steps)) else Ok False"
        have more: "?steps = Ok (sc_protocol c \<noteq> Proto_Tcp \<and> unat (pi_saturation_step ?it2) < steps_n c)"
          using steps_of_Ok [OF v]
          by (auto simp: word_less_nat_alt steps_n_def)
        have unfold: "next_loop c caps it = and_then ?steps (\<lambda>more. if more then next_saturation c ?dscp ?it2
            else next_loop c caps (next_dscp ?it2))"
          unfolding loop Let_def if_not_P [OF i] if_not_P [OF tcp] if_not_P [OF fixed] by (rule refl)
        show ?thesis
        proof (cases "sc_protocol c \<noteq> Proto_Tcp \<and> unat (pi_saturation_step ?it2) < steps_n c")
          case True
          then have "takes_case c caps ?it2 (next_saturation c ?dscp ?it2)"
            using next_saturation_takes [OF v, of caps ?it2] inv2 i' id same2 by simp
          then have "takes_case c caps it (next_saturation c ?dscp ?it2)"
            by (rule takes_case_cong [OF rem2 same2(1)])
          moreover have "next_loop c caps it = next_saturation c ?dscp ?it2"
            using True unfolding unfold more by simp
          ultimately show ?thesis by simp
        next
          case False
          then have "rest_of_dscp c caps ?dscp it = []"
            unfolding rest2 [symmetric] using inv2
            by (auto simp: rest_of_dscp_def saturation_from_def saturation_cases_def)
          note d = next_dscp_remaining [OF v inv i' this refl]
          have "takes_case c caps (next_dscp ?it2) (next_loop c caps (next_dscp ?it2)) \<or>
              remaining c caps (next_dscp ?it2) = [] \<and> (\<exists>it'. next_loop c caps (next_dscp ?it2) = Ok (None, it'))"
            using False by (intro "1.IH" [OF i refl tcp refl fixed refl more _ v])
              (use d id in simp_all)
          moreover have "next_loop c caps it = next_loop c caps (next_dscp ?it2)"
            using False unfolding unfold more by auto
          ultimately show ?thesis
            using takes_case_cong [OF d(1) d(3)] d(1) by auto
        qed
      qed
    qed
  qed
qed

section \<open>The whole run of the iterator\<close>

lemma collect_loop:
  assumes "valid_config (tp_config p)" and "\<not> sc_single_test (tp_config p)"
    and "iter_inv (tp_config p) (tp_capabilities p) it"
    and "unat (pi_next_id it) + length (remaining (tp_config p) (tp_capabilities p) it) + 1 < 2 ^ 64"
    and "length (remaining (tp_config p) (tp_capabilities p) it) < fuel"
  shows "collect fuel p it =
    Ok (numbered (tp_config p) (pi_next_id it) (remaining (tp_config p) (tp_capabilities p) it))"
  using assms(3-5)
proof (induction fuel arbitrary: it)
  case (Suc fuel)
  let ?c = "tp_config p" and ?caps = "tp_capabilities p"
  have id: "unat (pi_next_id it) + 1 < 2 ^ 64" using Suc.prems(2) by simp
  consider (one) "takes_case ?c ?caps it (next_loop ?c ?caps it)"
    | (none) "remaining ?c ?caps it = []" "\<exists>it'. next_loop ?c ?caps it = Ok (None, it')"
    using next_loop_step [OF assms(1) Suc.prems(1) id] by blast
  then show ?case
  proof cases
    case one
    then obtain pc it' where t: "next_loop ?c ?caps it = Ok (Some (spec_of ?c (pi_next_id it) pc), it')"
      "remaining ?c ?caps it = pc # remaining ?c ?caps it'" "iter_inv ?c ?caps it'"
      "pi_next_id it' = pi_next_id it + 1"
      unfolding takes_case_def by blast
    have "unat (pi_next_id it + 1) = unat (pi_next_id it) + 1"
      using id by (simp add: unat_word_ariths)
    then have "collect fuel p it' = Ok (numbered ?c (pi_next_id it') (remaining ?c ?caps it'))"
      using Suc.prems t by (intro Suc.IH) simp_all
    with t assms(2) show ?thesis by (simp add: next_test_def)
  next
    case none
    then show ?thesis using assms(2) by (auto simp: next_test_def)
  qed
qed simp

section \<open>The announced number of tests\<close>

lemma word_mul_Ok:
  "unat a * unat b < 2 ^ LENGTH('a) \<Longrightarrow>
     word_mul a b = (Ok (a * b) :: ('a word, throughput_error) outcome) \<and> unat (a * b) = unat a * unat b"
  for a b :: "'a::len word"
  by (simp add: word_mul_def unat_word_ariths)

lemma word_add_unat:
  "unat a + unat b < 2 ^ LENGTH('a) \<Longrightarrow>
     word_add a b = (Ok (a + b) :: ('a word, throughput_error) outcome) \<and> unat (a + b) = unat a + unat b"
  for a b :: "'a::len word"
  by (simp add: word_add_def unat_word_ariths)

lemma unat_len_u64: "length xs < 2 ^ 64 \<Longrightarrow> unat (len_u64 xs) = length xs"
  unfolding len_u64_def unat_of_nat by (intro mod_less) simp

lemma length_concat_const:
  "\<forall>x \<in> set xs. length (f x) = n \<Longrightarrow> length (concat (map f xs)) = length xs * n"
  by (induction xs) auto

lemma length_tcp_cases:
  "length (tcp_cases c caps dscp) = (if sc_protocol c = Proto_Udp then 0
     else (if sc_bidirectional caps then 3 else 2) * (length (sc_tcp_streams c) * length (sc_tcp_windows_bytes c)))"
proof -
  have "length (tcp_block c dscp dir) = length (sc_tcp_streams c) * length (sc_tcp_windows_bytes c)" for dir
    unfolding tcp_block_def by (rule length_concat_const) (simp add: tcp_row_def)
  then show ?thesis
    by (auto simp: tcp_cases_def length_concat_const directions_def simp del: length_concat)
qed

lemma length_udp_cases:
  "length (fixed_cases c dscp @ saturation_cases c dscp 0) =
     (if sc_protocol c = Proto_Tcp then 0 else 2 + 2 * steps_n c)"
  using length_concat_const [of "[0..<steps_n c]" "step_cases c dscp" 2]
  by (simp add: fixed_cases_def saturation_cases_def step_cases_def del: length_concat)

lemma steps_n_bound: "steps_n c \<le> 1000"
  by (simp add: steps_n_def)

lemma total_tests_exact:
  assumes v: "valid_config c"
  shows "\<exists>w. total_tests c caps = Ok w \<and> unat w = length (suite_cases c caps)"
    and "length (suite_cases c caps) \<le> 2000000"
proof -
  note cv = valid_configD [OF v]
  let ?S = "length (sc_tcp_streams c)" and ?W = "length (sc_tcp_windows_bytes c)"
    and ?D = "length (sc_dscp_classes c)"
  define T where "T = (if sc_protocol c = Proto_Udp then 0 else (if sc_bidirectional caps then 3 else 2) * (?S * ?W))"
  define U where "U = (if sc_protocol c = Proto_Tcp then 0 else 2 + 2 * steps_n c)"
  have sw: "?S * ?W \<le> 128 * 128" using cv(4,7) by (rule mult_le_mono)
  have T: "T \<le> 49152" using sw by (simp add: T_def)
  have U: "U \<le> 2002" using steps_n_bound [of c] by (simp add: U_def)
  have DT: "?D * (T + U) \<le> 21 * (49152 + 2002)"
    using cv(2) T U by (intro mult_le_mono) simp_all
  have cases: "length (suite_cases c caps) = (if sc_single_test c then 1 else ?D * (T + U))"
    using length_tcp_cases [of c caps] length_udp_cases [of c]
    by (simp add: suite_cases_def dscp_cases_def length_concat_const T_def U_def del: length_concat)
  show "length (suite_cases c caps) \<le> 2000000"
    using DT by (simp add: cases)
  show "\<exists>w. total_tests c caps = Ok w \<and> unat w = length (suite_cases c caps)"
  proof (cases "sc_single_test c")
    case True
    then show ?thesis
      by (simp add: total_tests_def tcp_per_dscp_def saturation_steps_def udp_per_dscp_def cases)
  next
    case False
    define dirs :: u64 where "dirs = (if sc_bidirectional caps then 3 else 2)"
    have dirs: "unat dirs = (if sc_bidirectional caps then 3 else 2)" by (simp add: dirs_def)
    have S: "unat (len_u64 (sc_tcp_streams c)) = ?S" and W: "unat (len_u64 (sc_tcp_windows_bytes c)) = ?W"
      and D: "unat (len_u64 (sc_dscp_classes c)) = ?D"
      using cv(2,4,7) by (simp_all add: unat_len_u64)
    obtain tcp where tcp: "tcp_per_dscp c caps = Ok tcp" "unat tcp = T"
    proof -
      have "unat dirs * ?S < 2 ^ 64" using cv(4) dirs by simp
      then have a: "word_mul dirs (len_u64 (sc_tcp_streams c)) =
          (Ok (dirs * len_u64 (sc_tcp_streams c)) :: (u64, throughput_error) outcome)"
        "unat (dirs * len_u64 (sc_tcp_streams c)) = unat dirs * ?S"
        using word_mul_Ok [of dirs "len_u64 (sc_tcp_streams c)"] S by simp_all
      have "unat dirs * ?S * ?W \<le> 49152" using sw dirs by simp
      then have b: "word_mul (dirs * len_u64 (sc_tcp_streams c)) (len_u64 (sc_tcp_windows_bytes c)) =
          (Ok (dirs * len_u64 (sc_tcp_streams c) * len_u64 (sc_tcp_windows_bytes c)) :: (u64, throughput_error) outcome)"
        "unat (dirs * len_u64 (sc_tcp_streams c) * len_u64 (sc_tcp_windows_bytes c)) = unat dirs * ?S * ?W"
        using word_mul_Ok [of "dirs * len_u64 (sc_tcp_streams c)" "len_u64 (sc_tcp_windows_bytes c)"] a W by simp_all
      show ?thesis
        using a b False dirs
        by (intro that [of "if sc_protocol c = Proto_Udp then 0
              else dirs * len_u64 (sc_tcp_streams c) * len_u64 (sc_tcp_windows_bytes c)"])
          (simp_all add: tcp_per_dscp_def T_def flip: dirs_def)
    qed
    obtain steps where steps: "saturation_steps c = Ok steps" "sc_protocol c \<noteq> Proto_Tcp \<Longrightarrow> unat steps = steps_n c"
      using steps_of_Ok [OF v] False
      by (cases "sc_protocol c = Proto_Tcp \<or> sc_udp_max_bps c \<le> sc_udp_start_bps c")
        (auto simp: saturation_steps_def not_le steps_n_def word_le_nat_alt word_less_nat_alt)
    obtain udp where udp: "udp_per_dscp c steps = Ok udp" "unat udp = U"
    proof (cases "sc_protocol c = Proto_Tcp")
      case True
      then show ?thesis using that by (simp add: udp_per_dscp_def U_def)
    next
      case p: False
      have m: "word_mul 2 steps = (Ok (2 * steps) :: (u64, throughput_error) outcome)" "unat (2 * steps) = 2 * steps_n c"
        using word_mul_Ok [of 2 steps] steps(2) [OF p] steps_n_bound [of c] by simp_all
      then have "word_add 2 (2 * steps) = (Ok (2 + 2 * steps) :: (u64, throughput_error) outcome)"
        "unat (2 + 2 * steps) = 2 + 2 * steps_n c"
        using word_add_unat [of 2 "2 * steps"] steps_n_bound [of c] by simp_all
      with m p False show ?thesis by (intro that) (auto simp: udp_per_dscp_def U_def)
    qed
    have s: "word_add tcp udp = (Ok (tcp + udp) :: (u64, throughput_error) outcome)" "unat (tcp + udp) = T + U"
      using word_add_unat [of tcp udp] tcp udp T U by simp_all
    then have "word_mul (len_u64 (sc_dscp_classes c)) (tcp + udp) =
        (Ok (len_u64 (sc_dscp_classes c) * (tcp + udp)) :: (u64, throughput_error) outcome)"
      "unat (len_u64 (sc_dscp_classes c) * (tcp + udp)) = ?D * (T + U)"
      using word_mul_Ok [of "len_u64 (sc_dscp_classes c)" "tcp + udp"] D DT by simp_all
    with s tcp steps udp False show ?thesis by (simp add: total_tests_def cases)
  qed
qed

section \<open>Properties\<close>

lemma planD:
  assumes "plan c caps = Ok p"
  shows "valid_config c" "tp_config p = c" "tp_capabilities p = caps"
    "unat (tp_total_tests p) = length (suite_cases c caps)"
proof -
  show v: "valid_config c"
    using assms by (auto simp: plan_def valid_config_def and_then_eq_Ok)
  show "tp_config p = c" "tp_capabilities p = caps" "unat (tp_total_tests p) = length (suite_cases c caps)"
    using assms total_tests_exact(1) [OF v, of caps]
    by (auto simp: plan_def and_then_eq_Ok split: if_splits)
qed

lemma plan_Ok:
  assumes "validate_config c = Ok ()" and "budget c = None"
  shows "\<exists>p. plan c caps = Ok p \<and> unat (tp_total_tests p) = length (suite_cases c caps)"
  using total_tests_exact(1) [of c caps] assms by (auto simp: plan_def valid_config_def)

text \<open>\<open>size_hint\<close> counts down from the announced number, one per test taken.\<close>

lemma size_hint_exact:
  assumes "1 \<le> pi_next_id it"
  shows "size_hint p it = Ok (unat (tp_total_tests p) - (unat (pi_next_id it) - 1))"
proof -
  have "unat (pi_next_id it - 1) = unat (pi_next_id it) - 1" using assms by (simp add: unat_sub)
  with assms show ?thesis by (simp add: size_hint_def word_sub_def unat_saturating_sub)
qed

text \<open>
  C19. Planning never panics, and decides exactly: the result is the first validation error, or the
  budget error that names the number of tests of the reference enumeration, or a plan that announces
  this number. Its estimate is that number times the seconds of one test.
\<close>

theorem plan_outcome:
  "plan c caps \<noteq> Panic \<and>
   (\<forall>e. validate_config c = Err e \<longrightarrow> plan c caps = Err e) \<and>
   (validate_config c = Ok () \<longrightarrow>
      (let n = length (suite_cases c caps) in
       if \<exists>m. budget c = Some m \<and> unat m < n
       then plan c caps = Err (TE_Budget_Exceeded (word_of_nat n) (the (budget c)))
       else \<exists>p. plan c caps = Ok p \<and> unat (tp_total_tests p) = n \<and> tp_max_total_tests p = budget c \<and>
         unat (tp_estimated_test_seconds p) = n * (unat (sc_duration_secs c) + unat (sc_omit_secs c))))"
proof (cases "validate_config c")
  case (Err e)
  then show ?thesis by (simp add: plan_def)
next
  case Panic
  then show ?thesis by (simp add: validate_config_def invalid_def split: if_splits)
next
  case (Ok u)
  then have v: "valid_config c" by (simp add: valid_config_def)
  obtain w where w: "total_tests c caps = Ok w" "unat w = length (suite_cases c caps)"
    using total_tests_exact(1) [OF v] by blast
  have "unat (sc_duration_secs c) \<le> 3600" "unat (sc_omit_secs c) \<le> 60"
    using valid_configD(18,19) [OF v] by (simp_all add: word_le_nat_alt)
  then have secs: "unat (sc_duration_secs c) + unat (sc_omit_secs c) \<le> 3660" by simp
  then have s: "unat (saturating_add (sc_duration_secs c) (sc_omit_secs c)) =
      unat (sc_duration_secs c) + unat (sc_omit_secs c)"
    by (simp add: unat_saturating_add)
  have "unat w * (unat (sc_duration_secs c) + unat (sc_omit_secs c)) \<le> 2000000 * 3660"
    using total_tests_exact(2) [OF v, of caps] w secs by (intro mult_le_mono) simp_all
  then have estimate: "unat (saturating_mul w (saturating_add (sc_duration_secs c) (sc_omit_secs c))) =
      unat w * (unat (sc_duration_secs c) + unat (sc_omit_secs c))"
    by (simp add: unat_saturating_mul s)
  have "w = word_of_nat (length (suite_cases c caps))" by (simp flip: w(2))
  with Ok w estimate show ?thesis
    by (auto simp: plan_def Let_def word_less_nat_alt split: option.splits)
qed

theorem plan_outcome_witness:
  "(let c = SuiteConfig_default\<lparr>sc_target := lit ''a'', sc_single_test := True\<rparr> in
     validate_config c = Ok () \<and> (\<exists>p. plan c ServerCapabilities_default = Ok p \<and> unat (tp_total_tests p) = 1))"
proof -
  let ?c = "SuiteConfig_default\<lparr>sc_target := lit ''a'', sc_single_test := True\<rparr>"
  have v: "validate_config ?c = Ok ()"
    by (simp add: validate_config_def SuiteConfig_default_def RetryPolicy_default_def lit_def bad_target_char_def
        is_whitespace_def is_control_def MAX_UDP_RATE_BPS_def MAX_CLIENT_TIMEOUT_MS_def is_finite_def)
  have "budget ?c = None" "length (suite_cases ?c ServerCapabilities_default) = 1"
    by (simp_all add: budget_def SuiteConfig_default_def suite_cases_def)
  with v plan_outcome [of ?c ServerCapabilities_default] show ?thesis by (auto simp: Let_def)
qed

text \<open>
  C20. The lazily computed plan is the reference enumeration: whoever collects the iterator gets, in
  order and with the ids 1, 2, ..., for every DSCP class the TCP matrix (direction by stream count by
  window), the two UDP tests at the start rate and the UDP ramp of both directions, and then nothing
  more; a single test is one test. The rates of the ramp start at \<open>udp_start_bps\<close>, rise by the step
  and stay within \<open>udp_max_bps\<close>. The index arithmetic never panics, and the announced number is the
  number of tests that come.
\<close>

theorem planned_tests_exact:
  assumes "plan c caps = Ok p" and "unat (tp_total_tests p) < fuel"
  shows "collect fuel p tests = Ok (numbered c 1 (suite_cases c caps)) \<and>
    unat (tp_total_tests p) = length (suite_cases c caps) \<and>
    (\<forall>k < steps_n c. unat (rate_n c k) = unat (sc_udp_start_bps c) + unat (sc_udp_step_bps c) * k \<and>
       rate_n c k \<le> sc_udp_max_bps c)"
proof -
  note p = planD [OF assms(1)]
  have n: "length (suite_cases c caps) \<le> 2000000" by (rule total_tests_exact [OF p(1)])
  have "collect fuel p tests = Ok (numbered c 1 (suite_cases c caps))"
  proof (cases "sc_single_test c")
    case True
    obtain dscp rest where d: "sc_dscp_classes c = dscp # rest"
      using valid_configD(1) [OF p(1)] by (cases "sc_dscp_classes c") auto
    obtain f where f: "fuel = Suc (Suc f)"
      using assms(2) True p(4) by (cases fuel; cases "fuel - 1") (auto simp: suite_cases_def)
    show ?thesis
      using True by (simp add: f p(2) next_test_def next_single_def tests_def byte_at_def d emit_def
          word_add_def Let_def suite_cases_def single_case_def)
  next
    case False
    have "iter_inv c caps tests"
      using valid_configD(3,6) [OF p(1)] by (simp add: iter_inv_def tests_def directions_def)
    moreover have "remaining c caps tests = suite_cases c caps"
    proof -
      have "rest_of_dscp c caps dscp tests = dscp_cases c caps dscp" for dscp
        by (rule rest_of_dscp_start [OF p(1)]) (simp_all add: tests_def)
      then show ?thesis using False valid_configD(1) [OF p(1)]
        by (cases "sc_dscp_classes c") (simp_all add: remaining_def suite_cases_def, simp_all add: tests_def)
    qed
    ultimately show ?thesis
      using collect_loop [of p tests fuel] p False assms(2) n
      by (simp add: tests_def)
  qed
  moreover have "unat (rate_n c k) = unat (sc_udp_start_bps c) + unat (sc_udp_step_bps c) * k \<and>
      rate_n c k \<le> sc_udp_max_bps c" if "k < steps_n c" for k
  proof -
    have "unat (word_of_nat k :: u64) = k"
      using that steps_n_bound [of c] by (simp add: unat_of_nat)
    then show ?thesis
      using saturation_rate_n(2) [OF p(1), of "word_of_nat k"] rate_bound [OF p(1) that] that
      by (simp add: word_le_nat_alt)
  qed
  ultimately show ?thesis using p(4) by blast
qed

theorem planned_tests_exact_witness:
  "(let c = SuiteConfig_default\<lparr>sc_target := lit ''a'', sc_protocol := Proto_Udp, sc_dscp_classes := [EF],
       sc_udp_start_bps := 2, sc_udp_max_bps := 5, sc_udp_step_bps := 3\<rparr> in
     \<exists>p. plan c ServerCapabilities_default = Ok p \<and>
       map_outcome (map sp_udp_rate_bps) id (collect 9 p tests) =
         Ok [Some 2, Some 2, Some 2, Some 2, Some 5, Some 5])"
proof -
  let ?c = "SuiteConfig_default\<lparr>sc_target := lit ''a'', sc_protocol := Proto_Udp, sc_dscp_classes := [EF],
       sc_udp_start_bps := 2, sc_udp_max_bps := 5, sc_udp_step_bps := 3\<rparr>"
  note eval = SuiteConfig_default_def RetryPolicy_default_def lit_def bad_target_char_def ServerCapabilities_default_def
  have v: "validate_config ?c = Ok ()"
    by (simp add: validate_config_def eval
        is_whitespace_def is_control_def MAX_UDP_RATE_BPS_def MAX_CLIENT_TIMEOUT_MS_def is_finite_def)
  have steps: "steps_n ?c = 2"
    by (simp add: steps_n_def eval)
  have cases: "suite_cases ?c ServerCapabilities_default =
      [udp_case Dir_Tx EF 2 Udp_Fixed, udp_case Dir_Rx EF 2 Udp_Fixed,
       udp_case Dir_Tx EF 2 Udp_Saturation, udp_case Dir_Rx EF 2 Udp_Saturation,
       udp_case Dir_Tx EF 5 Udp_Saturation, udp_case Dir_Rx EF 5 Udp_Saturation]"
    using steps
    by (simp add: suite_cases_def dscp_cases_def tcp_cases_def fixed_cases_def saturation_cases_def
        step_cases_def rate_n_def eval upt_rec)
  have "budget ?c = None" by (simp add: budget_def eval)
  then obtain p where p: "plan ?c ServerCapabilities_default = Ok p"
    "unat (tp_total_tests p) = length (suite_cases ?c ServerCapabilities_default)"
    using plan_Ok [of ?c ServerCapabilities_default] v by auto
  then have "collect 9 p tests = Ok (numbered ?c 1 (suite_cases ?c ServerCapabilities_default))"
    using planned_tests_exact [OF p(1), of 9] by (simp add: cases)
  with p(1) show ?thesis by (auto simp: Let_def cases spec_of_def udp_case_def)
qed

end
