(* ===== verification/Throughput_Metrics_Exact.thy ===== *)
theory Throughput_Metrics_Exact
  imports Throughput_Metrics
begin

text \<open>
  What an accepted test result says: the peer's streams are the established ones, the byte counts are
  exact sums, the loss is a percentage, and the stored peer text is bounded. The peer's JSON is
  arbitrary; nothing it contains makes the code panic.
\<close>

section \<open>The diagnostic bound\<close>

interpretation diagnostic_text: utf8_truncation "\<lambda>str maximum. fst (bounded_diagnostic str maximum)"
proof -
  have "(\<lambda>str maximum. fst (bounded_diagnostic str maximum)) = bounded_text"
    by (intro ext) (auto simp: bounded_diagnostic_def bounded_text_def min_def floor_boundary_id is_char_boundary_def)
  then show "utf8_truncation (\<lambda>str maximum. fst (bounded_diagnostic str maximum))"
    by (simp add: contracts_text.utf8_truncation_axioms)
qed

section \<open>Sums\<close>

lemma sum_checked_Ok:
  "sum_checked m acc ns = Ok r \<Longrightarrow> unat r = unat acc + (\<Sum>n\<leftarrow>ns. unat n)"
  by (induction ns arbitrary: acc) (auto simp: bad_def checked_add_unat split: option.splits)

lemma sum_checked_no_panic: "sum_checked m acc ns \<noteq> Panic"
  by (induction ns arbitrary: acc) (auto simp: bad_def split: option.splits)

lemma sum_words_Ok:
  "unat acc + (\<Sum>n\<leftarrow>ns. unat n) < 2 ^ 64 \<Longrightarrow>
     \<exists>r. sum_words acc ns = Ok r \<and> unat r = unat acc + (\<Sum>n\<leftarrow>ns. unat n)"
proof (induction ns arbitrary: acc)
  case (Cons n ns)
  then have "unat acc + unat n < 2 ^ 64" by simp
  then have "word_add acc n = (Ok (acc + n) :: (u64, throughput_error) outcome)" "unat (acc + n) = unat acc + unat n"
    by (simp_all add: word_add_def unat_word_ariths)
  with Cons.IH [of "acc + n"] Cons.prems show ?case by (simp add: add.assoc)
qed simp

definition count_of :: "'v json_api \<Rightarrow> bytes \<Rightarrow> 'v \<Rightarrow> nat" where
  "count_of js key v = (case integer js v key of Ok n \<Rightarrow> unat n | _ \<Rightarrow> 0)"

lemma integer_no_panic: "integer js v key \<noteq> Panic"
  by (simp add: integer_def bad_def split: option.split)

lemma number_no_panic: "number js v key \<noteq> Panic"
  by (simp add: number_def bad_def split: option.split)

lemma integers_Ok:
  "integers js key m acc vs = Ok r \<Longrightarrow> unat r = unat acc + (\<Sum>v\<leftarrow>vs. count_of js key v)"
  by (induction vs arbitrary: acc)
    (auto simp: bad_def count_of_def checked_add_unat and_then_eq_Ok split: option.splits)

lemma integers_no_panic: "integers js key m acc vs \<noteq> Panic"
proof (induction vs arbitrary: acc)
  case (Cons v vs)
  then show ?case
    using integer_no_panic [of js v key] by (cases "integer js v key") (auto simp: bad_def split: option.splits)
qed simp

lemma numbers_of_no_panic: "numbers_of js key vs \<noteq> Panic"
proof (induction vs)
  case (Cons v vs)
  then show ?case
    using number_no_panic [of js v key] by (cases "number js v key"; cases "numbers_of js key vs") auto
qed simp

section \<open>The peer's streams\<close>

definition id_of :: "'v json_api \<Rightarrow> 'v \<Rightarrow> u64" where
  "id_of js v = (case integer js v (lit ''id'') of Ok n \<Rightarrow> n | _ \<Rightarrow> 0)"

definition local_ids :: "stream_outcome list \<Rightarrow> u64 list" where
  "local_ids outcomes = map (\<lambda>o'. word_of_nat (so_id o')) outcomes"

lemma peer_stream_Ok:
  assumes "peer_stream js spec outcomes s pt = Ok pt'"
  shows "pt_ids pt' = id_of js s # pt_ids pt" "id_of js s \<notin> set (pt_ids pt)"
    "id_of js s \<in> set (local_ids outcomes)"
    "unat (pt_bytes pt') = unat (pt_bytes pt) + count_of js (lit ''bytes'') s"
    "sp_protocol spec = Proto_Udp \<longrightarrow> count_of js (lit ''errors'') s \<le> count_of js (lit ''packets'') s"
proof -
  obtain ident where i: "integer js s (lit ''id'') = Ok ident" "ident \<notin> set (pt_ids pt)"
    "list_ex (\<lambda>o'. word_of_nat (so_id o') = ident) outcomes"
    using assms by (auto simp: peer_stream_def bad_def and_then_eq_Ok split: if_splits)
  obtain bytes where b: "integer js s (lit ''bytes'') = Ok bytes"
    using assms by (auto simp: peer_stream_def bad_def and_then_eq_Ok split: if_splits)
  have r: "pt_ids pt' = ident # pt_ids pt \<and> checked_add (pt_bytes pt) bytes = Some (pt_bytes pt') \<and>
      check_udp_fields js spec s = Ok ()"
    using assms i b by (auto simp: peer_stream_def bad_def and_then_eq_Ok split: if_splits option.splits)
  show "pt_ids pt' = id_of js s # pt_ids pt" "id_of js s \<notin> set (pt_ids pt)" "id_of js s \<in> set (local_ids outcomes)"
    using r i by (auto simp: id_of_def local_ids_def list_ex_iff)
  show "unat (pt_bytes pt') = unat (pt_bytes pt) + count_of js (lit ''bytes'') s"
    using r b checked_add_unat by (auto simp: count_of_def)
  show "sp_protocol spec = Proto_Udp \<longrightarrow> count_of js (lit ''errors'') s \<le> count_of js (lit ''packets'') s"
    using r by (auto simp: check_udp_fields_def bad_def and_then_eq_Ok count_of_def word_le_nat_alt not_less split: if_splits)
qed

lemma peer_streams_Ok:
  "peer_streams js spec outcomes ss pt = Ok pt' \<Longrightarrow>
     pt_ids pt' = rev (map (id_of js) ss) @ pt_ids pt \<and>
     (distinct (pt_ids pt) \<longrightarrow> distinct (pt_ids pt')) \<and>
     id_of js ` set ss \<subseteq> set (local_ids outcomes) \<and>
     unat (pt_bytes pt') = unat (pt_bytes pt) + (\<Sum>s\<leftarrow>ss. count_of js (lit ''bytes'') s) \<and>
     (sp_protocol spec = Proto_Udp \<longrightarrow>
        (\<forall>s \<in> set ss. count_of js (lit ''errors'') s \<le> count_of js (lit ''packets'') s))"
proof (induction ss arbitrary: pt)
  case (Cons s ss)
  then obtain pt1 where p: "peer_stream js spec outcomes s pt = Ok pt1"
    "peer_streams js spec outcomes ss pt1 = Ok pt'"
    by (auto simp: and_then_eq_Ok)
  note IH = Cons.IH [OF p(2)] and one = peer_stream_Ok [OF p(1)]
  have "distinct (pt_ids pt) \<longrightarrow> distinct (pt_ids pt')"
    using IH one(1,2) by (metis distinct.simps(2))
  then show ?case
    using IH one by (intro conjI) (simp_all, blast?)
qed simp

text \<open>As many distinct known ids as there are streams: they are the established streams.\<close>

lemma ids_established:
  assumes "distinct xs" and "set xs \<subseteq> set ys" and "length xs = length ys"
  shows "set xs = set ys" and "distinct ys"
proof -
  have "card (set xs) = length ys" using assms(1,3) by (simp add: distinct_card)
  moreover have "card (set ys) \<le> length ys" by (rule card_length)
  moreover have "card (set xs) \<le> card (set ys)" using assms(2) by (intro card_mono) simp_all
  ultimately have c: "card (set xs) = card (set ys)" "card (set ys) = length ys" by linarith+
  show "set xs = set ys" using assms(2) c(1) by (intro card_subset_eq) simp_all
  show "distinct ys" using c(2) by (rule card_distinct)
qed

lemma peer_stream_no_panic: "peer_stream js spec outcomes s pt \<noteq> Panic"
proof -
  have u: "check_udp_fields js spec s \<noteq> Panic"
    using integer_no_panic [of js s] number_no_panic [of js s]
    by (auto simp: check_udp_fields_def bad_def and_then_def split: outcome.splits)
  have r: "add_retransmits js s x \<noteq> Panic" for x
    by (auto simp: add_retransmits_def bad_def split: option.splits)
  show ?thesis
    using integer_no_panic [of js s] number_no_panic [of js s] u r
    by (auto simp: peer_stream_def bad_def and_then_def split: outcome.splits option.splits)
qed

lemma peer_streams_no_panic: "peer_streams js spec outcomes ss pt \<noteq> Panic"
proof (induction ss arbitrary: pt)
  case (Cons s ss)
  then show ?case
    using peer_stream_no_panic [of js spec outcomes s pt] by (cases "peer_stream js spec outcomes s pt") auto
qed simp

section \<open>The result\<close>

definition udp_packets :: "'v json_api \<Rightarrow> test_spec \<Rightarrow> stream_outcome list \<Rightarrow> 'v list \<Rightarrow> nat" where
  "udp_packets js spec outcomes streams = (if sp_direction spec = Dir_Tx
     then (\<Sum>s\<leftarrow>streams. count_of js (lit ''packets'') s)
     else (\<Sum>o'\<leftarrow>of_role False outcomes. unat (so_packets o')))"

lemma sum_list_le: "\<forall>x \<in> set xs. f x \<le> (g x :: nat) \<Longrightarrow> (\<Sum>x\<leftarrow>xs. f x) \<le> (\<Sum>x\<leftarrow>xs. g x)"
  by (induction xs) auto

lemma loss_percent_bounds:
  assumes "loss_percent e p = Some x" and "unat e \<le> unat p" and "unat p < 2 ^ 46"
  shows "\<exists>v. x = Fin v \<and> 0 \<le> v \<and> v \<le> 100"
proof -
  have p: "0 < unat p" "x = f_div (f_mul (f_of_nat (unat e)) (Fin 100)) (f_of_nat (unat p))"
    using assms(1) by (auto simp: loss_percent_def word_less_nat_alt split: if_splits)
  from percentage_46 [OF assms(2) p(1) assms(3)] show ?thesis using p(2) by metis
qed

lemma udp_metrics_loss:
  assumes ok: "udp_metrics js spec outcomes streams = Ok (Some x, jitter)"
    and own: "\<forall>o' \<in> set outcomes. so_errors o' \<le> so_packets o'"
    and peer: "sp_protocol spec = Proto_Udp \<Longrightarrow>
      \<forall>s \<in> set streams. count_of js (lit ''errors'') s \<le> count_of js (lit ''packets'') s"
    and small: "udp_packets js spec outcomes streams < 2 ^ 46"
  shows "\<exists>v. x = Fin v \<and> 0 \<le> v \<and> v \<le> 100"
proof (cases "sp_direction spec = Dir_Tx")
  case True
  have udp: "sp_protocol spec = Proto_Udp" using ok by (auto simp: udp_metrics_def split: if_splits)
  with ok True obtain p e where pe:
    "integers js (lit ''packets'') (lit ''Packet count overflow'') 0 streams = Ok p"
    "integers js (lit ''errors'') (lit ''Loss count overflow'') 0 streams = Ok e"
    "loss_percent e p = Some x"
    by (auto simp: udp_metrics_def and_then_eq_Ok)
  have "unat e \<le> unat p"
    using integers_Ok [OF pe(1)] integers_Ok [OF pe(2)] sum_list_le [OF peer [OF udp]] by simp
  moreover have "unat p < 2 ^ 46"
    using small integers_Ok [OF pe(1)] True by (simp add: udp_packets_def)
  ultimately show ?thesis by (rule loss_percent_bounds [OF pe(3)])
next
  case False
  let ?P = "map so_packets (of_role False outcomes)" and ?E = "map so_errors (of_role False outcomes)"
  have udp: "sp_protocol spec = Proto_Udp" using ok by (auto simp: udp_metrics_def split: if_splits)
  have le: "(\<Sum>n\<leftarrow>?E. unat n) \<le> (\<Sum>n\<leftarrow>?P. unat n)"
    using own sum_list_le [of "of_role False outcomes" "\<lambda>o'. unat (so_errors o')" "\<lambda>o'. unat (so_packets o')"]
    by (simp add: of_role_def word_le_nat_alt o_def)
  have P: "(\<Sum>n\<leftarrow>?P. unat n) < 2 ^ 46" using small False by (simp add: udp_packets_def o_def)
  obtain p where p: "sum_words 0 ?P = Ok p" "unat p = (\<Sum>n\<leftarrow>?P. unat n)"
    using sum_words_Ok [of 0 ?P] P by auto
  obtain e where e: "sum_words 0 ?E = Ok e" "unat e = (\<Sum>n\<leftarrow>?E. unat n)"
    using sum_words_Ok [of 0 ?E] P le by auto
  have "loss_percent e p = Some x"
    using ok False udp p e by (simp add: udp_metrics_def)
  moreover have "unat e \<le> unat p" "unat p < 2 ^ 46"
    using p(2) e(2) le P by simp_all
  ultimately show ?thesis by (rule loss_percent_bounds)
qed

text \<open>
  A test result that is accepted is consistent with both sides: the ids of the peer's streams are
  exactly those of the established streams, each once; the bytes sent and received are the exact sums
  over the local streams of that role, or over the peer's streams for the direction only the peer
  saw; the loss is a percentage (below \<open>2 ^ 46\<close> packets, where \<open>f64\<close> is exact); and the stored peer
  text is a prefix of the encoded result within 16 KiB.
\<close>

lemma build_result_consistent:
  assumes "build_result js spec attempts elapsed outcomes v = Ok r"
    and "\<forall>o' \<in> set outcomes. so_errors o' \<le> so_packets o'"
  shows "\<exists>streams encoded. Option.bind (js_get js v (lit ''streams'')) (js_array js) = Some streams \<and>
    set (map (id_of js) streams) = set (local_ids outcomes) \<and> distinct (map (id_of js) streams) \<and>
    distinct (local_ids outcomes) \<and>
    (let own = (\<lambda>sender. \<Sum>o'\<leftarrow>of_role sender outcomes. unat (so_bytes o'));
         peer = (\<Sum>s\<leftarrow>streams. count_of js (lit ''bytes'') s) in
     unat (tr_bytes_sent r) = (if sp_direction spec = Dir_Rx then peer else own True) \<and>
     unat (tr_bytes_received r) = (if sp_direction spec = Dir_Tx then peer else own False)) \<and>
    (udp_packets js spec outcomes streams < 2 ^ 46 \<longrightarrow>
       (\<forall>x. tr_loss_pct r = Some x \<longrightarrow> (\<exists>p. x = Fin p \<and> 0 \<le> p \<and> p \<le> 100))) \<and>
    js_encode js v = Inr encoded \<and> length (tr_server_result r) \<le> 16384 \<and>
    (\<exists>rest. encoded = tr_server_result r @ rest)"
proof -
  obtain streams pt sent received tx rx loss jitter encoded where
    s: "Option.bind (js_get js v (lit ''streams'')) (js_array js) = Some streams" "length streams = length outcomes"
    and pt: "peer_streams js spec outcomes streams peer_start = Ok pt"
    and t: "traffic spec outcomes pt = Ok (sent, received, tx, rx)"
    and u: "udp_metrics js spec outcomes streams = Ok (loss, jitter)"
    and e: "encode_json js v = Ok encoded"
    and r: "tr_bytes_sent r = sent" "tr_bytes_received r = received" "tr_loss_pct r = loss"
      "tr_server_result r = fst (bounded_diagnostic encoded (16 * 1024))"
    using assms(1)
    by (auto simp: build_result_def bad_def and_then_eq_Ok Let_def split: option.splits if_splits prod.splits)
  note peer = peer_streams_Ok [OF pt]
  have ids: "distinct (map (id_of js) streams)" "set (map (id_of js) streams) \<subseteq> set (local_ids outcomes)"
    "length (map (id_of js) streams) = length (local_ids outcomes)"
  proof -
    have "pt_ids pt = rev (map (id_of js) streams) @ pt_ids peer_start" "distinct (pt_ids pt)"
      proof -
      show "pt_ids pt = rev (map (id_of js) streams) @ pt_ids peer_start" using peer by blast
      have "distinct (pt_ids peer_start)" by (simp add: peer_start_def)
      with peer show "distinct (pt_ids pt)" by blast
    qed
    then show "distinct (map (id_of js) streams)" by (simp add: peer_start_def)
    show "set (map (id_of js) streams) \<subseteq> set (local_ids outcomes)" using peer by simp
    show "length (map (id_of js) streams) = length (local_ids outcomes)"
      using s(2) by (simp add: local_ids_def)
  qed
  have bytes: "unat (pt_bytes pt) = (\<Sum>s\<leftarrow>streams. count_of js (lit ''bytes'') s)"
    using peer by (simp add: peer_start_def)
  have own: "unat x = (\<Sum>o'\<leftarrow>of_role sender outcomes. unat (so_bytes o'))"
    if "sum_bytes outcomes sender = Ok x" for sender x
    using sum_checked_Ok [OF that [unfolded sum_bytes_def]] by (simp add: o_def)
  have traffic: "unat sent = (if sp_direction spec = Dir_Rx then unat (pt_bytes pt)
        else (\<Sum>o'\<leftarrow>of_role True outcomes. unat (so_bytes o')))"
    "unat received = (if sp_direction spec = Dir_Tx then unat (pt_bytes pt)
        else (\<Sum>o'\<leftarrow>of_role False outcomes. unat (so_bytes o')))"
    using t own by (auto simp: traffic_def and_then_eq_Ok split: direction.splits)
  have loss: "\<exists>p. x = Fin p \<and> 0 \<le> p \<and> p \<le> 100"
    if "udp_packets js spec outcomes streams < 2 ^ 46" "loss = Some x" for x
    using u assms(2) peer that by (intro udp_metrics_loss [of js spec outcomes streams x jitter]) simp_all
  have "js_encode js v = Inr encoded"
    using e by (auto simp: encode_json_def split: sum.splits)
  then show ?thesis
    using s ids ids_established [OF ids] bytes traffic loss r
      diagnostic_text.truncate_length [of encoded "16 * 1024"] diagnostic_text.truncate_prefix [of encoded "16 * 1024"]
    by (intro exI [of _ streams] exI [of _ encoded]) (simp add: Let_def)
qed

section \<open>Hostile results\<close>

lemma sum_rate_no_panic: "sum_rate_loop acc os \<noteq> Panic"
  by (induction os arbitrary: acc) (simp_all add: bad_def)

lemma traffic_no_panic: "traffic spec outcomes pt \<noteq> Panic"
  using sum_checked_no_panic sum_rate_no_panic
  by (auto simp: traffic_def sum_bytes_def sum_rate_def and_then_def split: direction.splits outcome.splits)

lemma udp_metrics_no_panic:
  assumes "(\<Sum>o'\<leftarrow>of_role False outcomes. unat (so_packets o')) < 2 ^ 64"
    and "\<forall>o' \<in> set outcomes. so_errors o' \<le> so_packets o'"
  shows "udp_metrics js spec outcomes streams \<noteq> Panic"
proof -
  let ?P = "map so_packets (of_role False outcomes)" and ?E = "map so_errors (of_role False outcomes)"
  have "(\<Sum>n\<leftarrow>?E. unat n) \<le> (\<Sum>n\<leftarrow>?P. unat n)"
    using assms(2) sum_list_le [of "of_role False outcomes" "\<lambda>o'. unat (so_errors o')" "\<lambda>o'. unat (so_packets o')"]
    by (simp add: of_role_def word_le_nat_alt o_def)
  with assms(1) obtain p e where "sum_words 0 ?P = Ok p" "sum_words 0 ?E = Ok e"
    using sum_words_Ok [of 0 ?P] sum_words_Ok [of 0 ?E] by (auto simp: o_def)
  then show ?thesis
    using integers_no_panic [of js] numbers_of_no_panic [of js]
    by (auto simp: udp_metrics_def and_then_def split: outcome.splits)
qed

text \<open>
  The peer cannot crash the client with its result: for every JSON value, whatever its accessors
  return, building the result is a result or an error, provided the client's own packet counters,
  which the receiver keeps below \<open>2 ^ 64\<close> with errors within packets, add up to less than \<open>2 ^ 64\<close>.
  A result without a stream array, or with another number of streams than were established, is
  malformed.
\<close>

lemma build_result_rejects:
  assumes "(\<Sum>o'\<leftarrow>of_role False outcomes. unat (so_packets o')) < 2 ^ 64"
    and "\<forall>o' \<in> set outcomes. so_errors o' \<le> so_packets o'"
  shows "build_result js spec attempts elapsed outcomes v \<noteq> Panic \<and>
    ((case Option.bind (js_get js v (lit ''streams'')) (js_array js) of
        None \<Rightarrow> True | Some streams \<Rightarrow> length streams \<noteq> length outcomes) \<longrightarrow>
      (\<exists>m. build_result js spec attempts elapsed outcomes v = Err (TE_Malformed_Result m)))"
proof -
  have e: "encode_json js v \<noteq> Panic" by (simp add: encode_json_def split: sum.split)
  note n = udp_metrics_no_panic [OF assms, of js spec] peer_streams_no_panic [of js spec outcomes]
    traffic_no_panic [of spec outcomes]
  have "build_result js spec attempts elapsed outcomes v \<noteq> Panic"
    using e n by (auto simp: build_result_def bad_def and_then_def Let_def split: option.splits outcome.splits)
  then show ?thesis
    by (auto simp: build_result_def bad_def split: option.splits)
qed

text \<open>
  A concrete instance of the JSON parameter: a value is an object of numbers, an array or nothing.
\<close>

datatype toy_json = Toy_Num nat | Toy_Arr "toy_json list" | Toy_Obj "(bytes \<times> toy_json) list"

definition toy_result :: toy_json where
  "toy_result = Toy_Obj [(lit ''streams'', Toy_Arr [Toy_Obj [(lit ''id'', Toy_Num 1),
     (lit ''bytes'', Toy_Num 5), (lit ''start_time'', Toy_Num 0), (lit ''end_time'', Toy_Num 2)]])]"

definition toy_api :: "toy_json json_api" where
  "toy_api = \<lparr>js_make = (\<lambda>_. Toy_Arr []), js_get = (\<lambda>v key. case v of Toy_Obj kvs \<Rightarrow> map_of kvs key | _ \<Rightarrow> None),
     js_array = (\<lambda>v. case v of Toy_Arr vs \<Rightarrow> Some vs | _ \<Rightarrow> None),
     js_u64 = (\<lambda>v. case v of Toy_Num n \<Rightarrow> Some (word_of_nat n) | _ \<Rightarrow> None),
     js_i64 = (\<lambda>v. case v of Toy_Num n \<Rightarrow> Some (int n) | _ \<Rightarrow> None),
     js_f64 = (\<lambda>v. case v of Toy_Num n \<Rightarrow> Some (Fin (of_nat n)) | _ \<Rightarrow> None),
     js_encode = (\<lambda>v. Inr []), js_decode = (\<lambda>bs. Inr toy_result)\<rparr>"

definition toy_spec :: test_spec where
  "toy_spec = \<lparr>sp_id = 1, sp_target = lit ''a'', sp_port = 1, sp_ip_version = Ip_Auto, sp_protocol = Proto_Tcp,
     sp_direction = Dir_Tx, sp_dscp = CS0, sp_tos = 0, sp_streams = 1, sp_tcp_window_bytes = None,
     sp_udp_rate_bps = None, sp_duration_secs = 1, sp_omit_secs = 0, sp_phase = Single\<rparr>"

lemma toy_fields [simp]: "js_get toy_api (Toy_Obj kvs) key = map_of kvs key"
  "js_array toy_api (Toy_Arr vs) = Some vs" "js_u64 toy_api (Toy_Num n) = Some (word_of_nat n)"
  "js_i64 toy_api (Toy_Num n) = Some (int n)" "js_f64 toy_api (Toy_Num n) = Some (Fin (of_nat n))"
  "js_encode toy_api v = Inr []" "js_decode toy_api bs = Inr toy_result" "js_make toy_api a = Toy_Arr []"
  by (simp_all add: toy_api_def)

lemma toy_build: "\<exists>r. build_result toy_api toy_spec 1 0 [stream_result 1 True 7 (Fin 1)] toy_result = Ok r"
  by (simp add: build_result_def toy_result_def toy_spec_def lit_def peer_stream_def integer_def number_def
      peer_start_def stream_result_def checked_add_def add_retransmits_def check_udp_fields_def traffic_def
      sum_bytes_def sum_rate_def of_role_def udp_metrics_def encode_json_def Let_def)

end
