(* ===== verification/Throughput_Client_Exact.thy ===== *)
theory Throughput_Client_Exact
  imports Throughput_Client Throughput_Plan_Exact Throughput_Metrics_Exact
begin

text \<open>
  The client and its neighbours: every planned test is accepted by the client, its control messages
  are read back as written, a completed test has walked through the protocol states in order, and the
  retry policy is bounded and decided by the first conclusive attempt.
\<close>

section \<open>Planned tests are runnable\<close>

lemma chars_nonempty: "valid_utf8 s \<Longrightarrow> s \<noteq> [] \<Longrightarrow> chars s \<noteq> []"
  by (cases s) (auto split: list.splits if_splits)

definition runnable_case :: "plan_case \<Rightarrow> bool" where
  "runnable_case pc \<longleftrightarrow> pc_protocol pc \<noteq> Proto_Both \<and> pc_streams pc \<noteq> 0 \<and> pc_streams pc \<le> 128 \<and>
     (pc_protocol pc = Proto_Udp \<longrightarrow>
       (\<exists>r. pc_udp_rate pc = Some r \<and> 0 < unat r \<and> unat r \<le> 10000000000))"

lemma suite_cases_runnable:
  assumes "valid_config c" and "pc \<in> set (suite_cases c caps)"
  shows "runnable_case pc"
proof -
  note cv = valid_configD [OF assms(1)]
  have streams: "n \<noteq> 0 \<and> n \<le> 128" if "n \<in> set (sc_tcp_streams c)" for n
    using cv(5) that by (force simp: word_le_nat_alt)
  have rate: "0 < unat (rate_n c k) \<and> unat (rate_n c k) \<le> 10000000000" if "k < steps_n c" for k
  proof -
    have k: "unat (word_of_nat k :: u64) = k"
      using that steps_n_bound [of c] by (simp add: unat_of_nat)
    then have "unat (rate_n c k) = unat (sc_udp_start_bps c) + unat (sc_udp_step_bps c) * k"
      using saturation_rate_n(2) [OF assms(1), of "word_of_nat k"] that by simp
    then show ?thesis using rate_bound [OF assms(1) that] cv(8,12) by linarith
  qed
  show ?thesis
  proof (cases "sc_single_test c")
    case True
    then show ?thesis using assms(2) cv(8,9)
      by (auto simp: suite_cases_def single_case_def runnable_case_def Let_def)
  next
    case False
    then obtain dscp where "pc \<in> set (tcp_cases c caps dscp) \<or> pc \<in> set (fixed_cases c dscp)
        \<or> pc \<in> set (saturation_cases c dscp 0)"
      using assms(2) by (auto simp: suite_cases_def dscp_cases_def)
    then show ?thesis
      using streams rate cv(8,9)
      by (auto simp: tcp_cases_def tcp_block_def tcp_row_def tcp_case_def fixed_cases_def udp_case_def
          saturation_cases_def step_cases_def runnable_case_def split: if_splits)
  qed
qed

lemma numbered_elem:
  "spec \<in> set (numbered c ident pcs) \<Longrightarrow> \<exists>i pc. i < length pcs \<and> pc \<in> set pcs \<and> spec = spec_of c (ident + word_of_nat i) pc"
proof (induction pcs arbitrary: ident)
  case (Cons pc pcs)
  show ?case
  proof (cases "spec = spec_of c ident pc")
    case True
    then show ?thesis by (intro exI [of _ 0] exI [of _ pc]) simp
  next
    case False
    with Cons obtain i pc' where "i < length pcs" "pc' \<in> set pcs" "spec = spec_of c (ident + 1 + word_of_nat i) pc'"
      by fastforce
    then show ?thesis by (intro exI [of _ "Suc i"] exI [of _ pc']) (simp add: ac_simps)
  qed
qed simp

text \<open>
  C21. Whatever a validated suite plans, the client runs: each test the plan yields passes the client's
  own check of a test specification, so no planned test is refused as invalid. (A Rust string is valid
  UTF-8.)
\<close>

theorem planned_tests_accepted:
  assumes "plan c caps = Ok p" and "valid_utf8 (sc_target c)"
    and "spec \<in> set (numbered c 1 (suite_cases c caps))"
  shows "validate_spec spec = Ok ()"
proof -
  note v = planD(1) [OF assms(1)]
  note cv = valid_configD [OF v]
  obtain i pc where i: "i < length (suite_cases c caps)" "pc \<in> set (suite_cases c caps)"
    "spec = spec_of c (1 + word_of_nat i) pc"
    using numbered_elem [OF assms(3)] by blast
  have "unat (1 + word_of_nat i :: u64) = Suc i"
    using i(1) total_tests_exact(2) [OF v, of caps] by (simp add: unat_word_ariths unat_of_nat)
  then have id: "1 + word_of_nat i \<noteq> (0 :: u64)" by (metis nat.distinct(1) unsigned_0)
  have target: "\<not> list_all is_whitespace (chars (sc_target c))"
    using chars_nonempty [OF assms(2) cv(13)] cv(15)
    by (cases "chars (sc_target c)") (auto simp: bad_target_char_def)
  have "runnable_case pc" by (rule suite_cases_runnable [OF v i(2)])
  then show ?thesis
    using id target cv(14-19)
    by (auto simp: i(3) validate_spec_def spec_of_def runnable_case_def MAX_UDP_RATE_BPS_def word_le_nat_alt
        word_less_nat_alt Let_def split: option.splits)
qed

theorem planned_tests_accepted_witness:
  "(let c = SuiteConfig_default\<lparr>sc_target := lit ''a'', sc_single_test := True\<rparr> in
    \<exists>p. plan c ServerCapabilities_default = Ok p \<and>
      validate_spec (hd (numbered c 1 (suite_cases c ServerCapabilities_default))) = Ok ())"
proof -
  let ?c = "SuiteConfig_default\<lparr>sc_target := lit ''a'', sc_single_test := True\<rparr>"
  note eval = SuiteConfig_default_def RetryPolicy_default_def lit_def bad_target_char_def
  have v: "validate_config ?c = Ok ()" "budget ?c = None"
    by (simp_all add: validate_config_def budget_def eval
        is_whitespace_def is_control_def MAX_UDP_RATE_BPS_def MAX_CLIENT_TIMEOUT_MS_def is_finite_def)
  obtain p where p: "plan ?c ServerCapabilities_default = Ok p"
    using plan_Ok [OF v] by blast
  moreover have "hd (numbered ?c 1 (suite_cases ?c ServerCapabilities_default))
      \<in> set (numbered ?c 1 (suite_cases ?c ServerCapabilities_default))"
    by (simp add: suite_cases_def eval)
  ultimately show ?thesis
    using planned_tests_accepted [OF p, of "hd (numbered ?c 1 (suite_cases ?c ServerCapabilities_default))"]
    by (simp add: Let_def lit_def)
qed

section \<open>Control messages\<close>

definition json_frame :: "bytes \<Rightarrow> bytes" where
  "json_frame bs = to_be (word_of_nat (length bs) :: u32) @ bs"

lemma small_length_first_byte:
  assumes "length bs \<le> 1024 * 1024"
  shows "\<exists>b c d. to_be (word_of_nat (length bs) :: u32) = [0, b, c, d]"
proof -
  have "length bs div 16777216 = 0" using assms by simp
  moreover have "unat (word_of_nat (length bs) :: u32) = length bs"
    unfolding unat_of_nat using assms by (intro mod_less) simp
  ultimately show ?thesis
    by (simp add: to_be_def be_bytes_numeral div_mult2_eq [symmetric])
qed

lemma read_exact_append:
  "length bs = n \<Longrightarrow> ct_input ctl = bs @ rest \<Longrightarrow> read_exact cl phase io n ctl = Ok (bs, ctl\<lparr>ct_input := rest\<rparr>)"
  by (simp add: read_exact_def)

lemma read_json_frame:
  assumes "length bs \<le> ic_max_control_json_bytes cl" and "ic_max_control_json_bytes cl \<le> 1024 * 1024"
    and "js_decode js bs = Inr v" and "ct_input ctl = json_frame bs @ rest"
  shows "read_json js cl ctl = Ok (v, ctl\<lparr>ct_input := rest\<rparr>)"
proof -
  obtain b c d where l: "to_be (word_of_nat (length bs) :: u32) = [0, b, c, d]"
    using small_length_first_byte [of bs] assms(1,2) by auto
  have len: "unat (from_be [0, b, c, d] :: u32) = length bs"
    unfolding l [symmetric] from_be_to_be_sizes unat_of_nat using assms(1,2) by (intro mod_less) simp
  have input: "ct_input ctl = [0] @ [b, c, d] @ bs @ rest"
    using assms(4) by (simp add: json_frame_def l)
  show ?thesis
    using assms(1,3) len
    by (simp add: read_json_def read_exact_append [OF _ input] read_exact_append [where bs = "[b, c, d]"]
        read_exact_append [where bs = bs] byte_at_def SERVER_ERROR_def ACCESS_DENIED_def Let_def decode_json_def)
qed

lemma write_json_frame:
  assumes "js_encode js v = Inr bs" and "length bs \<le> ic_max_control_json_bytes cl"
    and "ic_max_control_json_bytes cl \<le> 1024 * 1024" and "ct_write_faults ctl = []"
  shows "write_json js cl v ctl = Ok (ctl\<lparr>ct_output := ct_output ctl @ json_frame bs\<rparr>)"
  using assms by (simp add: write_json_def encode_json_def write_all_def json_frame_def u32_max_def)

text \<open>
  A control message is read back as it was written: for a client whose limits were accepted, a
  value whose encoding fits the limit is written as one length-prefixed frame, and reading this frame
  returns the value and leaves the rest of the stream untouched. The first byte of a frame is never
  one of the states \<open>SERVER_ERROR\<close> and \<open>ACCESS_DENIED\<close> that the reader looks for in the same place,
  because the accepted limit keeps a frame below 16 MiB. (\<open>serde_json\<close> decodes what it encoded.)
\<close>

lemma control_json_roundtrip:
  assumes "with_limits connect_ms control_ms max_json = Ok cl"
    and "js_encode js v = Inr bs" and "js_decode js bs = Inr v" and "length bs \<le> max_json"
  shows "(ct_write_faults ctl = [] \<longrightarrow>
      write_json js cl v ctl = Ok (ctl\<lparr>ct_output := ct_output ctl @ json_frame bs\<rparr>)) \<and>
    read_json js cl (ctl\<lparr>ct_input := json_frame bs @ rest\<rparr>) = Ok (v, ctl\<lparr>ct_input := rest\<rparr>) \<and>
    hd (json_frame bs) \<notin> {SERVER_ERROR, ACCESS_DENIED}"
proof -
  have cl: "ic_max_control_json_bytes cl = max_json" "max_json \<le> 1024 * 1024"
    using assms(1) by (auto simp: with_limits_def invalid_def split: if_splits)
  obtain b c d where "to_be (word_of_nat (length bs) :: u32) = [0, b, c, d]"
    using small_length_first_byte [of bs] assms(4) cl by auto
  then have "hd (json_frame bs) = 0" by (simp add: json_frame_def)
  moreover have "read_json js cl (ctl\<lparr>ct_input := json_frame bs @ rest\<rparr>) = Ok (v, ctl\<lparr>ct_input := rest\<rparr>)"
    using read_json_frame [of bs cl js v "ctl\<lparr>ct_input := json_frame bs @ rest\<rparr>" rest] assms cl by simp
  ultimately show ?thesis
    using write_json_frame [OF assms(2), of cl ctl] assms(4) cl
    by (simp add: SERVER_ERROR_def ACCESS_DENIED_def)
qed

section \<open>The protocol states\<close>

text \<open>
  Every answer of the server at a state boundary is classified: the expected state is taken, a
  busy or terminating server is reported as such, a server error carries the two codes that follow,
  any other byte names the state that was expected, and a connection that closes, stalls or is
  cancelled gives the I/O, timeout or cancellation error.
\<close>

lemma expect_state_outcome:
  assumes "wanted \<notin> {ACCESS_DENIED, SERVER_TERMINATE, SERVER_ERROR}"
  shows "expect_state cl wanted ctl = (case ct_input ctl of
     [] \<Rightarrow> fail cl ''control state'' ''control state'' (ct_ending ctl)
   | state # rest \<Rightarrow>
       if state = wanted then Ok (ctl\<lparr>ct_input := rest\<rparr>)
       else if state = ACCESS_DENIED then Err TE_Server_Busy
       else if state = SERVER_TERMINATE then Err (TE_Server 11 0)
       else if state = SERVER_ERROR then
         (if 8 \<le> length rest then Err (TE_Server (from_be (take 4 rest)) (from_be (take 4 (drop 4 rest))))
          else fail cl ''server error'' ''server error'' (ct_ending ctl))
       else Err (TE_Unexpected_State state (state_name wanted)))"
proof (cases "ct_input ctl")
  case (Cons state rest)
  have "take 4 (take 8 rest) = take 4 rest" "drop 4 (take 8 rest) = take 4 (drop 4 rest)"
    by (simp_all add: take_drop min_def)
  then show ?thesis
    using assms Cons
    by (auto simp: expect_state_def read_exact_def byte_at_def server_codes_def SERVER_TERMINATE_def
        SERVER_ERROR_def ACCESS_DENIED_def fail_def)
qed (simp add: expect_state_def read_exact_def fail_def)

lemma expect_state_flow:
  "expect_state cl wanted ctl = Ok ctl' \<Longrightarrow>
     ct_input ctl = wanted # ct_input ctl' \<and> ct_output ctl' = ct_output ctl"
  by (cases "ct_input ctl")
    (auto simp: expect_state_def read_exact_def byte_at_def fail_def and_then_eq_Ok split: if_splits)

lemma write_all_Ok:
  "write_all cl phase data ctl = Ok ctl' \<Longrightarrow>
     ct_output ctl' = ct_output ctl @ data \<and> ct_input ctl' = ct_input ctl"
  by (auto simp: write_all_def fail_def split: list.splits option.splits)

lemma write_json_Ok:
  assumes "write_json js cl v ctl = Ok ctl'"
  shows "\<exists>bs. js_encode js v = Inr bs \<and> ct_output ctl' = ct_output ctl @ json_frame bs \<and> ct_input ctl' = ct_input ctl"
proof -
  obtain bs ctl1 where "js_encode js v = Inr bs"
    "write_all cl ''control JSON write'' (to_be (word_of_nat (length bs) :: u32)) ctl = Ok ctl1"
    "write_all cl ''control JSON write'' bs ctl1 = Ok ctl'"
    using assms by (auto simp: write_json_def encode_json_def and_then_eq_Ok split: sum.splits if_splits)
  then show ?thesis
    using write_all_Ok [of cl "''control JSON write''" "to_be (word_of_nat (length bs) :: u32)" ctl ctl1]
      write_all_Ok [of cl "''control JSON write''" bs ctl1 ctl'] by (simp add: json_frame_def)
qed

lemma read_exact_Ok:
  "read_exact cl phase io n ctl = Ok (bs, ctl') \<Longrightarrow>
     ct_input ctl = bs @ ct_input ctl' \<and> length bs = n \<and> ct_output ctl' = ct_output ctl"
  by (auto simp: read_exact_def fail_def split: if_splits)

lemma decode_json_Ok: "decode_json js bs = Ok v \<longleftrightarrow> js_decode js bs = Inr v"
  by (cases "js_decode js bs") (simp_all add: decode_json_def)

lemma read_json_Ok:
  assumes "read_json js cl ctl = Ok (v, ctl')"
  shows "\<exists>bs. ct_input ctl = json_frame bs @ ct_input ctl' \<and> js_decode js bs = Inr v \<and>
    length bs \<le> ic_max_control_json_bytes cl \<and> ct_output ctl' = ct_output ctl"
proof -
  obtain a ctl1 b ctl2 bs ctl3 where r:
    "read_exact cl ''control JSON read'' ''control JSON read'' 1 ctl = Ok (a, ctl1)"
    "read_exact cl ''control JSON read'' ''control JSON read'' 3 ctl1 = Ok (b, ctl2)"
    "read_exact cl ''control JSON read'' ''control JSON read'' (unat (from_be (a @ b) :: u32)) ctl2 = Ok (bs, ctl3)"
    "unat (from_be (a @ b) :: u32) \<le> ic_max_control_json_bytes cl" "js_decode js bs = Inr v" "ctl' = ctl3"
    using assms
    by (auto simp: read_json_def decode_json_Ok and_then_eq_Ok Let_def not_less split: if_splits)
  note e = read_exact_Ok [OF r(1)] read_exact_Ok [OF r(2)] read_exact_Ok [OF r(3)]
  have "length (a @ b) = 4" using e by simp
  then have "to_be (from_be (a @ b) :: u32) = a @ b" by (intro to_be_from_be) simp
  moreover have "word_of_nat (length bs) = (from_be (a @ b) :: u32)" using e by simp
  ultimately have "json_frame bs = a @ b @ bs" by (simp add: json_frame_def)
  with e r show ?thesis by (intro exI [of _ bs]) simp
qed

lemma connect_any_Ok: "connect_any connect spec e as = Ok (a, ctl) \<Longrightarrow> a \<in> set as \<and> connect a = Ok ctl"
  by (induction as arbitrary: e) (auto simp: no_address_def invalid_def split: outcome.splits if_splits option.splits)

lemma negotiate_Ok:
  assumes "negotiate net cl spec block ctl = Ok (senders, ctl')"
  shows "\<exists>params. js_encode (nt_json net) (js_make (nt_json net) (parameters (nt_version net) spec block)) = Inr params \<and>
    ct_output ctl' = ct_output ctl @ nt_cookie net @ json_frame params \<and>
    ct_input ctl = [PARAM_EXCHANGE, CREATE_STREAMS, TEST_START, TEST_RUNNING] @ ct_input ctl' \<and>
    create_streams (nt_open_stream net) spec = Ok senders"
proof -
  let ?js = "nt_json net"
  obtain c1 c2 c3 c4 c5 where s:
    "write_all cl ''control cookie'' (nt_cookie net) ctl = Ok c1"
    "expect_state cl PARAM_EXCHANGE c1 = Ok c2"
    "write_json ?js cl (js_make ?js (parameters (nt_version net) spec block)) c2 = Ok c3"
    "expect_state cl CREATE_STREAMS c3 = Ok c4" "create_streams (nt_open_stream net) spec = Ok senders"
    "expect_state cl TEST_START c4 = Ok c5" "expect_state cl TEST_RUNNING c5 = Ok ctl'"
    using assms by (auto simp: negotiate_def and_then_eq_Ok)
  obtain params where "js_encode ?js (js_make ?js (parameters (nt_version net) spec block)) = Inr params"
    "ct_output c3 = ct_output c2 @ json_frame params" "ct_input c3 = ct_input c2"
    using write_json_Ok [OF s(3)] by blast
  then show ?thesis
    using write_all_Ok [OF s(1)] expect_state_flow [OF s(2)] expect_state_flow [OF s(4)]
      expect_state_flow [OF s(6)] expect_state_flow [OF s(7)] s(5)
    by (intro exI [of _ params]) simp
qed

lemma exchange_results_Ok:
  assumes "exchange_results net cl outcomes ctl = Ok (v, ctl')"
  shows "\<exists>results reply. js_encode (nt_json net) (js_make (nt_json net) (client_results outcomes)) = Inr results \<and>
    js_decode (nt_json net) reply = Inr v \<and>
    ct_output ctl' = ct_output ctl @ [TEST_END] @ json_frame results @ [IPERF_DONE] \<and>
    ct_input ctl = [EXCHANGE_RESULTS] @ json_frame reply @ [DISPLAY_RESULTS] @ ct_input ctl'"
proof -
  let ?js = "nt_json net"
  obtain c1 c2 c3 c4 c5 where s:
    "write_all cl ''test end'' [TEST_END] ctl = Ok c1" "expect_state cl EXCHANGE_RESULTS c1 = Ok c2"
    "write_json ?js cl (js_make ?js (client_results outcomes)) c2 = Ok c3"
    "read_json ?js cl c3 = Ok (v, c4)" "expect_state cl DISPLAY_RESULTS c4 = Ok c5"
    "write_all cl ''completion state'' [IPERF_DONE] c5 = Ok ctl'"
    using assms by (auto simp: exchange_results_def and_then_eq_Ok)
  obtain results where w: "js_encode ?js (js_make ?js (client_results outcomes)) = Inr results"
    "ct_output c3 = ct_output c2 @ json_frame results" "ct_input c3 = ct_input c2"
    using write_json_Ok [OF s(3)] by blast
  obtain reply where r: "ct_input c3 = json_frame reply @ ct_input c4" "js_decode ?js reply = Inr v"
    "ct_output c4 = ct_output c3"
    using read_json_Ok [OF s(4)] by blast
  show ?thesis
    using write_all_Ok [OF s(1)] expect_state_flow [OF s(2)] w r expect_state_flow [OF s(5)] write_all_Ok [OF s(6)]
    by (intro exI [of _ results] exI [of _ reply]) simp
qed

text \<open>
  C24. A test that returns a result has gone through the whole protocol, in order and without skipping
  a state: on the control connection of one of the resolved addresses the server sent exactly
  \<open>PARAM_EXCHANGE\<close>, \<open>CREATE_STREAMS\<close>, \<open>TEST_START\<close>, \<open>TEST_RUNNING\<close>, \<open>EXCHANGE_RESULTS\<close>, one framed
  result and \<open>DISPLAY_RESULTS\<close>, and the client wrote the cookie, its framed parameters, \<open>TEST_END\<close>,
  its framed results and \<open>IPERF_DONE\<close>, and nothing else. The result is the one built from the framed
  peer result.
\<close>

theorem run_test_protocol:
  assumes "run_test_once net cl spec attempt = Ok (r, ctl')"
  shows "\<exists>address ctl params results reply outcomes v.
    nt_connect net address = Ok ctl \<and> validate_spec spec = Ok () \<and>
    ct_input ctl = [PARAM_EXCHANGE, CREATE_STREAMS, TEST_START, TEST_RUNNING, EXCHANGE_RESULTS]
      @ json_frame reply @ [DISPLAY_RESULTS] @ ct_input ctl' \<and>
    ct_output ctl' = ct_output ctl @ nt_cookie net @ json_frame params @ [TEST_END] @ json_frame results @ [IPERF_DONE] \<and>
    js_encode (nt_json net) (js_make (nt_json net)
      (parameters (nt_version net) spec (udp_block_size (snd address)))) = Inr params \<and>
    js_encode (nt_json net) (js_make (nt_json net) (client_results outcomes)) = Inr results \<and>
    js_decode (nt_json net) reply = Inr v \<and>
    build_result (nt_json net) spec attempt (nt_elapsed net) outcomes v = Ok r"
proof -
  obtain addresses address ctl senders ctl1 outcomes v where s:
    "validate_spec spec = Ok ()" "connect_any (nt_connect net) spec None addresses = Ok (address, ctl)"
    "negotiate net cl spec (udp_block_size (snd address)) ctl = Ok (senders, ctl1)"
    "exchange_results net cl outcomes ctl1 = Ok (v, ctl')"
    "build_result (nt_json net) spec attempt (nt_elapsed net) outcomes v = Ok r"
    using assms by (auto simp: run_test_once_def and_then_eq_Ok)
  obtain params where n: "js_encode (nt_json net) (js_make (nt_json net)
      (parameters (nt_version net) spec (udp_block_size (snd address)))) = Inr params"
    "ct_output ctl1 = ct_output ctl @ nt_cookie net @ json_frame params"
    "ct_input ctl = [PARAM_EXCHANGE, CREATE_STREAMS, TEST_START, TEST_RUNNING] @ ct_input ctl1"
    using negotiate_Ok [OF s(3)] by blast
  obtain results reply where e: "js_encode (nt_json net) (js_make (nt_json net) (client_results outcomes)) = Inr results"
    "js_decode (nt_json net) reply = Inr v"
    "ct_output ctl' = ct_output ctl1 @ [TEST_END] @ json_frame results @ [IPERF_DONE]"
    "ct_input ctl1 = [EXCHANGE_RESULTS] @ json_frame reply @ [DISPLAY_RESULTS] @ ct_input ctl'"
    using exchange_results_Ok [OF s(4)] by blast
  have "nt_connect net address = Ok ctl" using connect_any_Ok [OF s(2)] by blast
  with s n e show ?thesis
    by (intro exI [of _ address] exI [of _ ctl] exI [of _ params] exI [of _ results] exI [of _ reply]
        exI [of _ outcomes] exI [of _ v]) simp
qed

definition toy_net :: "toy_json net" where
  "toy_net = \<lparr>nt_json = toy_api, nt_lookup = (\<lambda>_. Ok [(lit ''a'', False)]),
     nt_connect = (\<lambda>_. Ok \<lparr>ct_input = [9, 10, 1, 2, 13] @ json_frame [] @ [14], ct_ending = Timed_Out_Waiting,
       ct_output = [], ct_write_faults = []\<rparr>),
     nt_nodelay = Ok (), nt_cookie = [0], nt_version = [], nt_open_stream = (\<lambda>_ _. Ok ()),
     nt_tasks = (\<lambda>ids. [Ok (stream_result 1 True 7 (Fin 1))]), nt_elapsed = 0\<rparr>"

theorem run_test_protocol_witness:
  "\<exists>r ctl. run_test_once toy_net Iperf3Client_new toy_spec 1 = Ok (r, ctl) \<and>
     ct_input ctl = [] \<and> hd (ct_output ctl) = 0"
proof -
  let ?cl = Iperf3Client_new
  let ?ctl = "\<lparr>ct_input = [9, 10, 1, 2, 13] @ json_frame [] @ [14], ct_ending = Timed_Out_Waiting,
       ct_output = [], ct_write_faults = []\<rparr>"
  have cl: "ic_max_control_json_bytes ?cl = 1024 * 1024" by (simp add: Iperf3Client_new_def)
  have e: "expect_state ?cl w (c\<lparr>ct_input := w # rest\<rparr>) = Ok (c\<lparr>ct_input := rest\<rparr>)"
    if "w \<notin> {ACCESS_DENIED, SERVER_TERMINATE, SERVER_ERROR}" for w c rest
    using that by (simp add: expect_state_def read_exact_def byte_at_def)
  have w: "write_json toy_api ?cl v c = Ok (c\<lparr>ct_output := ct_output c @ json_frame []\<rparr>)"
    if "ct_write_faults c = []" for v c
    using that cl by (intro write_json_frame) simp_all
  have j: "read_json toy_api ?cl (c\<lparr>ct_input := json_frame [] @ rest\<rparr>) = Ok (toy_result, c\<lparr>ct_input := rest\<rparr>)" for c rest
    using cl read_json_frame [of "[]" ?cl toy_api toy_result "c\<lparr>ct_input := json_frame [] @ rest\<rparr>" rest] by simp
  define A where "A = json_frame []"
  have n: "negotiate toy_net ?cl toy_spec b ?ctl =
      Ok ([True], ?ctl\<lparr>ct_output := [0] @ A, ct_input := 13 # A @ [14]\<rparr>)" for b
    using e [where w = PARAM_EXCHANGE and c = "?ctl\<lparr>ct_output := [0]\<rparr>" and rest = "[10, 1, 2, 13] @ A @ [14]"]
      e [where w = CREATE_STREAMS and c = "?ctl\<lparr>ct_output := [0] @ A\<rparr>" and rest = "[1, 2, 13] @ A @ [14]"]
      e [where w = TEST_START and c = "?ctl\<lparr>ct_output := [0] @ A\<rparr>" and rest = "[2, 13] @ A @ [14]"]
      e [where w = TEST_RUNNING and c = "?ctl\<lparr>ct_output := [0] @ A\<rparr>" and rest = "[13] @ A @ [14]"]
    by (simp add: negotiate_def toy_net_def write_all_def w control_states create_streams_def roles_def
        toy_spec_def Let_def flip: A_def)
  have x: "exchange_results toy_net ?cl os (?ctl\<lparr>ct_output := [0] @ A, ct_input := 13 # A @ [14]\<rparr>) =
      Ok (toy_result, ?ctl\<lparr>ct_output := [0] @ A @ [4] @ A @ [16], ct_input := []\<rparr>)" for os
    using e [where w = EXCHANGE_RESULTS and c = "?ctl\<lparr>ct_output := [0] @ A @ [4]\<rparr>" and rest = "A @ [14]"]
      e [where w = DISPLAY_RESULTS and c = "?ctl\<lparr>ct_output := [0] @ A @ [4] @ A\<rparr>" and rest = "[]"]
      j [where c = "?ctl\<lparr>ct_output := [0] @ A @ [4] @ A\<rparr>" and rest = "[14]"]
    by (simp add: exchange_results_def toy_net_def write_all_def w control_states flip: A_def)
  have v: "validate_spec toy_spec = Ok ()"
    by (simp add: validate_spec_def toy_spec_def lit_def bad_target_char_def is_whitespace_def is_control_def)
  have "\<exists>r ctl. run_test_once toy_net ?cl toy_spec 1 = Ok (r, ctl)"
    using toy_build v n x
    by (auto simp: run_test_once_def resolve_def toy_spec_def matches_version_def run_data_def toy_net_def
        stream_id_def Let_def)
  then obtain r ctl where "run_test_once toy_net ?cl toy_spec 1 = Ok (r, ctl)" by blast
  from run_test_protocol [OF this] this show ?thesis
    by (auto simp: toy_net_def json_frame_def Cons_eq_append_conv)
qed

section \<open>Retries\<close>

text \<open>Attempt \<open>k\<close> of \<open>n\<close> is followed by another one, or it decides the result.\<close>

definition goes_on ::
  "(u8 \<Rightarrow> ('a, throughput_error) outcome) \<Rightarrow> (u8 \<Rightarrow> bool) \<Rightarrow> (u8 \<Rightarrow> bool) \<Rightarrow> nat \<Rightarrow> bool" where
  "goes_on run cancelled backoff k \<longleftrightarrow> (\<exists>e. run (word_of_nat k) = Err e \<and> e \<noteq> TE_Cancelled \<and> retryable e \<and>
     \<not> cancelled (word_of_nat k) \<and> backoff (word_of_nat k))"

definition decides ::
  "(u8 \<Rightarrow> ('a, throughput_error) outcome) \<Rightarrow> (u8 \<Rightarrow> bool) \<Rightarrow> nat \<Rightarrow> nat \<Rightarrow> ('a, throughput_error) outcome" where
  "decides run cancelled n k = (case run (word_of_nat k) of
     Ok r \<Rightarrow> Ok r
   | Panic \<Rightarrow> Panic
   | Err e \<Rightarrow> Err (if e = TE_Cancelled \<or> cancelled (word_of_nat k) \<or> retryable e \<and> k < n then TE_Cancelled
       else if k = 1 then e else TE_Retries_Exhausted (word_of_nat k) e))"

lemma retry_loop_decided:
  assumes "i \<le> n" and "n < 256" and "1 \<le> i" and "unat attempts = n"
  shows "\<exists>k \<in> {i..n}. (\<forall>j \<in> {i..<k}. goes_on run cancelled backoff j) \<and>
    (k < n \<longrightarrow> \<not> goes_on run cancelled backoff k) \<and>
    retry_loop run cancelled backoff attempts e (map word_of_nat [i..<Suc n]) = decides run cancelled n k"
  using assms(1,3)
proof (induction "n - i" arbitrary: i e)
  case 0
  then have i: "i = n" by simp
  have a: "(word_of_nat n :: u8) = attempts" using assms(4) by auto
  have "\<not> attempts < attempts" by simp
  then have "retry_loop run cancelled backoff attempts e (map word_of_nat [i..<Suc n]) = decides run cancelled n n"
    using assms(2) 0 a i
    by (cases "n = 1") (auto simp: decides_def word_unat_eq_iff unat_of_nat split: outcome.split)
  then show ?case using i by (intro bexI [of _ n]) simp_all
next
  case (Suc d)
  then have i: "i < n" by simp
  then have upt: "map word_of_nat [i..<Suc n] = (word_of_nat i :: u8) # map word_of_nat [Suc i..<Suc n]"
    by (simp add: upt_rec)
  have u: "unat (word_of_nat i :: u8) = i" using i assms(2) by (simp add: unat_of_nat)
  then have lt: "(word_of_nat i :: u8) < attempts" using i assms(4) by (simp add: word_less_nat_alt)
  have one: "(word_of_nat i :: u8) = 1 \<longleftrightarrow> i = 1" using u by (auto simp: word_unat_eq_iff)
  show ?case
  proof (cases "goes_on run cancelled backoff i")
    case True
    then obtain e' where e': "run (word_of_nat i) = Err e'" "e' \<noteq> TE_Cancelled" "retryable e'"
      "\<not> cancelled (word_of_nat i)" "backoff (word_of_nat i)"
      by (auto simp: goes_on_def)
    have "d = n - Suc i" "Suc i \<le> n" "1 \<le> Suc i" using Suc.hyps(2) i by auto
    from Suc.hyps(1) [OF this, of "Some e'"] obtain k where k: "k \<in> {Suc i..n}"
      "\<forall>j \<in> {Suc i..<k}. goes_on run cancelled backoff j" "k < n \<longrightarrow> \<not> goes_on run cancelled backoff k"
      "retry_loop run cancelled backoff attempts (Some e') (map word_of_nat [Suc i..<Suc n]) = decides run cancelled n k"
      by blast
    have "\<forall>j \<in> {i..<k}. goes_on run cancelled backoff j"
    proof
      fix j assume "j \<in> {i..<k}"
      then show "goes_on run cancelled backoff j" using True k(2) by (cases "j = i") auto
    qed
    moreover have "retry_loop run cancelled backoff attempts e (map word_of_nat [i..<Suc n]) = decides run cancelled n k"
      using e' lt k(4) unfolding upt by simp
    ultimately show ?thesis using k(1,3) by (intro bexI [of _ k]) auto
  next
    case False
    then have "retry_loop run cancelled backoff attempts e (map word_of_nat [i..<Suc n]) = decides run cancelled n i"
      using lt one i unfolding upt by (auto simp: decides_def goes_on_def split: outcome.split)
    with False i show ?thesis by (intro bexI [of _ i]) auto
  qed
qed

text \<open>
  C25. A test is attempted at most \<open>max_retries + 1\<close> times (saturating at 255), and the result is that
  of the first attempt that is not followed by another: a success, the cancellation, the error itself
  after a single attempt, or the exhausted-retries error with the number of the attempt. Only I/O
  errors, timeouts and a busy server are retried, and neither a cancelled token nor an interrupted
  pause is.
\<close>

theorem retry_policy_decided:
  fixes run :: "u8 \<Rightarrow> ('a, throughput_error) outcome"
  shows "let n = min (unat (rp_max_retries retry) + 1) 255 in
    \<exists>k \<in> {1..n}. (\<forall>j \<in> {1..<k}. goes_on run cancelled backoff j) \<and>
      (k < n \<longrightarrow> \<not> goes_on run cancelled backoff k) \<and>
      run_test_with_retry run cancelled backoff retry = decides run cancelled n k"
proof -
  have "unat (saturating_add (rp_max_retries retry) 1) = min (unat (rp_max_retries retry) + 1) 255"
    by (simp add: unat_saturating_add)
  then show ?thesis
    using retry_loop_decided [of 1 "min (unat (rp_max_retries retry) + 1) 255"
        "saturating_add (rp_max_retries retry) 1" run cancelled backoff None]
    by (simp add: run_test_with_retry_def Let_def)
qed

theorem retry_policy_decided_witness:
  "run_test_with_retry (\<lambda>a. if a = 1 then Err TE_Server_Busy else Ok a) (\<lambda>_. False) (\<lambda>_. True)
     \<lparr>rp_max_retries = 2, rp_backoff_ms = 1\<rparr> = Ok 2"
proof -
  let ?run = "\<lambda>a :: u8. if a = 1 then Err TE_Server_Busy else Ok a"
  let ?res = "run_test_with_retry ?run (\<lambda>_. False) (\<lambda>_. True) \<lparr>rp_max_retries = 2, rp_backoff_ms = 1\<rparr>"
  obtain k where k: "k \<in> {1..3}" "\<forall>j \<in> {1..<k}. goes_on ?run (\<lambda>_. False) (\<lambda>_. True) j"
    "k < 3 \<longrightarrow> \<not> goes_on ?run (\<lambda>_. False) (\<lambda>_. True) k" "?res = decides ?run (\<lambda>_. False) 3 k"
    using retry_policy_decided [where retry = "\<lparr>rp_max_retries = 2, rp_backoff_ms = 1\<rparr>" and run = ?run
        and cancelled = "\<lambda>_. False" and backoff = "\<lambda>_. True"] by (auto simp: Let_def)
  have "goes_on ?run (\<lambda>_. False) (\<lambda>_. True) 1" "\<not> goes_on ?run (\<lambda>_. False) (\<lambda>_. True) 2"
    by (simp_all add: goes_on_def)
  moreover have "k = 1 \<or> k = 2 \<or> k = 3" using k(1) by auto
  ultimately have "k = 2" using k(2,3) by auto
  then show ?thesis using k(4) by (simp add: decides_def)
qed

end
