(* ===== verification/Throughput_Data_Exact.thy ===== *)
theory Throughput_Data_Exact
  imports Throughput_Data
begin

text \<open>
  The datagram statistics count exactly: although only a window of 65536 sequence numbers is
  remembered, every duplicate is recognised, and the reported loss is the number of sequence numbers
  that never came.
\<close>

section \<open>The window\<close>

text \<open>
  \<open>S\<close> holds the sequence numbers above the baseline \<open>b\<close> that were accepted; \<open>top\<close> is the highest
  of them, or the baseline.
\<close>

definition highest_of :: "nat \<Rightarrow> nat set \<Rightarrow> nat" where
  "highest_of b S = Max (insert b S)"

definition stats_inv :: "nat \<Rightarrow> nat set \<Rightarrow> datagram_stats \<Rightarrow> bool" where
  "stats_inv b S st \<longleftrightarrow> finite S \<and> (\<forall>s \<in> S. b < s \<and> s < 2 ^ 64) \<and>
     unat (ds_baseline st) = b \<and> unat (ds_highest st) = highest_of b S \<and>
     unat (ds_unique st) = card S \<and> length (ds_seen st) = REORDER_WINDOW \<and>
     (\<forall>i < REORDER_WINDOW. ds_seen st ! i \<noteq> 0 \<longrightarrow>
        unat (ds_seen st ! i) \<in> S \<and> unat (ds_seen st ! i) mod REORDER_WINDOW = i) \<and>
     (\<forall>s \<in> S. highest_of b S < s + REORDER_WINDOW \<longrightarrow> unat (ds_seen st ! (s mod REORDER_WINDOW)) = s)"

lemma window_pos: "0 < REORDER_WINDOW"
  by (simp add: REORDER_WINDOW_def)

lemma stats_inv_new: "stats_inv (unat b) {} (DatagramStats_new b)"
  by (simp add: stats_inv_def DatagramStats_new_def highest_of_def)

lemma highest_of_insert: "finite S \<Longrightarrow> highest_of b (insert u S) = max (highest_of b S) u"
  by (simp add: highest_of_def insert_commute [of b] max.commute)

lemma le_highest_of: "finite S \<Longrightarrow> s \<in> S \<Longrightarrow> s \<le> highest_of b S" "finite S \<Longrightarrow> b \<le> highest_of b S"
  by (simp_all add: highest_of_def)

lemma same_slot:
  "s mod w = u mod w \<Longrightarrow> s < u + w \<Longrightarrow> u < s + w \<Longrightarrow> s = (u :: nat)"
  by (metis (no_types, opaque_lifting) add.commute less_diff_conv2 linorder_le_cases mod_eq_dvd_iff_nat
      nat_dvd_not_less le_add_diff_inverse2 add_0 zero_less_diff le_neq_implies_less diff_is_0_eq not_less)

lemma card_bound:
  fixes S :: "nat set"
  assumes "\<forall>s \<in> S. b < s \<and> s < 2 ^ 64"
  shows "card S < 2 ^ 64"
proof -
  have "S \<subseteq> {1..<2 ^ 64}" using assms by fastforce
  then have "card S \<le> card {1..<2 ^ 64 :: nat}" by (intro card_mono) simp_all
  then show ?thesis by simp
qed

lemma observe_fresh:
  assumes inv: "stats_inv b S st" and above: "b < unat q" and window: "highest_of b S < unat q + REORDER_WINDOW"
    and new: "ds_seen st ! (unat q mod REORDER_WINDOW) \<noteq> q"
  shows "unat q \<notin> S" and "unat (ds_unique st) + 1 < 2 ^ 64"
proof -
  show fresh: "unat q \<notin> S"
  proof
    assume "unat q \<in> S"
    then have "unat (ds_seen st ! (unat q mod REORDER_WINDOW)) = unat q" using inv window by (simp add: stats_inv_def)
    with new show False by (simp add: word_unat_eq_iff)
  qed
  have "\<forall>s \<in> insert (unat q) S. b < s \<and> s < 2 ^ 64"
    using inv above unat_less_exp [of q] by (auto simp: stats_inv_def)
  then have "card (insert (unat q) S) < 2 ^ 64" by (rule card_bound)
  then show "unat (ds_unique st) + 1 < 2 ^ 64"
    using inv fresh by (simp add: stats_inv_def)
qed

text \<open>One datagram: the counters follow the set, and a known sequence number changes nothing.\<close>

lemma observe_inv:
  assumes inv: "stats_inv b S st" and ok: "observe q n arrival sent st = Ok st'"
  shows "stats_inv b (if unat q \<le> b then S else insert (unat q) S) st'"
proof (cases "q \<le> ds_baseline st")
  case True
  with inv ok show ?thesis
    by (auto simp: observe_def stats_inv_def word_le_nat_alt split: if_splits)
next
  case False
  let ?u = "unat q" and ?W = REORDER_WINDOW
  have fin: "finite S" and seen: "length (ds_seen st) = ?W"
    using inv by (simp_all add: stats_inv_def)
  have above: "b < ?u" using False inv by (simp add: stats_inv_def word_le_nat_alt)
  have window: "highest_of b S < ?u + ?W"
    using ok False inv by (auto simp: observe_def stats_inv_def unat_saturating_sub split: if_splits)
  have slot: "?u mod ?W < length (ds_seen st)" using seen window_pos by simp
  have q0: "q \<noteq> 0" using ok by (auto simp: observe_def)
  show ?thesis
  proof (cases "ds_seen st ! (?u mod ?W) = q")
    case True
    have "?u mod ?W < ?W" using window_pos by simp
    with True q0 inv have "?u \<in> S" unfolding stats_inv_def by metis
    then have "insert ?u S = S" by auto
    moreover have "st' = st"
      using ok False q0 True slot by (auto simp: observe_def byte_at_Ok Let_def split: if_splits)
    ultimately show ?thesis using inv above by simp
  next
    case new: False
    note fresh = observe_fresh(1) [OF inv above window new]
    have bound: "\<forall>s \<in> insert ?u S. b < s \<and> s < 2 ^ 64"
      using inv above unat_less_exp [of q] by (auto simp: stats_inv_def)
    have one: "unat (ds_unique st) + 1 < 2 ^ 64" by (rule observe_fresh(2) [OF inv above window new])
    then have unique: "unat (ds_unique st + 1) = card (insert ?u S)"
      using inv fresh fin by (simp add: stats_inv_def unat_word_ariths)
    obtain st1 where st': "st' = st1" and f: "ds_seen st1 = (ds_seen st)[?u mod ?W := q]"
      "ds_highest st1 = max (ds_highest st) q" "ds_unique st1 = ds_unique st + 1" "ds_baseline st1 = ds_baseline st"
      using ok False q0 new slot one
      by (auto simp: observe_def byte_at_Ok word_add_Ok Let_def split: if_splits)
    have high: "unat (max (ds_highest st) q) = highest_of b (insert ?u S)"
      using inv fin by (simp add: highest_of_insert stats_inv_def max_def word_le_nat_alt)
    have kept: "unat ((ds_seen st)[?u mod ?W := q] ! (s mod ?W)) = s"
      if "s \<in> insert ?u S" "highest_of b (insert ?u S) < s + ?W" for s
    proof (cases "s = ?u")
      case False
      then have s: "s \<in> S" using that(1) by simp
      have le: "s \<le> highest_of b (insert ?u S)" "?u \<le> highest_of b (insert ?u S)"
        "highest_of b S \<le> highest_of b (insert ?u S)"
        using s fin le_highest_of(1) [of S s b] by (auto simp: highest_of_insert)
      have "s mod ?W \<noteq> ?u mod ?W"
      proof
        assume "s mod ?W = ?u mod ?W"
        moreover have "s < ?u + ?W" using window le_highest_of(1) [OF fin s, of b] by linarith
        moreover have "?u < s + ?W" using that(2) le by linarith
        ultimately show False using same_slot False by blast
      qed
      with s that(2) le(3) inv show ?thesis by (simp add: stats_inv_def)
    qed (use slot in simp)
    have slots: "unat ((ds_seen st)[?u mod ?W := q] ! i) \<in> insert ?u S \<and>
        unat ((ds_seen st)[?u mod ?W := q] ! i) mod ?W = i"
      if "i < ?W" "(ds_seen st)[?u mod ?W := q] ! i \<noteq> 0" for i
      using that inv slot by (cases "i = ?u mod ?W") (auto simp: stats_inv_def)
    show ?thesis
      unfolding stats_inv_def st' f using above fin bound unique high kept slots inv seen
      by (auto simp: stats_inv_def)
  qed
qed

lemma observe_no_panic: "stats_inv b S st \<Longrightarrow> observe q n arrival sent st \<noteq> Panic"
proof
  assume inv: "stats_inv b S st" and "observe q n arrival sent st = Panic"
  then have p: "q \<noteq> 0" "\<not> q \<le> ds_baseline st"
    "\<not> REORDER_WINDOW \<le> unat (saturating_sub (ds_highest st) q)"
    "ds_seen st ! (unat q mod REORDER_WINDOW) \<noteq> q" "\<not> unat (ds_unique st) + 1 < 2 ^ 64"
    using window_pos
    by (auto simp: observe_def stats_inv_def byte_at_Ok word_add_def Let_def split: if_splits)
  have "b < unat q" "highest_of b S < unat q + REORDER_WINDOW"
    using p(2,3) inv by (auto simp: stats_inv_def word_le_nat_alt unat_saturating_sub)
  from observe_fresh(2) [OF inv this p(4)] p(5) show False by blast
qed

lemma observe_yields:
  "stats_inv b S st \<Longrightarrow> yields (observe q n arrival sent st) (stats_inv b (if unat q \<le> b then S else insert (unat q) S))"
  using observe_inv observe_no_panic by (cases "observe q n arrival sent st") fastforce+

text \<open>The counters that are read off: what was expected, and what of it never came.\<close>

lemma stats_counts:
  assumes inv: "stats_inv b S st"
  obtains n l where "expected st = Ok n" "unat n = highest_of b S - b"
    "lost st = Ok l" "unat l = card ({b<..highest_of b S} - S)"
proof -
  have fin: "finite S" using inv by (simp add: stats_inv_def)
  have le: "ds_baseline st \<le> ds_highest st"
    using inv le_highest_of(2) [OF fin, of b] by (simp add: stats_inv_def word_le_nat_alt)
  have n: "unat (ds_highest st - ds_baseline st) = highest_of b S - b"
    using le inv by (simp add: unat_sub stats_inv_def)
  have "S \<subseteq> {b<..highest_of b S}"
    using inv le_highest_of(1) [OF fin, of _ b] by (auto simp: stats_inv_def)
  then have "card ({b<..highest_of b S} - S) = highest_of b S - b - card S"
    using fin by (simp add: card_Diff_subset)
  then have "unat (saturating_sub (ds_highest st - ds_baseline st) (ds_unique st)) =
      card ({b<..highest_of b S} - S)"
    using n inv by (simp add: unat_saturating_sub stats_inv_def)
  with le n show ?thesis
    by (intro that [of "ds_highest st - ds_baseline st"]) (simp_all add: expected_def lost_def word_sub_def)
qed

section \<open>The receive loop\<close>

definition sequence_of :: "bytes \<Rightarrow> nat" where
  "sequence_of bs = unat (from_be (take 8 (drop 8 bs)) :: u64)"

text \<open>The sequence numbers of the datagrams that are long enough, and of those that are measured.\<close>

fun numbers :: "receive_event list \<Rightarrow> nat set" where
  "numbers [] = {}"
| "numbers (Received bs arrival measuring # evs) =
     (if 16 \<le> length bs then insert (sequence_of bs) (numbers evs) else numbers evs)"
| "numbers (ev # evs) = numbers evs"

fun measured_numbers :: "receive_event list \<Rightarrow> nat set" where
  "measured_numbers [] = {}"
| "measured_numbers (Received bs arrival measuring # evs) =
     (if 16 \<le> length bs \<and> measuring then insert (sequence_of bs) (measured_numbers evs) else measured_numbers evs)"
| "measured_numbers (ev # evs) = measured_numbers evs"

fun opens_measurement :: "receive_event \<Rightarrow> bool" where
  "opens_measurement (Received bs arrival measuring) \<longleftrightarrow> 16 \<le> length bs \<and> measuring"
| "opens_measurement ev \<longleftrightarrow> False"

definition warm_up :: "receive_event list \<Rightarrow> receive_event list" where
  "warm_up evs = takeWhile (\<lambda>ev. \<not> opens_measurement ev) evs"

definition above :: "nat \<Rightarrow> nat set \<Rightarrow> nat set" where
  "above b S = {s \<in> S. b < s}"

lemma above_simps [simp]:
  "above b {} = {}" "above b (insert s S) = (if s \<le> b then above b S else insert s (above b S))"
  "above b (S \<union> T) = above b S \<union> above b T"
  by (auto simp: above_def)

text \<open>A datagram that is long enough, before and after the measurement has begun.\<close>

lemma receive_datagram_yields:
  assumes all: "stats_inv 0 A all_seen" and len: "16 \<le> length bs"
    and measured: "case measured of None \<Rightarrow> M = {} \<and> (measuring \<longrightarrow> b = highest_of 0 A) | Some m \<Rightarrow> stats_inv b M m"
  shows "yields (receive_datagram bs arrival measuring all_seen measured) (\<lambda>(all', measured').
    stats_inv 0 (above 0 (insert (sequence_of bs) A)) all' \<and>
    (if measuring then \<exists>m'. measured' = Some m' \<and> stats_inv b (above b {sequence_of bs} \<union> M) m'
     else measured' = measured))"
proof -
  have A0: "above 0 A = A" using all by (auto simp: above_def stats_inv_def)
  let ?q = "from_be (take 8 (drop 8 bs)) :: u64"
  have o: "yields (observe ?q n arrival sent all_seen) (stats_inv 0 (above 0 (insert (sequence_of bs) A)))" for n sent
    using observe_yields [OF all, of ?q n arrival sent] by (auto simp: A0 sequence_of_def split: if_splits)
  have m: "yields (measure ?q n arrival sent all_seen measured) (stats_inv b (above b {sequence_of bs} \<union> M))"
    if measuring for n sent
  proof -
    have inv: "stats_inv b M (case measured of None \<Rightarrow> after_omission all_seen | Some m \<Rightarrow> m)"
    proof (cases measured)
      case None
      have "stats_inv (unat (ds_highest all_seen)) {} (after_omission all_seen)"
        using stats_inv_new [of "ds_highest all_seen"] by (simp add: stats_inv_def after_omission_def)
      with None measured that all show ?thesis by (simp add: stats_inv_def)
    qed (use measured in simp)
    show ?thesis
      unfolding measure_def using observe_yields [OF inv, of ?q n arrival sent]
      by (auto simp: sequence_of_def elim!: yields_mono)
  qed
  show ?thesis
    using len by (auto simp: receive_datagram_def panic_simps Let_def o intro!: yields_mono [OF m] yields_mono [OF o])
qed

text \<open>The loop once the measurement has begun, and from the start.\<close>

lemma receive_loop_measuring:
  assumes "stats_inv 0 A all_seen" and "stats_inv b M m"
  shows "yields (udp_receive_loop all_seen (Some m) evs) (\<lambda>(all', measured').
    stats_inv 0 (A \<union> above 0 (numbers evs)) all' \<and>
    (\<exists>m'. measured' = Some m' \<and> stats_inv b (M \<union> above b (measured_numbers evs)) m'))"
  using assms
proof (induction evs arbitrary: A all_seen M m)
  case (Cons ev evs)
  have A0: "above 0 A = A" using Cons.prems(1) by (auto simp: above_def stats_inv_def)
  show ?case
  proof (cases "\<exists>bs arrival measuring. ev = Received bs arrival measuring \<and> 16 \<le> length bs")
    case True
    then obtain bs arrival measuring where ev: "ev = Received bs arrival measuring" "16 \<le> length bs" by blast
    have "yields (receive_datagram bs arrival measuring all_seen (Some m)) (\<lambda>(all', measured').
        stats_inv 0 (above 0 (insert (sequence_of bs) A)) all' \<and>
        (if measuring then \<exists>m'. measured' = Some m' \<and> stats_inv b (above b {sequence_of bs} \<union> M) m'
         else measured' = Some m))"
      using Cons.prems ev(2) by (intro receive_datagram_yields) simp_all
    then show ?thesis
      unfolding ev(1) udp_receive_loop.simps yields_and_then
    proof (rule yields_mono, clarify)
      fix all' measured'
      assume a: "stats_inv 0 (above 0 (insert (sequence_of bs) A)) all'"
        and c: "if measuring then \<exists>m'. measured' = Some m' \<and> stats_inv b (above b {sequence_of bs} \<union> M) m'
         else measured' = Some m"
      let ?M = "if measuring then above b {sequence_of bs} \<union> M else M"
      obtain m' where m': "measured' = Some m'" "stats_inv b ?M m'"
        using c Cons.prems(2) by (cases measuring) auto
      have "above 0 (insert (sequence_of bs) A) \<union> above 0 (numbers evs) =
          A \<union> above 0 (numbers (Received bs arrival measuring # evs))"
        using ev(2) A0 by auto
      moreover have "?M \<union> above b (measured_numbers evs) =
          M \<union> above b (measured_numbers (Received bs arrival measuring # evs))"
        using ev(2) by auto
      ultimately show "yields (udp_receive_loop all' measured' evs) (\<lambda>(all', measured').
          stats_inv 0 (A \<union> above 0 (numbers (Received bs arrival measuring # evs))) all' \<and>
          (\<exists>m'. measured' = Some m' \<and>
            stats_inv b (M \<union> above b (measured_numbers (Received bs arrival measuring # evs))) m'))"
        using Cons.IH [OF a m'(2)] by (simp only: m'(1))
    qed
  next
    case False
    with Cons show ?thesis by (cases ev) (auto simp: receive_datagram_def)
  qed
qed simp

lemma receive_loop_start:
  assumes "stats_inv 0 A all_seen"
  shows "yields (udp_receive_loop all_seen None evs) (\<lambda>(all', measured').
    stats_inv 0 (A \<union> above 0 (numbers evs)) all' \<and>
    (let b = highest_of 0 (A \<union> above 0 (numbers (warm_up evs))) in
     case measured' of None \<Rightarrow> warm_up evs = evs \<and> measured_numbers evs = {}
     | Some m' \<Rightarrow> stats_inv b (above b (measured_numbers evs)) m'))"
  using assms
proof (induction evs arbitrary: A all_seen)
  case (Cons ev evs)
  have A0: "above 0 A = A" using Cons.prems by (auto simp: above_def stats_inv_def)
  show ?case
  proof (cases "\<exists>bs arrival measuring. ev = Received bs arrival measuring \<and> 16 \<le> length bs")
    case True
    then obtain bs arrival measuring where ev: "ev = Received bs arrival measuring" "16 \<le> length bs" by blast
    let ?A = "above 0 (insert (sequence_of bs) A)"
    have all: "?A \<union> above 0 (numbers evs) = A \<union> above 0 (numbers (ev # evs))"
      using ev A0 by auto
    have "yields (receive_datagram bs arrival measuring all_seen None) (\<lambda>(all', measured').
        stats_inv 0 ?A all' \<and>
        (if measuring then \<exists>m'. measured' = Some m' \<and> stats_inv (highest_of 0 A) (above (highest_of 0 A) {sequence_of bs} \<union> {}) m'
         else measured' = None))"
      using Cons.prems ev(2) by (intro receive_datagram_yields) simp_all
    then show ?thesis
      unfolding ev(1) udp_receive_loop.simps yields_and_then
    proof (rule yields_mono, clarify)
      fix all' measured'
      assume a: "stats_inv 0 ?A all'"
        and c: "if measuring then \<exists>m'. measured' = Some m' \<and> stats_inv (highest_of 0 A) (above (highest_of 0 A) {sequence_of bs} \<union> {}) m'
         else measured' = None"
      show "yields (udp_receive_loop all' measured' evs) (\<lambda>(all', measured').
          stats_inv 0 (A \<union> above 0 (numbers (Received bs arrival measuring # evs))) all' \<and>
          (let b = highest_of 0 (A \<union> above 0 (numbers (warm_up (Received bs arrival measuring # evs)))) in
           case measured' of None \<Rightarrow> warm_up (Received bs arrival measuring # evs) = Received bs arrival measuring # evs
               \<and> measured_numbers (Received bs arrival measuring # evs) = {}
           | Some m' \<Rightarrow> stats_inv b (above b (measured_numbers (Received bs arrival measuring # evs))) m'))"
      proof (cases measuring)
        case True
        let ?b = "highest_of 0 A"
        obtain m' where m': "measured' = Some m'" "stats_inv ?b (above ?b {sequence_of bs}) m'"
          using c True by auto
        have w: "warm_up (Received bs arrival measuring # evs) = []"
          using True ev(2) by (simp add: warm_up_def)
        have M: "above ?b {sequence_of bs} \<union> above ?b (measured_numbers evs) =
            above ?b (measured_numbers (Received bs arrival measuring # evs))"
          using True ev(2) by auto
        show ?thesis
          using receive_loop_measuring [OF a m'(2), of evs]
          unfolding m'(1) w M all [unfolded ev(1)]
          by (rule yields_mono) (auto simp: Let_def simp del: numbers.simps(2) measured_numbers.simps(2))
      next
        case False
        then have n: "measured' = None" and m: "measuring = False" using c by simp_all
        have w: "warm_up (Received bs arrival measuring # evs) = Received bs arrival measuring # warm_up evs"
          using False by (simp add: warm_up_def)
        have "?A \<union> above 0 (numbers (warm_up evs)) =
            A \<union> above 0 (numbers (warm_up (Received bs arrival measuring # evs)))"
          unfolding w using ev(2) A0 by auto
        with Cons.IH [OF a] show ?thesis
          unfolding n all [unfolded ev(1), symmetric]
          by (auto simp: w w [unfolded m] m Let_def elim!: yields_mono split: option.splits)
      qed
    qed
  next
    case False
    then have "numbers (ev # evs) = numbers evs" "measured_numbers (ev # evs) = measured_numbers evs"
      "warm_up (ev # evs) = ev # warm_up evs" "numbers (warm_up (ev # evs)) = numbers (warm_up evs)"
      by (cases ev; simp add: warm_up_def)+
    with False Cons.IH [OF Cons.prems] show ?thesis
      by (cases ev) (auto simp: receive_datagram_def Let_def elim!: yields_mono split: option.splits)
  qed
qed (simp add: warm_up_def)

text \<open>
  C22. The loss a UDP receiver reports is exact. Over the whole run, the packet count is the highest
  sequence number that came, and the error count is the number of sequence numbers up to it that did
  not come; after the warm-up the same holds for the numbers above the highest one of the warm-up.
  Duplicates, reordering within the window and short datagrams change neither, the bounded window
  never miscounts, and no order of datagrams makes the counters overflow or the loop panic.
\<close>

theorem udp_loss_exact:
  "udp_receive ident duration evs \<noteq> Panic \<and>
   (\<forall>r. udp_receive ident duration evs = Ok r \<longrightarrow>
     (let S = above 0 (numbers evs);
          b = highest_of 0 (above 0 (numbers (warm_up evs)));
          M = above b (measured_numbers evs) in
      unat (so_wire_packets r) = highest_of 0 S \<and>
      unat (so_wire_errors r) = card ({0<..highest_of 0 S} - S) \<and>
      unat (so_packets r) = highest_of b M - b \<and>
      unat (so_errors r) = card ({b<..highest_of b M} - M)))"
proof -
  let ?S = "above 0 (numbers evs)"
  define b where "b = highest_of 0 (above 0 (numbers (warm_up evs)))"
  define M where "M = above b (measured_numbers evs)"
  have loop: "yields (udp_receive_loop (DatagramStats_new 0) None evs) (\<lambda>(all', measured').
      stats_inv 0 ?S all' \<and> (case measured' of None \<Rightarrow> warm_up evs = evs \<and> M = {} | Some m' \<Rightarrow> stats_inv b M m'))"
    using receive_loop_start [of "{}" "DatagramStats_new 0" evs] stats_inv_new [of 0]
    by (auto simp: b_def M_def Let_def elim!: yields_mono split: option.splits)
  have final: "yields (let m = (case measured of None \<Rightarrow> DatagramStats_new (ds_highest all_seen) | Some m \<Rightarrow> m) in
      and_then (expected m) (\<lambda>packets. and_then (lost m) (\<lambda>errors. and_then (lost all_seen) (\<lambda>wire_errors.
        Ok ((stream_result ident False (ds_bytes m) duration)
           \<lparr>so_packets := packets, so_errors := errors, so_jitter_seconds := ds_jitter m,
             so_wire_packets := ds_highest all_seen, so_wire_errors := wire_errors\<rparr>)))))
      (\<lambda>r. unat (so_wire_packets r) = highest_of 0 ?S \<and>
        unat (so_wire_errors r) = card ({0<..highest_of 0 ?S} - ?S) \<and>
        unat (so_packets r) = highest_of b M - b \<and> unat (so_errors r) = card ({b<..highest_of b M} - M))"
    if all: "stats_inv 0 ?S all_seen"
      and measured: "case measured of None \<Rightarrow> warm_up evs = evs \<and> M = {} | Some m' \<Rightarrow> stats_inv b M m'"
    for all_seen measured
  proof -
    define m where "m = (case measured of None \<Rightarrow> DatagramStats_new (ds_highest all_seen) | Some m \<Rightarrow> m)"
    have high: "unat (ds_highest all_seen) = highest_of 0 ?S"
      using all by (simp add: stats_inv_def)
    have m: "stats_inv b M m"
      using measured stats_inv_new [of "ds_highest all_seen"] high
      by (cases measured) (auto simp: m_def b_def)
    obtain n l where "expected m = Ok n" "unat n = highest_of b M - b"
      "lost m = Ok l" "unat l = card ({b<..highest_of b M} - M)"
      using stats_counts [OF m] .
    moreover obtain k where "lost all_seen = Ok k" "unat k = card ({0<..highest_of 0 ?S} - ?S)"
      using stats_counts [OF all] .
    ultimately show ?thesis
      by (simp add: m_def [symmetric] high Let_def)
  qed
  have "yields (udp_receive ident duration evs)
      (\<lambda>r. unat (so_wire_packets r) = highest_of 0 ?S \<and>
        unat (so_wire_errors r) = card ({0<..highest_of 0 ?S} - ?S) \<and>
        unat (so_packets r) = highest_of b M - b \<and> unat (so_errors r) = card ({b<..highest_of b M} - M))"
    unfolding udp_receive_def yields_and_then
    by (rule yields_mono [OF loop]) (simp only: split_paired_all prod.case, rule final, blast+)
  then show ?thesis
    by (cases "udp_receive ident duration evs") (auto simp: Let_def b_def M_def)
qed

lemma sequence_of_datagram [simp]: "sequence_of (datagram secs micros q payload) = unat q"
  by (simp add: sequence_of_def datagram_def)

theorem udp_loss_exact_witness:
  "\<exists>r. udp_receive 1 (Fin 1) [Received (datagram 0 0 3 []) (Fin 0) True, Received [1] (Fin 0) True,
      Received (datagram 0 0 1 []) (Fin 0) True, Received (datagram 0 0 3 []) (Fin 0) True] = Ok r \<and>
    unat (so_packets r) = 3 \<and> unat (so_errors r) = 1"
proof -
  let ?evs = "[Received (datagram 0 0 3 []) (Fin 0) True, Received [1] (Fin 0) True,
      Received (datagram 0 0 1 []) (Fin 0) True, Received (datagram 0 0 3 []) (Fin 0) True]"
  have b: "subslice (datagram 0 0 q []) 4 8 = (Ok (to_be (0 :: u32)) :: (bytes, throughput_error) outcome)"
    "subslice (datagram 0 0 q []) 8 16 = (Ok (to_be q) :: (bytes, throughput_error) outcome)"
    "subslice (datagram 0 0 q []) 0 4 = (Ok (to_be (0 :: u32)) :: (bytes, throughput_error) outcome)"
    "length (datagram 0 0 q []) = 16" for q
    by (simp_all add: subslice_def datagram_def)
  define w where "w = REORDER_WINDOW"
  have w: "3 < w" "Suc 0 mod w = 1" "3 mod w = 3" by (simp_all add: w_def REORDER_WINDOW_def)
  have "\<exists>r. udp_receive 1 (Fin 1) ?evs = Ok r"
    using w by (simp add: udp_receive_def receive_datagram_def b measure_def observe_def after_omission_def
        DatagramStats_new_def w_def [symmetric] byte_at_def word_add_def saturating_sub_def expected_def lost_def
        word_sub_def nth_list_update Let_def)
  then obtain r where r: "udp_receive 1 (Fin 1) ?evs = Ok r" by blast
  have "warm_up ?evs = []" "numbers ?evs = {1, 3}" "measured_numbers ?evs = {1, 3}"
    by (simp_all add: warm_up_def b insert_commute)
  moreover have "highest_of 0 {} = 0" "highest_of 0 {1, 3} = 3" "card ({0<..3} - {1, 3 :: nat}) = 1"
  proof -
    have "{0<..3} - {1, 3 :: nat} = {2}" by auto
    then show "card ({0<..3} - {1, 3 :: nat}) = 1" by simp
  qed (simp_all add: highest_of_def)
  ultimately show ?thesis using r udp_loss_exact [of 1 "Fin 1" ?evs] by (auto simp: Let_def)
qed

section \<open>The sender\<close>

definition ended_sending :: "send_event list \<Rightarrow> bool" where
  "ended_sending evs \<longleftrightarrow> (\<exists>secs micros. Send_Pass secs micros Send_Ended \<in> set evs)"

definition sent_in_order :: "send_state \<Rightarrow> bool" where
  "sent_in_order st \<longleftrightarrow> map sequence_of (ss_wire st) = [1..<Suc (length (ss_wire st))] \<and>
     unat (ss_sequence st) = length (ss_wire st)"

lemma next_deadline_late: "deadline + interval \<le> next_deadline deadline interval now"
  by (auto simp: next_deadline_def)

lemma udp_send_loop_wire:
  assumes "sent_in_order st" and "origin + length (ss_wire st) * interval \<le> ss_deadline st"
    and "udp_send_loop interval payload st evs = Ok st'"
  shows "map sequence_of (ss_wire st') = [1..<Suc (length (ss_wire st'))] \<and>
    unat (ss_sequence st') = length (ss_wire st') + (if ended_sending evs then 1 else 0) \<and>
    origin + length (ss_wire st') * interval \<le> ss_deadline st'"
  using assms
proof (induction evs arbitrary: st)
  case Nil
  then show ?case by (simp add: sent_in_order_def ended_sending_def)
next
  case (Cons ev evs)
  obtain secs micros r where ev: "ev = Send_Pass secs micros r"
    using Cons.prems(3) by (cases ev) auto
  have no: "checked_add (ss_sequence st) 1 \<noteq> None"
    using Cons.prems(3) by (auto simp: ev split: option.splits)
  then have q: "checked_add (ss_sequence st) 1 = Some (ss_sequence st + 1)"
    "unat (ss_sequence st + 1) = Suc (unat (ss_sequence st))"
    by (auto simp: checked_add_def unat_word_ariths split: if_splits)
  show ?case
  proof (cases r)
    case (Sent n measured now)
    let ?packet = "datagram secs micros (ss_sequence st + 1) payload"
    obtain st2 where ok: "udp_send_loop interval payload st2 evs = Ok st'"
      and st2: "ss_sequence st2 = ss_sequence st + 1" "ss_wire st2 = ss_wire st @ [?packet]"
        "ss_deadline st2 = next_deadline (ss_deadline st) interval now"
      using Cons.prems(3) by (auto simp: ev q Sent Let_def and_then_eq_Ok split: if_splits)
    have "origin + Suc (length (ss_wire st)) * interval \<le> next_deadline (ss_deadline st) interval now"
      using Cons.prems(2) next_deadline_late [of "ss_deadline st" interval now] by simp
    moreover have "ended_sending (ev # evs) = ended_sending evs"
      by (auto simp: ended_sending_def ev Sent)
    ultimately show ?thesis
      using Cons.IH [OF _ _ ok] Cons.prems(1) q(2) st2 by (simp add: sent_in_order_def)
  next
    case Send_Ended
    with Cons.prems q show ?thesis
      by (auto simp: ev sent_in_order_def ended_sending_def)
  qed (use Cons.prems(3) q in \<open>simp_all add: ev\<close>)
qed

text \<open>
  When the datagrams left, and the contract of the timer the loop waits on: \<open>sleep_until\<close> never
  returns before the deadline it was given, so no datagram leaves before the deadline it waited for.
\<close>

fun send_times :: "send_event list \<Rightarrow> instant list" where
  "send_times (Send_Pass secs micros (Sent n measured now) # evs) = now # send_times evs"
| "send_times evs = []"

fun timer_waits :: "duration \<Rightarrow> instant \<Rightarrow> send_event list \<Rightarrow> bool" where
  "timer_waits interval deadline (Send_Pass secs micros (Sent n measured now) # evs) \<longleftrightarrow>
     deadline \<le> now \<and> timer_waits interval (next_deadline deadline interval now) evs"
| "timer_waits interval deadline evs \<longleftrightarrow> True"

text \<open>The backlog the pacer lets a stall leave behind: one interval or 10 ms, whichever is longer.\<close>

definition backlog :: "duration \<Rightarrow> duration" where
  "backlog interval = max interval (from_millis 10)"

lemma next_deadline_reset: "now \<le> next_deadline deadline interval now + backlog interval"
  by (auto simp: next_deadline_def backlog_def PACER_MAX_BACKLOG_def)

lemma timer_from_start:
  "timer_waits interval deadline evs \<Longrightarrow> k < length (send_times evs) \<Longrightarrow>
     deadline + k * interval \<le> send_times evs ! k"
proof (induction interval deadline evs arbitrary: k rule: timer_waits.induct)
  case (1 interval deadline secs micros n measured now evs)
  show ?case
  proof (cases k)
    case (Suc j)
    then have "next_deadline deadline interval now + j * interval \<le> send_times evs ! j"
      using 1 by simp
    then show ?thesis using next_deadline_late [of deadline interval now] Suc by simp
  qed (use 1 in simp)
qed simp_all

lemma timer_window:
  "timer_waits interval deadline evs \<Longrightarrow> i \<le> j \<Longrightarrow> j < length (send_times evs) \<Longrightarrow>
     send_times evs ! i + (j - i) * interval \<le> send_times evs ! j + backlog interval + interval"
proof (induction interval deadline evs arbitrary: i j rule: timer_waits.induct)
  case (1 interval deadline secs micros n measured now evs)
  show ?case
  proof (cases j)
    case j: (Suc k)
    have rest: "timer_waits interval (next_deadline deadline interval now) evs" using 1 by simp
    show ?thesis
    proof (cases i)
      case 0
      have "next_deadline deadline interval now + k * interval \<le> send_times evs ! k"
        using timer_from_start [OF rest] 1 j by simp
      then show ?thesis using next_deadline_reset [of now deadline interval] j 0 by simp
    qed (use 1 j in simp)
  qed (use 1 in simp)
qed simp_all

lemma udp_send_loop_times:
  "udp_send_loop interval payload st evs = Ok st' \<Longrightarrow>
     length (ss_wire st') = length (ss_wire st) + length (send_times evs)"
proof (induction evs arbitrary: st)
  case (Cons ev evs)
  obtain secs micros r where ev: "ev = Send_Pass secs micros r"
    using Cons.prems by (cases ev) auto
  show ?case
  proof (cases r)
    case (Sent n measured now)
    obtain st2 where "udp_send_loop interval payload st2 evs = Ok st'"
      and "length (ss_wire st2) = Suc (length (ss_wire st))"
      using Cons.prems by (auto simp: ev Sent Let_def and_then_eq_Ok split: if_splits option.splits)
    with Cons.IH show ?thesis by (simp add: ev Sent)
  qed (use Cons.prems in \<open>auto simp: ev Let_def split: option.splits\<close>)
qed simp

text \<open>
  C23. What a UDP sender puts on the wire: its datagrams carry the sequence numbers 1, 2, ..., without
  gap or repetition, so a receiver's loss accounting applies to them, and after \<open>n\<close> datagrams the
  schedule has advanced by at least \<open>n\<close> intervals. With a timer that never fires early the rate
  holds in every window: datagram \<open>k\<close> leaves no earlier than \<open>k\<close> intervals after the start, and
  between any two datagrams \<open>i \<le> j\<close> of the run, however long the sender stalled before or between
  them, \<open>j - i\<close> intervals have passed, less one interval and the backlog the pacer allows (one
  interval or 10 ms). So the backlog of a longer stall is dropped, and no stall is followed by a
  catch-up burst. The packet count reported to the peer is the number of datagrams sent, plus one
  when the measurement ended while a datagram was being sent: that sequence number was taken but its
  datagram never left.
\<close>

theorem udp_sender_wire:
  assumes "udp_send_loop interval payload (send_start origin) evs = Ok st"
  shows "map sequence_of (ss_wire st) = [1..<Suc (length (ss_wire st))] \<and>
    origin + length (ss_wire st) * interval \<le> ss_deadline st \<and>
    length (send_times evs) = length (ss_wire st) \<and>
    (timer_waits interval origin evs \<longrightarrow>
      (\<forall>k < length (ss_wire st). origin + k * interval \<le> send_times evs ! k) \<and>
      (\<forall>i j. i \<le> j \<and> j < length (ss_wire st) \<longrightarrow>
        send_times evs ! i + (j - i) * interval
          \<le> send_times evs ! j + max interval (from_millis 10) + interval)) \<and>
    (0 < interval \<longrightarrow> (\<exists>r. udp_send ident interval origin payload duration evs = Ok r \<and>
      unat (so_wire_packets r) = length (ss_wire st) + (if ended_sending evs then 1 else 0)))"
proof -
  have "sent_in_order (send_start origin)" and "origin + length (ss_wire (send_start origin)) * interval
      \<le> ss_deadline (send_start origin)"
    by (simp_all add: sent_in_order_def send_start_def)
  from udp_send_loop_wire [OF this assms] assms
  have "map sequence_of (ss_wire st) = [1..<Suc (length (ss_wire st))] \<and>
    origin + length (ss_wire st) * interval \<le> ss_deadline st \<and>
    (0 < interval \<longrightarrow> (\<exists>r. udp_send ident interval origin payload duration evs = Ok r \<and>
      unat (so_wire_packets r) = length (ss_wire st) + (if ended_sending evs then 1 else 0)))"
    by (simp add: udp_send_def)
  moreover have n: "length (send_times evs) = length (ss_wire st)"
    using udp_send_loop_times [OF assms] by (simp add: send_start_def)
  ultimately show ?thesis
    using timer_from_start [of interval origin evs] timer_window [of interval origin evs]
    unfolding backlog_def by metis
qed

text \<open>A sender that stalls for a second after its first datagram, at 1 ms intervals.\<close>

theorem udp_sender_wire_witness:
  "\<exists>st. udp_send_loop (from_millis 1) [] (send_start 0)
      [Send_Pass 7 5 (Sent 16 True (from_secs 1)), Send_Pass 8 0 (Sent 16 True (from_secs 1)),
       Send_Pass 8 6 Send_Ended] = Ok st \<and> length (ss_wire st) = 2 \<and>
    from_secs 1 + from_millis 1 \<le> from_secs 1 + max (from_millis 1) (from_millis 10) + from_millis 1 \<and>
    (\<exists>r. udp_send 1 (from_millis 1) 0 [] (Fin 1) [Send_Pass 7 5 (Sent 16 True (from_secs 1)),
       Send_Pass 8 0 (Sent 16 True (from_secs 1)), Send_Pass 8 6 Send_Ended] = Ok r \<and>
      unat (so_wire_packets r) = 3)"
proof -
  let ?evs = "[Send_Pass 7 5 (Sent 16 True (from_secs 1)), Send_Pass 8 0 (Sent 16 True (from_secs 1)),
       Send_Pass 8 6 Send_Ended]"
  have "\<exists>st. udp_send_loop (from_millis 1) [] (send_start 0) ?evs = Ok st \<and> length (ss_wire st) = 2"
    by (simp add: send_start_def checked_add_def datagram_def word_add_def Let_def)
  then obtain st where st: "udp_send_loop (from_millis 1) [] (send_start 0) ?evs = Ok st"
    "length (ss_wire st) = 2" by blast
  have e: "ended_sending ?evs" by (simp add: ended_sending_def)
  have t: "timer_waits (from_millis 1) 0 ?evs"
    by (simp add: next_deadline_def PACER_MAX_BACKLOG_def from_millis_def from_secs_def)
  have i: "0 < from_millis 1" by (simp add: from_millis_def)
  note ok = udp_sender_wire [OF st(1), of 1 "Fin 1"]
  from ok t have w: "\<And>i j. i \<le> j \<Longrightarrow> j < length (ss_wire st) \<Longrightarrow> send_times ?evs ! i + (j - i) * from_millis 1
      \<le> send_times ?evs ! j + max (from_millis 1) (from_millis 10) + from_millis 1"
    by blast
  have "from_secs 1 + from_millis 1 \<le> from_secs 1 + max (from_millis 1) (from_millis 10) + from_millis 1"
    using w [of 0 1] st(2) by simp
  moreover have "\<exists>r. udp_send 1 (from_millis 1) 0 [] (Fin 1) ?evs = Ok r \<and> unat (so_wire_packets r) = 3"
    using ok i st(2) e by (simp add: numeral_3_eq_3)
  ultimately show ?thesis using st by blast
qed

end
