(* ===== verification/Path_Native.thy ===== *)
theory Path_Native
  imports Path_Io "HOL-Library.Multiset"
begin

text \<open>
  \<open>crates/path-io/src/native/pacing.rs\<close> and the probe loops of \<open>crates/path-io/src/native.rs\<close>: how
  single probes are paced, run one after the other or on worker threads, and gathered into pings,
  traces and path statistics.

  A probe itself (the sockets of \<open>probe_once\<close>) is an answer of the environment. A clock is read as
  an \<open>instant\<close>, a cancellation token as a \<open>bool\<close>. The worker threads of \<open>run_concurrent\<close> are a state
  machine: an event says what the loop meets next (the wait is over, a worker has finished, the
  checks before a spawn), so every interleaving of the workers is a list of events.
\<close>

section \<open>Waiting\<close>

text \<open>
  \<open>wait_until\<close> polls the token and the clock; the list holds what each pass reads, and \<open>None\<close> means
  that the loop is still waiting when the list ends. The readings not used are returned.
\<close>

fun wait_until :: "instant \<Rightarrow> (bool \<times> instant) list \<Rightarrow>
    ((unit, probe_error) outcome \<times> (bool \<times> instant) list) option" where
  "wait_until deadline [] = None"
| "wait_until deadline ((cancelled, now) # rest) =
     (if cancelled then Some (Err Probe_Cancelled, rest)
      else if deadline \<le> now then Some (Ok (), rest)
      else wait_until deadline rest)"

lemma wait_until_returns:
  "p \<in> set polls \<Longrightarrow> fst p \<or> deadline \<le> snd p \<Longrightarrow> wait_until deadline polls \<noteq> None"
proof (induction polls)
  case (Cons q polls)
  then show ?case by (cases q) auto
qed simp

lemma wait_until_Ok: "wait_until deadline polls = Some (Ok (), rest) \<Longrightarrow> \<exists>now. deadline \<le> now \<and> (False, now) \<in> set polls"
  by (induction polls) (auto split: if_splits)

section \<open>Sequential probes\<close>

record 'a paced_result =
  pr_completed :: "(nat \<times> 'a) list"
  pr_failure :: "probe_error option"

text \<open>
  A pass of \<open>run_sequential\<close>: the polls of its wait, the clock read as \<open>sent\<close>, and the answer of the
  probe. The jobs are consumed with one pass each.
\<close>

record 'a pass =
  pa_polls :: "(bool \<times> instant) list"
  pa_sent :: instant
  pa_answer :: "probe_error + 'a"

fun sequential_loop :: "duration \<Rightarrow> instant \<Rightarrow> (nat \<times> 'i) list \<Rightarrow> 'a pass list \<Rightarrow> (nat \<times> 'a) list \<Rightarrow>
    'a paced_result option" where
  "sequential_loop interval next_send [] passes completed =
     Some \<lparr>pr_completed = completed, pr_failure = None\<rparr>"
| "sequential_loop interval next_send (job # jobs) [] completed = None"
| "sequential_loop interval next_send (job # jobs) (p # passes) completed =
     (case wait_until next_send (pa_polls p) of
        None \<Rightarrow> None
      | Some (Ok _, _) \<Rightarrow>
          (case pa_answer p of
             Inr out \<Rightarrow> sequential_loop interval (pa_sent p + interval) jobs passes
               (completed @ [(fst job, out)])
           | Inl e \<Rightarrow> Some \<lparr>pr_completed = completed, pr_failure = Some e\<rparr>)
      | Some (Err e, _) \<Rightarrow> Some \<lparr>pr_completed = completed, pr_failure = Some e\<rparr>
      | Some (Panic, _) \<Rightarrow> None)"

definition run_sequential :: "(nat \<times> 'i) list \<Rightarrow> duration \<Rightarrow> instant \<Rightarrow> 'a pass list \<Rightarrow> 'a paced_result option" where
  "run_sequential jobs interval now passes = sequential_loop interval now jobs passes []"

text \<open>
  The clock read after a wait is not before the poll that ended it. Then two sends are at least one
  interval apart, however late a probe was: no burst catches up.
\<close>

definition clock_ok :: "'a pass \<Rightarrow> bool" where
  "clock_ok p \<longleftrightarrow> (\<forall>r \<in> set (pa_polls p). snd r \<le> pa_sent p)"

lemma wait_until_Err: "wait_until deadline polls = Some (Err e, rest) \<Longrightarrow> e = Probe_Cancelled"
  by (induction polls) (auto split: if_splits)

lemma wait_until_no_panic: "wait_until deadline polls \<noteq> Some (Panic, rest)"
  by (induction polls) (auto split: if_splits)

text \<open>One pass of the loop: it ends the run, or it adds one result and goes on.\<close>

lemma sequential_pass:
  assumes "sequential_loop interval next_send (job # jobs) passes completed = Some r"
  obtains (ends) e where "r = \<lparr>pr_completed = completed, pr_failure = Some e\<rparr>"
  | (goes_on) p rest passes' out where "passes = p # passes'" and "pa_answer p = Inr out"
      and "wait_until next_send (pa_polls p) = Some (Ok (), rest)"
      and "sequential_loop interval (pa_sent p + interval) jobs passes' (completed @ [(fst job, out)]) = Some r"
proof -
  obtain p passes' where p: "passes = p # passes'" using assms by (cases passes) simp_all
  then obtain o1 rest where w: "wait_until next_send (pa_polls p) = Some (o1, rest)"
    using assms by (cases "wait_until next_send (pa_polls p)") auto
  show ?thesis
  proof (cases o1)
    case (Err e)
    then have "r = \<lparr>pr_completed = completed, pr_failure = Some e\<rparr>" using assms p w by simp
    then show ?thesis by (rule ends)
  next
    case Panic
    then show ?thesis using assms p w by simp
  next
    case (Ok u)
    then have w': "wait_until next_send (pa_polls p) = Some (Ok (), rest)" using w by simp
    show ?thesis
    proof (cases "pa_answer p")
      case (Inl e)
      then have "r = \<lparr>pr_completed = completed, pr_failure = Some e\<rparr>" using assms p w' by simp
      then show ?thesis by (rule ends)
    next
      case (Inr out)
      then have "sequential_loop interval (pa_sent p + interval) jobs passes' (completed @ [(fst job, out)]) = Some r"
        using assms p w' by simp
      with p Inr w' show ?thesis by (rule goes_on)
    qed
  qed
qed

lemma sequential_completed:
  "sequential_loop interval next_send jobs passes completed = Some r \<Longrightarrow>
     \<exists>outs. pr_completed r = completed @ zip (map fst jobs) outs \<and>
       length outs \<le> length jobs \<and> length outs \<le> length passes \<and>
       (\<forall>i < length outs. pa_answer (passes ! i) = Inr (outs ! i)) \<and>
       (pr_failure r = None \<longrightarrow> length outs = length jobs)"
proof (induction jobs arbitrary: next_send passes completed)
  case (Cons job jobs)
  from Cons.prems show ?case
  proof (cases rule: sequential_pass)
    case (ends e)
    then show ?thesis by (intro exI [of _ "[]"]) simp
  next
    case (goes_on p rest passes' out)
    from Cons.IH [OF goes_on(4)] obtain outs where
      o: "pr_completed r = (completed @ [(fst job, out)]) @ zip (map fst jobs) outs \<and>
        length outs \<le> length jobs \<and> length outs \<le> length passes' \<and>
        (\<forall>i < length outs. pa_answer (passes' ! i) = Inr (outs ! i)) \<and>
        (pr_failure r = None \<longrightarrow> length outs = length jobs)" ..
    then have "\<forall>i < length (out # outs). pa_answer (passes ! i) = Inr ((out # outs) ! i)"
      using goes_on(1,2) by (simp add: All_less_Suc2)
    with o show ?thesis
      using goes_on(1) by (intro exI [of _ "out # outs"]) simp
  qed
qed auto

lemma sequential_spacing:
  assumes "sequential_loop interval next_send jobs passes completed = Some r"
    and "\<forall>p \<in> set passes. clock_ok p" and "length completed + i < length (pr_completed r)"
  shows "(if i = 0 then next_send else pa_sent (passes ! (i - 1)) + interval) \<le> pa_sent (passes ! i)"
  using assms
proof (induction jobs arbitrary: next_send passes completed i)
  case (Cons job jobs)
  from Cons.prems(1) show ?case
  proof (cases rule: sequential_pass)
    case (ends e)
    with Cons.prems(3) show ?thesis by simp
  next
    case (goes_on p rest passes' out)
    show ?thesis
    proof (cases i)
      case 0
      from wait_until_Ok [OF goes_on(3)] obtain now where "next_send \<le> now" "(False, now) \<in> set (pa_polls p)"
        by blast
      with Cons.prems(2) goes_on(1) 0 show ?thesis by (fastforce simp: clock_ok_def)
    next
      case (Suc k)
      with Cons.IH [OF goes_on(4), of k] Cons.prems(2,3) goes_on(1) show ?thesis
        by (cases k) auto
    qed
  qed
qed auto

section \<open>Pings and traces\<close>

definition ping_with_probe :: "u16 \<Rightarrow> duration \<Rightarrow> instant \<Rightarrow> sample pass list \<Rightarrow>
    (sample list, probe_error) outcome option" where
  "ping_with_probe probes interval now passes =
     map_option (\<lambda>r.
       let samples = map snd (pr_completed r) in
       case pr_failure r of
         None \<Rightarrow> Ok samples
       | Some e \<Rightarrow> if e = Probe_Cancelled \<and> samples \<noteq> [] then Ok samples else Err e)
     (run_sequential (map (\<lambda>i. (i, word_of_nat i :: u16)) [0..<unat probes]) interval now passes)"

definition ping_scoped_with_ttl :: "u16 \<Rightarrow> instant \<Rightarrow> sample pass list \<Rightarrow>
    (sample list, probe_error) outcome option" where
  "ping_scoped_with_ttl probes now passes =
     (if probes = 0 then Some (Err (Invalid_Plan (lit ''ping count must be positive'')))
      else ping_with_probe probes (from_secs 1) now passes)"

text \<open>
  A trace asks the token and then one probe per hop; \<open>cancelled\<close> and \<open>probe\<close> are what they answer
  for each hop limit.
\<close>

definition single_hop :: "u8 \<Rightarrow> sample \<Rightarrow> hop_result" where
  "single_hop ttl s = \<lparr>hr_ttl = ttl, hr_address = sm_hop s,
     hr_reached_destination = (sm_status s = Reply), hr_samples = [s]\<rparr>"

fun trace_loop :: "(u8 \<Rightarrow> bool) \<Rightarrow> (u8 \<Rightarrow> probe_error + sample) \<Rightarrow> u8 list \<Rightarrow> hop_result list \<Rightarrow>
    (hop_result list, probe_error) outcome" where
  "trace_loop cancelled probe [] hops = Ok hops"
| "trace_loop cancelled probe (ttl # ttls) hops =
     (if cancelled ttl then (if hops = [] then Err Probe_Cancelled else Ok hops)
      else case probe ttl of
        Inl e \<Rightarrow> if e = Probe_Cancelled \<and> hops \<noteq> [] then Ok hops else Err e
      | Inr s \<Rightarrow>
          if sm_status s = Reply then Ok (hops @ [single_hop ttl s])
          else trace_loop cancelled probe ttls (hops @ [single_hop ttl s]))"

definition hop_limits :: "u8 \<Rightarrow> u8 \<Rightarrow> u8 list" where
  "hop_limits first_ttl max_hops = map word_of_nat [unat first_ttl..<Suc (unat max_hops)]"

definition trace_scoped :: "(u8 \<Rightarrow> bool) \<Rightarrow> (u8 \<Rightarrow> probe_error + sample) \<Rightarrow> u8 \<Rightarrow> round_parameters \<Rightarrow>
    (hop_result list, probe_error) outcome" where
  "trace_scoped cancelled probe first_ttl parameters =
     (if first_ttl = 0 \<or> rp_max_hops parameters < first_ttl
      then Err (Invalid_Plan (lit ''first TTL must be between 1 and max hops''))
      else trace_loop cancelled probe (hop_limits first_ttl (rp_max_hops parameters)) [])"

text \<open>
  A trace returns consecutive hops from the first one on, one sample each, and only the last may
  have reached the destination; it ends early only for that or for a cancellation.
\<close>

definition trace_shape :: "u8 list \<Rightarrow> hop_result list \<Rightarrow> bool" where
  "trace_shape ttls hops \<longleftrightarrow> map hr_ttl hops = take (length hops) ttls \<and>
     (\<forall>h \<in> set hops. \<exists>s. h = single_hop (hr_ttl h) s) \<and>
     (\<forall>h \<in> set (butlast hops). \<not> hr_reached_destination h)"

lemma single_hop_ttl [simp]: "hr_ttl (single_hop ttl s) = ttl"
  by (simp add: single_hop_def)

lemma trace_loop_shape:
  assumes "trace_loop cancelled probe ttls hops = Ok hs"
    and "\<forall>h \<in> set hops. \<not> hr_reached_destination h \<and> (\<exists>s. h = single_hop (hr_ttl h) s)"
  shows "\<exists>more. hs = hops @ more \<and> trace_shape ttls more \<and>
     (length more = length ttls \<or> (more \<noteq> [] \<and> hr_reached_destination (last more)) \<or>
      (hs \<noteq> [] \<and> (\<exists>t \<in> set ttls. cancelled t \<or> probe t = Inl Probe_Cancelled)))"
  using assms
proof (induction ttls arbitrary: hops)
  case Nil
  then show ?case by (intro exI [of _ "[]"]) (simp add: trace_shape_def)
next
  case (Cons ttl ttls)
  show ?case
  proof (cases "cancelled ttl \<or> isl (probe ttl)")
    case True
    then have "hs = hops \<and> hops \<noteq> [] \<and> (cancelled ttl \<or> probe ttl = Inl Probe_Cancelled)"
      using Cons.prems(1) by (auto split: if_splits sum.splits)
    then show ?thesis by (intro exI [of _ "[]"]) (auto simp: trace_shape_def)
  next
    case False
    then obtain s where s: "\<not> cancelled ttl" "probe ttl = Inr s" by (cases "probe ttl") auto
    show ?thesis
    proof (cases "sm_status s = Reply")
      case True
      then have "hs = hops @ [single_hop ttl s]" using Cons.prems(1) s by simp
      then show ?thesis
        using True by (intro exI [of _ "[single_hop ttl s]"]) (auto simp: trace_shape_def single_hop_def)
    next
      case unreached: False
      then have "trace_loop cancelled probe ttls (hops @ [single_hop ttl s]) = Ok hs"
        using Cons.prems(1) s by simp
      from Cons.IH [OF this] Cons.prems(2) unreached obtain more where
        m: "hs = (hops @ [single_hop ttl s]) @ more" "trace_shape ttls more"
        "length more = length ttls \<or> more \<noteq> [] \<and> hr_reached_destination (last more) \<or>
         hs \<noteq> [] \<and> (\<exists>t \<in> set ttls. cancelled t \<or> probe t = Inl Probe_Cancelled)"
        by (auto simp: single_hop_def)
      from m(2) have "trace_shape (ttl # ttls) (single_hop ttl s # more)"
        using unreached by (auto simp: trace_shape_def single_hop_def)
      with m show ?thesis by (intro exI [of _ "single_hop ttl s # more"]) auto
    qed
  qed
qed

end
