(* ===== verification/Path_Workers.thy ===== *)
theory Path_Workers
  imports Path_Native
begin

text \<open>
  \<open>run_concurrent\<close> of \<open>crates/path-io/src/native/pacing.rs\<close> and the path statistics of
  \<open>crates/path-io/src/native.rs\<close> that run on it. A job is its owner and its input. The dispatching
  loop and its workers are a state machine: the phases are the wait for the next send, the loop that
  looks for a free place, and the final wait for the workers that are left.
\<close>

section \<open>The dispatcher\<close>

datatype 'a worker_end = Returned "probe_error + 'a" | Worker_Panicked

datatype conc_phase = Waiting | Placing | Draining

record ('i, 'a) conc_state =
  cs_phase :: conc_phase
  cs_jobs :: "(nat \<times> 'i) list"
  cs_workers :: "(nat \<times> 'i) list"
  cs_completed :: "(nat \<times> 'a) list"
  cs_failure :: "probe_error option"
  cs_next_send :: instant

text \<open>
  What the loop meets next: the polls of the wait for the next send; the worker at a position
  finished; the checks of the token and of the free places, with the clock after the spawn and, where
  the spawn fails, its error; the check of the token while draining.
\<close>

datatype conc_event =
    Waited "(bool \<times> instant) list"
  | Finished nat
  | Checked bool instant "bytes option"
  | Drain_Checked bool

definition record_failure :: "probe_error \<Rightarrow> ('i, 'a) conc_state \<Rightarrow> ('i, 'a) conc_state" where
  "record_failure e st =
     (if cs_failure st = None \<or> (cs_failure st = Some Probe_Cancelled \<and> e \<noteq> Probe_Cancelled)
      then st\<lparr>cs_failure := Some e\<rparr> else st)"

definition collect_worker :: "nat \<Rightarrow> 'a worker_end \<Rightarrow> ('i, 'a) conc_state \<Rightarrow> ('i, 'a) conc_state" where
  "collect_worker owner result st = (case result of
     Returned (Inr out) \<Rightarrow> st\<lparr>cs_completed := cs_completed st @ [(owner, out)]\<rparr>
   | Returned (Inl e) \<Rightarrow> record_failure e st
   | Worker_Panicked \<Rightarrow> record_failure (Io (lit ''paced probe worker'') (lit ''probe worker panicked'')) st)"

definition remove_worker :: "nat \<Rightarrow> ('i, 'a) conc_state \<Rightarrow> ('i, 'a) conc_state" where
  "remove_worker pos st = st\<lparr>cs_workers := take pos (cs_workers st) @ drop (Suc pos) (cs_workers st)\<rparr>"

definition finish_worker ::
  "(nat \<times> 'i \<Rightarrow> 'a worker_end) \<Rightarrow> nat \<Rightarrow> ('i, 'a) conc_state \<Rightarrow> ('i, 'a) conc_state option" where
  "finish_worker probe pos st =
     (if pos < length (cs_workers st)
      then Some (collect_worker (fst (cs_workers st ! pos)) (probe (cs_workers st ! pos)) (remove_worker pos st))
      else None)"

text \<open>The head of the \<open>for\<close> loop: with no job left it falls through to the final wait.\<close>

definition next_job :: "('i, 'a) conc_state \<Rightarrow> ('i, 'a) conc_state" where
  "next_job st = st\<lparr>cs_phase := if cs_jobs st = [] then Draining else Waiting\<rparr>"

definition spawn_job ::
  "duration \<Rightarrow> instant \<Rightarrow> bytes option \<Rightarrow> ('i, 'a) conc_state \<Rightarrow> ('i, 'a) conc_state" where
  "spawn_job interval now spawn st = (case spawn of
     None \<Rightarrow> next_job (st\<lparr>cs_workers := cs_workers st @ [hd (cs_jobs st)], cs_jobs := tl (cs_jobs st),
       cs_next_send := now + interval\<rparr>)
   | Some msg \<Rightarrow> (record_failure (Io (lit ''spawn paced probe worker'') msg) st)
       \<lparr>cs_phase := Draining, cs_jobs := tl (cs_jobs st)\<rparr>)"

fun conc_step :: "nat \<Rightarrow> duration \<Rightarrow> (nat \<times> 'i \<Rightarrow> 'a worker_end) \<Rightarrow> conc_event \<Rightarrow>
    ('i, 'a) conc_state \<Rightarrow> ('i, 'a) conc_state option" where
  "conc_step limit interval probe (Waited polls) st =
     (if cs_phase st \<noteq> Waiting then None
      else case wait_until (cs_next_send st) polls of
        Some (Ok _, _) \<Rightarrow> Some (st\<lparr>cs_phase := Placing\<rparr>)
      | Some (Err e, _) \<Rightarrow> Some ((record_failure e st)\<lparr>cs_phase := Draining\<rparr>)
      | _ \<Rightarrow> None)"
| "conc_step limit interval probe (Finished pos) st =
     (if cs_phase st = Waiting then None else finish_worker probe pos st)"
| "conc_step limit interval probe (Checked cancelled now spawn) st =
     (if cs_phase st \<noteq> Placing then None
      else if cancelled then Some ((record_failure Probe_Cancelled st)\<lparr>cs_phase := Draining\<rparr>)
      else if cs_failure st \<noteq> None then Some (st\<lparr>cs_phase := Draining\<rparr>)
      else if length (cs_workers st) < limit then Some (spawn_job interval now spawn st)
      else Some st)"
| "conc_step limit interval probe (Drain_Checked cancelled) st =
     (if cs_phase st \<noteq> Draining \<or> cs_workers st = [] then None
      else if cancelled \<and> cs_failure st = None then Some (record_failure Probe_Cancelled st)
      else Some st)"

fun conc_run :: "nat \<Rightarrow> duration \<Rightarrow> (nat \<times> 'i \<Rightarrow> 'a worker_end) \<Rightarrow> conc_event list \<Rightarrow>
    ('i, 'a) conc_state \<Rightarrow> ('i, 'a) conc_state option" where
  "conc_run limit interval probe [] st = Some st"
| "conc_run limit interval probe (e # es) st =
     Option.bind (conc_step limit interval probe e st) (conc_run limit interval probe es)"

definition conc_start :: "(nat \<times> 'i) list \<Rightarrow> instant \<Rightarrow> ('i, 'a) conc_state" where
  "conc_start jobs now = next_job \<lparr>cs_phase = Waiting, cs_jobs = jobs, cs_workers = [],
     cs_completed = [], cs_failure = None, cs_next_send = now\<rparr>"

text \<open>
  The descriptors a process may open bound the workers: three per probe and 64 in reserve.
\<close>

definition clamp_outstanding :: "nat \<Rightarrow> u64 option \<Rightarrow> nat" where
  "clamp_outstanding max_outstanding limit = (case limit of
     None \<Rightarrow> max_outstanding
   | Some l \<Rightarrow> min max_outstanding (max (unat (saturating_sub l 64 div 3)) 1))"

text \<open>
  A run is over when the loop is draining and no worker is left; \<open>None\<close> is a list of events that the
  program cannot see, or one that ends while it is still at work. A limit of zero is a panic.
\<close>

definition run_concurrent :: "(nat \<times> 'i) list \<Rightarrow> duration \<Rightarrow> nat \<Rightarrow> u64 option \<Rightarrow>
    (nat \<times> 'i \<Rightarrow> 'a worker_end) \<Rightarrow> instant \<Rightarrow> conc_event list \<Rightarrow>
    ('a paced_result, probe_error) outcome option" where
  "run_concurrent jobs interval max_outstanding descriptors probe now events =
     (if max_outstanding = 0 then Some Panic
      else Option.bind (conc_run (clamp_outstanding max_outstanding descriptors) interval probe events
          (conc_start jobs now)) (\<lambda>st.
        if cs_phase st = Draining \<and> cs_workers st = []
        then Some (Ok \<lparr>pr_completed = cs_completed st, pr_failure = cs_failure st\<rparr>) else None))"

section \<open>Path statistics\<close>

record hop_statistics =
  hs_ttl :: u8
  hs_address :: "ip_addr option"
  hs_statistics :: statistics

definition probe_sequence :: "u8 \<Rightarrow> u16 \<Rightarrow> nat \<Rightarrow> u16" where
  "probe_sequence ttl probes index = ucast ttl * probes + word_of_nat index"

definition hop_jobs :: "hop_result list \<Rightarrow> u16 \<Rightarrow> (nat \<times> u8 \<times> u16) list" where
  "hop_jobs hops probes = concat (map (\<lambda>index.
     map (\<lambda>(hop_index, hop). (hop_index, hr_ttl hop, probe_sequence (hr_ttl hop) probes index))
       (enumerate 0 hops)) [0..<unat probes])"

fun push_samples :: "(nat \<times> 'a) list \<Rightarrow> 'a list list \<Rightarrow> ('a list list, probe_error) outcome" where
  "push_samples [] acc = Ok acc"
| "push_samples ((owner, s) # rest) acc =
     and_then (update_at acc owner (\<lambda>ss. Ok (ss @ [s]))) (push_samples rest)"

definition hop_summary :: "hop_result \<Rightarrow> sample list \<Rightarrow> hop_statistics" where
  "hop_summary hop unsorted =
     (let samples = sort_key sm_sequence unsorted in
      \<lparr>hs_ttl = hr_ttl hop,
       hs_address = (case List.map_filter sm_hop samples of a # _ \<Rightarrow> Some a | [] \<Rightarrow> hr_address hop),
       hs_statistics = from_samples samples\<rparr>)"

definition summarize_hops :: "hop_result list \<Rightarrow> sample paced_result \<Rightarrow>
    (hop_statistics list, probe_error) outcome" where
  "summarize_hops hops r =
     and_then (push_samples (pr_completed r) (map (\<lambda>_. []) hops)) (\<lambda>samples.
       case pr_failure r of
         Some e \<Rightarrow> if e \<noteq> Probe_Cancelled \<or> list_all (\<lambda>ss. ss = []) samples then Err e
           else Ok (map (\<lambda>(hop, ss). hop_summary hop ss) (zip hops samples))
       | None \<Rightarrow> Ok (map (\<lambda>(hop, ss). hop_summary hop ss) (zip hops samples)))"

definition measure_hops_with_probe :: "hop_result list \<Rightarrow> u16 \<Rightarrow> duration \<Rightarrow> nat \<Rightarrow> u64 option \<Rightarrow>
    (nat \<times> u8 \<times> u16 \<Rightarrow> sample worker_end) \<Rightarrow> instant \<Rightarrow> conc_event list \<Rightarrow>
    (hop_statistics list, probe_error) outcome option" where
  "measure_hops_with_probe hops probes interval max_outstanding descriptors probe now events =
     map_option (\<lambda>r. and_then r (summarize_hops hops))
       (run_concurrent (hop_jobs hops probes) interval max_outstanding descriptors probe now events)"

definition measure_hops_scoped :: "hop_result list \<Rightarrow> u16 \<Rightarrow> u64 option \<Rightarrow>
    (nat \<times> u8 \<times> u16 \<Rightarrow> sample worker_end) \<Rightarrow> instant \<Rightarrow> conc_event list \<Rightarrow>
    (hop_statistics list, probe_error) outcome option" where
  "measure_hops_scoped hops probes descriptors probe now events =
     (if probes = 0 then Some (Err (Invalid_Plan (lit ''path statistics probe count must be positive'')))
      else measure_hops_with_probe hops probes (from_millis 250) 64 descriptors probe now events)"

section \<open>No job is lost\<close>

text \<open>
  Each job is still to come, on a worker, ended, or lost to a failed spawn. While nothing has failed
  none is lost, every ended one returned a value, and the loop drains only when no job is left.
\<close>

definition worker_answers :: "(nat \<times> 'i \<Rightarrow> 'a worker_end) \<Rightarrow> (nat \<times> 'i) list \<Rightarrow> (nat \<times> 'a) list" where
  "worker_answers probe ended = List.map_filter (\<lambda>j. case probe j of
     Returned (Inr out) \<Rightarrow> Some (fst j, out) | _ \<Rightarrow> None) ended"

definition accounted :: "(nat \<times> 'i \<Rightarrow> 'a worker_end) \<Rightarrow> (nat \<times> 'i) list \<Rightarrow> (nat \<times> 'i) list \<Rightarrow>
    (nat \<times> 'i) list \<Rightarrow> ('i, 'a) conc_state \<Rightarrow> bool" where
  "accounted probe jobs ended lost st \<longleftrightarrow>
     mset jobs = mset (cs_jobs st) + mset (cs_workers st) + mset ended + mset lost \<and>
     cs_completed st = worker_answers probe ended \<and>
     (cs_phase st \<noteq> Draining \<longrightarrow> cs_jobs st \<noteq> []) \<and>
     (cs_failure st = None \<longrightarrow> lost = [] \<and> (\<forall>j \<in> set ended. \<exists>out. probe j = Returned (Inr out)) \<and>
        (cs_phase st = Draining \<longrightarrow> cs_jobs st = []))"

definition conc_inv :: "nat \<Rightarrow> (nat \<times> 'i \<Rightarrow> 'a worker_end) \<Rightarrow> (nat \<times> 'i) list \<Rightarrow>
    ('i, 'a) conc_state \<Rightarrow> bool" where
  "conc_inv limit probe jobs st \<longleftrightarrow>
     length (cs_workers st) \<le> limit \<and> (\<exists>ended lost. accounted probe jobs ended lost st)"

lemma record_failure_fields [simp]:
  "cs_phase (record_failure e st) = cs_phase st"
  "cs_jobs (record_failure e st) = cs_jobs st"
  "cs_workers (record_failure e st) = cs_workers st"
  "cs_completed (record_failure e st) = cs_completed st"
  "cs_failure (record_failure e st) \<noteq> None"
  by (auto simp: record_failure_def)

lemma remove_worker_fields [simp]:
  "cs_phase (remove_worker pos st) = cs_phase st"
  "cs_jobs (remove_worker pos st) = cs_jobs st"
  "cs_completed (remove_worker pos st) = cs_completed st"
  "cs_failure (remove_worker pos st) = cs_failure st"
  "cs_workers (remove_worker pos st) = take pos (cs_workers st) @ drop (Suc pos) (cs_workers st)"
  by (simp_all add: remove_worker_def)

lemma worker_answers_snoc: "worker_answers probe (ended @ [j]) =
    worker_answers probe ended @ (case probe j of Returned (Inr out) \<Rightarrow> [(fst j, out)] | _ \<Rightarrow> [])"
  by (simp add: worker_answers_def List.map_filter_def split: worker_end.split sum.split)

lemma mset_remove: "pos < length xs \<Longrightarrow> mset xs = add_mset (xs ! pos) (mset (take pos xs @ drop (Suc pos) xs))"
  by (subst id_take_nth_drop [of pos xs]) simp_all

lemma accounted_finish:
  assumes "accounted probe jobs ended lost st" and "finish_worker probe pos st = Some st'"
  shows "accounted probe jobs (ended @ [cs_workers st ! pos]) lost st' \<and>
    length (cs_workers st') \<le> length (cs_workers st)"
proof -
  define j where "j = cs_workers st ! pos"
  have pos: "pos < length (cs_workers st)" and
    st': "st' = collect_worker (fst j) (probe j) (remove_worker pos st)"
    using assms(2) by (auto simp: finish_worker_def j_def split: if_splits)
  have m: "mset (cs_workers st) = add_mset j (mset (take pos (cs_workers st) @ drop (Suc pos) (cs_workers st)))"
    using mset_remove [OF pos] by (simp add: j_def)
  show ?thesis
  proof (cases "\<exists>out. probe j = Returned (Inr out)")
    case True
    then obtain out where "probe j = Returned (Inr out)" by blast
    with assms(1) m pos show ?thesis
      by (auto simp: accounted_def st' collect_worker_def worker_answers_snoc j_def [symmetric])
  next
    case False
    then have "worker_answers probe (ended @ [j]) = worker_answers probe ended"
      by (simp add: worker_answers_snoc split: worker_end.split sum.split)
    moreover have "\<exists>e. st' = record_failure e (remove_worker pos st)"
      using False by (auto simp: st' collect_worker_def split: worker_end.split sum.split)
    ultimately show ?thesis
      using assms(1) m pos by (auto simp: accounted_def j_def [symmetric])
  qed
qed

lemma conc_inv_start: "conc_inv limit probe jobs (conc_start jobs now)"
  by (auto simp: conc_inv_def accounted_def conc_start_def next_job_def worker_answers_def
      List.map_filter_def intro!: exI [of _ "[]"])

lemma conc_inv_lift:
  assumes "conc_inv limit probe jobs st" and "length (cs_workers st') \<le> length (cs_workers st)"
    and "\<And>ended lost. accounted probe jobs ended lost st \<Longrightarrow> accounted probe jobs ended lost st'"
  shows "conc_inv limit probe jobs st'"
proof -
  obtain ended lost where "accounted probe jobs ended lost st" using assms(1) by (auto simp: conc_inv_def)
  with assms show ?thesis unfolding conc_inv_def by (meson le_trans)
qed

lemma conc_inv_fail: "conc_inv limit probe jobs st \<Longrightarrow>
    conc_inv limit probe jobs ((record_failure e st)\<lparr>cs_phase := Draining\<rparr>)"
  by (erule conc_inv_lift) (auto simp: accounted_def)

lemma conc_inv_spawn:
  assumes "conc_inv limit probe jobs st" and "cs_phase st = Placing" and "cs_failure st = None"
    and "length (cs_workers st) < limit"
  shows "conc_inv limit probe jobs (spawn_job interval now spawn st)"
proof -
  obtain ended lost where acc: "accounted probe jobs ended lost st"
    using assms(1) by (auto simp: conc_inv_def)
  then obtain j js where js: "cs_jobs st = j # js" using assms(2) by (cases "cs_jobs st") (auto simp: accounted_def)
  show ?thesis
  proof (cases spawn)
    case None
    with acc js assms have "accounted probe jobs ended lost (spawn_job interval now spawn st)"
      by (auto simp: accounted_def spawn_job_def next_job_def)
    moreover have "length (cs_workers (spawn_job interval now spawn st)) \<le> limit"
      using None assms(4) by (simp add: spawn_job_def next_job_def)
    ultimately show ?thesis unfolding conc_inv_def by blast
  next
    case (Some msg)
    with acc js have "accounted probe jobs ended (lost @ [j]) (spawn_job interval now spawn st)"
      by (auto simp: accounted_def spawn_job_def)
    moreover have "length (cs_workers (spawn_job interval now spawn st)) \<le> limit"
      using Some assms(4) by (simp add: spawn_job_def)
    ultimately show ?thesis unfolding conc_inv_def by blast
  qed
qed

lemma conc_inv_step:
  assumes "conc_step limit interval probe e st = Some st'" and "conc_inv limit probe jobs st"
  shows "conc_inv limit probe jobs st'"
proof (cases e)
  case (Waited polls)
  with assms(1) have "cs_phase st = Waiting" and
    "st' = st\<lparr>cs_phase := Placing\<rparr> \<or> (\<exists>e. st' = (record_failure e st)\<lparr>cs_phase := Draining\<rparr>)"
    by (auto split: if_splits option.splits prod.splits outcome.splits)
  moreover have "conc_inv limit probe jobs (st\<lparr>cs_phase := Placing\<rparr>)" if "cs_phase st = Waiting"
    using assms(2) by (rule conc_inv_lift) (use that in \<open>auto simp: accounted_def\<close>)
  ultimately show ?thesis using conc_inv_fail [OF assms(2)] by auto
next
  case (Finished pos)
  then have "finish_worker probe pos st = Some st'" using assms(1) by (simp split: if_splits)
  then show ?thesis using assms(2) accounted_finish le_trans by (fastforce simp: conc_inv_def)
next
  case (Checked cancelled now spawn)
  show ?thesis
  proof (cases "cancelled \<or> cs_failure st \<noteq> None")
    case True
    have "conc_inv limit probe jobs (st\<lparr>cs_phase := Draining\<rparr>)" if "cs_failure st \<noteq> None"
      using assms(2) by (rule conc_inv_lift) (use that in \<open>auto simp: accounted_def\<close>)
    with True Checked assms(1) conc_inv_fail [OF assms(2)] show ?thesis by (auto split: if_splits)
  next
    case False
    with Checked assms conc_inv_spawn [OF assms(2)] show ?thesis by (auto split: if_splits)
  qed
next
  case (Drain_Checked cancelled)
  have "conc_inv limit probe jobs (record_failure e' st)" for e'
    using assms(2) by (rule conc_inv_lift) (auto simp: accounted_def)
  with Drain_Checked assms show ?thesis by (auto split: if_splits)
qed

lemma conc_inv_run: "conc_run limit interval probe es st = Some st' \<Longrightarrow> conc_inv limit probe jobs st \<Longrightarrow>
    conc_inv limit probe jobs st'"
  by (induction es arbitrary: st) (auto simp: bind_eq_Some_conv intro: conc_inv_step)

section \<open>A run nothing disturbs\<close>

fun undisturbed :: "conc_event \<Rightarrow> bool" where
  "undisturbed (Waited polls) = (\<forall>p \<in> set polls. \<not> fst p)"
| "undisturbed (Finished pos) = True"
| "undisturbed (Checked cancelled now spawn) = (\<not> cancelled \<and> spawn = None)"
| "undisturbed (Drain_Checked cancelled) = (\<not> cancelled)"

lemma wait_until_undisturbed: "\<forall>p \<in> set polls. \<not> fst p \<Longrightarrow> wait_until deadline polls \<noteq> Some (Err e, rest)"
  by (induction polls) (auto split: if_splits)

lemma undisturbed_step:
  assumes "conc_step limit interval probe e st = Some st'" and "undisturbed e" and "cs_failure st = None"
    and "\<forall>j \<in> set (cs_workers st). \<exists>out. probe j = Returned (Inr out)"
  shows "cs_failure st' = None"
proof (cases e)
  case (Waited polls)
  with assms show ?thesis
    by (auto simp: wait_until_undisturbed split: if_splits option.splits prod.splits outcome.splits)
next
  case (Finished pos)
  with assms(1) have "finish_worker probe pos st = Some st'" by (simp split: if_splits)
  moreover from this obtain out where "probe (cs_workers st ! pos) = Returned (Inr out)"
    using assms(4) by (fastforce simp: finish_worker_def split: if_splits)
  ultimately show ?thesis
    using assms(3) by (auto simp: finish_worker_def collect_worker_def split: if_splits)
next
  case (Checked cancelled now spawn)
  with assms show ?thesis by (auto simp: spawn_job_def next_job_def split: if_splits)
next
  case (Drain_Checked cancelled)
  with assms show ?thesis by (auto split: if_splits)
qed

lemma undisturbed_run:
  assumes "conc_run limit interval probe es st = Some st'" and "\<forall>e \<in> set es. undisturbed e"
    and "cs_failure st = None" and "conc_inv limit probe jobs st"
    and "\<forall>j \<in> set jobs. \<exists>out. probe j = Returned (Inr out)"
  shows "cs_failure st' = None"
  using assms
proof (induction es arbitrary: st)
  case (Cons e es)
  then obtain st1 where st1: "conc_step limit interval probe e st = Some st1" "conc_run limit interval probe es st1 = Some st'"
    by (auto simp: bind_eq_Some_conv)
  from Cons.prems(4) obtain ended lost where
    "mset jobs = mset (cs_jobs st) + mset (cs_workers st) + mset ended + mset lost"
    by (auto simp: conc_inv_def accounted_def)
  then have "set (cs_workers st) \<subseteq> set jobs" by (metis UnI1 UnI2 set_mset_mset set_mset_union subsetI)
  with Cons.prems(2,3,5) st1(1) have "cs_failure st1 = None"
    by (intro undisturbed_step [OF st1(1)]) auto
  with Cons.IH [OF st1(2)] Cons.prems st1(1) conc_inv_step show ?case by fastforce
qed simp

lemma run_concurrent_complete:
  assumes "run_concurrent jobs interval max_outstanding descriptors probe now events = Some r"
    and "0 < max_outstanding" and "\<forall>e \<in> set events. undisturbed e"
    and "\<forall>j \<in> set jobs. \<exists>out. probe j = Returned (Inr out)"
  shows "\<exists>ended. mset ended = mset jobs \<and> r = Ok \<lparr>pr_completed = worker_answers probe ended, pr_failure = None\<rparr>"
proof -
  let ?limit = "clamp_outstanding max_outstanding descriptors"
  obtain st where st: "conc_run ?limit interval probe events (conc_start jobs now) = Some st"
      "cs_phase st = Draining" "cs_workers st = []"
      "r = Ok \<lparr>pr_completed = cs_completed st, pr_failure = cs_failure st\<rparr>"
    using assms(1,2) by (auto simp: run_concurrent_def bind_eq_Some_conv split: if_splits)
  have inv: "conc_inv ?limit probe jobs (conc_start jobs now)" by (rule conc_inv_start)
  have "cs_failure st = None"
    using undisturbed_run [OF st(1) assms(3) _ inv assms(4)] by (simp add: conc_start_def next_job_def)
  moreover from conc_inv_run [OF st(1) inv] obtain ended lost where "accounted probe jobs ended lost st"
    by (auto simp: conc_inv_def)
  ultimately have "mset ended = mset jobs \<and> cs_completed st = worker_answers probe ended"
    using st(2,3) by (simp add: accounted_def)
  with st(4) \<open>cs_failure st = None\<close> show ?thesis by auto
qed

section \<open>The samples of a hop\<close>

lemma push_samples_Ok:
  "\<forall>p \<in> set xs. fst p < length acc \<Longrightarrow> push_samples xs acc =
     Ok (map (\<lambda>i. acc ! i @ map snd (filter (\<lambda>p. fst p = i) xs)) [0..<length acc])"
proof (induction xs acc rule: push_samples.induct)
  case (1 acc)
  show ?case by (simp add: map_nth)
next
  case (2 owner s rest acc)
  then have o: "update_at acc owner (\<lambda>ss. Ok (ss @ [s])) =
      (Ok (acc[owner := acc ! owner @ [s]]) :: ('a list list, probe_error) outcome)"
    by (simp add: update_at_def)
  with 2 show ?case by (auto simp: nth_list_update intro!: nth_equalityI)
qed

lemma filter_enumerate:
  "filter (\<lambda>p. fst p = i) (enumerate n xs) = (if n \<le> i \<and> i < n + length xs then [(i, xs ! (i - n))] else [])"
  by (induction xs arbitrary: n) (auto simp: nth_Cons' Suc_diff_Suc)

lemma owner_jobs:
  assumes "i < length hops"
  shows "filter (\<lambda>j. fst j = i) (hop_jobs hops probes) =
     map (\<lambda>k. (i, hr_ttl (hops ! i), probe_sequence (hr_ttl (hops ! i)) probes k)) [0..<unat probes]"
proof -
  have f: "filter (\<lambda>j. fst j = i) (map (\<lambda>(hop_index, hop). (hop_index, hr_ttl hop, g hop)) xs) =
      map (\<lambda>(hop_index, hop). (hop_index, hr_ttl hop, g hop)) (filter (\<lambda>p. fst p = i) xs)"
    for g :: "hop_result \<Rightarrow> u16" and xs
    by (induction xs) auto
  have "concat (map (\<lambda>k. [h k]) ks) = map h ks" for h :: "nat \<Rightarrow> nat \<times> u8 \<times> u16" and ks
    by (induction ks) auto
  with assms show ?thesis
    by (simp add: hop_jobs_def filter_concat o_def f filter_enumerate split: if_splits)
qed

lemma owner_answers:
  assumes "\<forall>j \<in> set ended. probe j = Returned (Inr (ans j))"
  shows "map snd (filter (\<lambda>p. fst p = i) (worker_answers probe ended)) = map ans (filter (\<lambda>j. fst j = i) ended)"
  using assms by (induction ended) (auto simp: worker_answers_def List.map_filter_def)

lemma sort_key_unique:
  fixes f :: "'a \<Rightarrow> 'b::linorder"
  assumes "mset S = mset T" and "sorted (map f T)" and "distinct (map f T)"
  shows "sort_key f S = T"
proof (rule map_sorted_distinct_set_unique [where f = f])
  have "set S = set T" using assms(1) by (metis set_mset_mset)
  then show "inj_on f (set (sort_key f S) \<union> set T)" and "set (sort_key f S) = set T"
    using assms(3) by (simp_all add: distinct_map)
  have "mset (map f S) = mset (map f T)" using assms(1) by simp
  then show "distinct (map f (sort_key f S))"
    using assms(3) by (metis distinct_map mset_eq_imp_distinct_iff mset_map mset_sort)
qed (use assms in simp_all)

lemma unat_probe_sequence:
  assumes "unat ttl * unat probes + unat probes \<le> 65536" and "k < unat probes"
  shows "unat (probe_sequence ttl probes k) = unat ttl * unat probes + k"
proof -
  have "k < 65536" using assms(2) unat_u16_less [of probes] by simp
  then have "unat (word_of_nat k :: u16) = k" by (simp add: unat_of_nat)
  with assms show ?thesis
    by (simp add: probe_sequence_def unat_word_ariths unat_ucast_up)
qed

section \<open>Statistics do not depend on the interleaving\<close>

text \<open>The reference: each hop probed on its own, its samples taken in the order of their sends.\<close>

definition reference_hop :: "(nat \<times> u8 \<times> u16 \<Rightarrow> sample) \<Rightarrow> u16 \<Rightarrow> nat \<times> hop_result \<Rightarrow> hop_statistics" where
  "reference_hop ans probes indexed =
     (let (i, hop) = indexed;
          samples = map (\<lambda>k. ans (i, hr_ttl hop, probe_sequence (hr_ttl hop) probes k)) [0..<unat probes]
      in \<lparr>hs_ttl = hr_ttl hop,
          hs_address = (case List.map_filter sm_hop samples of a # _ \<Rightarrow> Some a | [] \<Rightarrow> hr_address hop),
          hs_statistics = from_samples samples\<rparr>)"

lemma hop_summary_reference:
  assumes "mset S = mset (map ans (map (\<lambda>k. (i, hr_ttl hop, probe_sequence (hr_ttl hop) probes k)) [0..<unat probes]))"
    and "\<forall>k < unat probes. sm_sequence (ans (i, hr_ttl hop, probe_sequence (hr_ttl hop) probes k)) =
        probe_sequence (hr_ttl hop) probes k"
    and "unat (hr_ttl hop) * unat probes + unat probes \<le> 65536"
  shows "hop_summary hop S = reference_hop ans probes (i, hop)"
proof -
  let ?seq = "probe_sequence (hr_ttl hop) probes"
  let ?T = "map (\<lambda>k. ans (i, hr_ttl hop, ?seq k)) [0..<unat probes]"
  have keys: "map sm_sequence ?T = map ?seq [0..<unat probes]"
    using assms(2) by simp
  have less: "?seq k < ?seq l" if "k < l" and "l < unat probes" for k l
    using that unat_probe_sequence [OF assms(3)] by (simp add: word_less_nat_alt)
  then have "sorted_wrt (<) (map ?seq [0..<unat probes])"
    by (simp add: sorted_wrt_map sorted_wrt_iff_nth_less)
  then have "sorted (map sm_sequence ?T)" and "distinct (map sm_sequence ?T)"
    unfolding keys by (simp_all only: strict_sorted_iff)
  with assms(1) have "sort_key sm_sequence S = ?T"
    by (intro sort_key_unique) (simp_all add: o_def)
  then show ?thesis by (simp add: hop_summary_def reference_hop_def)
qed

text \<open>
  C37. Path statistics are those of the reference, whatever order the worker threads finish in: when
  no probe fails and nothing is cancelled, \<open>measure_hops_scoped\<close> returns for each hop the statistics
  of all its samples in the order they were sent, with the first responder seen. This needs that the
  sequence numbers of a hop do not wrap, which holds up to hop 64 for 1000 probes per hop.
\<close>

theorem measure_hops_exact:
  assumes "measure_hops_scoped hops probes descriptors probe now events = Some res" and "probes \<noteq> 0"
    and "\<forall>e \<in> set events. undisturbed e"
    and "\<forall>j \<in> set (hop_jobs hops probes). probe j = Returned (Inr (ans j)) \<and> sm_sequence (ans j) = snd (snd j)"
    and "\<forall>h \<in> set hops. unat (hr_ttl h) * unat probes + unat probes \<le> 65536"
  shows "res = Ok (map (reference_hop ans probes) (enumerate 0 hops))"
proof -
  let ?jobs = "hop_jobs hops probes"
  obtain r where r: "run_concurrent ?jobs (from_millis 250) 64 descriptors probe now events = Some r"
      "res = and_then r (summarize_hops hops)"
    using assms(1,2) by (auto simp: measure_hops_scoped_def measure_hops_with_probe_def)
  have "\<forall>j \<in> set ?jobs. \<exists>out. probe j = Returned (Inr out)" using assms(4) by blast
  from run_concurrent_complete [OF r(1) _ assms(3) this] obtain ended where
    e: "mset ended = mset ?jobs" "r = Ok \<lparr>pr_completed = worker_answers probe ended, pr_failure = None\<rparr>" by auto
  define S where "S i = map snd (filter (\<lambda>p. fst p = i) (worker_answers probe ended))" for i
  have in_jobs: "set ended = set ?jobs" using e(1) by (metis set_mset_mset)
  have "\<forall>p \<in> set (worker_answers probe ended). fst p < length hops"
    using in_jobs by (auto simp: worker_answers_def List.map_filter_def hop_jobs_def in_set_enumerate_eq
        split: worker_end.splits sum.splits)
  then have p: "push_samples (worker_answers probe ended) (map (\<lambda>_. []) hops) =
      (Ok (map S [0..<length hops]) :: (sample list list, probe_error) outcome)"
    by (subst push_samples_Ok) (auto simp: S_def)
  have one: "hop_summary (hops ! i) (S i) = reference_hop ans probes (i, hops ! i)" if "i < length hops" for i
  proof (rule hop_summary_reference)
    have "S i = map ans (filter (\<lambda>j. fst j = i) ended)"
      unfolding S_def using in_jobs assms(4) by (intro owner_answers) simp
    then show "mset (S i) = mset (map ans (map (\<lambda>k. (i, hr_ttl (hops ! i),
        probe_sequence (hr_ttl (hops ! i)) probes k)) [0..<unat probes]))"
      unfolding owner_jobs [OF that, symmetric] by (simp only: mset_map mset_filter e(1))
    have "(i, hr_ttl (hops ! i), probe_sequence (hr_ttl (hops ! i)) probes k) \<in>
        set (filter (\<lambda>j. fst j = i) ?jobs)" if "k < unat probes" for k
      unfolding owner_jobs [OF \<open>i < length hops\<close>] using that by simp
    then show "\<forall>k < unat probes. sm_sequence (ans (i, hr_ttl (hops ! i), probe_sequence (hr_ttl (hops ! i)) probes k)) =
        probe_sequence (hr_ttl (hops ! i)) probes k"
      using assms(4) by fastforce
  qed (use assms(5) that in simp)
  have "res = Ok (map (\<lambda>(hop, ss). hop_summary hop ss) (zip hops (map S [0..<length hops])))"
    by (simp add: r(2) e(2) summarize_hops_def p)
  also have "map (\<lambda>(hop, ss). hop_summary hop ss) (zip hops (map S [0..<length hops])) =
      map (reference_hop ans probes) (enumerate 0 hops)"
    using one by (auto simp: enumerate_eq_zip intro!: nth_equalityI)
  finally show ?thesis .
qed



definition demo_answer :: "nat \<times> u8 \<times> u16 \<Rightarrow> sample" where
  "demo_answer j = \<lparr>sm_sequence = snd (snd j), sm_hop = (if snd (snd j) = 3 then Some (V4 7) else None),
     sm_elapsed_ms = None, sm_status = Sample_Timeout, sm_next_hop_mtu = None, sm_mpls = []\<rparr>"

theorem measure_hops_exact_witness:
  "\<exists>stats. measure_hops_scoped [\<lparr>hr_ttl = 1, hr_address = None, hr_reached_destination = True, hr_samples = []\<rparr>]
     2 None (\<lambda>j. Returned (Inr (demo_answer j))) 0
     [Waited [(False, 0)], Checked False 5 None, Waited [(False, 5), (False, 250000005)],
      Checked False 250000006 None, Finished 1, Drain_Checked False, Finished 0] = Some (Ok stats) \<and>
     map hs_address stats = [Some (V4 7)]"
proof -
  let ?hops = "[\<lparr>hr_ttl = 1, hr_address = None, hr_reached_destination = True, hr_samples = []\<rparr>]"
  let ?events = "[Waited [(False, 0)], Checked False 5 None, Waited [(False, 5), (False, 250000005)],
      Checked False 250000006 None, Finished 1, Drain_Checked False, Finished 0]"
  have seq: "probe_sequence 1 2 0 = 2" "probe_sequence 1 2 (Suc 0) = 3" by (simp_all add: probe_sequence_def)
  have jobs: "hop_jobs ?hops 2 = [(0, 1, 2), (0, 1, 3)]"
    by (simp add: hop_jobs_def upt_rec seq)
  obtain res where res: "measure_hops_scoped ?hops 2 None (\<lambda>j. Returned (Inr (demo_answer j))) 0 ?events = Some res"
    by (simp add: measure_hops_scoped_def measure_hops_with_probe_def jobs run_concurrent_def
        clamp_outstanding_def conc_start_def next_job_def spawn_job_def finish_worker_def
        collect_worker_def remove_worker_def from_millis_def)
  have "res = Ok (map (reference_hop demo_answer 2) (enumerate 0 ?hops))"
    by (rule measure_hops_exact [OF res]) (simp_all add: jobs demo_answer_def)
  moreover have "hs_address (reference_hop demo_answer 2 (0, hd ?hops)) = Some (V4 7)"
    by (simp add: reference_hop_def upt_rec seq demo_answer_def List.map_filter_def)
  ultimately show ?thesis using res by simp
qed

end
