(* ===== verification/Path_Sockets.thy ===== *)
theory Path_Sockets
  imports Path_Native Trace_Plan Packet_Parse Packet_Build
begin

text \<open>
  The probes of \<open>crates/path-io/src/native.rs\<close> on Linux: the ICMP echo of \<open>probe_once\<close>, the raw SYN
  with its two listeners, the SYN of a kernel connection, and the UDP datagram. A system call is an
  answer of the environment; everything the program makes of the answers (which error it reports,
  which packet it accepts, when it gives up) is modelled.

  A probe waits in a loop of passes. A pass reads the token and the clock, polls, reads the token
  again and drains its sockets; \<open>wait_pass\<close> holds what it reads. A list of passes that ends while the
  probe is still waiting gives \<open>None\<close>.
\<close>

section \<open>System calls\<close>

datatype errno = ENETUNREACH | EHOSTUNREACH | EHOSTDOWN | EACCES | EPERM | EMFILE | ENFILE
  | ECONNREFUSED | EMSGSIZE | EPROTO | EINPROGRESS | EINTR | EWOULDBLOCK | ETIMEDOUT | E_Other nat

type_synonym os_error = "errno \<times> bytes"

definition is_route_error :: "os_error \<Rightarrow> bool" where
  "is_route_error e \<longleftrightarrow> fst e \<in> {ENETUNREACH, EHOSTUNREACH, EHOSTDOWN}"

definition socket_error :: "string \<Rightarrow> os_error \<Rightarrow> probe_error" where
  "socket_error operation e =
     (if fst e \<in> {EACCES, EPERM} then Probe_Permission (lit operation) (snd e)
      else if fst e \<in> {EMFILE, ENFILE} then Io (lit operation) (lit ''too many open files: '' @ snd e)
      else Io (lit operation) (snd e))"

text \<open>
  \<open>se_fault\<close> gives the error of the system call made under an operation name, if it fails;
  \<open>se_token\<close> is the token read by \<open>begin_probe\<close>, \<open>se_send\<close> the answer to the send.
\<close>

datatype sent = Sent_Bytes nat | Send_Failed os_error

record sys_env =
  se_fault :: "string \<Rightarrow> os_error option"
  se_local_port :: u16
  se_source :: ip_addr
  se_token :: bool
  se_send :: sent
  se_started :: instant

definition sys :: "sys_env \<Rightarrow> string \<Rightarrow> (unit, probe_error) outcome" where
  "sys env operation = (case se_fault env operation of
     None \<Rightarrow> Ok () | Some e \<Rightarrow> Err (socket_error operation e))"

text \<open>The std sockets map every error to \<open>ProbeError::Io\<close>.\<close>

definition std_sys :: "sys_env \<Rightarrow> string \<Rightarrow> (unit, probe_error) outcome" where
  "std_sys env operation = (case se_fault env operation of
     None \<Rightarrow> Ok () | Some e \<Rightarrow> Err (Io (lit operation) (snd e)))"

definition begin_probe :: "bool \<Rightarrow> ('a, probe_error) outcome \<Rightarrow> ('a, probe_error) outcome" where
  "begin_probe cancelled send = (if cancelled then Err Probe_Cancelled else send)"

datatype send_outcome = Probe_Sent | No_Route

definition send_outcome :: "string \<Rightarrow> sent \<Rightarrow> nat \<Rightarrow> (send_outcome, probe_error) outcome" where
  "send_outcome operation s expect = (case s of
     Send_Failed e \<Rightarrow> if is_route_error e then Ok No_Route else Err (socket_error operation e)
   | Sent_Bytes n \<Rightarrow>
       if n \<noteq> expect then Err (Io (lit operation)
         (lit ''short write: sent '' @ decimal n @ lit '' of '' @ decimal expect @ lit '' bytes''))
       else Ok Probe_Sent)"

section \<open>Opening the sockets\<close>

datatype socket_kind = Raw_Socket | Datagram_Socket

definition ICMP_PERMISSION_HINT :: bytes where
  "ICMP_PERMISSION_HINT = lit (''run with sudo/root (or grant CAP_NET_RAW on Linux), '' @
     ''register the privileged helper, or on Linux allow unprivileged ICMP sockets via '' @
     ''the net.ipv4.ping_group_range sysctl'')"

fun error_message :: "probe_error \<Rightarrow> bytes" where
  "error_message (Probe_Permission op m) = m"
| "error_message (Io op m) = m"
| "error_message e = probe_error_text e"

definition new_protocol :: "sys_env \<Rightarrow> bool \<Rightarrow> (socket_kind, probe_error) outcome" where
  "new_protocol env icmp =
     and_then
       (case sys env ''open raw ICMP socket'' of
          Ok _ \<Rightarrow> Ok Raw_Socket
        | Panic \<Rightarrow> Panic
        | Err e \<Rightarrow>
            (case e of
               Probe_Permission _ raw \<Rightarrow>
                 if icmp then
                   (case sys env ''open datagram ICMP socket'' of
                      Ok _ \<Rightarrow> Ok Datagram_Socket
                    | Panic \<Rightarrow> Panic
                    | Err e' \<Rightarrow> Err (Probe_Permission (lit ''open ICMP socket'')
                        (lit ''raw socket: '' @ raw @ lit ''; datagram socket: '' @ error_message e' @
                         lit ''; '' @ ICMP_PERMISSION_HINT)))
                 else Err e
             | _ \<Rightarrow> Err e))
       (\<lambda>kind. and_then (sys env ''set raw socket receive timeout'') (\<lambda>_. Ok kind))"

definition prepare_echo :: "sys_env \<Rightarrow> socket_kind \<Rightarrow> u16 \<Rightarrow> (u16, probe_error) outcome" where
  "prepare_echo env kind identifier =
     (if kind = Raw_Socket then Ok identifier
      else and_then (sys env ''enable ICMP error queue'') (\<lambda>_.
           and_then (sys env ''bind datagram ICMP socket'') (\<lambda>_.
           and_then (sys env ''read datagram ICMP identifier'') (\<lambda>_. Ok (se_local_port env)))))"

definition set_traffic_class :: "sys_env \<Rightarrow> string \<Rightarrow> u8 option \<Rightarrow> (unit, probe_error) outcome" where
  "set_traffic_class env operation class =
     (case class of None \<Rightarrow> Ok () | Some _ \<Rightarrow> sys env operation)"

definition ipv6_source_for :: "sys_env \<Rightarrow> (u128, probe_error) outcome" where
  "ipv6_source_for env =
     and_then (std_sys env ''select IPv6 source address'') (\<lambda>_.
     and_then (std_sys env ''read IPv6 source address'') (\<lambda>_.
       case se_source env of
         V6 a \<Rightarrow> Ok a
       | V4 _ \<Rightarrow> Err (Io (lit ''select IPv6 source address'')
           (lit ''OS selected an IPv4 address for an IPv6 target''))))"

definition source_for :: "sys_env \<Rightarrow> (ip_addr, probe_error) outcome" where
  "source_for env =
     and_then (std_sys env ''select probe source address'') (\<lambda>_.
     and_then (std_sys env ''read probe source address'') (\<lambda>_. Ok (se_source env)))"

section \<open>Samples\<close>

definition plain_sample :: "u16 \<Rightarrow> sample_status \<Rightarrow> sample" where
  "plain_sample seq status = \<lparr>sm_sequence = seq, sm_hop = None, sm_elapsed_ms = None,
     sm_status = status, sm_next_hop_mtu = None, sm_mpls = []\<rparr>"

definition timeout_sample :: "u16 \<Rightarrow> sample" where
  "timeout_sample seq = plain_sample seq Sample_Timeout"

definition cancelled_sample :: "u16 \<Rightarrow> sample" where
  "cancelled_sample seq = plain_sample seq Sample_Cancelled"

definition unreachable_sample :: "u16 \<Rightarrow> sample" where
  "unreachable_sample seq = plain_sample seq Unreachable"

definition elapsed_ms :: "duration \<Rightarrow> f64" where
  "elapsed_ms d = f_mul (f_add (f_of_nat (d div 1000000000))
     (f_div (f_of_nat (d mod 1000000000)) (f_of_nat 1000000000))) (Fin 1000)"

definition reply_sample :: "u16 \<Rightarrow> ip_addr option \<Rightarrow> duration \<Rightarrow> sample" where
  "reply_sample seq hop elapsed = \<lparr>sm_sequence = seq, sm_hop = hop,
     sm_elapsed_ms = Some (elapsed_ms elapsed), sm_status = Reply, sm_next_hop_mtu = None, sm_mpls = []\<rparr>"

fun kind_status :: "icmp_kind \<Rightarrow> sample_status" where
  "kind_status EchoReply = Reply"
| "kind_status TimeExceeded = Sample_Time_Exceeded"
| "kind_status DestinationUnreachable = Unreachable"
| "kind_status PacketTooBig = Unreachable"
| "kind_status ParameterProblem = Unreachable"
| "kind_status Other = Unreachable"

definition icmp_sample :: "u16 \<Rightarrow> icmp_kind \<Rightarrow> ip_addr option \<Rightarrow> duration \<Rightarrow> u32 option \<Rightarrow>
    mpls_label list \<Rightarrow> sample" where
  "icmp_sample seq kind hop elapsed mtu labels = \<lparr>sm_sequence = seq, sm_hop = hop,
     sm_elapsed_ms = Some (elapsed_ms elapsed), sm_status = kind_status kind,
     sm_next_hop_mtu = mtu, sm_mpls = labels\<rparr>"

definition response_sample :: "u16 \<Rightarrow> parsed_icmp \<Rightarrow> duration \<Rightarrow> sample" where
  "response_sample seq r elapsed =
     icmp_sample seq (pi_kind r) (pi_source r) elapsed (pi_next_hop_mtu r) (pi_mpls_labels r)"

section \<open>Reading the sockets\<close>

text \<open>
  What \<open>recvfrom\<close> and \<open>recvmsg(MSG_ERRQUEUE)\<close> answer, in order; an empty list would block. A read
  that was interrupted is repeated; a datagram socket reports queued ICMP errors as failed reads.
\<close>

datatype packet_read = Packet bytes "ip_addr option" | Read_Failed os_error

datatype 'a read_class = Got 'a | Repeat | Drained | Broken probe_error

definition classify_read :: "socket_kind \<Rightarrow> packet_read \<Rightarrow> (bytes \<times> ip_addr option) read_class" where
  "classify_read kind r = (case r of
     Packet bs src \<Rightarrow> Got (bs, src)
   | Read_Failed e \<Rightarrow>
       if fst e = EINTR then Repeat
       else if fst e \<in> {EWOULDBLOCK, ETIMEDOUT} then Drained
       else if kind = Datagram_Socket \<and> (is_route_error e \<or> fst e \<in> {ECONNREFUSED, EMSGSIZE, EPROTO})
       then Drained
       else Broken (socket_error ''receive raw ICMP response'' e))"

definition with_source :: "ip_addr option \<Rightarrow> ip_addr option \<Rightarrow> ip_addr option" where
  "with_source own src = (case own of None \<Rightarrow> src | Some a \<Rightarrow> Some a)"

text \<open>The first packet that decodes and answers the probe; the others are dropped.\<close>

fun scan_icmp :: "socket_kind \<Rightarrow> address_family \<Rightarrow> probe_key \<Rightarrow> packet_read list \<Rightarrow>
    (parsed_icmp option, probe_error) outcome" where
  "scan_icmp kind family key [] = Ok None"
| "scan_icmp kind family key (r # rs) = (case classify_read kind r of
     Repeat \<Rightarrow> scan_icmp kind family key rs
   | Drained \<Rightarrow> Ok None
   | Broken e \<Rightarrow> Err e
   | Got (bs, src) \<Rightarrow>
       (case parse_icmp_response bs family of
          Ok p \<Rightarrow>
            if correlates p key then Ok (Some (p\<lparr>pi_source := with_source (pi_source p) src\<rparr>))
            else scan_icmp kind family key rs
        | Err _ \<Rightarrow> scan_icmp kind family key rs
        | Panic \<Rightarrow> Panic))"

fun scan_tcp :: "socket_kind \<Rightarrow> address_family \<Rightarrow> (parsed_tcp \<Rightarrow> bool) \<Rightarrow> packet_read list \<Rightarrow>
    (parsed_tcp option, probe_error) outcome" where
  "scan_tcp kind family accept [] = Ok None"
| "scan_tcp kind family accept (r # rs) = (case classify_read kind r of
     Repeat \<Rightarrow> scan_tcp kind family accept rs
   | Drained \<Rightarrow> Ok None
   | Broken e \<Rightarrow> Err e
   | Got (bs, src) \<Rightarrow>
       (case parse_tcp_response bs family of
          Ok p \<Rightarrow>
            let p = p\<lparr>pt_source := with_source (pt_source p) src\<rparr> in
            if accept p then Ok (Some p) else scan_tcp kind family accept rs
        | Err _ \<Rightarrow> scan_tcp kind family accept rs
        | Panic \<Rightarrow> Panic))"

text \<open>An entry of the Linux error queue; the origins are those of ICMP (2) and ICMPv6 (3).\<close>

record queued_error =
  qe_origin :: u8
  qe_type :: u8
  qe_code :: u8
  qe_info :: u32
  qe_offender :: "ip_addr option"
  qe_destination :: "(ip_addr \<times> u16) option"
  qe_payload :: bytes

definition queued_kind :: "queued_error \<Rightarrow> icmp_kind option" where
  "queued_kind q = (let k = (qe_origin q, qe_type q) in
     if k = (2, 11) \<or> k = (3, 3) then Some TimeExceeded
     else if k = (2, 3) \<or> k = (3, 1) then Some DestinationUnreachable
     else if k = (3, 2) then Some PacketTooBig
     else if k = (2, 12) \<or> k = (3, 4) then Some ParameterProblem
     else None)"

definition queued_mtu :: "queued_error \<Rightarrow> u32 option" where
  "queued_mtu q =
     (if (qe_origin q, qe_type q, qe_code q) = (2, 3, 4) \<or> (qe_origin q, qe_type q) = (3, 2)
      then Some (qe_info q) else None)"

definition quoted_echo_sequence :: "bytes \<Rightarrow> address_family \<Rightarrow> u16 option" where
  "quoted_echo_sequence payload family =
     (let request = (case family of Ipv4 \<Rightarrow> 8 | Ipv6 \<Rightarrow> 128) in
      if 8 \<le> length payload \<and> payload ! 0 = request then Some (from_be [payload ! 6, payload ! 7]) else None)"

datatype queue_read = Queued queued_error | Queue_Failed os_error

fun scan_queue :: "(queued_error \<Rightarrow> bool) \<Rightarrow> queue_read list \<Rightarrow>
    ((icmp_kind \<times> queued_error) option, probe_error) outcome" where
  "scan_queue mine [] = Ok None"
| "scan_queue mine (Queued q # rs) = (case queued_kind q of
     Some kind \<Rightarrow> if mine q then Ok (Some (kind, q)) else scan_queue mine rs
   | None \<Rightarrow> scan_queue mine rs)"
| "scan_queue mine (Queue_Failed e # rs) =
     (if fst e = EINTR then scan_queue mine rs
      else if fst e = EWOULDBLOCK then Ok None
      else Err (socket_error ''receive ICMP error queue'' e))"

section \<open>The waiting loop\<close>

record wait_pass =
  wp_cancelled :: bool
  wp_now :: instant
  wp_poll :: "os_error option"
  wp_cancelled_after :: bool
  wp_queue :: "queue_read list"
  wp_icmp :: "packet_read list"
  wp_tcp :: "packet_read list"
  wp_ready :: bool
  wp_socket_error :: "os_error + os_error option"
  wp_elapsed :: duration

definition poll_sockets :: "wait_pass \<Rightarrow> (unit, probe_error) outcome" where
  "poll_sockets p = (case wp_poll p of
     None \<Rightarrow> Ok ()
   | Some e \<Rightarrow> if fst e = EINTR then Ok () else Err (socket_error ''wait for probe response'' e))"

text \<open>One pass, around what the probe reads once its sockets may be ready.\<close>

definition one_pass :: "u16 \<Rightarrow> instant \<Rightarrow> (wait_pass \<Rightarrow> (sample option, probe_error) outcome) \<Rightarrow>
    wait_pass \<Rightarrow> (sample option, probe_error) outcome" where
  "one_pass seq deadline read p =
     (if wp_cancelled p then Ok (Some (cancelled_sample seq))
      else if deadline \<le> wp_now p then Ok (Some (timeout_sample seq))
      else and_then (poll_sockets p) (\<lambda>_.
        if wp_cancelled_after p then Ok (Some (cancelled_sample seq)) else read p))"

fun wait_loop :: "(wait_pass \<Rightarrow> ('a option, probe_error) outcome) \<Rightarrow> wait_pass list \<Rightarrow>
    ('a, probe_error) outcome option" where
  "wait_loop pass [] = None"
| "wait_loop pass (p # ps) = (case pass p of
     Ok (Some s) \<Rightarrow> Some (Ok s)
   | Ok None \<Rightarrow> wait_loop pass ps
   | Err e \<Rightarrow> Some (Err e)
   | Panic \<Rightarrow> Some Panic)"

section \<open>The ICMP echo\<close>

definition family_of :: "ip_addr \<Rightarrow> address_family" where
  "family_of a = (case a of V4 _ \<Rightarrow> Ipv4 | V6 _ \<Rightarrow> Ipv6)"

definition queue_answer :: "u16 \<Rightarrow> duration \<Rightarrow> (icmp_kind \<times> queued_error) option \<Rightarrow> sample option" where
  "queue_answer seq elapsed = map_option (\<lambda>(kind, q).
     icmp_sample seq kind (qe_offender q) elapsed (queued_mtu q) [])"

definition read_echo :: "socket_kind \<Rightarrow> address_family \<Rightarrow> u16 \<Rightarrow> probe_key \<Rightarrow> wait_pass \<Rightarrow>
    (sample option, probe_error) outcome" where
  "read_echo kind family seq key p =
     and_then (if kind = Datagram_Socket
         then scan_queue (\<lambda>q. quoted_echo_sequence (qe_payload q) family = Some seq) (wp_queue p)
         else Ok None) (\<lambda>queued.
       case queue_answer seq (wp_elapsed p) queued of
         Some s \<Rightarrow> Ok (Some s)
       | None \<Rightarrow> and_then (scan_icmp kind family key (wp_icmp p)) (\<lambda>r.
           Ok (map_option (\<lambda>r. response_sample seq r (wp_elapsed p)) r)))"

definition echo_packet :: "sys_env \<Rightarrow> ip_addr \<Rightarrow> u16 \<Rightarrow> u16 \<Rightarrow> bytes \<Rightarrow> (bytes, probe_error) outcome" where
  "echo_packet env target identifier seq payload = (case target of
     V4 _ \<Rightarrow> Ok (build_icmpv4_echo identifier seq payload)
   | V6 destination \<Rightarrow> and_then (ipv6_source_for env) (\<lambda>source.
       Ok (build_icmpv6_echo source destination identifier seq payload)))"

definition probe_once :: "sys_env \<Rightarrow> ip_addr \<Rightarrow> u16 \<Rightarrow> u16 \<Rightarrow> u8 option \<Rightarrow> round_parameters \<Rightarrow>
    wait_pass list \<Rightarrow> (sample, probe_error) outcome option" where
  "probe_once env target identifier seq ttl parameters passes =
     (let family = family_of target;
          sent = and_then (new_protocol env True) (\<lambda>kind.
            and_then (prepare_echo env kind identifier) (\<lambda>identifier.
            and_then (case ttl of None \<Rightarrow> Ok () | Some _ \<Rightarrow> sys env ''set probe hop limit'') (\<lambda>_.
            and_then (set_traffic_class env ''set probe traffic class'' (rp_traffic_class parameters)) (\<lambda>_.
            and_then (if rp_dont_fragment parameters \<and> family = Ipv4
                then sys env ''set IPv4 path MTU discovery'' else Ok ()) (\<lambda>_.
            and_then (echo_packet env target identifier seq (replicate (rp_payload_size parameters) 0x4c)) (\<lambda>packet.
            and_then (begin_probe (se_token env)
                (send_outcome ''send raw ICMP probe'' (se_send env) (length packet))) (\<lambda>result.
              Ok (kind, identifier, result))))))))
      in case sent of
        Err e \<Rightarrow> Some (Err e)
      | Panic \<Rightarrow> Some Panic
      | Ok (kind, identifier, No_Route) \<Rightarrow> Some (Ok (unreachable_sample seq))
      | Ok (kind, identifier, Probe_Sent) \<Rightarrow>
          wait_loop (one_pass seq (se_started env + rp_timeout parameters)
            (read_echo kind family seq (ProbeKey_icmp family identifier seq))) passes)"

definition trace_probe_scoped :: "sys_env \<Rightarrow> ip_addr \<Rightarrow> u8 \<Rightarrow> round_parameters \<Rightarrow> probe_identity \<Rightarrow>
    wait_pass list \<Rightarrow> (hop_result, probe_error) outcome option" where
  "trace_probe_scoped env target ttl parameters identity passes =
     map_option (\<lambda>r. and_then r (\<lambda>s. Ok (single_hop ttl s)))
       (probe_once env target (ucast (id_nonce identity XOR word_rotl 13 (id_ordinal identity)))
         (ucast (id_ordinal identity)) (Some ttl) parameters passes)"

section \<open>The raw SYN\<close>

definition build_raw_syn :: "ip_addr \<Rightarrow> ip_addr \<Rightarrow> tcp_syn_spec \<Rightarrow> (bytes, probe_error) outcome" where
  "build_raw_syn source destination spec = (case (source, destination) of
     (V4 s, V4 d) \<Rightarrow> Ok (build_tcp_syn_ipv4 s d spec)
   | (V6 s, V6 d) \<Rightarrow> Ok (build_tcp_syn_ipv6 s d spec)
   | _ \<Rightarrow> Err (Io (lit ''build TCP trace probe'') (lit ''source and destination families differ'')))"

definition syn_spec :: "u16 \<Rightarrow> u16 \<Rightarrow> u32 \<Rightarrow> u8 \<Rightarrow> round_parameters \<Rightarrow> tcp_syn_spec" where
  "syn_spec source_port destination_port seq ttl parameters =
     \<lparr>ts_source_port = source_port, ts_destination_port = destination_port, ts_sequence = seq,
      ts_hop_limit = ttl,
      ts_traffic_class = (case rp_traffic_class parameters of None \<Rightarrow> 0 | Some c \<Rightarrow> c),
      ts_dont_fragment = rp_dont_fragment parameters\<rparr>"

text \<open>\<open>RawTcpListeners\<close>: the ICMP socket is drained before the TCP socket.\<close>

definition listeners_new :: "sys_env \<Rightarrow> (socket_kind \<times> socket_kind, probe_error) outcome" where
  "listeners_new env =
     and_then (new_protocol env True) (\<lambda>icmp.
     and_then (new_protocol env False) (\<lambda>tcp. Ok (icmp, tcp)))"

definition read_syn :: "socket_kind \<times> socket_kind \<Rightarrow> u16 \<Rightarrow> probe_key \<Rightarrow> (parsed_tcp \<Rightarrow> bool) \<Rightarrow> wait_pass \<Rightarrow>
    (sample option, probe_error) outcome" where
  "read_syn kinds seq key accept p =
     and_then (scan_icmp (fst kinds) (pk_family key) key (wp_icmp p)) (\<lambda>icmp. case icmp of
       Some r \<Rightarrow> Ok (Some (response_sample seq r (wp_elapsed p)))
     | None \<Rightarrow> and_then (scan_tcp (snd kinds) (pk_family key) accept (wp_tcp p)) (\<lambda>tcp.
         Ok (map_option (\<lambda>r. reply_sample seq (pt_source r) (wp_elapsed p)) tcp)))"

definition accepts_trace :: "u16 \<Rightarrow> u16 \<Rightarrow> u32 \<Rightarrow> parsed_tcp \<Rightarrow> bool" where
  "accepts_trace source_port destination_port seq r \<longleftrightarrow>
     pt_source_port r = destination_port \<and> pt_destination_port r = source_port \<and>
     (pt_rst r \<or> (pt_syn r \<and> pt_ack r \<and> pt_acknowledgment r = seq + 1))"

definition accepts_probe :: "u16 \<Rightarrow> u16 \<Rightarrow> u32 \<Rightarrow> parsed_tcp \<Rightarrow> bool" where
  "accepts_probe source_port destination_port seq r \<longleftrightarrow>
     pt_source_port r = destination_port \<and> pt_destination_port r = source_port \<and>
     pt_ack r \<and> pt_acknowledgment r = seq + 1 \<and> (pt_rst r \<or> pt_syn r)"

definition send_syn :: "sys_env \<Rightarrow> bytes \<Rightarrow> (send_outcome, probe_error) outcome" where
  "send_syn env packet = begin_probe (se_token env)
     (send_outcome ''send raw TCP probe'' (se_send env) (length packet))"

text \<open>The wait after a send; without a route there is nothing to wait for.\<close>

definition await_syn :: "sys_env \<Rightarrow> (send_outcome, probe_error) outcome \<Rightarrow> socket_kind \<times> socket_kind \<Rightarrow> u16 \<Rightarrow>
    round_parameters \<Rightarrow> probe_key \<Rightarrow> (parsed_tcp \<Rightarrow> bool) \<Rightarrow> wait_pass list \<Rightarrow>
    (sample, probe_error) outcome option" where
  "await_syn env sent kinds seq parameters key accept passes = (case sent of
     Err e \<Rightarrow> Some (Err e)
   | Panic \<Rightarrow> Some Panic
   | Ok No_Route \<Rightarrow> Some (Ok (unreachable_sample seq))
   | Ok Probe_Sent \<Rightarrow> wait_loop
       (one_pass seq (se_started env + rp_timeout parameters) (read_syn kinds seq key accept)) passes)"

definition tcp_trace_probe_raw :: "sys_env \<Rightarrow> ip_addr \<Rightarrow> u8 \<Rightarrow> round_parameters \<Rightarrow> u16 \<Rightarrow> probe_identity \<Rightarrow>
    wait_pass list \<Rightarrow> (sample, probe_error) outcome option" where
  "tcp_trace_probe_raw env target ttl parameters destination_port identity passes =
     (let source_port = 49152 + (ucast (id_ordinal identity mod 16383) :: u16);
          seq = word_rotl (unat (id_ordinal identity mod 31)) (id_nonce identity) XOR id_ordinal identity;
          prepared = and_then (source_for env) (\<lambda>source.
            and_then (build_raw_syn source target
              (syn_spec source_port destination_port seq ttl parameters)) (\<lambda>packet.
            and_then (listeners_new env) (\<lambda>kinds. Ok (packet, kinds))))
      in case prepared of
        Err e \<Rightarrow> Some (Err e)
      | Panic \<Rightarrow> Some Panic
      | Ok (packet, kinds) \<Rightarrow> await_syn env (send_syn env packet) kinds (ucast ttl) parameters
          (ProbeKey_tcp (family_of target) source_port destination_port (Some seq))
          (accepts_probe source_port destination_port seq) passes)"

section \<open>Traces that stop at a cancelled hop\<close>

text \<open>
  The loop shared by the UDP and the TCP traces: the token first, then one probe; a probe that was
  cancelled still gives its hop. A result is the sample and whether the destination was reached.
\<close>

fun hop_loop :: "(u8 \<Rightarrow> bool) \<Rightarrow> (u8 \<Rightarrow> (sample \<times> bool, probe_error) outcome option) \<Rightarrow> u8 list \<Rightarrow>
    hop_result list \<Rightarrow> (hop_result list, probe_error) outcome option" where
  "hop_loop cancelled probe [] hops = Some (Ok hops)"
| "hop_loop cancelled probe (ttl # ttls) hops =
     (if cancelled ttl then Some (if hops = [] then Err Probe_Cancelled else Ok hops)
      else case probe ttl of
        None \<Rightarrow> None
      | Some Panic \<Rightarrow> Some Panic
      | Some (Err e) \<Rightarrow> Some (Err e)
      | Some (Ok (s, reached)) \<Rightarrow>
          let hops = hops @ [\<lparr>hr_ttl = ttl, hr_address = sm_hop s, hr_reached_destination = reached,
                              hr_samples = [s]\<rparr>] in
          if reached \<or> sm_status s = Sample_Cancelled then Some (Ok hops)
          else hop_loop cancelled probe ttls hops)"

definition with_reached :: "(sample, probe_error) outcome option \<Rightarrow> (sample \<times> bool, probe_error) outcome option" where
  "with_reached = map_option (\<lambda>r. and_then r (\<lambda>s. Ok (s, sm_status s = Reply)))"

text \<open>
  \<open>tcp_trace_raw\<close>: the source port is random for the trace, the sequence number for each hop; the
  environment and the passes are those of each hop.
\<close>

definition syn_hop :: "u16 \<Rightarrow> socket_kind \<times> socket_kind \<Rightarrow> ip_addr \<Rightarrow> ip_addr \<Rightarrow> round_parameters \<Rightarrow> u16 \<Rightarrow>
    u8 \<Rightarrow> sys_env \<Rightarrow> u32 \<Rightarrow> wait_pass list \<Rightarrow> (sample, probe_error) outcome option" where
  "syn_hop source_port kinds source target parameters destination_port ttl env seq passes =
     (case build_raw_syn source target (syn_spec source_port destination_port seq ttl parameters) of
        Err e \<Rightarrow> Some (Err e)
      | Panic \<Rightarrow> Some Panic
      | Ok packet \<Rightarrow> await_syn env (send_syn env packet) kinds (ucast ttl) parameters
          (ProbeKey_tcp (family_of target) source_port destination_port (Some seq))
          (accepts_trace source_port destination_port seq) passes)"

definition tcp_trace_raw :: "sys_env \<Rightarrow> u16 \<Rightarrow> ip_addr \<Rightarrow> u8 \<Rightarrow> round_parameters \<Rightarrow> u16 \<Rightarrow> (u8 \<Rightarrow> bool) \<Rightarrow>
    (u8 \<Rightarrow> sys_env \<times> u32 \<times> wait_pass list) \<Rightarrow> (hop_result list, probe_error) outcome option" where
  "tcp_trace_raw env random target first_ttl parameters destination_port cancelled hop =
     (case and_then (source_for env) (\<lambda>source. and_then (listeners_new env) (\<lambda>kinds. Ok (source, kinds))) of
        Err e \<Rightarrow> Some (Err e)
      | Panic \<Rightarrow> Some Panic
      | Ok (source, kinds) \<Rightarrow>
          hop_loop cancelled (\<lambda>ttl. with_reached (case hop ttl of (env, seq, passes) \<Rightarrow>
              syn_hop (49152 + random mod 16383) kinds source target parameters destination_port ttl env seq passes))
            (hop_limits first_ttl (rp_max_hops parameters)) [])"

section \<open>The SYN of a kernel connection\<close>

datatype connect_start = Connect_Done | Connect_Error os_error

definition read_connect :: "u16 \<Rightarrow> ip_addr \<Rightarrow> wait_pass \<Rightarrow> (sample option, probe_error) outcome" where
  "read_connect seq target p =
     (if \<not> wp_ready p then Ok None
      else and_then (scan_queue (\<lambda>_. True) (wp_queue p)) (\<lambda>queued.
        case queue_answer seq (wp_elapsed p) queued of
          Some s \<Rightarrow> Ok (Some s)
        | None \<Rightarrow>
            (case wp_socket_error p of
               Inl e \<Rightarrow> Err (socket_error ''read socket error state'' e)
             | Inr None \<Rightarrow> Ok (Some (reply_sample seq (Some target) (wp_elapsed p)))
             | Inr (Some e) \<Rightarrow>
                 if fst e = ECONNREFUSED then Ok (Some (reply_sample seq (Some target) (wp_elapsed p)))
                 else if is_route_error e then Ok (Some (unreachable_sample seq))
                 else Err (socket_error ''complete TCP trace connection'' e))))"

definition tcp_connect_probe :: "sys_env \<Rightarrow> connect_start \<Rightarrow> duration \<Rightarrow> ip_addr \<Rightarrow> u8 \<Rightarrow> round_parameters \<Rightarrow>
    wait_pass list \<Rightarrow> (sample, probe_error) outcome option" where
  "tcp_connect_probe env connect elapsed target ttl parameters passes =
     (let seq = ucast ttl;
          started = and_then (sys env ''open TCP trace socket'') (\<lambda>_.
            and_then (sys env ''set TCP trace nonblocking'') (\<lambda>_.
            and_then (sys env ''set TCP probe hop limit'') (\<lambda>_.
            and_then (set_traffic_class env ''set TCP probe traffic class'' (rp_traffic_class parameters)) (\<lambda>_.
            and_then (sys env ''set TCP probe linger'') (\<lambda>_.
            and_then (sys env ''enable ICMP error queue'') (\<lambda>_.
            and_then (begin_probe (se_token env) (Ok connect)) (\<lambda>connected.
              case connected of
                Connect_Done \<Rightarrow> Ok (Some (reply_sample seq (Some target) elapsed))
              | Connect_Error e \<Rightarrow>
                  if fst e \<in> {EINPROGRESS, EINTR}
                  then and_then (sys env ''read TCP trace source port'') (\<lambda>_. Ok None)
                  else if fst e = ECONNREFUSED then Ok (Some (reply_sample seq (Some target) elapsed))
                  else if is_route_error e then Ok (Some (unreachable_sample seq))
                  else Err (socket_error ''start TCP trace connection'' e))))))))
      in case started of
        Err e \<Rightarrow> Some (Err e)
      | Panic \<Rightarrow> Some Panic
      | Ok (Some s) \<Rightarrow> Some (Ok s)
      | Ok None \<Rightarrow> wait_loop (one_pass seq (se_started env + rp_timeout parameters) (read_connect seq target)) passes)"

definition tcp_trace_connect :: "ip_addr \<Rightarrow> u8 \<Rightarrow> round_parameters \<Rightarrow> (u8 \<Rightarrow> bool) \<Rightarrow>
    (u8 \<Rightarrow> sys_env \<times> connect_start \<times> duration \<times> wait_pass list) \<Rightarrow>
    (hop_result list, probe_error) outcome option" where
  "tcp_trace_connect target first_ttl parameters cancelled hop =
     hop_loop cancelled (\<lambda>ttl. with_reached (case hop ttl of (env, connect, elapsed, passes) \<Rightarrow>
         tcp_connect_probe env connect elapsed target ttl parameters passes))
       (hop_limits first_ttl (rp_max_hops parameters)) []"

text \<open>
  \<open>raw_tcp_sender\<close>: without permission for a raw IP socket the trace goes through connections.
\<close>

definition raw_tcp_sender :: "sys_env \<Rightarrow> address_family \<Rightarrow> (bool, probe_error) outcome" where
  "raw_tcp_sender env family =
     (case and_then (sys env ''open raw IP socket'') (\<lambda>_.
         if family = Ipv4 then sys env ''enable IPv4 header inclusion'' else Ok ()) of
        Ok _ \<Rightarrow> Ok True
      | Panic \<Rightarrow> Panic
      | Err e \<Rightarrow> (case e of Probe_Permission _ _ \<Rightarrow> Ok False | _ \<Rightarrow> Err e))"

definition tcp_trace_scoped :: "sys_env \<Rightarrow> u16 \<Rightarrow> ip_addr \<Rightarrow> u8 \<Rightarrow> round_parameters \<Rightarrow> u16 \<Rightarrow> (u8 \<Rightarrow> bool) \<Rightarrow>
    (u8 \<Rightarrow> sys_env \<times> u32 \<times> wait_pass list) \<Rightarrow>
    (u8 \<Rightarrow> sys_env \<times> connect_start \<times> duration \<times> wait_pass list) \<Rightarrow>
    (hop_result list, probe_error) outcome option" where
  "tcp_trace_scoped env random target first_ttl parameters destination_port cancelled raw_hop connect_hop =
     (if first_ttl = 0 \<or> rp_max_hops parameters < first_ttl \<or> destination_port = 0
      then Some (invalid_plan ''invalid TCP trace hop or port settings'')
      else case raw_tcp_sender env (family_of target) of
        Err e \<Rightarrow> Some (Err e)
      | Panic \<Rightarrow> Some Panic
      | Ok True \<Rightarrow> tcp_trace_raw env random target first_ttl parameters destination_port cancelled raw_hop
      | Ok False \<Rightarrow> tcp_trace_connect target first_ttl parameters cancelled connect_hop)"

definition tcp_trace_probe_scoped :: "sys_env \<Rightarrow> connect_start \<Rightarrow> duration \<Rightarrow> ip_addr \<Rightarrow> u8 \<Rightarrow>
    round_parameters \<Rightarrow> u16 \<Rightarrow> probe_identity \<Rightarrow> wait_pass list \<Rightarrow> (hop_result, probe_error) outcome option" where
  "tcp_trace_probe_scoped env connect elapsed target ttl parameters destination_port identity passes =
     (if ttl = 0 \<or> rp_max_hops parameters < ttl \<or> destination_port = 0
      then Some (invalid_plan ''invalid TCP trace hop or port settings'')
      else map_option (\<lambda>r. and_then r (\<lambda>s. Ok (single_hop ttl s)))
        (case raw_tcp_sender env (family_of target) of
           Err e \<Rightarrow> Some (Err e)
         | Panic \<Rightarrow> Some Panic
         | Ok True \<Rightarrow> tcp_trace_probe_raw env target ttl parameters destination_port identity passes
         | Ok False \<Rightarrow> tcp_connect_probe env connect elapsed target ttl parameters passes))"

section \<open>The UDP datagram\<close>

definition udp_trace_sample :: "u8 \<Rightarrow> ip_addr \<Rightarrow> icmp_kind \<Rightarrow> u8 \<Rightarrow> ip_addr option \<Rightarrow> duration \<Rightarrow>
    u32 option \<Rightarrow> mpls_label list \<Rightarrow> sample \<times> bool" where
  "udp_trace_sample ttl target kind code hop elapsed mtu labels =
     (let reached = kind = DestinationUnreachable \<and> hop = Some target \<and>
            (family_of target = Ipv4 \<and> code = 3 \<or> family_of target = Ipv6 \<and> code = 4);
          s = icmp_sample (ucast ttl) kind hop elapsed mtu labels
      in (if reached then s\<lparr>sm_status := Reply\<rparr> else s, reached))"

text \<open>\<open>True\<close>: a raw ICMP socket listens; otherwise the error queue of the sender is read.\<close>

definition udp_trace_listener :: "sys_env \<Rightarrow> (bool, probe_error) outcome" where
  "udp_trace_listener env = (case new_protocol env True of
     Ok kind \<Rightarrow> Ok (kind = Raw_Socket)
   | Panic \<Rightarrow> Panic
   | Err e \<Rightarrow> (case e of Probe_Permission _ _ \<Rightarrow> Ok False | _ \<Rightarrow> Err e))"

fun discard_queue :: "queue_read list \<Rightarrow> (unit, probe_error) outcome" where
  "discard_queue [] = Ok ()"
| "discard_queue (Queued q # rs) = discard_queue rs"
| "discard_queue (Queue_Failed e # rs) =
     (if fst e = EINTR then discard_queue rs
      else if fst e = EWOULDBLOCK then Ok ()
      else Err (socket_error ''receive ICMP error queue'' e))"

definition read_udp :: "bool \<Rightarrow> u8 \<Rightarrow> ip_addr \<Rightarrow> probe_key \<Rightarrow> u16 \<Rightarrow> wait_pass \<Rightarrow>
    ((sample \<times> bool) option, probe_error) outcome" where
  "read_udp listening ttl target key destination_port p =
     (if listening
      then and_then (scan_icmp Raw_Socket (family_of target) key (wp_icmp p)) (\<lambda>r.
        Ok (map_option (\<lambda>r. udp_trace_sample ttl target (pi_kind r) (pi_code r) (pi_source r) (wp_elapsed p)
          (pi_next_hop_mtu r) (pi_mpls_labels r)) r))
      else and_then (scan_queue (\<lambda>q. qe_destination q = Some (target, destination_port)) (wp_queue p)) (\<lambda>r.
        Ok (map_option (\<lambda>(kind, q). udp_trace_sample ttl target kind (qe_code q) (qe_offender q) (wp_elapsed p)
          (queued_mtu q) []) r)))"

definition udp_pass :: "u8 \<Rightarrow> instant \<Rightarrow> (wait_pass \<Rightarrow> ((sample \<times> bool) option, probe_error) outcome) \<Rightarrow>
    wait_pass \<Rightarrow> ((sample \<times> bool) option, probe_error) outcome" where
  "udp_pass ttl deadline read p =
     (if deadline \<le> wp_now p then Ok (Some (timeout_sample (ucast ttl), False))
      else if wp_cancelled p then Ok (Some (cancelled_sample (ucast ttl), False))
      else and_then (poll_sockets p) (\<lambda>_.
        if wp_cancelled_after p then Ok (Some (cancelled_sample (ucast ttl), False)) else read p))"

definition udp_hop_send :: "sys_env \<Rightarrow> (send_outcome, probe_error) outcome" where
  "udp_hop_send env = begin_probe (se_token env) (case se_send env of
     Sent_Bytes _ \<Rightarrow> Ok Probe_Sent
   | Send_Failed e \<Rightarrow> if is_route_error e then Ok No_Route else Err (Io (lit ''send UDP trace probe'') (snd e)))"

definition udp_hop :: "bool \<Rightarrow> u16 \<Rightarrow> ip_addr \<Rightarrow> u16 \<Rightarrow> round_parameters \<Rightarrow> u8 \<Rightarrow> sys_env \<Rightarrow> queue_read list \<Rightarrow>
    wait_pass list \<Rightarrow> (sample \<times> bool, probe_error) outcome option" where
  "udp_hop listening source_port target base_port parameters ttl env stale passes =
     (let sent = and_then (if listening then Ok () else and_then (discard_queue stale) (\<lambda>_.
              sys env ''read socket error state'')) (\<lambda>_.
            and_then (sys env ''set UDP probe hop limit'') (\<lambda>_.
            and_then (set_traffic_class env ''set UDP probe traffic class'' (rp_traffic_class parameters)) (\<lambda>_.
              case checked_add base_port (ucast ttl) of
                None \<Rightarrow> invalid_plan ''UDP destination port range overflows''
              | Some destination_port \<Rightarrow> and_then (udp_hop_send env) (\<lambda>result. Ok (destination_port, result)))))
      in case sent of
        Err e \<Rightarrow> Some (Err e)
      | Panic \<Rightarrow> Some Panic
      | Ok (destination_port, No_Route) \<Rightarrow> Some (Ok (unreachable_sample (ucast ttl), False))
      | Ok (destination_port, Probe_Sent) \<Rightarrow>
          wait_loop (udp_pass ttl (se_started env + rp_timeout parameters)
            (read_udp listening ttl target
              (ProbeKey_ports (family_of target) Udp source_port destination_port) destination_port)) passes)"

definition udp_trace_scoped :: "sys_env \<Rightarrow> ip_addr \<Rightarrow> u8 \<Rightarrow> round_parameters \<Rightarrow> u16 \<Rightarrow> (u8 \<Rightarrow> bool) \<Rightarrow>
    (u8 \<Rightarrow> sys_env \<times> queue_read list \<times> wait_pass list) \<Rightarrow> (hop_result list, probe_error) outcome option" where
  "udp_trace_scoped env target first_ttl parameters base_port cancelled hop =
     (if first_ttl = 0 \<or> rp_max_hops parameters < first_ttl
      then Some (invalid_plan ''first TTL must be between 1 and max hops'')
      else case and_then (std_sys env ''bind UDP trace socket'') (\<lambda>_.
          and_then (std_sys env ''read UDP trace source port'') (\<lambda>_.
          and_then (udp_trace_listener env) (\<lambda>listening.
          and_then (if listening then Ok () else sys env ''enable ICMP error queue'') (\<lambda>_. Ok listening)))) of
        Err e \<Rightarrow> Some (Err e)
      | Panic \<Rightarrow> Some Panic
      | Ok listening \<Rightarrow>
          hop_loop cancelled (\<lambda>ttl. case hop ttl of (env', stale, passes) \<Rightarrow>
              udp_hop listening (se_local_port env) target base_port parameters ttl env' stale passes)
            (hop_limits first_ttl (rp_max_hops parameters)) [])"

definition udp_trace_probe_scoped :: "sys_env \<Rightarrow> ip_addr \<Rightarrow> u8 \<Rightarrow> round_parameters \<Rightarrow> u16 \<Rightarrow> probe_identity \<Rightarrow>
    (u8 \<Rightarrow> bool) \<Rightarrow> (u8 \<Rightarrow> sys_env \<times> queue_read list \<times> wait_pass list) \<Rightarrow>
    (hop_result, probe_error) outcome option" where
  "udp_trace_probe_scoped env target ttl parameters base_port identity cancelled hop =
     (case udp_adjusted_base base_port identity ttl of
        Err e \<Rightarrow> Some (Err e)
      | Panic \<Rightarrow> Some Panic
      | Ok adjusted_base \<Rightarrow>
          map_option (\<lambda>r. and_then r (\<lambda>hops.
              if hops = [] then Err (Io (lit ''UDP trace probe'') (lit ''probe produced no hop result''))
              else Ok (last hops)))
            (udp_trace_scoped env target ttl (parameters\<lparr>rp_max_hops := ttl\<rparr>) adjusted_base cancelled hop))"

end
