(* ===== verification/Path_Sockets_Exact.thy ===== *)
theory Path_Sockets_Exact
  imports Path_Sockets Packet_Roundtrip
begin

text \<open>
  What a probe reports. The packets a pass reads are scanned for the first one that answers the
  probe; the theorems say that an echo never takes a stranger's packet for its answer, and that the
  error a router sends for it is reported as that router's hop.
\<close>

section \<open>Scanning\<close>

text \<open>A read that the scan passes over: an interrupted one, or a packet that answers nothing.\<close>

definition passed_over :: "address_family \<Rightarrow> probe_key \<Rightarrow> packet_read \<Rightarrow> bool" where
  "passed_over family key r = (case r of
     Read_Failed e \<Rightarrow> fst e = EINTR
   | Packet bs _ \<Rightarrow> \<forall>p. parse_icmp_response bs family = Ok p \<longrightarrow> \<not> correlates p key)"

definition answered :: "address_family \<Rightarrow> probe_key \<Rightarrow> packet_read list \<Rightarrow> parsed_icmp \<Rightarrow> bool" where
  "answered family key reads r \<longleftrightarrow> (\<exists>pre bs src post p.
     reads = pre @ Packet bs src # post \<and> (\<forall>x \<in> set pre. passed_over family key x) \<and>
     parse_icmp_response bs family = Ok p \<and> correlates p key \<and>
     r = p\<lparr>pi_source := with_source (pi_source p) src\<rparr>)"

lemma parse_icmp_no_panic: "parse_icmp_response bs family \<noteq> Panic"
  using parse_icmp_response_yields by (rule yields_no_panic)

lemma scan_icmp_passes:
  "\<forall>x \<in> set pre. passed_over family key x \<Longrightarrow> scan_icmp kind family key (pre @ rs) = scan_icmp kind family key rs"
proof (induction pre)
  case (Cons x pre)
  then show ?case
    using parse_icmp_no_panic
    by (auto simp: passed_over_def classify_read_def split: packet_read.splits outcome.split)
qed simp

lemma scan_icmp_no_panic: "scan_icmp kind family key rs \<noteq> Panic"
  by (induction rs) (auto simp: parse_icmp_no_panic split: read_class.split outcome.split)

lemma scan_icmp_answered: "answered family key rs r \<Longrightarrow> scan_icmp kind family key rs = Ok (Some r)"
  by (auto simp: answered_def scan_icmp_passes classify_read_def)

lemma scan_icmp_Some: "scan_icmp kind family key rs = Ok (Some r) \<Longrightarrow> answered family key rs r"
proof (induction rs)
  case (Cons x rs)
  have skip: "answered family key (x # rs) r" if "passed_over family key x" "answered family key rs r"
    using that unfolding answered_def by (metis append_Cons set_ConsD)
  show ?case
  proof (cases "classify_read kind x")
    case (Got b)
    then obtain bs src where b: "x = Packet bs src" "b = (bs, src)"
      by (auto simp: classify_read_def split: packet_read.splits if_splits)
    show ?thesis
    proof (cases "\<exists>p. parse_icmp_response bs family = Ok p \<and> correlates p key")
      case True
      then obtain p where p: "parse_icmp_response bs family = Ok p" "correlates p key" by blast
      then have "r = p\<lparr>pi_source := with_source (pi_source p) src\<rparr>"
        using Cons.prems Got b by simp
      with p b show ?thesis
        unfolding answered_def
        by - (rule exI [of _ "[]"], rule exI [of _ bs], rule exI [of _ src], rule exI [of _ rs], rule exI [of _ p], simp)
    next
      case False
      then have "passed_over family key x" by (simp add: passed_over_def b)
      moreover from False have "scan_icmp kind family key rs = Ok (Some r)"
        using Cons.prems Got b by (auto split: outcome.splits if_splits)
      ultimately show ?thesis using Cons.IH skip by blast
    qed
  next
    case Repeat
    then have "passed_over family key x"
      by (auto simp: passed_over_def classify_read_def split: packet_read.splits if_splits)
    then show ?thesis using Cons.prems Cons.IH Repeat skip by simp
  qed (use Cons.prems in simp_all)
qed simp

lemma scan_icmp_None: "scan_icmp kind family key rs = Ok None \<Longrightarrow> \<not> answered family key rs r"
  using scan_icmp_answered by fastforce

section \<open>Waiting\<close>

lemma wait_loop_Some:
  "wait_loop pass ps = Some r \<Longrightarrow> \<exists>pre p post. ps = pre @ p # post \<and> (\<forall>q \<in> set pre. pass q = Ok None) \<and>
     (case r of Ok s \<Rightarrow> pass p = Ok (Some s) | Err e \<Rightarrow> pass p = Err e | Panic \<Rightarrow> pass p = Panic)"
proof (induction ps)
  case (Cons p ps)
  show ?case
  proof (cases "pass p = Ok None")
    case True
    with Cons obtain pre p' post where "ps = pre @ p' # post" "\<forall>q \<in> set pre. pass q = Ok None"
      "case r of Ok s \<Rightarrow> pass p' = Ok (Some s) | Err e \<Rightarrow> pass p' = Err e | Panic \<Rightarrow> pass p' = Panic"
      by auto
    with True show ?thesis by (intro exI [of _ "p # pre"] exI [of _ p'] exI [of _ post]) auto
  next
    case False
    with Cons.prems have "case r of Ok s \<Rightarrow> pass p = Ok (Some s) | Err e \<Rightarrow> pass p = Err e | Panic \<Rightarrow> pass p = Panic"
      by (auto split: outcome.splits option.splits)
    then show ?thesis by (intro exI [of _ "[]"]) simp
  qed
qed simp

lemma wait_loop_passes:
  "\<forall>q \<in> set pre. pass q = Ok None \<Longrightarrow> wait_loop pass (pre @ ps) = wait_loop pass ps"
  by (induction pre) auto


section \<open>The echo\<close>

text \<open>What the probe did before it waits: the socket is raw and the packet left.\<close>

definition echo_sent :: "sys_env \<Rightarrow> ip_addr \<Rightarrow> u16 \<Rightarrow> u16 \<Rightarrow> u8 option \<Rightarrow> round_parameters \<Rightarrow> bool" where
  "echo_sent env target identifier seq ttl parameters \<longleftrightarrow>
     (\<forall>operation. se_fault env operation = None) \<and> \<not> se_token env \<and>
     (\<exists>packet. echo_packet env target identifier seq (replicate (rp_payload_size parameters) 0x4c) = Ok packet \<and>
       se_send env = Sent_Bytes (length packet))"

lemma probe_once_sent:
  assumes "echo_sent env target identifier seq ttl parameters"
  shows "probe_once env target identifier seq ttl parameters passes =
    wait_loop (one_pass seq (se_started env + rp_timeout parameters)
      (read_echo Raw_Socket (family_of target) seq (ProbeKey_icmp (family_of target) identifier seq))) passes"
proof -
  obtain packet where p: "echo_packet env target identifier seq (replicate (rp_payload_size parameters) 0x4c) = Ok packet"
      "se_send env = Sent_Bytes (length packet)"
    using assms by (auto simp: echo_sent_def)
  have s: "sys env operation = Ok ()" for operation using assms by (simp add: echo_sent_def sys_def)
  have "new_protocol env True = Ok Raw_Socket" by (simp add: new_protocol_def s)
  moreover have "\<not> se_token env" using assms by (simp add: echo_sent_def)
  ultimately show ?thesis
    by (simp add: probe_once_def prepare_echo_def s p set_traffic_class_def begin_probe_def send_outcome_def
        Let_def split: option.split)
qed

lemma read_echo_raw: "read_echo Raw_Socket family seq key p =
    and_then (scan_icmp Raw_Socket family key (wp_icmp p)) (\<lambda>r.
      Ok (map_option (\<lambda>r. response_sample seq r (wp_elapsed p)) r))"
  by (simp add: read_echo_def queue_answer_def)

text \<open>The answers an echo can have: its reply, or an error that quotes it.\<close>

lemma correlates_echo:
  assumes "parse_icmp_response bs family = Ok p" and "correlates p (ProbeKey_icmp f identifier seq)"
  shows "pi_family p = f \<and> (if pi_kind p = EchoReply
     then pi_echoed_identifier p = Some identifier \<and> pi_echoed_sequence p = Some seq
     else pi_quoted_probe p = Some (ProbeKey_icmp f identifier seq))"
proof -
  have "well_formed_response p" by (rule yields_OkD [OF parse_icmp_response_yields assms(1)])
  then show ?thesis
    using assms(2) by (auto simp: well_formed_response_def correlates_def probe_key_defs split: option.splits if_splits)
qed


lemma one_pass_cases:
  assumes "one_pass seq deadline (read_echo Raw_Socket family seq key) w = Ok (Some s)"
  shows "(s = cancelled_sample seq \<and> (wp_cancelled w \<or> wp_cancelled_after w)) \<or>
    (s = timeout_sample seq \<and> deadline \<le> wp_now w) \<or>
    (\<exists>r. answered family key (wp_icmp w) r \<and> s = response_sample seq r (wp_elapsed w))"
  using assms
  by (auto simp: one_pass_def read_echo_raw and_then_eq_Ok split: if_splits dest!: scan_icmp_Some)

lemma one_pass_unanswered:
  assumes "one_pass seq deadline (read_echo Raw_Socket family seq key) w = Ok None"
  shows "\<not> answered family key (wp_icmp w) r"
  using assms by (auto simp: one_pass_def read_echo_raw and_then_eq_Ok split: if_splits dest: scan_icmp_None)

lemma one_pass_no_panic: "one_pass seq deadline (read_echo Raw_Socket family seq key) w \<noteq> Panic"
proof -
  have "and_then (scan_icmp Raw_Socket family key (wp_icmp w)) (\<lambda>r.
      Ok (map_option (\<lambda>r. response_sample seq r (wp_elapsed w)) r)) \<noteq> Panic"
    using scan_icmp_no_panic [of Raw_Socket family key "wp_icmp w"]
    by (cases "scan_icmp Raw_Socket family key (wp_icmp w)") simp_all
  then show ?thesis
    by (simp add: one_pass_def read_echo_raw poll_sockets_def split: option.split)
qed

lemma response_sample_status:
  "sm_status (response_sample seq r elapsed) = kind_status (pi_kind r)"
  "sm_hop (response_sample seq r elapsed) = pi_source r"
  "sm_sequence (response_sample seq r elapsed) = seq"
  by (simp_all add: response_sample_def icmp_sample_def)

lemma kind_status_iff: "kind_status k = Reply \<longleftrightarrow> k = EchoReply" "kind_status k \<noteq> Sample_Timeout"
  "kind_status k \<noteq> Sample_Cancelled"
  by (cases k; simp)+

lemmas blank_samples = timeout_sample_def cancelled_sample_def plain_sample_def

text \<open>An answer taken for the echo: the decoded packet, and that it is the echo's own.\<close>

definition own_answer :: "ip_addr \<Rightarrow> u16 \<Rightarrow> u16 \<Rightarrow> wait_pass \<Rightarrow> bool \<Rightarrow> ip_addr option \<Rightarrow> bool" where
  "own_answer target identifier seq w reply hop \<longleftrightarrow> (\<exists>bs src p.
     Packet bs src \<in> set (wp_icmp w) \<and> parse_icmp_response bs (family_of target) = Ok p \<and>
     pi_family p = family_of target \<and> hop = with_source (pi_source p) src \<and>
     (if reply then pi_kind p = EchoReply \<and> pi_echoed_identifier p = Some identifier \<and>
        pi_echoed_sequence p = Some seq
      else pi_kind p \<noteq> EchoReply \<and>
        pi_quoted_probe p = Some (ProbeKey_icmp (family_of target) identifier seq)))"

lemma answered_own:
  assumes "answered (family_of target) (ProbeKey_icmp (family_of target) identifier seq) (wp_icmp w) r"
  shows "own_answer target identifier seq w (pi_kind r = EchoReply) (pi_source r)"
proof -
  let ?key = "ProbeKey_icmp (family_of target) identifier seq"
  from assms obtain bs src p where p: "Packet bs src \<in> set (wp_icmp w)"
      "parse_icmp_response bs (family_of target) = Ok p" "correlates p ?key"
      "r = p\<lparr>pi_source := with_source (pi_source p) src\<rparr>"
    unfolding answered_def by fastforce
  from correlates_echo [OF p(2,3)] show ?thesis
    unfolding own_answer_def by (intro exI [of _ bs] exI [of _ src] exI [of _ p]) (use p in \<open>auto split: if_splits\<close>)
qed

text \<open>
  C38. An echo on a raw socket reports a reply only for an echo reply with its own identifier and
  sequence number, and a router's hop only for an error that quotes exactly this echo; it reports a
  timeout only when the deadline has passed and no earlier pass read an answer, and a cancellation
  only when the token was cancelled. No packet makes it panic.
\<close>

theorem probe_once_sound:
  assumes "echo_sent env target identifier seq ttl parameters"
    and "probe_once env target identifier seq ttl parameters passes = Some res"
  shows "res \<noteq> Panic \<and> (\<forall>s. res = Ok s \<longrightarrow> sm_sequence s = seq \<and>
    (sm_status s = Reply \<longrightarrow> (\<exists>w \<in> set passes. own_answer target identifier seq w True (sm_hop s))) \<and>
    (sm_status s = Sample_Time_Exceeded \<or> sm_status s = Unreachable \<longrightarrow>
       (\<exists>w \<in> set passes. own_answer target identifier seq w False (sm_hop s))) \<and>
    (sm_status s = Sample_Timeout \<longrightarrow> (\<exists>pre w post. passes = pre @ w # post \<and>
       se_started env + rp_timeout parameters \<le> wp_now w \<and>
       (\<forall>q \<in> set pre. \<forall>r. \<not> answered (family_of target)
          (ProbeKey_icmp (family_of target) identifier seq) (wp_icmp q) r))) \<and>
    (sm_status s = Sample_Cancelled \<longrightarrow> (\<exists>w \<in> set passes. wp_cancelled w \<or> wp_cancelled_after w)))"
proof -
  let ?f = "family_of target" let ?key = "ProbeKey_icmp ?f identifier seq"
  let ?pass = "one_pass seq (se_started env + rp_timeout parameters) (read_echo Raw_Socket ?f seq ?key)"
  from wait_loop_Some [OF assms(2) [unfolded probe_once_sent [OF assms(1)]]] obtain pre w post where
    w: "passes = pre @ w # post" "\<forall>q \<in> set pre. ?pass q = Ok None"
    "case res of Ok s \<Rightarrow> ?pass w = Ok (Some s) | Err e \<Rightarrow> ?pass w = Err e | Panic \<Rightarrow> ?pass w = Panic" by blast
  have unanswered: "\<forall>q \<in> set pre. \<forall>r. \<not> answered ?f ?key (wp_icmp q) r"
    using w(2) one_pass_unanswered by blast
  show ?thesis
  proof (cases res)
    case (Ok s)
    with w(3) have "?pass w = Ok (Some s)" by simp
    from one_pass_cases [OF this] show ?thesis
    proof (elim disjE exE conjE)
      fix r assume r: "answered ?f ?key (wp_icmp w) r" "s = response_sample seq r (wp_elapsed w)"
      from answered_own [OF r(1)] have "own_answer target identifier seq w (pi_kind r = EchoReply) (sm_hop s)"
        by (simp add: r(2) response_sample_status)
      then show ?thesis
        using Ok w(1) r(2) kind_status_iff [of "pi_kind r"]
        by (cases "pi_kind r = EchoReply") (auto simp: response_sample_status)
    qed (use Ok w(1) unanswered in \<open>auto simp: blank_samples\<close>)
  next
    case Panic
    with w(3) one_pass_no_panic show ?thesis by simp
  qed simp
qed


definition demo_env :: "nat \<Rightarrow> sys_env" where
  "demo_env n = \<lparr>se_fault = (\<lambda>_. None), se_local_port = 0, se_source = V4 0, se_token = False,
     se_send = Sent_Bytes n, se_started = 100\<rparr>"

definition demo_parameters :: round_parameters where
  "demo_parameters = \<lparr>rp_payload_size = 0, rp_dont_fragment = False, rp_max_hops = 30, rp_timeout = 1000,
     rp_traffic_class = None\<rparr>"

definition demo_pass :: "packet_read list \<Rightarrow> wait_pass" where
  "demo_pass reads = \<lparr>wp_cancelled = False, wp_now = 200, wp_poll = None, wp_cancelled_after = False,
     wp_queue = [], wp_icmp = reads, wp_tcp = [], wp_ready = True, wp_socket_error = Inr None, wp_elapsed = 7\<rparr>"

lemma demo_sent: "echo_sent (demo_env 8) (V4 a) identifier seq ttl demo_parameters"
  by (simp add: echo_sent_def demo_env_def echo_packet_def demo_parameters_def build_icmpv4_echo_def put_def Let_def)

theorem probe_once_sound_witness:
  "\<exists>s. probe_once (demo_env 8) (V4 1) 4660 7 (Some 3) demo_parameters
     [demo_pass [], (demo_pass [])\<lparr>wp_now := 1100\<rparr>] = Some (Ok s) \<and> sm_status s = Sample_Timeout \<and> sm_sequence s = 7"
proof -
  let ?passes = "[demo_pass [], (demo_pass [])\<lparr>wp_now := 1100\<rparr>]"
  have r: "probe_once (demo_env 8) (V4 1) 4660 7 (Some 3) demo_parameters ?passes = Some (Ok (timeout_sample 7))"
    unfolding probe_once_sent [OF demo_sent]
    by (simp add: one_pass_def demo_pass_def demo_env_def demo_parameters_def poll_sockets_def read_echo_raw)
  with probe_once_sound [OF demo_sent r] show ?thesis by (simp add: blank_samples)
qed

section \<open>A router's error is found\<close>

definition quiet_pass :: "address_family \<Rightarrow> probe_key \<Rightarrow> instant \<Rightarrow> wait_pass \<Rightarrow> bool" where
  "quiet_pass family key deadline w \<longleftrightarrow> \<not> wp_cancelled w \<and> wp_now w < deadline \<and>
     wp_poll w = None \<and> \<not> wp_cancelled_after w \<and> (\<forall>r \<in> set (wp_icmp w). passed_over family key r)"

lemma quiet_pass_None:
  assumes "quiet_pass family key deadline w"
  shows "one_pass seq deadline (read_echo Raw_Socket family seq key) w = Ok None"
proof -
  have "scan_icmp Raw_Socket family key (wp_icmp w @ []) = scan_icmp Raw_Socket family key []"
    using assms by (intro scan_icmp_passes) (simp add: quiet_pass_def)
  with assms show ?thesis by (simp add: one_pass_def quiet_pass_def poll_sockets_def read_echo_raw)
qed

text \<open>
  C39. The hop of a router is found. When an echo has left, every pass before is quiet, and the first
  packet that can answer it is a time-exceeded error a router sent for it (behind any outer header,
  quoting the echo behind any IPv4 header, cut anywhere after eight bytes), the probe reports
  exactly this: time exceeded, with the address in the error's outer header as the hop.
\<close>

theorem router_error_reported:
  assumes "echo_sent env (V4 d) identifier seq ttl parameters"
    and "ipv4_header 1 outer" and "ipv4_header 1 inner" and "8 \<le> n"
    and "passes = pre @ w # post" and "deadline = se_started env + rp_timeout parameters"
    and "key = ProbeKey_icmp Ipv4 identifier seq"
    and "\<forall>q \<in> set pre. quiet_pass Ipv4 key deadline q"
    and "wp_icmp w = before @ Packet (outer @ [11, code, c1, c2, r1, r2, r3, r4] @ inner @
        take n (build_icmpv4_echo identifier seq (replicate (rp_payload_size parameters) 0x4c))) src # after"
    and "quiet_pass Ipv4 key deadline (w\<lparr>wp_icmp := before\<rparr>)"
  shows "\<exists>s. probe_once env (V4 d) identifier seq ttl parameters passes = Some (Ok s) \<and>
    sm_status s = Sample_Time_Exceeded \<and> sm_sequence s = seq \<and>
    sm_hop s = Some (V4 (from_be [outer ! 12, outer ! 13, outer ! 14, outer ! 15]))"
proof -
  let ?quote = "inner @ take n (build_icmpv4_echo identifier seq (replicate (rp_payload_size parameters) 0x4c))"
  let ?icmp = "[11, code, c1, c2, r1, r2, r3, r4] @ ?quote"
  let ?hop = "V4 (from_be [outer ! 12, outer ! 13, outer ! 14, outer ! 15])"
  have outer: "strip_outer_ip (outer @ ?icmp) Ipv4 = Ok (Ipv4, Some ?hop, ?icmp)"
    by (rule strip_outer_ipv4_source [OF assms(2)]) simp
  have quote: "parse_quoted_probe ?quote = Ok key"
    unfolding assms(7) using quote_ipv4(1) [OF assms(3)] take_echo(1) [OF assms(4)] by blast
  have kind: "icmp_kind_of Ipv4 11 = TimeExceeded" by (simp add: icmp_kind_of_def)
  from icmp_error_parses [OF outer refl _ quote] obtain p where
    p: "parse_icmp_response (outer @ ?icmp) Ipv4 = Ok p" "pi_family p = Ipv4" "pi_quoted_probe p = Some key"
      "pi_kind p = TimeExceeded" "pi_source p = Some ?hop"
    unfolding kind by blast
  have "correlates p key" by (rule correlates_quoted) (simp_all add: p assms(7))
  with p(1) assms(9,10) have "answered Ipv4 key (wp_icmp w) (p\<lparr>pi_source := with_source (pi_source p) src\<rparr>)"
    unfolding answered_def quiet_pass_def by fastforce
  from scan_icmp_answered [OF this]
  have "one_pass seq deadline (read_echo Raw_Socket Ipv4 seq key) w =
      Ok (Some (response_sample seq (p\<lparr>pi_source := with_source (pi_source p) src\<rparr>) (wp_elapsed w)))"
    using assms(10) by (simp add: one_pass_def quiet_pass_def poll_sockets_def read_echo_raw)
  then have "probe_once env (V4 d) identifier seq ttl parameters passes =
      Some (Ok (response_sample seq (p\<lparr>pi_source := with_source (pi_source p) src\<rparr>) (wp_elapsed w)))"
    using assms(8) quiet_pass_None
    by (simp add: probe_once_sent [OF assms(1)] family_of_def wait_loop_passes flip: assms(6,7) add: assms(5))
  then show ?thesis by (simp add: response_sample_status p with_source_def)
qed

theorem router_error_reported_witness:
  "\<exists>s. probe_once (demo_env 8) (V4 9) 4660 7 (Some 3) demo_parameters
     [demo_pass [], demo_pass [Read_Failed (EINTR, []), Packet (sample_ipv4 1 @ [11, 0, 0, 0, 0, 0, 0, 0] @
        sample_ipv4 1 @ take 8 (build_icmpv4_echo 4660 7 [])) None]] = Some (Ok s) \<and>
     sm_status s = Sample_Time_Exceeded"
proof -
  have "\<exists>s. probe_once (demo_env 8) (V4 9) 4660 7 (Some 3) demo_parameters
     [demo_pass [], demo_pass [Read_Failed (EINTR, []), Packet (sample_ipv4 1 @ [11, 0, 0, 0, 0, 0, 0, 0] @
        sample_ipv4 1 @ take 8 (build_icmpv4_echo 4660 7 [])) None]] = Some (Ok s) \<and>
     sm_status s = Sample_Time_Exceeded \<and> sm_sequence s = 7 \<and>
     sm_hop s = Some (V4 (from_be [sample_ipv4 1 ! 12, sample_ipv4 1 ! 13, sample_ipv4 1 ! 14, sample_ipv4 1 ! 15]))"
    by (rule router_error_reported [OF demo_sent sample_headers(1) sample_headers(1), where n = 8 and
          pre = "[demo_pass []]" and post = "[]" and w = "demo_pass [Read_Failed (EINTR, []), Packet (sample_ipv4 1 @
            [11, 0, 0, 0, 0, 0, 0, 0] @ sample_ipv4 1 @ take 8 (build_icmpv4_echo 4660 7 [])) None]" and code = 0 and ?c1.0 = 0 and ?c2.0 = 0 and ?r1.0 = 0
          and ?r2.0 = 0 and ?r3.0 = 0 and ?r4.0 = 0 and src = None and deadline = 1100 and before = "[Read_Failed (EINTR, [])]" and after = "[]"])
      (simp_all add: demo_pass_def demo_env_def demo_parameters_def quiet_pass_def passed_over_def)
  then show ?thesis by blast
qed

end
