(* ===== verification/Tuning_Plan.thy ===== *)
theory Tuning_Plan
  imports Dns
begin

text \<open>
  \<open>crates/tuning/src\<close>: the configuration of the Windows tuning, its validation and its plan
  (\<open>plan.rs\<close>, \<open>types.rs\<close>), errors (\<open>error.rs\<close>), the platform-independent part of the execution
  (\<open>native/mod.rs\<close>) and the verification of the managed state (\<open>verification.rs\<close>).

  A path is the bytes of its \<open>OsStr\<close>; \<open>to_string_lossy\<close> is \<open>lossy\<close>. Paths are split into
  components as on Unix, where the plan of a remote helper is made; the code asks for \<open>..\<close> between
  backslashes too, so that the answer is the same on Windows.
\<close>

section \<open>Types\<close>

type_synonym path = bytes

datatype tuning_action = Action_Apply | Action_Backup | Action_Restore | Action_Verify

datatype tuning_profile = Profile_Safe | Profile_Measured

datatype power_plan = Power_None | Power_High_Performance

record tuning_config =
  tc_action :: tuning_action
  tc_profile :: tuning_profile
  tc_dscp :: u8
  tc_udp_ports :: "u16 list"
  tc_include_app_policies :: bool
  tc_app_paths :: "path list"
  tc_power_plan :: power_plan
  tc_backup_folder :: "path option"
  tc_allow_unsafe_backup_folder :: bool
  tc_dry_run :: bool

definition TuningConfig_default :: tuning_config where
  "TuningConfig_default = \<lparr>tc_action = Action_Apply, tc_profile = Profile_Safe, tc_dscp = 46, tc_udp_ports = [],
     tc_include_app_policies = False, tc_app_paths = [], tc_power_plan = Power_None, tc_backup_folder = None,
     tc_allow_unsafe_backup_folder = False, tc_dry_run = False\<rparr>"

datatype tuning_component = Component_Backup | Component_Manifest | Component_Registry | Component_Local_Qos
  | Component_Qos_Policies | Component_Qos_Port_Policies | Component_Qos_App_Policies
  | Component_Nic_Advanced | Component_Nic_Power_Saving | Component_Rsc | Component_Power_Plan

datatype component_status = Status_Ok | Status_Warn | Status_Skipped | Status_Unknown

datatype tuning_step = Validate_Backup_Destination | Write_And_Verify_Backup | Enable_Local_Qos
  | Reconcile_Port_Policies nat u8 | Reconcile_App_Policies nat u8 | Disable_Nic_Power_Saving
  | Set_Power_Plan power_plan | Validate_And_Stage_Restore | Restore_Registry | Restore_Qos
  | Restore_Nic_Advanced | Restore_Rsc | Restore_Power_Plan | Inspect_Managed_State

record tuning_plan =
  tpl_config :: tuning_config
  tpl_steps :: "tuning_step list"
  tpl_mutating :: bool
  tpl_requires_helper :: bool

record tuning_result =
  tu_action :: tuning_action
  tu_tuning_profile :: "tuning_profile option"
  tu_dscp :: u8
  tu_udp_ports :: "u16 list"
  tu_include_app_policies :: bool
  tu_app_paths :: "path list"
  tu_dry_run :: bool
  tu_success :: bool
  tu_backup_folder :: "path option"
  tu_managed_policies :: "bytes list"
  tu_missing_ports :: "u16 list"
  tu_components :: "tuning_component \<rightharpoonup> component_status"
  tu_warnings :: "bytes list"
  tu_timestamp :: int

text \<open>\<open>TuningResult::empty\<close>; \<open>clock\<close> is the reading of \<open>Utc::now\<close>.\<close>

definition empty_result :: "int \<Rightarrow> tuning_config \<Rightarrow> tuning_result" where
  "empty_result clock c = \<lparr>tu_action = tc_action c,
     tu_tuning_profile = (if tc_action c = Action_Apply then Some (tc_profile c) else None),
     tu_dscp = tc_dscp c, tu_udp_ports = tc_udp_ports c, tu_include_app_policies = tc_include_app_policies c,
     tu_app_paths = tc_app_paths c, tu_dry_run = tc_dry_run c, tu_success = True,
     tu_backup_folder = tc_backup_folder c, tu_managed_policies = [], tu_missing_ports = [],
     tu_components = Map.empty, tu_warnings = [], tu_timestamp = clock\<rparr>"

section \<open>Errors\<close>

text \<open>An \<open>io::Error\<close> is its text; \<open>Tuning_Io\<close> and \<open>Native\<close> carry the operation first.\<close>

datatype tuning_error = Tuning_Validation bytes | Tuning_Unsupported bytes | Tuning_Authorization bytes
  | Backup_Missing path | Backup_Incompatible bytes | Backup_Invalid bytes
  | Native bytes int bytes | Tuning_Io bytes bytes | Tuning_Cancelled
  | Restore_Recovery tuning_error path bytes | Apply_Rollback tuning_error bytes

definition decimal_int :: "int \<Rightarrow> bytes" where
  "decimal_int i = (if i < 0 then lit ''-'' else []) @ decimal (nat \<bar>i\<bar>)"

primrec tuning_error_text :: "tuning_error \<Rightarrow> bytes" where
  "tuning_error_text (Tuning_Validation m) = lit ''invalid tuning request: '' @ m"
| "tuning_error_text (Tuning_Unsupported m) = lit ''tuning is unavailable on this platform: '' @ m"
| "tuning_error_text (Tuning_Authorization m) = lit ''administrator authorization is required: '' @ m"
| "tuning_error_text (Backup_Missing p) = lit ''backup is missing: '' @ lossy p"
| "tuning_error_text (Backup_Incompatible m) = lit ''backup is incompatible: '' @ m"
| "tuning_error_text (Backup_Invalid m) = lit ''backup validation failed: '' @ m"
| "tuning_error_text (Native operation code m) = lit ''native operation '' @ operation
     @ lit '' failed with code '' @ decimal_int code @ lit '': '' @ m"
| "tuning_error_text (Tuning_Io operation m) = lit ''I/O during '' @ operation @ lit '': '' @ m"
| "tuning_error_text Tuning_Cancelled = lit ''operation cancelled''"
| "tuning_error_text (Restore_Recovery e p status) = lit ''restore failed: '' @ tuning_error_text e
     @ lit ''; recovery backup retained at '' @ lossy p @ lit ''; '' @ status"
| "tuning_error_text (Apply_Rollback e status) = tuning_error_text e @ lit ''; '' @ status"

definition restore_recovery :: "tuning_error \<Rightarrow> path \<Rightarrow> (unit, tuning_error) outcome \<Rightarrow> tuning_error" where
  "restore_recovery source recovery rollback = Restore_Recovery source recovery (case rollback of
     Err e \<Rightarrow> lit ''rollback failed: '' @ tuning_error_text e
   | _ \<Rightarrow> lit ''rollback completed successfully'')"

definition apply_rollback :: "tuning_error \<Rightarrow> (unit, tuning_error) outcome \<Rightarrow> tuning_error" where
  "apply_rollback source rollback = Apply_Rollback source (case rollback of
     Err e \<Rightarrow> lit ''rollback also failed: '' @ tuning_error_text e
   | _ \<Rightarrow> lit ''rolled back from backup'')"

section \<open>Text operations of the standard library\<close>

definition ascii_lower :: "u8 \<Rightarrow> u8" where
  "ascii_lower b = (if 65 \<le> b \<and> b \<le> 90 then b + 32 else b)"

definition to_ascii_lowercase :: "bytes \<Rightarrow> bytes" where
  "to_ascii_lowercase = map ascii_lower"

definition eq_ignore_ascii_case :: "bytes \<Rightarrow> bytes \<Rightarrow> bool" where
  "eq_ignore_ascii_case a b \<longleftrightarrow> to_ascii_lowercase a = to_ascii_lowercase b"

definition starts_with :: "bytes \<Rightarrow> bytes \<Rightarrow> bool" where
  "starts_with s p \<longleftrightarrow> take (length p) s = p"

definition ends_with :: "bytes \<Rightarrow> bytes \<Rightarrow> bool" where
  "ends_with s p \<longleftrightarrow> starts_with (rev s) (rev p)"

text \<open>\<open>split(['\', '/'])\<close>, and the components of a Unix path that are \<open>..\<close>.\<close>

definition slash :: u8 where "slash = 47"
definition backslash :: u8 where "backslash = 92"

definition split_separators :: "bytes \<Rightarrow> bytes list" where
  "split_separators s = split_on slash (map (\<lambda>b. if b = backslash then slash else b) s)"

definition parent_component :: "path \<Rightarrow> bool" where
  "parent_component p \<longleftrightarrow> lit ''..'' \<in> set (split_on slash p)"

section \<open>Validation\<close>

definition MAX_PORTS :: nat where "MAX_PORTS = 100"
definition MAX_APPS :: nat where "MAX_APPS = 100"
definition MAX_PATH_BYTES :: nat where "MAX_PATH_BYTES = 32 * 1024"

definition tuning_invalid :: "bytes \<Rightarrow> ('a, tuning_error) outcome" where
  "tuning_invalid m = Err (Tuning_Validation m)"

definition valid_windows_exe :: "path \<Rightarrow> bool" where
  "valid_windows_exe path = (let value = lossy path in
     7 \<le> length value \<and> (65 \<le> value ! 0 \<and> value ! 0 \<le> 90 \<or> 97 \<le> value ! 0 \<and> value ! 0 \<le> 122)
     \<and> value ! 1 = 58 \<and> (value ! 2 = backslash \<or> value ! 2 = slash)
     \<and> ends_with (to_ascii_lowercase value) (lit ''.exe'')
     \<and> \<not> starts_with value [backslash, backslash] \<and> \<not> starts_with value [backslash, backslash, 63, backslash]
     \<and> 0 \<notin> set value)"

definition sensitive_roots :: "bytes list" where
  "sensitive_roots = [lit ''c:'' @ [backslash] @ lit ''windows'',
     lit ''c:'' @ [backslash] @ lit ''windows'' @ [backslash] @ lit ''system32'',
     lit ''c:'' @ [backslash] @ lit ''program files'', lit ''c:'' @ [backslash] @ lit ''program files (x86)'']"

definition sensitive_backup_folder :: "path \<Rightarrow> bool" where
  "sensitive_backup_folder path =
     (let normalized = to_ascii_lowercase (rev (dropWhile (\<lambda>b. b = backslash) (rev
            (map (\<lambda>b. if b = slash then backslash else b) (lossy path)))))
      in list_ex (\<lambda>root. normalized = root \<or> starts_with normalized (root @ [backslash])) sensitive_roots
         \<or> list_ex (\<lambda>part. part \<in> {lit ''windows'', lit ''program files'', lit ''program files (x86)''})
             (split_on backslash normalized))"

definition validate_app_path :: "path \<Rightarrow> (unit, tuning_error) outcome" where
  "validate_app_path path =
     (if MAX_PATH_BYTES < length path then tuning_invalid (lit ''application path is too long'')
      else if parent_component path \<or> lit ''..'' \<in> set (split_separators (lossy path))
      then tuning_invalid (lit ''application paths must not contain parent traversal'')
      else if \<not> valid_windows_exe path
      then tuning_invalid (lit ''application paths must be absolute local .exe paths'')
      else Ok ())"

primrec validate_app_paths :: "path list \<Rightarrow> (unit, tuning_error) outcome" where
  "validate_app_paths [] = Ok ()"
| "validate_app_paths (p # ps) = and_then (validate_app_path p) (\<lambda>_. validate_app_paths ps)"

definition folder_is :: "(path \<Rightarrow> bool) \<Rightarrow> tuning_config \<Rightarrow> bool" where
  "folder_is P c = (case tc_backup_folder c of None \<Rightarrow> False | Some path \<Rightarrow> P path)"

definition validate_tuning :: "tuning_config \<Rightarrow> (unit, tuning_error) outcome" where
  "validate_tuning c =
     (if 63 < tc_dscp c then tuning_invalid (lit ''dscp must be in 0..=63'')
      else if MAX_PORTS < length (tc_udp_ports c)
      then tuning_invalid (lit ''udpPorts exceeds '' @ decimal MAX_PORTS @ lit '' entries'')
      else if 0 \<in> set (tc_udp_ports c) then tuning_invalid (lit ''udpPorts must be in 1..=65535'')
      else if MAX_APPS < length (tc_app_paths c)
      then tuning_invalid (lit ''appPaths exceeds '' @ decimal MAX_APPS @ lit '' entries'')
      else and_then (validate_app_paths (tc_app_paths c)) (\<lambda>_.
        if tc_action c \<noteq> Action_Verify \<and> folder_is (\<lambda>p. p = []) c
        then tuning_invalid (lit ''backupFolder must not be empty'')
        else if tc_action c \<noteq> Action_Verify \<and> \<not> tc_allow_unsafe_backup_folder c
          \<and> folder_is sensitive_backup_folder c
        then tuning_invalid (lit ''backupFolder points into Windows or Program Files; allowUnsafeBackupFolder is required'')
        else if tc_action c \<noteq> Action_Verify
          \<and> folder_is (\<lambda>p. lit ''..'' \<in> set (split_separators (lossy p))) c
        then tuning_invalid (lit ''backupFolder must not contain parent traversal'')
        else Ok ()))"

section \<open>The plan\<close>

text \<open>\<open>retain(|path| seen.insert(path))\<close>: the first occurrence of each path stays.\<close>

fun retain_first :: "path set \<Rightarrow> path list \<Rightarrow> path list" where
  "retain_first seen [] = []"
| "retain_first seen (p # ps) = (if p \<in> seen then retain_first seen ps else p # retain_first (insert p seen) ps)"

definition normalize_config :: "tuning_config \<Rightarrow> tuning_config" where
  "normalize_config c = c\<lparr>tc_udp_ports := remdups_adj (sort (tc_udp_ports c)),
     tc_app_paths := retain_first {} (filter (\<lambda>p. p \<noteq> []) (tc_app_paths c))\<rparr>"

definition effective_power :: "tuning_config \<Rightarrow> power_plan" where
  "effective_power c = (if tc_power_plan c = Power_None \<and> tc_profile c = Profile_Measured
     then Power_High_Performance else tc_power_plan c)"

definition plan_steps :: "tuning_config \<Rightarrow> tuning_step list" where
  "plan_steps c = (case tc_action c of
     Action_Apply \<Rightarrow> [Validate_Backup_Destination, Write_And_Verify_Backup, Enable_Local_Qos]
       @ (if tc_udp_ports c \<noteq> [] then [Reconcile_Port_Policies (length (tc_udp_ports c)) (tc_dscp c)] else [])
       @ (if tc_include_app_policies c \<and> tc_app_paths c \<noteq> []
          then [Reconcile_App_Policies (length (tc_app_paths c)) (tc_dscp c)] else [])
       @ (if tc_profile c = Profile_Measured then [Disable_Nic_Power_Saving] else [])
       @ (if effective_power c \<noteq> Power_None then [Set_Power_Plan (effective_power c)] else [])
   | Action_Backup \<Rightarrow> [Validate_Backup_Destination, Write_And_Verify_Backup]
   | Action_Restore \<Rightarrow> [Validate_And_Stage_Restore, Restore_Registry, Restore_Qos, Restore_Nic_Advanced,
       Restore_Rsc, Restore_Power_Plan]
   | Action_Verify \<Rightarrow> [Inspect_Managed_State])"

definition plan_tuning :: "tuning_config \<Rightarrow> (tuning_plan, tuning_error) outcome" where
  "plan_tuning config = and_then (validate_tuning config) (\<lambda>_.
     let c = normalize_config config in
       Ok \<lparr>tpl_config = c, tpl_steps = plan_steps c,
          tpl_mutating = (tc_action c \<noteq> Action_Verify \<and> \<not> tc_dry_run c),
          tpl_requires_helper = (tc_action c \<noteq> Action_Verify \<and> \<not> tc_dry_run c)\<rparr>)"

section \<open>Executing a plan, up to the native provider\<close>

text \<open>
  \<open>native::execute\<close>: \<open>provider\<close> is what the Windows provider answers, \<open>None\<close> on every other system.
\<close>

fun component_for_step :: "tuning_step \<Rightarrow> tuning_component" where
  "component_for_step Validate_Backup_Destination = Component_Backup"
| "component_for_step Write_And_Verify_Backup = Component_Backup"
| "component_for_step Validate_And_Stage_Restore = Component_Backup"
| "component_for_step Enable_Local_Qos = Component_Registry"
| "component_for_step Restore_Registry = Component_Registry"
| "component_for_step (Reconcile_Port_Policies _ _) = Component_Qos_Port_Policies"
| "component_for_step (Reconcile_App_Policies _ _) = Component_Qos_App_Policies"
| "component_for_step Disable_Nic_Power_Saving = Component_Nic_Advanced"
| "component_for_step Restore_Nic_Advanced = Component_Nic_Advanced"
| "component_for_step Restore_Rsc = Component_Rsc"
| "component_for_step (Set_Power_Plan _) = Component_Power_Plan"
| "component_for_step Restore_Power_Plan = Component_Power_Plan"
| "component_for_step Restore_Qos = Component_Qos_Policies"
| "component_for_step Inspect_Managed_State = Component_Manifest"

definition execute_tuning :: "bool \<Rightarrow> int \<Rightarrow> (tuning_plan \<Rightarrow> (tuning_result, tuning_error) outcome) option \<Rightarrow>
    tuning_plan \<Rightarrow> (tuning_result, tuning_error) outcome" where
  "execute_tuning cancelled clock provider p =
     (if cancelled then Err Tuning_Cancelled
      else if tc_dry_run (tpl_config p) then
        (let r = empty_result clock (tpl_config p) in
         Ok (r\<lparr>tu_components := foldl (\<lambda>m s. m(component_for_step s \<mapsto> Status_Skipped)) (tu_components r) (tpl_steps p),
            tu_warnings := tu_warnings r @ [lit ''dry run: native state was not read or changed'']\<rparr>))
      else (case provider of
        Some f \<Rightarrow> f p
      | None \<Rightarrow> Err (Tuning_Unsupported (lit ''Windows tuning requires the elevated Windows helper''))))"

section \<open>Managed policies\<close>

definition OWNED_QOS_PREFIXES :: "bytes list" where
  "OWNED_QOS_PREFIXES = [lit ''NETWORK_LANTERN_QOS_PORT_'', lit ''NETWORK_LANTERN_QOS_APP_'',
     lit ''NDS_QOS_PORT_'', lit ''NDS_QOS_APP_'']"

definition LEGACY_GENERIC_QOS_PREFIXES :: "bytes list" where
  "LEGACY_GENERIC_QOS_PREFIXES = [lit ''QoS_UDP_TS_'', lit ''QoS_UDP_CS2_'', lit ''QoS_APP_'']"

text \<open>\<open>name.get(..n)\<close> gives nothing when \<open>n\<close> is past the end or inside a character.\<close>

definition has_prefix :: "bytes \<Rightarrow> bytes list \<Rightarrow> bool" where
  "has_prefix name prefixes = list_ex (\<lambda>prefix. length prefix \<le> length name
     \<and> is_char_boundary name (length prefix) \<and> eq_ignore_ascii_case (take (length prefix) name) prefix) prefixes"

definition managed_qos_name :: "bytes \<Rightarrow> bytes list \<Rightarrow> bool" where
  "managed_qos_name name restore_names \<longleftrightarrow> has_prefix name OWNED_QOS_PREFIXES
     \<or> has_prefix name LEGACY_GENERIC_QOS_PREFIXES
       \<and> list_ex (\<lambda>restore. eq_ignore_ascii_case restore name) restore_names"

definition apply_backup_decision :: "path \<Rightarrow> bool \<Rightarrow> ('a, tuning_error) outcome \<Rightarrow> ('a option, tuning_error) outcome" where
  "apply_backup_decision folder present validated =
     (if \<not> present then Ok None
      else (case validated of
        Ok x \<Rightarrow> Ok (Some x)
      | Err e \<Rightarrow> Err (Backup_Invalid (lit ''existing backup at '' @ lossy folder @ lit '' could not be verified (''
          @ tuning_error_text e @ lit ''); move it aside before applying''))
      | Panic \<Rightarrow> Panic))"

text \<open>What \<open>symlink_metadata\<close> answers, for the Unix checks of a protected path.\<close>

record file_metadata =
  fm_symlink :: bool
  fm_uid :: nat
  fm_mode :: u32

definition validate_unix_private_path :: "nat \<Rightarrow> bytes + file_metadata \<Rightarrow> (unit, tuning_error) outcome" where
  "validate_unix_private_path euid answer = (case answer of
     Inl e \<Rightarrow> Err (Tuning_Io (lit ''validate protected path'') e)
   | Inr m \<Rightarrow>
       if fm_symlink m \<or> fm_uid m \<noteq> euid
       then Err (Backup_Invalid (lit ''protected path is linked or owned by another user''))
       else if fm_mode m AND 0x3F \<noteq> 0
       then Err (Backup_Invalid (lit ''protected path grants access to group or other users''))
       else Ok ())"

section \<open>Verification of the managed state\<close>

definition has_port_policy :: "bytes list \<Rightarrow> u16 \<Rightarrow> bool" where
  "has_port_policy names port =
     list_ex (\<lambda>name. eq_ignore_ascii_case name (lit ''NETWORK_LANTERN_QOS_PORT_'' @ decimal (unat port))
       \<or> eq_ignore_ascii_case name (lit ''NDS_QOS_PORT_'' @ decimal (unat port))) names"

definition evaluate_tuning :: "int \<Rightarrow> tuning_config \<Rightarrow> bytes list \<Rightarrow> bool option \<Rightarrow> tuning_result" where
  "evaluate_tuning clock c managed local_qos_enabled =
     (let missing = filter (\<lambda>port. \<not> has_port_policy managed port) (tc_udp_ports c);
          local_status = (case local_qos_enabled of Some True \<Rightarrow> Status_Ok | Some False \<Rightarrow> Status_Warn | None \<Rightarrow> Status_Unknown);
          port_status = (if missing = [] then Status_Ok else Status_Warn);
          r = empty_result clock c
      in r\<lparr>tu_managed_policies := managed, tu_missing_ports := missing,
           tu_components := (tu_components r)(Component_Local_Qos \<mapsto> local_status,
             Component_Qos_Port_Policies \<mapsto> port_status, Component_Qos_Policies \<mapsto> port_status),
           tu_warnings := tu_warnings r @ (if missing = [] then []
             else [lit ''Missing managed QoS port policies for: ''
                 @ join_with (lit '', '') (map (\<lambda>p. decimal (unat p)) missing)]),
           tu_success := (local_status = Status_Ok \<and> port_status = Status_Ok)\<rparr>)"

section \<open>What a plan promises\<close>

lemma retain_first_distinct: "distinct (retain_first seen ps) \<and> set (retain_first seen ps) = set ps - seen"
  by (induction seen ps rule: retain_first.induct) auto

lemma retain_first_id: "distinct ps \<Longrightarrow> set ps \<inter> seen = {} \<Longrightarrow> retain_first seen ps = ps"
  by (induction ps arbitrary: seen) auto

lemma distinct_remdups_adj_sorted: "sorted xs \<Longrightarrow> distinct (remdups_adj xs)"
  by (induction xs rule: remdups_adj.induct) auto

lemma sorted_ports: "sorted (remdups_adj (sort ps))" "distinct (remdups_adj (sort ps))"
  "set (remdups_adj (sort (ps :: u16 list))) = set ps"
  by (simp_all add: distinct_remdups_adj_sorted)

lemma normalize_idem: "normalize_config (normalize_config c) = normalize_config c"
proof -
  let ?ports = "remdups_adj (sort (tc_udp_ports c))"
  let ?paths = "retain_first {} (filter (\<lambda>p. p \<noteq> []) (tc_app_paths c))"
  have "remdups_adj (sort ?ports) = ?ports"
    using sorted_ports [of "tc_udp_ports c"] by (simp add: sorted_sort_id remdups_adj_distinct)
  moreover have "retain_first {} (filter (\<lambda>p. p \<noteq> []) ?paths) = ?paths"
  proof -
    have "filter (\<lambda>p. p \<noteq> []) ?paths = ?paths"
      using retain_first_distinct [of "{}" "filter (\<lambda>p. p \<noteq> []) (tc_app_paths c)"]
      by (auto simp: filter_id_conv)
    then show ?thesis
      using retain_first_distinct [of "{}" "filter (\<lambda>p. p \<noteq> []) (tc_app_paths c)"]
      by (simp add: retain_first_id)
  qed
  ultimately show ?thesis by (simp add: normalize_config_def)
qed

lemma validate_app_paths_Ok:
  "validate_app_paths ps = Ok u \<longleftrightarrow> (\<forall>p \<in> set ps. validate_app_path p = Ok ())"
  by (induction ps) (auto simp: and_then_eq_Ok)

lemma length_retain_first: "length (retain_first seen ps) \<le> length ps"
  by (induction seen ps rule: retain_first.induct) auto

lemma normalized_fields [simp]:
  "tc_action (normalize_config c) = tc_action c" "tc_dscp (normalize_config c) = tc_dscp c"
  "tc_profile (normalize_config c) = tc_profile c" "tc_power_plan (normalize_config c) = tc_power_plan c"
  "tc_dry_run (normalize_config c) = tc_dry_run c"
  "tc_allow_unsafe_backup_folder (normalize_config c) = tc_allow_unsafe_backup_folder c"
  "tc_include_app_policies (normalize_config c) = tc_include_app_policies c"
  "folder_is P (normalize_config c) = folder_is P c"
  "tc_udp_ports (normalize_config c) = remdups_adj (sort (tc_udp_ports c))"
  "set (tc_app_paths (normalize_config c)) = set (tc_app_paths c) - {[]}"
  by (auto simp: normalize_config_def folder_is_def retain_first_distinct)

lemma length_normalized_paths: "length (tc_app_paths (normalize_config c)) \<le> length (tc_app_paths c)"
  using le_trans [OF length_retain_first length_filter_le] by (simp add: normalize_config_def)

lemma validate_tuning_Ok:
  "validate_tuning c = Ok u \<longleftrightarrow> tc_dscp c \<le> 63 \<and> length (tc_udp_ports c) \<le> MAX_PORTS
     \<and> 0 \<notin> set (tc_udp_ports c) \<and> length (tc_app_paths c) \<le> MAX_APPS
     \<and> (\<forall>p \<in> set (tc_app_paths c). validate_app_path p = Ok ())
     \<and> (tc_action c = Action_Verify \<or> \<not> folder_is (\<lambda>p. p = []) c
         \<and> (tc_allow_unsafe_backup_folder c \<or> \<not> folder_is sensitive_backup_folder c)
         \<and> \<not> folder_is (\<lambda>p. lit ''..'' \<in> set (split_separators (lossy p))) c)"
  by (auto simp: validate_tuning_def tuning_invalid_def and_then_eq_Ok validate_app_paths_Ok not_less)

lemma validate_normalized:
  assumes "validate_tuning c = Ok u"
  shows "validate_tuning (normalize_config c) = Ok ()"
  using assms length_normalized_paths [of c] le_trans [OF remdups_adj_length [of "sort (tc_udp_ports c)"]]
  unfolding validate_tuning_Ok by (auto intro: le_trans)

lemma validated_path:
  "validate_app_path p = Ok u \<Longrightarrow> valid_windows_exe p \<and> lit ''..'' \<notin> set (split_separators (lossy p)) \<and> p \<noteq> []"
  by (auto simp: validate_app_path_def tuning_invalid_def valid_windows_exe_def split: if_splits)

text \<open>
  C36. A tuning plan is canonical. Planning the configuration of a plan gives the same plan, which is
  what the helper compares a requested plan with; the ports of a plan are the requested ones, sorted,
  without duplicates and without 0, its application paths the requested ones without duplicates, each a local
  absolute path of an executable without parent traversal; the DSCP fits six bits. A plan changes the system and needs the
  helper unless it verifies or is a dry run. The first two steps of Apply check and write the
  backup, before any step that changes something, and its policy steps count the ports and paths.
\<close>

theorem tuning_plan_canonical:
  assumes "plan_tuning c = Ok p"
  shows "plan_tuning (tpl_config p) = Ok p
    \<and> sorted (tc_udp_ports (tpl_config p)) \<and> distinct (tc_udp_ports (tpl_config p))
    \<and> set (tc_udp_ports (tpl_config p)) = set (tc_udp_ports c) - {0}
    \<and> distinct (tc_app_paths (tpl_config p)) \<and> set (tc_app_paths (tpl_config p)) = set (tc_app_paths c)
    \<and> (\<forall>path \<in> set (tc_app_paths (tpl_config p)).
         valid_windows_exe path \<and> lit ''..'' \<notin> set (split_separators (lossy path)))
    \<and> tc_dscp (tpl_config p) \<le> 63
    \<and> (tpl_mutating p \<longleftrightarrow> tc_action c \<noteq> Action_Verify \<and> \<not> tc_dry_run c) \<and> (tpl_requires_helper p \<longleftrightarrow> tpl_mutating p)
    \<and> (tc_action c = Action_Apply \<longrightarrow> take 2 (tpl_steps p) = [Validate_Backup_Destination, Write_And_Verify_Backup])
    \<and> (\<forall>n d. Reconcile_Port_Policies n d \<in> set (tpl_steps p) \<longleftrightarrow> tc_action c = Action_Apply \<and> 0 < n
         \<and> n = card (set (tc_udp_ports c)) \<and> d = tc_dscp c)
    \<and> (\<forall>n d. Reconcile_App_Policies n d \<in> set (tpl_steps p) \<longleftrightarrow> tc_action c = Action_Apply
         \<and> tc_include_app_policies c \<and> 0 < n \<and> n = card (set (tc_app_paths c)) \<and> d = tc_dscp c)"
proof -
  let ?c = "normalize_config c"
  from assms have valid: "validate_tuning c = Ok ()"
    and p: "tpl_config p = ?c" "tpl_steps p = plan_steps ?c"
      "tpl_mutating p = (tc_action c \<noteq> Action_Verify \<and> \<not> tc_dry_run c)"
      "tpl_requires_helper p = (tc_action c \<noteq> Action_Verify \<and> \<not> tc_dry_run c)"
    by (auto simp: plan_tuning_def and_then_eq_Ok Let_def)
  have "plan_tuning ?c = Ok p"
    using assms validate_normalized [OF valid] by (auto simp: plan_tuning_def and_then_eq_Ok Let_def normalize_idem)
  moreover have zero: "0 \<notin> set (tc_udp_ports c)" and "tc_dscp c \<le> 63"
    and paths: "\<forall>path \<in> set (tc_app_paths c). validate_app_path path = Ok ()"
    using valid by (simp_all add: validate_tuning_Ok)
  moreover have good: "\<forall>path \<in> set (tc_app_paths c). valid_windows_exe path
      \<and> lit ''..'' \<notin> set (split_separators (lossy path)) \<and> path \<noteq> []"
    using paths validated_path by blast
  moreover have same: "set (tc_app_paths ?c) = set (tc_app_paths c)" using good by auto
  moreover have distinct: "distinct (tc_app_paths ?c)"
    by (simp add: normalize_config_def retain_first_distinct)
  moreover have "length (remdups_adj (sort (tc_udp_ports c))) = card (set (tc_udp_ports c))"
    using distinct_card [OF sorted_ports(2), of "tc_udp_ports c"] by simp
  moreover have "length (tc_app_paths ?c) = card (set (tc_app_paths c))"
    using distinct_card [OF distinct] same by simp
  moreover have "tc_app_paths ?c = [] \<longleftrightarrow> tc_app_paths c = []" using same by (metis set_empty)
  ultimately show ?thesis
    using sorted_ports [of "tc_udp_ports c"] unfolding p
    by (auto simp: plan_steps_def card_gt_0_iff split: tuning_action.splits)
qed

text \<open>Two UDP ports, one of them twice, and one application.\<close>

definition sample_tuning :: tuning_config where
  "sample_tuning = TuningConfig_default\<lparr>tc_udp_ports := [9000, 5201, 9000], tc_include_app_policies := True,
     tc_app_paths := [lit ''C:/game.exe'', lit ''C:/game.exe'']\<rparr>"

lemma sample_tuning_valid: "validate_tuning sample_tuning = Ok ()"
  by (simp add: validate_tuning_Ok sample_tuning_def TuningConfig_default_def MAX_PORTS_def MAX_APPS_def
      validate_app_path_def MAX_PATH_BYTES_def parent_component_def split_separators_def valid_windows_exe_def
      ends_with_def starts_with_def to_ascii_lowercase_def ascii_lower_def folder_is_def slash_def backslash_def
      lit_def)

lemma tuning_plan_canonical_witness:
  "plan_tuning (normalize_config sample_tuning) = plan_tuning sample_tuning
     \<and> set (tc_udp_ports (normalize_config sample_tuning)) = {9000, 5201}"
proof -
  have p: "plan_tuning sample_tuning = Ok \<lparr>tpl_config = normalize_config sample_tuning,
      tpl_steps = plan_steps (normalize_config sample_tuning), tpl_mutating = True, tpl_requires_helper = True\<rparr>"
    by (simp add: plan_tuning_def sample_tuning_valid Let_def) (simp add: sample_tuning_def TuningConfig_default_def)
  show ?thesis
    using tuning_plan_canonical [OF p] p by (auto simp: sample_tuning_def)
qed

section \<open>What the verification reports\<close>

definition port_policy_name :: "u16 \<Rightarrow> bytes" where
  "port_policy_name port = lit ''NETWORK_LANTERN_QOS_PORT_'' @ decimal (unat port)"

text \<open>Decimal digits are not touched by case folding, and determine the number.\<close>

definition number_of :: "bytes \<Rightarrow> nat" where
  "number_of = foldl (\<lambda>n b. n * 10 + (unat b - 48)) 0"

lemma unat_digit: "d < 10 \<Longrightarrow> unat (digit d) = 48 + d"
  by (simp add: digit_def unat_word_ariths unat_of_nat)

lemma number_of_decimal: "number_of (decimal n) = n"
proof (induction n rule: decimal.induct)
  case (1 n)
  show ?case
  proof (cases "n < 10")
    case True
    then show ?thesis by (simp add: decimal.simps [of n] number_of_def unat_digit)
  next
    case False
    with 1 show ?thesis by (simp add: decimal.simps [of n] number_of_def unat_digit)
  qed
qed

lemma decimal_inject: "decimal m = decimal n \<Longrightarrow> m = n"
  using number_of_decimal by metis

lemma decimal_digits: "b \<in> set (decimal n) \<Longrightarrow> 48 \<le> unat b \<and> unat b < 58"
proof (induction n rule: decimal.induct)
  case (1 n)
  then show ?case
    by (cases "n < 10") (auto simp: decimal.simps [of n] unat_digit)
qed

lemma lower_decimal: "to_ascii_lowercase (decimal n) = decimal n"
  unfolding to_ascii_lowercase_def
proof (rule map_idI)
  fix b assume "b \<in> set (decimal n)"
  then have "unat b < 58" using decimal_digits by blast
  then show "ascii_lower b = b" by (simp add: ascii_lower_def word_le_nat_alt)
qed

lemma to_ascii_lowercase_append: "to_ascii_lowercase (a @ b) = to_ascii_lowercase a @ to_ascii_lowercase b"
  by (simp add: to_ascii_lowercase_def)

lemma policy_names_differ:
  "eq_ignore_ascii_case (port_policy_name q) (lit ''NETWORK_LANTERN_QOS_PORT_'' @ decimal (unat p)) \<longleftrightarrow> q = p"
proof -
  have "eq_ignore_ascii_case (port_policy_name q) (lit ''NETWORK_LANTERN_QOS_PORT_'' @ decimal (unat p))
      \<longleftrightarrow> decimal (unat q) = decimal (unat p)"
    by (simp add: eq_ignore_ascii_case_def port_policy_name_def to_ascii_lowercase_append lower_decimal)
  moreover have "q = p" if "unat q = unat p" using arg_cong [OF that, of "word_of_nat :: nat \<Rightarrow> u16"] by simp
  ultimately show ?thesis using decimal_inject by blast
qed

lemma legacy_name_differs:
  "\<not> eq_ignore_ascii_case (port_policy_name q) (lit ''NDS_QOS_PORT_'' @ decimal n)"
  by (simp add: eq_ignore_ascii_case_def port_policy_name_def to_ascii_lowercase_def lit_def ascii_lower_def)

lemma has_port_policy_names: "has_port_policy (map port_policy_name qs) p \<longleftrightarrow> p \<in> set qs"
  by (auto simp: has_port_policy_def list_ex_iff policy_names_differ legacy_name_differs)

text \<open>
  Verification is exact. When the managed policies are those that Apply creates for a list of ports, the missing
  ports are exactly the configured ones outside that list, no port is taken for another whose name is longer or shorter,
  and the verification succeeds exactly when none is missing and local QoS is known to be enabled.
\<close>

lemma verification_exact:
  "let r = evaluate_tuning clock c (map port_policy_name qs) local_qos in
     tu_missing_ports r = filter (\<lambda>p. p \<notin> set qs) (tc_udp_ports c)
     \<and> (tu_success r \<longleftrightarrow> set (tc_udp_ports c) \<subseteq> set qs \<and> local_qos = Some True)
     \<and> (tu_components r Component_Local_Qos = Some Status_Unknown \<longleftrightarrow> local_qos = None)
     \<and> (tu_warnings r = [] \<longleftrightarrow> set (tc_udp_ports c) \<subseteq> set qs)"
  by (auto simp: evaluate_tuning_def Let_def has_port_policy_names empty_result_def filter_empty_conv
      split: option.splits bool.splits)

text \<open>A dry run touches nothing: every component of the plan is reported as skipped.\<close>

lemma dry_run_skips:
  assumes "tc_dry_run (tpl_config p)"
  shows "\<exists>r. execute_tuning False clock provider p = Ok r \<and> tu_success r
    \<and> dom (tu_components r) = component_for_step ` set (tpl_steps p) \<and> ran (tu_components r) \<subseteq> {Status_Skipped}"
proof -
  have "dom (foldl (\<lambda>m s. m(component_for_step s \<mapsto> Status_Skipped)) m xs) = dom m \<union> component_for_step ` set xs
      \<and> (ran m \<subseteq> {Status_Skipped} \<longrightarrow> ran (foldl (\<lambda>m s. m(component_for_step s \<mapsto> Status_Skipped)) m xs) \<subseteq> {Status_Skipped})"
    for m :: "tuning_component \<rightharpoonup> component_status" and xs
  proof (induction xs arbitrary: m)
    case (Cons x xs)
    show ?case using Cons [of "m(component_for_step x \<mapsto> Status_Skipped)"]
      by (auto simp: ran_def split: if_splits)
  qed simp
  from this [of Map.empty "tpl_steps p"] assms show ?thesis
    by (simp add: execute_tuning_def Let_def empty_result_def)
qed

end
