(* ===== verification/Path_Basic.thy ===== *)
theory Path_Basic
  imports Path_Workers Trace_Plan
begin

text \<open>
  \<open>crates/path-basic/src/lib.rs\<close>: the basic path diagnostic. Its rounds and settings, the plan of
  rounds, families and hosts, and the run of one item: a ping, a trace, path statistics and a TCP
  connection, one stage after the other, with the errors of each stage recorded.

  The probes of a stage run on a blocking task; what the task ends with, and what the cancellation
  token answers between the stages, are given by the environment.
\<close>

section \<open>Rounds and settings\<close>

datatype basic_round = Basic_Standard | Mtu1400Df | Ttl64Timeout5s

definition BasicRound_ALL :: "basic_round list" where
  "BasicRound_ALL = [Basic_Standard, Mtu1400Df, Ttl64Timeout5s]"

record basic_settings =
  bs_ping_count :: u16
  bs_trace_max_hops :: u8
  bs_trace_timeout :: duration
  bs_pathping_probes :: u16
  bs_pathping_timeout :: duration
  bs_tcp_port :: u16
  bs_skip_pathping :: bool

definition BasicSettings_default :: basic_settings where
  "BasicSettings_default = \<lparr>bs_ping_count = 5, bs_trace_max_hops = 30, bs_trace_timeout = from_secs 5,
     bs_pathping_probes = 50, bs_pathping_timeout = from_secs 3, bs_tcp_port = 443, bs_skip_pathping = False\<rparr>"

fun basic_round_name :: "basic_round \<Rightarrow> bytes" where
  "basic_round_name Basic_Standard = lit ''Standard''"
| "basic_round_name Mtu1400Df = lit ''MTU1400_DF''"
| "basic_round_name Ttl64Timeout5s = lit ''TTL64_Timeout5s''"

definition trace_parameters :: "basic_round \<Rightarrow> basic_settings \<Rightarrow> round_parameters" where
  "trace_parameters r s =
     \<lparr>rp_payload_size = 32, rp_dont_fragment = False,
      rp_max_hops = (if r = Ttl64Timeout5s then 64 else bs_trace_max_hops s),
      rp_timeout = (if r = Ttl64Timeout5s then from_secs 5 else bs_trace_timeout s),
      rp_traffic_class = None\<rparr>"

definition ping_parameters :: "basic_round \<Rightarrow> basic_settings \<Rightarrow> round_parameters" where
  "ping_parameters r s = (let p = trace_parameters r s in
     if r = Mtu1400Df then p\<lparr>rp_payload_size := 1400, rp_dont_fragment := True\<rparr> else p)"

definition path_statistics_parameters :: "basic_round \<Rightarrow> basic_settings \<Rightarrow> round_parameters" where
  "path_statistics_parameters r s = (trace_parameters r s)
     \<lparr>rp_timeout := (if r = Ttl64Timeout5s then from_secs 5 else bs_pathping_timeout s)\<rparr>"

definition ping_ttl :: "basic_round \<Rightarrow> u8 option" where
  "ping_ttl r = (if r = Ttl64Timeout5s then Some 64 else None)"

definition basic_validate :: "basic_settings \<Rightarrow> (unit, probe_error) outcome" where
  "basic_validate s =
     (if 1000 < bs_ping_count s \<or> 1000 < bs_pathping_probes s \<or> from_secs 300 < bs_trace_timeout s
         \<or> from_secs 300 < bs_pathping_timeout s
      then invalid_plan ''basic counts or timeouts exceed supported bounds''
      else if bs_ping_count s = 0 then invalid_plan ''ping count must be positive''
      else if bs_trace_max_hops s = 0 then invalid_plan ''trace max hops must be positive''
      else if bs_trace_timeout s = 0 then invalid_plan ''trace timeout must be positive''
      else if \<not> bs_skip_pathping s \<and> bs_pathping_probes s = 0
      then invalid_plan ''path statistics probe count must be positive''
      else if \<not> bs_skip_pathping s \<and> bs_pathping_timeout s = 0
      then invalid_plan ''path statistics timeout must be positive''
      else if bs_tcp_port s = 0 then invalid_plan ''TCP port must be positive''
      else Ok ())"

section \<open>The plan\<close>

record basic_item =
  bi_round :: basic_round
  bi_family :: address_family
  bi_host :: bytes

record basic_plan =
  bp_rounds :: "basic_round list"
  bp_families :: "address_family list"
  bp_ipv4_hosts :: "bytes list"
  bp_ipv6_hosts :: "bytes list"
  bp_total_items :: u64

definition hosts_of :: "address_family \<Rightarrow> bytes list \<Rightarrow> bytes list \<Rightarrow> bytes list" where
  "hosts_of family v4 v6 = (case family of Ipv4 \<Rightarrow> v4 | Ipv6 \<Rightarrow> v6)"

definition basic_items :: "basic_plan \<Rightarrow> basic_item list" where
  "basic_items p = concat (map (\<lambda>r. concat (map (\<lambda>f.
     map (\<lambda>h. \<lparr>bi_round = r, bi_family = f, bi_host = h\<rparr>) (hosts_of f (bp_ipv4_hosts p) (bp_ipv6_hosts p)))
     (bp_families p))) (bp_rounds p))"

definition count_basic :: "basic_round list \<Rightarrow> address_family list \<Rightarrow> bytes list \<Rightarrow> bytes list \<Rightarrow> u64 option" where
  "count_basic rounds families v4 v6 =
     try_fold (\<lambda>acc _. try_fold (\<lambda>acc f. checked_add acc (word_of_nat (length (hosts_of f v4 v6)))) acc families)
       0 rounds"

definition build_basic_plan :: "basic_round list \<Rightarrow> address_family list \<Rightarrow> bytes list \<Rightarrow> bytes list \<Rightarrow>
    (basic_plan, probe_error) outcome" where
  "build_basic_plan rounds families v4 v6 =
     (if rounds = [] \<or> families = [] then invalid_plan ''rounds and families must not be empty''
      else and_then (validate_hosts (v4 @ v6)) (\<lambda>_.
        case count_basic rounds families v4 v6 of
          None \<Rightarrow> invalid_plan ''diagnostic plan cardinality overflow''
        | Some n \<Rightarrow>
            if n = 0 then invalid_plan ''no diagnostic runs planned''
            else Ok \<lparr>bp_rounds = rounds, bp_families = families, bp_ipv4_hosts = v4,
                     bp_ipv6_hosts = v6, bp_total_items = n\<rparr>))"

section \<open>One run\<close>

datatype basic_status = Basic_Completed | Basic_Partial_Failure | Basic_Cancelled

record basic_result =
  br_round :: basic_round
  br_family :: address_family
  br_host :: bytes
  br_target :: ip_addr
  br_ping :: "sample list"
  br_trace :: "hop_result list"
  br_path_statistics :: "hop_statistics list option"
  br_tcp_ok :: bool
  br_tcp_port :: u16
  br_failed_stages :: "bytes list"
  br_status :: basic_status
  br_stage_errors :: "(bytes \<times> bytes) list"

text \<open>
  A blocking task ends with what its probe returned, or is lost (it panicked or the runtime is
  shutting down). \<open>be_token\<close> is the token at its five readings after the stages.
\<close>

datatype 'a task_end = Blocking_Returned "probe_error + 'a" | Blocking_Lost bytes

record basic_env =
  be_token_before :: bool
  be_lookup :: "bytes \<Rightarrow> (bytes + (ip_addr \<times> u16) list) option"
  be_ping :: "ip_addr \<times> u16 \<Rightarrow> u16 \<Rightarrow> u8 option \<Rightarrow> round_parameters \<Rightarrow> sample list task_end"
  be_trace :: "ip_addr \<times> u16 \<Rightarrow> u8 \<Rightarrow> round_parameters \<Rightarrow> hop_result list task_end"
  be_measure :: "ip_addr \<times> u16 \<Rightarrow> hop_result list \<Rightarrow> u16 \<Rightarrow> duration \<Rightarrow> round_parameters \<Rightarrow>
    hop_statistics list task_end"
  be_connect :: "ip_addr \<times> u16 \<Rightarrow> connect_result option"
  be_token :: "nat \<Rightarrow> bool"

definition run_blocking_probe :: "string \<Rightarrow> 'a task_end \<Rightarrow> ('a, probe_error) outcome" where
  "run_blocking_probe operation t = (case t of
     Blocking_Returned (Inr x) \<Rightarrow> Ok x
   | Blocking_Returned (Inl e) \<Rightarrow> Err e
   | Blocking_Lost msg \<Rightarrow> Err (Io (lit operation) msg))"

text \<open>The mutable locals of \<open>execute_item\<close>.\<close>

record basic_state =
  st_ping :: "sample list"
  st_trace :: "hop_result list"
  st_path :: "hop_statistics list option"
  st_tcp :: bool
  st_failed :: "bytes list"
  st_errors :: "(bytes \<times> bytes) list"
  st_cancelled_run :: bool

definition record_stage_outcome :: "bytes \<Rightarrow> bytes \<Rightarrow> basic_state \<Rightarrow> basic_state" where
  "record_stage_outcome stage msg st =
     st\<lparr>st_failed := st_failed st @ [stage], st_errors := st_errors st @ [(stage, msg)]\<rparr>"

definition record_stage_error :: "bytes \<Rightarrow> probe_error \<Rightarrow> basic_state \<Rightarrow> basic_state" where
  "record_stage_error stage e st = record_stage_outcome stage (probe_error_text e)
     (if e = Probe_Cancelled then st\<lparr>st_cancelled_run := True\<rparr> else st)"

definition store_stage :: "bytes \<Rightarrow> ('a \<Rightarrow> basic_state \<Rightarrow> basic_state) \<Rightarrow> ('a, probe_error) outcome \<Rightarrow>
    basic_state \<Rightarrow> (basic_state, probe_error) outcome" where
  "store_stage stage store r st = (case r of
     Ok x \<Rightarrow> Ok (store x st) | Err e \<Rightarrow> Ok (record_stage_error stage e st) | Panic \<Rightarrow> Panic)"

definition read_token :: "bool \<Rightarrow> basic_state \<Rightarrow> basic_state" where
  "read_token token st = st\<lparr>st_cancelled_run := st_cancelled_run st \<or> token\<rparr>"

definition tcp_stage :: "basic_settings \<Rightarrow> bytes" where
  "tcp_stage s = lit ''Tcp'' @ decimal (unat (bs_tcp_port s))"

text \<open>The judgement on what the stages found, made unless the run was cancelled.\<close>

definition judge :: "bytes \<Rightarrow> bool \<Rightarrow> string \<Rightarrow> basic_state \<Rightarrow> basic_state" where
  "judge stage failed msg st =
     (if failed \<and> stage \<notin> set (st_failed st) then record_stage_outcome stage (lit msg) st else st)"

definition judge_run :: "basic_settings \<Rightarrow> basic_state \<Rightarrow> basic_state" where
  "judge_run s st =
     (let st = judge (lit ''Ping'') (list_all (\<lambda>sm. sm_status sm \<noteq> Reply) (st_ping st))
            ''no ICMP echo reply was received'' st;
          st = judge (lit ''Tracert'') (st_trace st = [] \<or> \<not> hr_reached_destination (last (st_trace st)))
            ''the destination was not reached'' st;
          st = judge (lit ''Pathping'') (case st_path st of None \<Rightarrow> False
              | Some hops \<Rightarrow> list_all (\<lambda>h. st_received (hs_statistics h) = 0) hops)
            ''no path statistics reply was received'' st
      in judge (tcp_stage s) (\<not> st_tcp st) ''the TCP connection did not succeed'' st)"

definition unless_cancelled :: "(basic_state \<Rightarrow> (basic_state, probe_error) outcome) \<Rightarrow> basic_state \<Rightarrow>
    (basic_state, probe_error) outcome" where
  "unless_cancelled f st = (if st_cancelled_run st then Ok st else f st)"

definition run_stages :: "basic_env \<Rightarrow> basic_item \<Rightarrow> basic_settings \<Rightarrow> ip_addr \<times> u16 \<Rightarrow>
    (basic_state, probe_error) outcome" where
  "run_stages env item s target =
     and_then (store_stage (lit ''Ping'') (\<lambda>x st. st\<lparr>st_ping := x\<rparr>)
         (run_blocking_probe ''ping task'' (be_ping env target (bs_ping_count s) (ping_ttl (bi_round item))
           (ping_parameters (bi_round item) s)))
         \<lparr>st_ping = [], st_trace = [], st_path = None, st_tcp = False, st_failed = [], st_errors = [],
          st_cancelled_run = False\<rparr>) (\<lambda>st.
     and_then (unless_cancelled (store_stage (lit ''Tracert'') (\<lambda>x st. st\<lparr>st_trace := x\<rparr>)
         (run_blocking_probe ''trace task'' (be_trace env target 1 (trace_parameters (bi_round item) s))))
         (read_token (be_token env 0) st)) (\<lambda>st.
     and_then (unless_cancelled (\<lambda>st. if bs_skip_pathping s then Ok st
         else store_stage (lit ''Pathping'') (\<lambda>x st. st\<lparr>st_path := Some x\<rparr>)
           (run_blocking_probe ''path statistics task'' (be_measure env target (st_trace st)
             (bs_pathping_probes s) (rp_timeout (path_statistics_parameters (bi_round item) s))
             (path_statistics_parameters (bi_round item) s))) st)
         (read_token (be_token env 1) st)) (\<lambda>st.
     and_then (unless_cancelled (store_stage (tcp_stage s) (\<lambda>x st. st\<lparr>st_tcp := x\<rparr>)
         (test_tcp_scoped (be_connect env) (fst target, bs_tcp_port s)))
         (read_token (be_token env 2) st)) (\<lambda>st.
     let st = read_token (be_token env 3) st in
       Ok (if st_cancelled_run st then st else judge_run s st)))))"

definition execute_item :: "basic_env \<Rightarrow> basic_item \<Rightarrow> basic_settings \<Rightarrow> (basic_result, probe_error) outcome" where
  "execute_item env item s =
     and_then (basic_validate s) (\<lambda>_.
       if be_token_before env then Err Probe_Cancelled
       else and_then (resolve_target_scoped (be_lookup env) (bi_host item) (bi_family item)) (\<lambda>target.
         and_then (run_stages env item s target) (\<lambda>st.
           Ok \<lparr>br_round = bi_round item, br_family = bi_family item, br_host = bi_host item,
               br_target = fst target, br_ping = st_ping st, br_trace = st_trace st,
               br_path_statistics = st_path st, br_tcp_ok = st_tcp st, br_tcp_port = bs_tcp_port s,
               br_failed_stages = st_failed st,
               br_status = (if st_cancelled_run st \<or> be_token env 4 then Basic_Cancelled
                 else if st_failed st = [] then Basic_Completed else Basic_Partial_Failure),
               br_stage_errors = st_errors st\<rparr>)))"


section \<open>What a run reports\<close>

text \<open>
  The invariant between the stages: \<open>tried\<close> holds the stages tried so far. A stage that has not run,
  and one with a recorded error, left its result at the initial value.
\<close>

definition idle_stage :: "bytes set \<Rightarrow> basic_state \<Rightarrow> bytes \<Rightarrow> bool" where
  "idle_stage tried st g \<longleftrightarrow> g \<notin> tried \<or> g \<in> set (st_failed st)"

definition stages_recorded :: "basic_settings \<Rightarrow> bytes set \<Rightarrow> basic_state \<Rightarrow> bool" where
  "stages_recorded s tried st \<longleftrightarrow>
     st_failed st = map fst (st_errors st) \<and> distinct (st_failed st) \<and> set (st_failed st) \<subseteq> tried
     \<and> (idle_stage tried st (lit ''Ping'') \<longrightarrow> st_ping st = [])
     \<and> (idle_stage tried st (lit ''Tracert'') \<longrightarrow> st_trace st = [])
     \<and> (st_path st = None \<longleftrightarrow> idle_stage tried st (lit ''Pathping''))
     \<and> (idle_stage tried st (tcp_stage s) \<longrightarrow> \<not> st_tcp st)"

lemma stage_names:
  "lit ''Ping'' \<noteq> lit ''Tracert''" "lit ''Ping'' \<noteq> lit ''Pathping''" "lit ''Tracert'' \<noteq> lit ''Pathping''"
  "tcp_stage s \<noteq> lit ''Ping''" "tcp_stage s \<noteq> lit ''Tracert''" "tcp_stage s \<noteq> lit ''Pathping''"
  by (simp_all add: tcp_stage_def lit_def)

lemmas stage_names_sym [simp] = stage_names stage_names [symmetric]

lemma recorded_simps [simp]:
  "st_failed (record_stage_outcome g m st) = st_failed st @ [g]"
  "st_errors (record_stage_outcome g m st) = st_errors st @ [(g, m)]"
  "st_ping (record_stage_outcome g m st) = st_ping st"
  "st_trace (record_stage_outcome g m st) = st_trace st"
  "st_path (record_stage_outcome g m st) = st_path st"
  "st_tcp (record_stage_outcome g m st) = st_tcp st"
  "st_cancelled_run (record_stage_outcome g m st) = st_cancelled_run st"
  by (simp_all add: record_stage_outcome_def)

lemma record_error_simps [simp]:
  "st_failed (record_stage_error g e st) = st_failed st @ [g]"
  "st_errors (record_stage_error g e st) = st_errors st @ [(g, probe_error_text e)]"
  "st_ping (record_stage_error g e st) = st_ping st"
  "st_trace (record_stage_error g e st) = st_trace st"
  "st_path (record_stage_error g e st) = st_path st"
  "st_tcp (record_stage_error g e st) = st_tcp st"
  "st_cancelled_run (record_stage_error g e st) \<longleftrightarrow> st_cancelled_run st \<or> e = Probe_Cancelled"
  by (simp_all add: record_stage_error_def)

lemma read_token_simps [simp]:
  "st_failed (read_token b st) = st_failed st"
  "st_trace (read_token b st) = st_trace st"
  "st_cancelled_run (read_token b st) \<longleftrightarrow> st_cancelled_run st \<or> b"
  by (simp_all add: read_token_def)

lemma stages_recorded_token [simp]: "stages_recorded s tried (read_token b st) = stages_recorded s tried st"
  by (simp add: stages_recorded_def read_token_def idle_stage_def)

lemma recorded_stages: "stages_recorded s tried st \<Longrightarrow> set (st_failed st) \<subseteq> tried \<and> distinct (st_failed st)"
  unfolding stages_recorded_def by blast

text \<open>A stage that fails: recorded once, its result untouched.\<close>

lemma stage_error_recorded:
  assumes "stages_recorded s tried st" "g \<notin> tried"
  shows "stages_recorded s (insert g tried) (record_stage_error g e st)"
proof -
  have "idle_stage (insert g tried) (record_stage_error g e st) = idle_stage tried st"
    using assms(2) by (auto simp: idle_stage_def fun_eq_iff)
  moreover from recorded_stages [OF assms(1)] assms(2)
  have "distinct (st_failed st @ [g])" "set (st_failed st @ [g]) \<subseteq> insert g tried" by auto
  ultimately show ?thesis
    using assms(1) unfolding stages_recorded_def by simp
qed

text \<open>A stage that returns: its result is stored, and nothing is recorded.\<close>

lemma stored_recorded:
  assumes "stages_recorded s tried st" "g \<notin> tried" "st_failed st' = st_failed st" "st_errors st' = st_errors st"
    "st_ping st' = st_ping st \<or> g = lit ''Ping''" "st_trace st' = st_trace st \<or> g = lit ''Tracert''"
    "if g = lit ''Pathping'' then st_path st' \<noteq> None else st_path st' = st_path st"
    "st_tcp st' = st_tcp st \<or> g = tcp_stage s"
  shows "stages_recorded s (insert g tried) st'"
proof -
  have "g \<notin> set (st_failed st)" using assms(1,2) unfolding stages_recorded_def by blast
  then have idle: "idle_stage (insert g tried) st' h \<longleftrightarrow> idle_stage tried st h \<and> h \<noteq> g" for h
    using assms(2,3) by (auto simp: idle_stage_def)
  have "st_path st' = None \<longleftrightarrow> idle_stage tried st (lit ''Pathping'') \<and> lit ''Pathping'' \<noteq> g"
    using assms(1,7) by (auto simp: stages_recorded_def split: if_splits)
  moreover have "set (st_failed st) \<subseteq> insert g tried" using recorded_stages [OF assms(1)] by blast
  ultimately show ?thesis
    using assms(1,5,6,8) unfolding stages_recorded_def idle assms(3,4) by metis
qed

text \<open>
  \<open>run_recorded s stages token\<close>: a run that was not cancelled has tried exactly \<open>stages\<close>; it was
  cancelled if a reading of the token said so, and otherwise only by a stage that failed.
\<close>

definition run_recorded :: "basic_settings \<Rightarrow> bytes set \<Rightarrow> bool \<Rightarrow> basic_state \<Rightarrow> bool" where
  "run_recorded s stages token st \<longleftrightarrow>
     (\<exists>tried \<subseteq> stages. stages_recorded s tried st \<and> (\<not> st_cancelled_run st \<longrightarrow> tried = stages))
     \<and> (token \<longrightarrow> st_cancelled_run st) \<and> (st_cancelled_run st \<longrightarrow> token \<or> st_failed st \<noteq> [])"

lemma run_recorded_token:
  assumes "run_recorded s stages token st"
  shows "run_recorded s stages (token \<or> b) (read_token b st)"
proof -
  from assms obtain tried where tried: "tried \<subseteq> stages" "stages_recorded s tried st"
      "\<not> st_cancelled_run st \<Longrightarrow> tried = stages"
    unfolding run_recorded_def by metis
  then have "\<exists>tried \<subseteq> stages. stages_recorded s tried (read_token b st)
      \<and> (\<not> st_cancelled_run (read_token b st) \<longrightarrow> tried = stages)"
    by (intro exI [of _ tried]) simp
  moreover have "token \<or> b \<longrightarrow> st_cancelled_run (read_token b st)"
    "st_cancelled_run (read_token b st) \<longrightarrow> (token \<or> b) \<or> st_failed (read_token b st) \<noteq> []"
    using assms by (auto simp: run_recorded_def)
  ultimately show ?thesis unfolding run_recorded_def by simp
qed

lemma store_stage_recorded:
  assumes "run_recorded s stages token st" "\<not> st_cancelled_run st" "g \<notin> stages" "r \<noteq> Panic"
    "\<And>x. r = Ok x \<Longrightarrow> stages_recorded s stages st \<Longrightarrow> stages_recorded s (insert g stages) (store x st)"
    "\<And>x. st_cancelled_run (store x st) = st_cancelled_run st"
  shows "yields (store_stage g store r st) (run_recorded s (insert g stages) token)"
proof -
  have st: "stages_recorded s stages st" "\<not> token"
    using assms(1,2) by (auto simp: run_recorded_def)
  show ?thesis
  proof (cases r)
    case (Ok x)
    with st assms show ?thesis
      by (auto simp: store_stage_def run_recorded_def)
  next
    case (Err e)
    with st assms(2) stage_error_recorded [OF st(1) assms(3), of e] show ?thesis
      by (auto simp: store_stage_def run_recorded_def)
  qed (use assms(4) in simp)
qed

lemma guarded_stage_recorded:
  assumes "run_recorded s stages token st"
    "\<not> st_cancelled_run st \<Longrightarrow> yields (f st) (run_recorded s (insert g stages) token)"
  shows "yields (unless_cancelled f st) (run_recorded s (insert g stages) token)"
proof (cases "st_cancelled_run st")
  case True
  with assms(1) show ?thesis
    unfolding unless_cancelled_def run_recorded_def by (simp add: subset_insertI2) blast
qed (use assms(2) in \<open>simp add: unless_cancelled_def\<close>)

lemma run_blocking_probe_no_panic [simp]: "run_blocking_probe g t \<noteq> Panic"
  by (auto simp: run_blocking_probe_def split: task_end.splits sum.splits)

lemma test_tcp_no_panic [simp]: "test_tcp_scoped connect target \<noteq> Panic"
  by (auto simp: test_tcp_scoped_def split: option.splits connect_result.splits)


lemma initial_recorded:
  "run_recorded s {} False \<lparr>st_ping = [], st_trace = [], st_path = None, st_tcp = False, st_failed = [],
     st_errors = [], st_cancelled_run = False\<rparr>"
  by (simp add: run_recorded_def stages_recorded_def idle_stage_def)

lemma ping_stage_recorded:
  "run_recorded s {} False st \<Longrightarrow> \<not> st_cancelled_run st \<Longrightarrow>
   yields (store_stage (lit ''Ping'') (\<lambda>x st. st\<lparr>st_ping := x\<rparr>) (run_blocking_probe a t) st)
     (run_recorded s {lit ''Ping''} False)"
  by (rule store_stage_recorded) (auto intro: stored_recorded)

lemma trace_stage_recorded:
  "run_recorded s {lit ''Ping''} token st \<Longrightarrow> \<not> st_cancelled_run st \<Longrightarrow>
   yields (store_stage (lit ''Tracert'') (\<lambda>x st. st\<lparr>st_trace := x\<rparr>) (run_blocking_probe a t) st)
     (run_recorded s {lit ''Tracert'', lit ''Ping''} token)"
  by (rule store_stage_recorded) (auto intro: stored_recorded)

lemma path_stage_recorded:
  "run_recorded s {lit ''Tracert'', lit ''Ping''} token st \<Longrightarrow> \<not> st_cancelled_run st \<Longrightarrow>
   yields (store_stage (lit ''Pathping'') (\<lambda>x st. st\<lparr>st_path := Some x\<rparr>) (run_blocking_probe a t) st)
     (run_recorded s {lit ''Pathping'', lit ''Tracert'', lit ''Ping''} token)"
  by (rule store_stage_recorded) (auto intro: stored_recorded)

lemma tcp_stage_recorded:
  "run_recorded s stages token st \<Longrightarrow> tcp_stage s \<notin> stages \<Longrightarrow> \<not> st_cancelled_run st \<Longrightarrow>
   yields (store_stage (tcp_stage s) (\<lambda>x st. st\<lparr>st_tcp := x\<rparr>) (test_tcp_scoped c t) st)
     (run_recorded s (insert (tcp_stage s) stages) token)"
  by (rule store_stage_recorded) (auto intro: stored_recorded)

definition stages_of :: "basic_settings \<Rightarrow> bytes set" where
  "stages_of s = {tcp_stage s, lit ''Tracert'', lit ''Ping''} \<union> (if bs_skip_pathping s then {} else {lit ''Pathping''})"

lemma store_stage_no_error: "store_stage g store r st \<noteq> Err e"
  by (simp add: store_stage_def split: outcome.split)

lemma run_stages_no_error: "run_stages env item s target \<noteq> Err e"
  by (auto simp: run_stages_def and_then_eq_Err unless_cancelled_def store_stage_no_error Let_def split: if_splits)

lemma run_stages_recorded:
  "yields (run_stages env item s target) (\<lambda>st. \<exists>st0.
     run_recorded s (stages_of s) (be_token env 0 \<or> be_token env 1 \<or> be_token env 2 \<or> be_token env 3) st0
     \<and> st = (if st_cancelled_run st0 then st0 else judge_run s st0))"
  unfolding run_stages_def yields_and_then
proof (rule yields_mono [OF ping_stage_recorded [OF initial_recorded]], simp)
  fix st1 assume 1: "run_recorded s {lit ''Ping''} False st1"
  let ?t1 = "be_token env 0" and ?t2 = "be_token env 0 \<or> be_token env 1"
  let ?t3 = "be_token env 0 \<or> be_token env 1 \<or> be_token env 2"
  let ?path = "\<lambda>st. unless_cancelled (\<lambda>st. if bs_skip_pathping s then Ok st
         else store_stage (lit ''Pathping'') (\<lambda>x st. st\<lparr>st_path := Some x\<rparr>)
           (run_blocking_probe ''path statistics task'' (be_measure env target (st_trace st)
             (bs_pathping_probes s) (rp_timeout (path_statistics_parameters (bi_round item) s))
             (path_statistics_parameters (bi_round item) s))) st) (read_token (be_token env 1) st)"
  have trace: "yields (unless_cancelled (store_stage (lit ''Tracert'') (\<lambda>x st. st\<lparr>st_trace := x\<rparr>)
      (run_blocking_probe ''trace task'' t)) (read_token (be_token env 0) st1))
      (run_recorded s {lit ''Tracert'', lit ''Ping''} ?t1)" for t
    using run_recorded_token [OF 1, of "be_token env 0"]
    by (intro guarded_stage_recorded trace_stage_recorded) simp_all
  have path: "yields (?path st) (run_recorded s (stages_of s - {tcp_stage s}) ?t2)"
    if "run_recorded s {lit ''Tracert'', lit ''Ping''} ?t1 st" for st
  proof -
    note 2 = run_recorded_token [OF that, of "be_token env 1"]
    show ?thesis
    proof (cases "bs_skip_pathping s")
      case True
      with 2 show ?thesis by (simp add: unless_cancelled_def stages_of_def)
    next
      case False
      then have "stages_of s - {tcp_stage s} = {lit ''Pathping'', lit ''Tracert'', lit ''Ping''}"
        by (auto simp: stages_of_def)
      with 2 False show ?thesis
        by (simp only: if_False) (intro guarded_stage_recorded path_stage_recorded)
    qed
  qed
  have tcp: "yields (unless_cancelled (store_stage (tcp_stage s) (\<lambda>x st. st\<lparr>st_tcp := x\<rparr>) (test_tcp_scoped c t))
      (read_token (be_token env 2) st)) (run_recorded s (stages_of s) ?t3)"
    if "run_recorded s (stages_of s - {tcp_stage s}) ?t2 st" for st c t
  proof -
    have all: "insert (tcp_stage s) (stages_of s - {tcp_stage s}) = stages_of s"
      by (auto simp: stages_of_def)
    from run_recorded_token [OF that, of "be_token env 2"]
    have 3: "run_recorded s (stages_of s - {tcp_stage s}) ?t3 (read_token (be_token env 2) st)"
      by (simp only: disj_assoc)
    show ?thesis
      by (subst all [symmetric], rule guarded_stage_recorded [OF 3], rule tcp_stage_recorded [OF 3], simp)
  qed
  show "yields (unless_cancelled (store_stage (lit ''Tracert'') (\<lambda>x st. st\<lparr>st_trace := x\<rparr>)
         (run_blocking_probe ''trace task'' (be_trace env target 1 (trace_parameters (bi_round item) s))))
         (read_token (be_token env 0) st1)) (\<lambda>st. yields (?path st) (\<lambda>st.
       yields (unless_cancelled (store_stage (tcp_stage s) (\<lambda>x st. st\<lparr>st_tcp := x\<rparr>)
         (test_tcp_scoped (be_connect env) (fst target, bs_tcp_port s)))
         (read_token (be_token env 2) st)) (\<lambda>st.
       yields (let st = read_token (be_token env 3) st in
         Ok (if st_cancelled_run st then st else judge_run s st)) (\<lambda>st. \<exists>st0.
     run_recorded s (stages_of s) (be_token env 0 \<or> be_token env 1 \<or> be_token env 2 \<or> be_token env 3) st0
     \<and> st = (if st_cancelled_run st0 then st0 else judge_run s st0)))))"
    by (rule yields_mono [OF trace], rule yields_mono [OF path], assumption,
        rule yields_mono [OF tcp], assumption,
        use run_recorded_token [where b = "be_token env 3"] in \<open>fastforce simp: Let_def disj_assoc\<close>)
qed


text \<open>
  The judgement adds the stages whose result is bad and that no error was recorded for.
\<close>

lemma judge_simps [simp]:
  "st_ping (judge g b m st) = st_ping st" "st_trace (judge g b m st) = st_trace st"
  "st_path (judge g b m st) = st_path st" "st_tcp (judge g b m st) = st_tcp st"
  "st_cancelled_run (judge g b m st) = st_cancelled_run st"
  by (simp_all add: judge_def)

lemma set_judge [simp]: "set (st_failed (judge g b m st)) = set (st_failed st) \<union> (if b then {g} else {})"
  by (auto simp: judge_def)

lemma judge_keeps:
  "st_failed st = map fst (st_errors st) \<and> distinct (st_failed st) \<Longrightarrow>
   st_failed (judge g b m st) = map fst (st_errors (judge g b m st)) \<and> distinct (st_failed (judge g b m st))"
  by (auto simp: judge_def)

definition ping_ok :: "sample list \<Rightarrow> bool" where
  "ping_ok samples \<longleftrightarrow> (\<exists>sm \<in> set samples. sm_status sm = Reply)"

definition trace_ok :: "hop_result list \<Rightarrow> bool" where
  "trace_ok hops \<longleftrightarrow> hops \<noteq> [] \<and> hr_reached_destination (last hops)"

definition statistics_ok :: "hop_statistics list \<Rightarrow> bool" where
  "statistics_ok hops \<longleftrightarrow> (\<exists>h \<in> set hops. st_received (hs_statistics h) \<noteq> 0)"

lemma judge_run_fields [simp]:
  "st_ping (judge_run s st) = st_ping st" "st_trace (judge_run s st) = st_trace st"
  "st_path (judge_run s st) = st_path st" "st_tcp (judge_run s st) = st_tcp st"
  "st_cancelled_run (judge_run s st) = st_cancelled_run st"
  by (simp_all add: judge_run_def Let_def)

lemma judge_run_keeps:
  "st_failed st = map fst (st_errors st) \<and> distinct (st_failed st) \<Longrightarrow>
   st_failed (judge_run s st) = map fst (st_errors (judge_run s st)) \<and> distinct (st_failed (judge_run s st))"
  unfolding judge_run_def Let_def by (intro judge_keeps)

lemma set_judge_run:
  "set (st_failed (judge_run s st)) = set (st_failed st)
     \<union> (if ping_ok (st_ping st) then {} else {lit ''Ping''})
     \<union> (if trace_ok (st_trace st) then {} else {lit ''Tracert''})
     \<union> (case st_path st of None \<Rightarrow> {} | Some hops \<Rightarrow> if statistics_ok hops then {} else {lit ''Pathping''})
     \<union> (if st_tcp st then {} else {tcp_stage s})"
  unfolding judge_run_def Let_def set_judge judge_simps
  by (auto simp: ping_ok_def trace_ok_def statistics_ok_def list_all_iff split: option.split)

lemma judged_stages:
  assumes "stages_recorded s (stages_of s) st"
  shows "lit ''Ping'' \<in> set (st_failed (judge_run s st)) \<longleftrightarrow> \<not> ping_ok (st_ping st)"
    "lit ''Tracert'' \<in> set (st_failed (judge_run s st)) \<longleftrightarrow> \<not> trace_ok (st_trace st)"
    "lit ''Pathping'' \<in> set (st_failed (judge_run s st)) \<longleftrightarrow> \<not> bs_skip_pathping s
       \<and> (case st_path st of None \<Rightarrow> True | Some hops \<Rightarrow> \<not> statistics_ok hops)"
    "tcp_stage s \<in> set (st_failed (judge_run s st)) \<longleftrightarrow> \<not> st_tcp st"
    "st_failed st \<noteq> [] \<Longrightarrow> st_failed (judge_run s st) \<noteq> []"
    "set (st_failed (judge_run s st)) \<subseteq> stages_of s"
proof -
  let ?failed = "set (st_failed st)"
  have ok: "\<not> ping_ok []" "\<not> trace_ok []" by (simp_all add: ping_ok_def trace_ok_def)
  have stages: "lit ''Ping'' \<in> stages_of s" "lit ''Tracert'' \<in> stages_of s" "tcp_stage s \<in> stages_of s"
    "lit ''Pathping'' \<in> stages_of s \<longleftrightarrow> \<not> bs_skip_pathping s"
    by (auto simp: stages_of_def)
  from assms have failed: "lit ''Ping'' \<in> ?failed \<Longrightarrow> st_ping st = []" "lit ''Tracert'' \<in> ?failed \<Longrightarrow> st_trace st = []"
    "st_path st = None \<longleftrightarrow> bs_skip_pathping s \<or> lit ''Pathping'' \<in> ?failed" "tcp_stage s \<in> ?failed \<Longrightarrow> \<not> st_tcp st"
    unfolding stages_recorded_def idle_stage_def using stages by blast+
  have sub: "?failed \<subseteq> stages_of s" using recorded_stages [OF assms] by blast
  then have skip: "bs_skip_pathping s \<Longrightarrow> lit ''Pathping'' \<notin> ?failed" using stages(4) by blast
  show "lit ''Ping'' \<in> set (st_failed (judge_run s st)) \<longleftrightarrow> \<not> ping_ok (st_ping st)"
    using failed(1) ok(1) by (auto simp: set_judge_run split: option.splits)
  show "lit ''Tracert'' \<in> set (st_failed (judge_run s st)) \<longleftrightarrow> \<not> trace_ok (st_trace st)"
    using failed(2) ok(2) by (auto simp: set_judge_run split: option.splits)
  show "tcp_stage s \<in> set (st_failed (judge_run s st)) \<longleftrightarrow> \<not> st_tcp st"
    using failed(4) by (auto simp: set_judge_run split: option.splits)
  show "lit ''Pathping'' \<in> set (st_failed (judge_run s st)) \<longleftrightarrow> \<not> bs_skip_pathping s
      \<and> (case st_path st of None \<Rightarrow> True | Some hops \<Rightarrow> \<not> statistics_ok hops)"
    using failed(3) skip by (auto simp: set_judge_run split: option.splits)
  show "st_failed st \<noteq> [] \<Longrightarrow> st_failed (judge_run s st) \<noteq> []"
    using set_judge_run [of s st] by (auto simp flip: set_empty)
  show "set (st_failed (judge_run s st)) \<subseteq> stages_of s"
    using sub stages failed(3) by (auto simp: set_judge_run split: option.splits)
qed

definition all_ok :: "basic_settings \<Rightarrow> sample list \<Rightarrow> hop_result list \<Rightarrow> hop_statistics list option \<Rightarrow> bool \<Rightarrow> bool" where
  "all_ok s samples hops statistics tcp \<longleftrightarrow> ping_ok samples \<and> trace_ok hops
     \<and> (bs_skip_pathping s \<or> (case statistics of None \<Rightarrow> False | Some ms \<Rightarrow> statistics_ok ms)) \<and> tcp"

lemma failed_not_ok:
  assumes "stages_recorded s tried st" "tried \<subseteq> stages_of s" "g \<in> set (st_failed st)"
  shows "\<not> all_ok s (st_ping st) (st_trace st) (st_path st) (st_tcp st)"
proof -
  have idle: "idle_stage tried st g" using assms(3) by (simp add: idle_stage_def)
  have "g \<in> stages_of s" using recorded_stages [OF assms(1)] assms(2,3) by blast
  then consider "g = tcp_stage s" | "g = lit ''Tracert''" | "g = lit ''Ping''"
    | "g = lit ''Pathping''" "\<not> bs_skip_pathping s"
    by (auto simp: stages_of_def split: if_splits)
  then show ?thesis
    by cases (use assms(1) idle in \<open>simp_all add: stages_recorded_def all_ok_def ping_ok_def trace_ok_def\<close>)
qed

lemma Nil_iff_none_of: "set xs \<subseteq> S \<Longrightarrow> xs = [] \<longleftrightarrow> (\<forall>g \<in> S. g \<notin> set xs)"
  by (cases xs) auto

lemma judged_ok:
  assumes "stages_recorded s (stages_of s) st"
  shows "st_failed (judge_run s st) = [] \<longleftrightarrow> all_ok s (st_ping st) (st_trace st) (st_path st) (st_tcp st)"
proof -
  note j = judged_stages [OF assms]
  have "st_failed (judge_run s st) = [] \<longleftrightarrow>
      (\<forall>g \<in> stages_of s. g \<notin> set (st_failed (judge_run s st)))"
    using j(6) by (rule Nil_iff_none_of)
  also have "\<dots> \<longleftrightarrow> all_ok s (st_ping st) (st_trace st) (st_path st) (st_tcp st)"
    by (cases "st_path st"; cases "bs_skip_pathping s") (simp_all add: stages_of_def all_ok_def j(1-4) conj_ac)
  finally show ?thesis .
qed

text \<open>
  C26. What a basic run reports. With valid settings, a token that has not fired and a resolved
  target, a run never panics and always returns a result. Its failed stages are distinct, are those
  of the stage errors in the same order, and are stages of the run. A fired token makes it
  cancelled. It is completed exactly when no reading of the token fired, an echo reply was received,
  the last hop of the trace is the destination, some hop of the path statistics answered (unless they are skipped) and the
  TCP connection succeeded; and unless it is cancelled the failed stages are exactly the ones that did not do so.
\<close>

theorem basic_run_outcome:
  assumes "basic_validate s = Ok ()" "\<not> be_token_before env"
    "resolve_target_scoped (be_lookup env) (bi_host item) (bi_family item) = Ok target"
  shows "\<exists>r. execute_item env item s = Ok r \<and> br_target r = fst target
    \<and> br_failed_stages r = map fst (br_stage_errors r) \<and> distinct (br_failed_stages r)
    \<and> set (br_failed_stages r) \<subseteq> stages_of s
    \<and> (list_ex (be_token env) [0, 1, 2, 3, 4] \<longrightarrow> br_status r = Basic_Cancelled)
    \<and> (br_status r = Basic_Completed \<longleftrightarrow> \<not> list_ex (be_token env) [0, 1, 2, 3, 4]
        \<and> all_ok s (br_ping r) (br_trace r) (br_path_statistics r) (br_tcp_ok r))
    \<and> (br_status r \<noteq> Basic_Cancelled \<longrightarrow>
        (lit ''Ping'' \<in> set (br_failed_stages r) \<longleftrightarrow> \<not> ping_ok (br_ping r))
        \<and> (lit ''Tracert'' \<in> set (br_failed_stages r) \<longleftrightarrow> \<not> trace_ok (br_trace r))
        \<and> (lit ''Pathping'' \<in> set (br_failed_stages r) \<longleftrightarrow> \<not> bs_skip_pathping s
            \<and> (case br_path_statistics r of None \<Rightarrow> True | Some hops \<Rightarrow> \<not> statistics_ok hops))
        \<and> (tcp_stage s \<in> set (br_failed_stages r) \<longleftrightarrow> \<not> br_tcp_ok r))"
proof -
  let ?token = "be_token env 0 \<or> be_token env 1 \<or> be_token env 2 \<or> be_token env 3"
  obtain st where st: "run_stages env item s target = Ok st"
    "\<exists>st0. run_recorded s (stages_of s) ?token st0
       \<and> st = (if st_cancelled_run st0 then st0 else judge_run s st0)"
    using run_stages_recorded [of env item s target] run_stages_no_error [of env item s target] by (cases "run_stages env item s target") auto
  from st(2) obtain st0 where st0: "run_recorded s (stages_of s) ?token st0"
    "st = (if st_cancelled_run st0 then st0 else judge_run s st0)" by blast
  have run: "execute_item env item s = Ok \<lparr>br_round = bi_round item, br_family = bi_family item, br_host = bi_host item,
               br_target = fst target, br_ping = st_ping st, br_trace = st_trace st,
               br_path_statistics = st_path st, br_tcp_ok = st_tcp st, br_tcp_port = bs_tcp_port s,
               br_failed_stages = st_failed st,
               br_status = (if st_cancelled_run st \<or> be_token env 4 then Basic_Cancelled
                 else if st_failed st = [] then Basic_Completed else Basic_Partial_Failure),
               br_stage_errors = st_errors st\<rparr>"
    using assms st(1) by (simp add: execute_item_def)
  show ?thesis
  proof (cases "st_cancelled_run st0")
    case True
    then have st: "st = st0" "st_cancelled_run st" using st0(2) by simp_all
    obtain tried where tried: "tried \<subseteq> stages_of s" "stages_recorded s tried st"
      using st0(1) st(1) unfolding run_recorded_def by blast
    have "?token \<or> st_failed st \<noteq> []" using st0(1) True st(1) unfolding run_recorded_def by blast
    then have "?token \<or> \<not> all_ok s (st_ping st) (st_trace st) (st_path st) (st_tcp st)"
      using failed_not_ok [OF tried(2,1)] by (metis list.set_sel(1))
    moreover have "st_failed st = map fst (st_errors st)" "distinct (st_failed st)" "set (st_failed st) \<subseteq> stages_of s"
      using tried unfolding stages_recorded_def by blast+
    ultimately show ?thesis
      using st(2) unfolding run by simp blast
  next
    case False
    then have st: "st = judge_run s st0" "\<not> st_cancelled_run st" using st0(2) by simp_all
    have rec: "stages_recorded s (stages_of s) st0" and tok: "\<not> ?token"
      using st0(1) False unfolding run_recorded_def by blast+
    have "st_failed st0 = map fst (st_errors st0) \<and> distinct (st_failed st0)"
      using rec unfolding stages_recorded_def by blast
    from judge_run_keeps [OF this, of s]
    have keeps: "st_failed st = map fst (st_errors st)" "distinct (st_failed st)"
      unfolding st(1) by blast+
    have "st_failed st = [] \<longleftrightarrow> all_ok s (st_ping st) (st_trace st) (st_path st) (st_tcp st)"
      using judged_ok [OF rec] st(1) by simp
    with keeps tok st(2) judged_stages [OF rec] show ?thesis
      unfolding run by (simp add: st(1))
  qed
qed


text \<open>A run whose ping gets no reply and whose trace task is lost.\<close>

definition sample_basic_env :: basic_env where
  "sample_basic_env = \<lparr>be_token_before = False, be_lookup = \<lambda>_. Some (Inr [(V4 1, 0)]),
     be_ping = \<lambda>_ _ _ _. Blocking_Returned (Inr []), be_trace = \<lambda>_ _ _. Blocking_Lost (lit ''panic''),
     be_measure = \<lambda>_ _ _ _ _. Blocking_Returned (Inr []), be_connect = \<lambda>_. Some Connected, be_token = \<lambda>_. False\<rparr>"

definition sample_basic_item :: basic_item where
  "sample_basic_item = \<lparr>bi_round = Basic_Standard, bi_family = Ipv4, bi_host = lit ''a''\<rparr>"

lemma sample_basic_runs:
  "basic_validate BasicSettings_default = Ok ()" "\<not> be_token_before sample_basic_env"
  "resolve_target_scoped (be_lookup sample_basic_env) (bi_host sample_basic_item) (bi_family sample_basic_item)
     = Ok (V4 1, 0)"
  subgoal by (simp add: basic_validate_def BasicSettings_default_def from_secs_def)
  subgoal by (simp add: sample_basic_env_def)
  subgoal by (simp add: sample_basic_env_def sample_basic_item_def resolve_target_scoped_def validate_host_def
      chars_ascii lit_def matches_family_def is_whitespace_def is_control_def)
  done

lemma basic_run_outcome_witness:
  "\<exists>r. execute_item sample_basic_env sample_basic_item BasicSettings_default = Ok r \<and> br_target r = V4 1
     \<and> distinct (br_failed_stages r)"
  using basic_run_outcome [OF sample_basic_runs]
  by (elim exE conjE) (intro exI conjI, assumption, simp_all)

section \<open>What a plan holds\<close>

text \<open>The total of an accepted plan is the number of its items, and every host of it is valid.\<close>

lemma length_basic_items:
  "length (basic_items p) = length (bp_rounds p)
     * (\<Sum>f\<leftarrow>bp_families p. length (hosts_of f (bp_ipv4_hosts p) (bp_ipv6_hosts p)))"
  by (simp add: basic_items_def length_concat comp_def sum_list_triv)

lemma build_basic_plan_total:
  assumes "length v4 < 2 ^ 64" "length v6 < 2 ^ 64" "build_basic_plan rounds families v4 v6 = Ok p"
  shows "unat (bp_total_items p) = length (basic_items p) \<and> basic_items p \<noteq> []
    \<and> (\<forall>i \<in> set (basic_items p). validate_host (bi_host i) = Ok ())"
proof -
  from assms(3) obtain n where n: "count_basic rounds families v4 v6 = Some n" "n \<noteq> 0"
    and p: "p = \<lparr>bp_rounds = rounds, bp_families = families, bp_ipv4_hosts = v4, bp_ipv6_hosts = v6, bp_total_items = n\<rparr>"
    and hosts: "validate_hosts (v4 @ v6) = Ok ()"
    by (auto simp: build_basic_plan_def invalid_plan_def and_then_eq_Ok split: option.splits if_splits)
  have "unat (word_of_nat (length (hosts_of f v4 v6)) :: u64) = length (hosts_of f v4 v6)" for f
    using assms(1,2) by (cases f) (simp_all add: hosts_of_def unat_of_nat)
  then have inner: "unat b = unat a + (\<Sum>f\<leftarrow>families. length (hosts_of f v4 v6))"
    if "try_fold (\<lambda>acc f. checked_add acc (word_of_nat (length (hosts_of f v4 v6)))) a families = Some b"
    for a b :: u64
    using that by (intro try_fold_total) (auto dest: checked_add_unat)
  have total: "unat n = length (basic_items p)"
    using try_fold_total [OF inner n(1) [unfolded count_basic_def]]
    by (simp add: length_basic_items p sum_list_triv)
  moreover have "basic_items p \<noteq> []" using total n(2) by (auto simp: unat_eq_0)
  moreover have "validate_host (bi_host i) = Ok ()" if "i \<in> set (basic_items p)" for i
  proof -
    have "validate_host h = Ok ()" if "h \<in> set (hosts_of f v4 v6)" for h f
      using that validate_hosts_Ok [OF hosts, of h] by (cases f) (simp_all add: hosts_of_def)
    with that show ?thesis by (auto simp: basic_items_def p)
  qed
  moreover have "bp_total_items p = n" by (simp add: p)
  ultimately show ?thesis by simp
qed

end
