(* ===== verification/Helper_Protocol.thy ===== *)
theory Helper_Protocol
  imports Tuning_Plan Path_Basic Trace_Finish Throughput_Client
begin

text \<open>
  \<open>crates/helper/src/protocol.rs\<close>, \<open>error.rs\<close>, \<open>client.rs\<close> and \<open>platform/framing.rs\<close>: what the
  application and its privileged helper say to each other. A request names an operation and the
  hash of the operation the user reviewed; it travels in a frame signed with a shared secret.

  JSON, SHA-256 and HMAC are parameters (\<open>helper_codec\<close>); random numbers and the readings of the
  clocks are arguments.
\<close>

section \<open>Errors\<close>

datatype helper_error = H_Validation bytes | H_Authorization bytes | H_Unavailable bytes | H_Authentication
  | H_Replay | H_Scope bytes | H_Protocol bytes | H_Transport bytes bytes | H_Cancelled
  | H_Tuning bytes | H_Probe bytes | H_Diagnostic error

datatype wire_error = W_Validation bytes | W_Authorization bytes | W_Unavailable bytes | W_Authentication
  | W_Replay | W_Scope bytes | W_Protocol bytes | W_Transport bytes | W_Cancelled
  | W_Tuning bytes | W_Probe bytes | W_Diagnostic error

fun wire_of_error :: "helper_error \<Rightarrow> wire_error" where
  "wire_of_error (H_Validation m) = W_Validation m"
| "wire_of_error (H_Authorization m) = W_Authorization m"
| "wire_of_error (H_Unavailable m) = W_Unavailable m"
| "wire_of_error H_Authentication = W_Authentication"
| "wire_of_error H_Replay = W_Replay"
| "wire_of_error (H_Scope m) = W_Scope m"
| "wire_of_error (H_Protocol m) = W_Protocol m"
| "wire_of_error (H_Transport operation source) = W_Transport (operation @ lit '': '' @ source)"
| "wire_of_error H_Cancelled = W_Cancelled"
| "wire_of_error (H_Tuning m) = W_Tuning m"
| "wire_of_error (H_Probe m) = W_Probe m"
| "wire_of_error (H_Diagnostic e) = W_Diagnostic e"

fun error_of_wire :: "wire_error \<Rightarrow> helper_error" where
  "error_of_wire (W_Validation m) = H_Validation m"
| "error_of_wire (W_Authorization m) = H_Authorization m"
| "error_of_wire (W_Unavailable m) = H_Unavailable m"
| "error_of_wire W_Authentication = H_Authentication"
| "error_of_wire W_Replay = H_Replay"
| "error_of_wire (W_Scope m) = H_Scope m"
| "error_of_wire (W_Protocol m) = H_Protocol m"
| "error_of_wire (W_Transport m) = H_Transport (lit ''remote helper'') m"
| "error_of_wire W_Cancelled = H_Cancelled"
| "error_of_wire (W_Tuning m) = H_Tuning m"
| "error_of_wire (W_Probe m) = H_Probe m"
| "error_of_wire (W_Diagnostic e) = H_Diagnostic e"

fun helper_of_tuning :: "tuning_error \<Rightarrow> helper_error" where
  "helper_of_tuning Tuning_Cancelled = H_Cancelled"
| "helper_of_tuning (Tuning_Authorization m) = H_Authorization m"
| "helper_of_tuning (Tuning_Validation m) = H_Validation m"
| "helper_of_tuning e = H_Tuning (tuning_error_text e)"

text \<open>\<open>ThroughputError\<close>'s \<open>Display\<close>.\<close>

fun throughput_error_text :: "throughput_error \<Rightarrow> bytes" where
  "throughput_error_text (TE_Validation m) = lit ''invalid throughput configuration: '' @ m"
| "throughput_error_text (TE_Budget_Exceeded planned maximum) = lit ''planned test count ''
     @ decimal (unat planned) @ lit '' exceeds MaxTotalTests '' @ decimal (unat maximum)"
| "throughput_error_text TE_Cancelled = lit ''throughput run was cancelled''"
| "throughput_error_text (TE_Timeout phase ms) = lit phase @ lit '' timed out after '' @ decimal (unat ms) @ lit '' ms''"
| "throughput_error_text TE_Server_Busy = lit ''iperf3 server is busy''"
| "throughput_error_text (TE_Server code system) = lit ''iperf3 server error '' @ decimal_int (sint code)
     @ lit '' (system error '' @ decimal_int (sint system) @ lit '')''"
| "throughput_error_text (TE_Unexpected_State actual wanted) = lit ''unexpected iperf3 protocol state ''
     @ decimal_int (sint actual) @ lit ''; expected '' @ lit wanted"
| "throughput_error_text (TE_Control_Message_Too_Large actual maximum) = lit ''iperf3 control JSON length ''
     @ decimal actual @ lit '' exceeds configured limit '' @ decimal maximum"
| "throughput_error_text (TE_Invalid_Control_Json m) = lit ''invalid iperf3 control JSON: '' @ m"
| "throughput_error_text (TE_Io phase source) = lit ''network I/O failed during '' @ lit phase @ lit '': '' @ source"
| "throughput_error_text (TE_Malformed_Result m) = lit ''malformed iperf3 result: '' @ m"
| "throughput_error_text (TE_Retries_Exhausted attempts e) = lit ''all '' @ decimal (unat attempts)
     @ lit '' attempt(s) failed: '' @ throughput_error_text e"

definition map_error :: "('e \<Rightarrow> 'f) \<Rightarrow> ('a, 'e) outcome \<Rightarrow> ('a, 'f) outcome" where
  "map_error f m = (case m of Ok x \<Rightarrow> Ok x | Err e \<Rightarrow> Err (f e) | Panic \<Rightarrow> Panic)"

section \<open>Requests\<close>

record throughput_limits =
  tl_connect_timeout_ms :: u64
  tl_control_timeout_ms :: u64
  tl_max_control_json_bytes :: nat

definition limits_of_config :: "suite_config \<Rightarrow> throughput_limits" where
  "limits_of_config c = \<lparr>tl_connect_timeout_ms = sc_connect_timeout_ms c,
     tl_control_timeout_ms = sc_control_timeout_ms c, tl_max_control_json_bytes = sc_max_control_json_bytes c\<rparr>"

definition limits_client :: "throughput_limits \<Rightarrow> (iperf3_client, helper_error) outcome" where
  "limits_client l = map_error (\<lambda>e. H_Validation (throughput_error_text e))
     (with_limits (tl_connect_timeout_ms l) (tl_control_timeout_ms l) (tl_max_control_json_bytes l))"

datatype helper_operation =
    Execute_Tuning tuning_plan
  | Basic_Path basic_item basic_settings
  | Trace_Path trace_plan_item trace_settings
  | Throughput_Preflight suite_config
  | Throughput_Measurement test_spec throughput_limits

type_synonym uuid = u128

record authorized_request =
  ar_run_id :: uuid
  ar_reviewed_plan_hash :: bytes
  ar_operation :: helper_operation

record signed_frame =
  sf_nonce :: bytes
  sf_issued_at :: int
  sf_body :: bytes
  sf_authenticator :: bytes

text \<open>\<open>to_vec\<close> and \<open>from_slice\<close> of \<open>serde_json\<close> (an error is its text), \<open>Sha256\<close>, and \<open>Hmac<Sha256>\<close>.\<close>

record helper_codec =
  hc_operation :: "helper_operation \<Rightarrow> bytes + bytes"
  hc_encode :: "authorized_request \<Rightarrow> bytes + bytes"
  hc_decode :: "bytes \<Rightarrow> bytes + authorized_request"
  hc_sha256 :: "bytes \<Rightarrow> bytes"
  hc_hmac :: "bytes \<Rightarrow> bytes \<Rightarrow> bytes"

definition MAX_FRAME_BYTES :: nat where "MAX_FRAME_BYTES = 1024 * 1024"
definition MAX_NONCES :: nat where "MAX_NONCES = 4096"
definition FRAME_VALIDITY_MS :: int where "FRAME_VALIDITY_MS = 300000"
definition CLOCK_SKEW_MS :: int where "CLOCK_SKEW_MS = 30000"
definition NONCE_TTL :: duration where "NONCE_TTL = from_secs (6 * 60)"

definition hex_digit :: "nat \<Rightarrow> u8" where
  "hex_digit d = (if d < 10 then 48 + word_of_nat d else 55 + word_of_nat d)"

definition hex_upper :: "bytes \<Rightarrow> bytes" where
  "hex_upper bs = concat (map (\<lambda>b. [hex_digit (unat b div 16), hex_digit (unat b mod 16)]) bs)"

definition valid_hash :: "bytes \<Rightarrow> bool" where
  "valid_hash value \<longleftrightarrow> length value = 64 \<and> list_all (\<lambda>b. 48 \<le> b \<and> b \<le> 57 \<or> 65 \<le> b \<and> b \<le> 70) value"

definition reviewed_hash :: "helper_codec \<Rightarrow> helper_operation \<Rightarrow> (bytes, helper_error) outcome" where
  "reviewed_hash codec operation = (case hc_operation codec operation of
     Inl e \<Rightarrow> Err (H_Protocol (lit ''serialize reviewed operation: '' @ e))
   | Inr bs \<Rightarrow> Ok (hex_upper (hc_sha256 codec bs)))"

text \<open>
  \<open>PathBuf\<close> compares components: separators are collapsed, and \<open>.\<close> counts only at the start of a
  relative path. The other fields of a plan are compared as they are.
\<close>

definition path_key :: "path \<Rightarrow> bool \<times> bytes list" where
  "path_key p = (let rooted = p \<noteq> [] \<and> hd p = slash; parts = filter (\<lambda>s. s \<noteq> []) (split_on slash p) in
     (rooted, (if rooted then [] else take 1 parts)
        @ filter (\<lambda>s. s \<noteq> lit ''.'') (if rooted then parts else drop 1 parts)))"

definition same_plan :: "tuning_plan \<Rightarrow> tuning_plan \<Rightarrow> bool" where
  "same_plan p q \<longleftrightarrow> (let c = tpl_config p; d = tpl_config q in
     map path_key (tc_app_paths c) = map path_key (tc_app_paths d)
     \<and> map_option path_key (tc_backup_folder c) = map_option path_key (tc_backup_folder d)
     \<and> p\<lparr>tpl_config := c\<lparr>tc_app_paths := [], tc_backup_folder := None\<rparr>\<rparr>
       = q\<lparr>tpl_config := d\<lparr>tc_app_paths := [], tc_backup_folder := None\<rparr>\<rparr>)"

definition probe_validation :: "probe_error \<Rightarrow> helper_error" where
  "probe_validation e = H_Validation (probe_error_text e)"

definition validate_operation :: "helper_operation \<Rightarrow> (unit, helper_error) outcome" where
  "validate_operation operation = (case operation of
     Execute_Tuning p \<Rightarrow>
       and_then (map_error helper_of_tuning (plan_tuning (tpl_config p))) (\<lambda>canonical.
         if \<not> same_plan canonical p then Err (H_Scope (lit ''tuning plan is not canonical'')) else Ok ())
   | Basic_Path item s \<Rightarrow>
       and_then (map_error probe_validation (validate_host (bi_host item))) (\<lambda>_.
         map_error probe_validation (basic_validate s))
   | Trace_Path item s \<Rightarrow>
       and_then (map_error probe_validation (validate_host (it_host item))) (\<lambda>_.
         map_error probe_validation (validate_for_type (round_apply (it_round item) s) (it_type item)))
   | Throughput_Preflight c \<Rightarrow>
       and_then (map_error (\<lambda>e. H_Validation (throughput_error_text e)) (Throughput_Plan.plan c ServerCapabilities_default))
         (\<lambda>_. Ok ())
   | Throughput_Measurement spec limits \<Rightarrow>
       and_then (limits_client limits) (\<lambda>_.
         map_error (\<lambda>e. H_Validation (throughput_error_text e)) (validate_spec spec)))"

definition validate_request :: "helper_codec \<Rightarrow> authorized_request \<Rightarrow> (unit, helper_error) outcome" where
  "validate_request codec r =
     (if \<not> valid_hash (ar_reviewed_plan_hash r)
      then Err (H_Validation (lit ''reviewedPlanHash must be 64 uppercase hexadecimal characters''))
      else and_then (validate_operation (ar_operation r)) (\<lambda>_.
        and_then (reviewed_hash codec (ar_operation r)) (\<lambda>actual.
          if actual \<noteq> ar_reviewed_plan_hash r
          then Err (H_Scope (lit ''operation does not match reviewedPlanHash'')) else Ok ())))"

section \<open>Signed frames\<close>

text \<open>\<open>wall\<close> is the milliseconds since the epoch, \<open>None\<close> when the clock is before it.\<close>

definition unix_millis :: "nat option \<Rightarrow> (int, helper_error) outcome" where
  "unix_millis wall = (case wall of
     None \<Rightarrow> Err H_Authentication
   | Some ms \<Rightarrow> if 2 ^ 63 \<le> ms then Err H_Authentication else Ok (int ms))"

definition authenticator :: "helper_codec \<Rightarrow> bytes \<Rightarrow> bytes \<Rightarrow> int \<Rightarrow> bytes \<Rightarrow> bytes" where
  "authenticator codec secret nonce issued body =
     hc_hmac codec secret (nonce @ to_be (word_of_int issued :: u64) @ body)"

definition sign :: "helper_codec \<Rightarrow> nat option \<Rightarrow> bytes \<Rightarrow> bytes \<Rightarrow> bytes \<Rightarrow> (signed_frame, helper_error) outcome" where
  "sign codec wall secret nonce body =
     (if MAX_FRAME_BYTES < length body then Err (H_Protocol (lit ''request exceeds 1 MiB''))
      else and_then (unix_millis wall) (\<lambda>issued.
        Ok \<lparr>sf_nonce = nonce, sf_issued_at = issued, sf_body = body,
           sf_authenticator = authenticator codec secret nonce issued body\<rparr>))"

definition saturate_i64 :: "int \<Rightarrow> int" where
  "saturate_i64 i = max (- (2 ^ 63)) (min (2 ^ 63 - 1) i)"

definition verify :: "helper_codec \<Rightarrow> nat option \<Rightarrow> bytes \<Rightarrow> signed_frame \<Rightarrow> (unit, helper_error) outcome" where
  "verify codec wall secret frame =
     (if MAX_FRAME_BYTES < length (sf_body frame) then Err (H_Protocol (lit ''request exceeds 1 MiB''))
      else and_then (unix_millis wall) (\<lambda>now.
        if sf_issued_at frame < saturate_i64 (now - FRAME_VALIDITY_MS)
           \<or> saturate_i64 (now + CLOCK_SKEW_MS) < sf_issued_at frame
        then Err H_Authentication
        else if sf_authenticator frame
          \<noteq> authenticator codec secret (sf_nonce frame) (sf_issued_at frame) (sf_body frame)
        then Err H_Authentication
        else Ok ()))"

section \<open>The replay cache\<close>

text \<open>Instants are the nanoseconds of the monotonic clock since its origin.\<close>

record replay_cache =
  rc_entries :: "bytes \<rightharpoonup> instant"
  rc_order :: "bytes list"

definition ReplayCache_default :: replay_cache where
  "ReplayCache_default = \<lparr>rc_entries = Map.empty, rc_order = []\<rparr>"

definition expiry_cutoff :: "instant \<Rightarrow> instant option" where
  "expiry_cutoff now = (if now < NONCE_TTL then None else Some (now - NONCE_TTL))"

fun expire :: "instant \<Rightarrow> bytes list \<Rightarrow> (bytes \<rightharpoonup> instant) \<Rightarrow> replay_cache" where
  "expire cutoff [] entries = \<lparr>rc_entries = entries, rc_order = []\<rparr>"
| "expire cutoff (key # rest) entries = (case entries key of
     Some seen \<Rightarrow> if seen < cutoff then expire cutoff rest (entries(key := None))
       else \<lparr>rc_entries = entries, rc_order = key # rest\<rparr>
   | None \<Rightarrow> \<lparr>rc_entries = entries, rc_order = key # rest\<rparr>)"

definition expire_at :: "instant \<Rightarrow> replay_cache \<Rightarrow> replay_cache" where
  "expire_at now cache = (case expiry_cutoff now of None \<Rightarrow> cache
     | Some cutoff \<Rightarrow> expire cutoff (rc_order cache) (rc_entries cache))"

text \<open>\<open>accept\<close> reads the clock once for the cutoff and once for the entry.\<close>

definition accept :: "instant \<Rightarrow> instant \<Rightarrow> bytes \<Rightarrow> replay_cache \<Rightarrow> replay_cache \<times> (unit, helper_error) outcome" where
  "accept before after nonce cache =
     (let cache = expire_at before cache in
      if rc_entries cache nonce \<noteq> None then (cache, Err H_Replay)
      else if MAX_NONCES \<le> card (dom (rc_entries cache))
      then (cache, Err (H_Protocol (lit ''replay cache capacity exhausted'')))
      else (\<lparr>rc_entries = (rc_entries cache)(nonce \<mapsto> after), rc_order = rc_order cache @ [nonce]\<rparr>, Ok ()))"

section \<open>Framing\<close>

text \<open>
  \<open>platform/framing.rs\<close>. What \<open>read_exact\<close> does within its deadline, and what writing does.
\<close>

datatype read_end = Read_Bytes bytes | Read_Elapsed | Read_Failed bytes

definition read_body :: "nat \<Rightarrow> (nat \<Rightarrow> read_end) \<Rightarrow> (bytes, helper_error) outcome" where
  "read_body n reader =
     (if n = 0 \<or> MAX_FRAME_BYTES < n then Err (H_Protocol (lit ''Frame length must be 1 byte through 1 MiB''))
      else (case reader n of
        Read_Bytes bs \<Rightarrow> Ok bs
      | Read_Elapsed \<Rightarrow> Err (H_Protocol (lit ''Frame body timed out''))
      | Read_Failed e \<Rightarrow> Err (H_Transport (lit ''read frame body'') e)))"

datatype write_end = Write_Done | Write_Elapsed | Write_Failed bytes

definition write_frame :: "bytes + bytes \<Rightarrow> (bytes \<Rightarrow> write_end) \<Rightarrow> (bytes, helper_error) outcome" where
  "write_frame encoded writer = (case encoded of
     Inl e \<Rightarrow> Err (H_Protocol e)
   | Inr bs \<Rightarrow>
       if bs = [] \<or> MAX_FRAME_BYTES < length bs then Err (H_Protocol (lit ''Response exceeds 1 MiB''))
       else (let wire = to_be (word_of_nat (length bs) :: u32) @ bs in
         case writer wire of
           Write_Done \<Rightarrow> Ok wire
         | Write_Elapsed \<Rightarrow> Err (H_Protocol (lit ''Frame write timed out''))
         | Write_Failed e \<Rightarrow> Err (H_Transport (lit ''write frame'') e)))"

section \<open>The client\<close>

text \<open>
  \<open>HelperClient::execute\<close> up to the request to the platform: the frame it sends. The typed calls
  (\<open>execute_tuning\<close> and its siblings) accept only the result of their own operation.
\<close>

definition client_frame :: "helper_codec \<Rightarrow> bool \<Rightarrow> nat option \<Rightarrow> (bytes, helper_error) outcome \<Rightarrow> bytes \<Rightarrow> uuid \<Rightarrow> bytes \<Rightarrow>
    helper_operation \<Rightarrow> (signed_frame, helper_error) outcome" where
  "client_frame codec cancelled wall secret nonce run_id hash operation =
     (if cancelled then Err H_Cancelled
      else let request = \<lparr>ar_run_id = run_id, ar_reviewed_plan_hash = hash, ar_operation = operation\<rparr> in
        and_then (validate_request codec request) (\<lambda>_.
        and_then (case hc_encode codec request of
            Inl e \<Rightarrow> Err (H_Protocol (lit ''encode request: '' @ e)) | Inr body \<Rightarrow> Ok body) (\<lambda>body.
        and_then secret (\<lambda>secret. sign codec wall secret nonce body))))"

datatype 'v operation_result =
    Result_Tuning tuning_result
  | Result_Basic basic_result
  | Result_Trace trace_run_result
  | Result_Preflight ip_addr 'v
  | Result_Measurement test_result

definition wrong_result :: "('a, helper_error) outcome" where
  "wrong_result = Err (H_Protocol (lit ''helper returned the wrong result type''))"

fun as_tuning :: "'v operation_result \<Rightarrow> (tuning_result, helper_error) outcome" where
  "as_tuning (Result_Tuning r) = Ok r"
| "as_tuning _ = wrong_result"

fun as_basic :: "'v operation_result \<Rightarrow> (basic_result, helper_error) outcome" where
  "as_basic (Result_Basic r) = Ok r"
| "as_basic _ = wrong_result"

fun as_trace :: "'v operation_result \<Rightarrow> (trace_run_result, helper_error) outcome" where
  "as_trace (Result_Trace r) = Ok r"
| "as_trace _ = wrong_result"

fun as_preflight :: "'v operation_result \<Rightarrow> (ip_addr \<times> 'v, helper_error) outcome" where
  "as_preflight (Result_Preflight target evidence) = Ok (target, evidence)"
| "as_preflight _ = wrong_result"

fun as_measurement :: "'v operation_result \<Rightarrow> (test_result, helper_error) outcome" where
  "as_measurement (Result_Measurement r) = Ok r"
| "as_measurement _ = wrong_result"

section \<open>Lemmas\<close>

text \<open>An error survives the wire, except that a transport error becomes one of the remote helper.\<close>

lemma error_roundtrip:
  "error_of_wire (wire_of_error e) = (case e of
     H_Transport operation source \<Rightarrow> H_Transport (lit ''remote helper'') (operation @ lit '': '' @ source) | _ \<Rightarrow> e)"
  by (cases e) simp_all

lemma hex_upper_valid: "length digest = 32 \<Longrightarrow> valid_hash (hex_upper digest)"
proof -
  assume len: "length digest = 32"
  have "length (hex_upper bs) = 2 * length bs" for bs by (induction bs) (auto simp: hex_upper_def)
  moreover have digit: "48 \<le> hex_digit d \<and> hex_digit d \<le> 57 \<or> 65 \<le> hex_digit d \<and> hex_digit d \<le> 70" if "d < 16" for d
    using that by (auto simp: hex_digit_def word_le_nat_alt unat_word_ariths unat_of_nat)
  moreover have "list_all (\<lambda>b. 48 \<le> b \<and> b \<le> 57 \<or> 65 \<le> b \<and> b \<le> 70) (hex_upper bs)" for bs
  proof (induction bs)
    case (Cons b bs)
    have "unat b div 16 < 16" "unat b mod 16 < 16" using unat_less_exp [of b] by simp_all
    with Cons digit show ?case by (simp add: hex_upper_def)
  qed (simp add: hex_upper_def)
  ultimately show ?thesis using len by (simp add: valid_hash_def)
qed

text \<open>A frame that was written is read back.\<close>

lemma frame_roundtrip:
  assumes "write_frame (Inr body) writer = Ok wire"
  shows "unat (from_be (take 4 wire) :: u32) = length body
    \<and> read_body (unat (from_be (take 4 wire) :: u32)) (\<lambda>n. Read_Bytes (take n (drop 4 wire))) = Ok body"
proof -
  from assms have body: "body \<noteq> []" "length body \<le> MAX_FRAME_BYTES"
    and wire: "wire = to_be (word_of_nat (length body) :: u32) @ body"
    by (auto simp: write_frame_def Let_def split: if_splits write_end.splits)
  have "unat (word_of_nat (length body) :: u32) = length body"
    using body(2) by (simp add: MAX_FRAME_BYTES_def unat_of_nat)
  with body wire show ?thesis by (simp add: read_body_def)
qed

text \<open>The client's frame passes the check of a server whose clock agrees.\<close>

lemma signed_verifies:
  assumes "sign codec (Some sent) secret nonce body = Ok frame" "received < 2 ^ 63"
    "int received - 300000 \<le> int sent" "int sent \<le> int received + 30000"
  shows "verify codec (Some received) secret frame = Ok ()"
  using assms by (auto simp: sign_def verify_def and_then_eq_Ok unix_millis_def saturate_i64_def
      FRAME_VALIDITY_MS_def CLOCK_SKEW_MS_def split: if_splits)

section \<open>Replays\<close>

text \<open>
  One request as \<open>HelperServer::handle\<close> authenticates it: the frame, the wall clock at its
  verification, and the two readings of the monotonic clock in \<open>accept\<close>. The lock of the cache puts
  the requests in an order in which the monotonic clock does not go back.
\<close>

record arrival =
  av_frame :: signed_frame
  av_wall :: "nat option"
  av_before :: instant
  av_after :: instant

definition authenticate :: "helper_codec \<Rightarrow> bytes \<Rightarrow> arrival \<Rightarrow> replay_cache \<Rightarrow> replay_cache \<times> (unit, helper_error) outcome" where
  "authenticate codec secret a cache = (case verify codec (av_wall a) secret (av_frame a) of
     Ok _ \<Rightarrow> accept (av_before a) (av_after a) (sf_nonce (av_frame a)) cache
   | r \<Rightarrow> (cache, r))"

fun authenticate_all :: "helper_codec \<Rightarrow> bytes \<Rightarrow> arrival list \<Rightarrow> replay_cache \<Rightarrow> (unit, helper_error) outcome list" where
  "authenticate_all codec secret [] cache = []"
| "authenticate_all codec secret (a # as) cache =
     (let r = authenticate codec secret a cache in snd r # authenticate_all codec secret as (fst r))"

definition clock_readings :: "arrival list \<Rightarrow> instant list" where
  "clock_readings as = concat (map (\<lambda>a. [av_before a, av_after a]) as)"

lemma expire_entries:
  "rc_entries (expire cutoff order entries) n = entries n
     \<or> rc_entries (expire cutoff order entries) n = None \<and> (\<exists>seen. entries n = Some seen \<and> seen < cutoff)"
  by (induction cutoff order entries rule: expire.induct) (auto simp: fun_upd_def split: option.splits if_splits)

text \<open>An accepted nonce stays in the cache until its time to live is over.\<close>

definition remembered :: "bytes \<Rightarrow> instant \<Rightarrow> instant \<Rightarrow> replay_cache \<Rightarrow> bool" where
  "remembered n b now cache \<longleftrightarrow> rc_entries cache n = Some b \<or> b + NONCE_TTL < now"

lemma remembered_expire:
  "remembered n b before cache \<Longrightarrow> remembered n b before (expire_at before cache)"
  using expire_entries [of "before - NONCE_TTL" "rc_order cache" "rc_entries cache" n]
  by (auto simp: remembered_def expire_at_def expiry_cutoff_def)

lemma remembered_accept:
  assumes "remembered n b before cache" "before \<le> after"
  shows "remembered n b after (fst (accept before after nonce cache))"
  using remembered_expire [OF assms(1)] assms(2)
  by (auto simp: remembered_def accept_def Let_def)

lemma remembered_authenticate:
  assumes "remembered n b now cache" "now \<le> av_before a" "av_before a \<le> av_after a"
  shows "remembered n b (av_after a) (fst (authenticate codec secret a cache))"
proof -
  have "remembered n b (av_before a) cache" using assms(1,2) by (auto simp: remembered_def)
  with assms(3) show ?thesis
    using remembered_accept by (auto simp: authenticate_def remembered_def split: outcome.splits)
qed

lemma replay_refused:
  assumes "remembered n b now cache" "now \<le> av_before (as ! j)" "j < length as"
    "sorted (now # clock_readings as)" "sf_nonce (av_frame (as ! j)) = n" "av_before (as ! j) \<le> b + NONCE_TTL"
    "verify codec (av_wall (as ! j)) secret (av_frame (as ! j)) = Ok ()"
  shows "authenticate_all codec secret as cache ! j = Err H_Replay"
  using assms
proof (induction as arbitrary: j now cache)
  case (Cons a as)
  show ?case
  proof (cases j)
    case 0
    with Cons.prems have "remembered n b (av_before a) cache" by (auto simp: remembered_def)
    from remembered_expire [OF this] Cons.prems(6) 0 have "rc_entries (expire_at (av_before a) cache) n = Some b"
      by (auto simp: remembered_def)
    with Cons.prems(5,7) 0 show ?thesis
      by (simp add: Let_def authenticate_def accept_def)
  next
    case (Suc i)
    have "sorted (av_after a # clock_readings as)" "now \<le> av_before a" "av_before a \<le> av_after a"
      using Cons.prems(4) by (auto simp: clock_readings_def)
    moreover have "av_after a \<le> av_before (as ! i)"
      using \<open>sorted (av_after a # clock_readings as)\<close> Cons.prems(3) Suc
      by (auto simp: clock_readings_def)
    ultimately show ?thesis
      using Cons.IH [of "av_after a" "fst (authenticate codec secret a cache)" i] Cons.prems Suc
        remembered_authenticate [OF Cons.prems(1)]
      by (simp add: Let_def)
  qed
qed simp

lemma accepted_remembered:
  "snd (authenticate codec secret a cache) = Ok () \<Longrightarrow>
   rc_entries (fst (authenticate codec secret a cache)) (sf_nonce (av_frame a)) = Some (av_after a)
   \<and> verify codec (av_wall a) secret (av_frame a) = Ok ()"
  by (auto simp: authenticate_def accept_def Let_def split: outcome.splits if_splits)

lemma verified_window:
  assumes "verify codec (Some wall) secret frame = Ok ()"
  shows "sf_issued_at frame \<le> int wall + 30000 \<and> int wall \<le> sf_issued_at frame + 300000"
  using assms by (auto simp: verify_def unix_millis_def saturate_i64_def FRAME_VALIDITY_MS_def
      CLOCK_SKEW_MS_def split: if_splits)

lemma verdict_at:
  "authenticate_all codec secret as cache ! i = Ok () \<Longrightarrow> i < length as \<Longrightarrow>
   verify codec (av_wall (as ! i)) secret (av_frame (as ! i)) = Ok ()"
proof (induction as arbitrary: i cache)
  case (Cons a as)
  then show ?case by (cases i) (auto simp: Let_def accepted_remembered)
qed simp

lemma verdict_verify:
  "verify codec (av_wall (as ! i)) secret (av_frame (as ! i)) = Err e \<Longrightarrow> i < length as \<Longrightarrow>
   authenticate_all codec secret as cache ! i = Err e"
proof (induction as arbitrary: i cache)
  case (Cons a as)
  then show ?case by (cases i) (auto simp: Let_def authenticate_def)
qed simp

lemma replay_after:
  assumes "authenticate_all codec secret as cache ! i = Ok ()" "i < j" "j < length as" "sorted (clock_readings as)"
    "sf_nonce (av_frame (as ! j)) = sf_nonce (av_frame (as ! i))" "av_before (as ! j) \<le> av_after (as ! i) + NONCE_TTL"
    "verify codec (av_wall (as ! j)) secret (av_frame (as ! j)) = Ok ()"
  shows "authenticate_all codec secret as cache ! j = Err H_Replay"
  using assms
proof (induction as arbitrary: i j cache)
  case (Cons a as)
  from Cons.prems(2) obtain k where j: "j = Suc k" by (cases j) simp_all
  have order: "sorted (av_after a # clock_readings as)" "sorted (clock_readings as)"
    using Cons.prems(4) by (simp_all add: clock_readings_def)
  show ?case
  proof (cases i)
    case 0
    have "remembered (sf_nonce (av_frame a)) (av_after a) (av_after a) (fst (authenticate codec secret a cache))"
      using accepted_remembered [of codec secret a cache] Cons.prems(1) 0 by (simp add: Let_def remembered_def)
    moreover have "av_after a \<le> av_before (as ! k)"
      using order(1) Cons.prems(3) j by (auto simp: clock_readings_def)
    ultimately show ?thesis
      using replay_refused [OF _ _ _ order(1)] Cons.prems j 0 by (simp add: Let_def)
  next
    case (Suc l)
    then show ?thesis
      using Cons.IH [of "fst (authenticate codec secret a cache)" l k] Cons.prems j order(2)
      by (simp add: Let_def)
  qed
qed simp

text \<open>
  C28. A signed request is executed at most once. Whatever requests arrive and in whatever order, a
  frame that was accepted is never accepted again: when it arrives later it is refused as a replay, or because its time is
  over. This rests on the monotonic clock not going back between requests, and on it not
  running ahead of the wall clock by more than 30 seconds between the two arrivals; the six minutes a nonce is
  remembered are the five minutes a frame is valid, the 30 seconds of skew, and those.
\<close>

theorem replay_protected:
  assumes "sorted (clock_readings as)" "i < j" "j < length as"
    and "av_frame (as ! j) = av_frame (as ! i)" "av_wall (as ! i) = Some wi" "av_wall (as ! j) = Some wj"
    and "av_before (as ! j) + wi * 1000000 \<le> av_after (as ! i) + wj * 1000000 + 30000000000"
    and "authenticate_all codec secret as cache ! i = Ok ()"
  shows "authenticate_all codec secret as cache ! j \<in> {Err H_Replay, Err H_Authentication}"
proof (cases "verify codec (av_wall (as ! j)) secret (av_frame (as ! j)) = Ok ()")
  case True
  note accepted = verdict_at [OF assms(8) less_trans [OF assms(2,3)]]
  have window: "int wj \<le> int wi + 330000"
    using verified_window [of codec wi secret "av_frame (as ! i)"] verified_window [of codec wj secret "av_frame (as ! j)"]
      accepted assms(4,5,6) True by simp
  then have "av_before (as ! j) \<le> av_after (as ! i) + NONCE_TTL"
    using assms(7) by (simp add: NONCE_TTL_def from_secs_def)
  with replay_after [OF assms(8) assms(2,3,1)] assms(4) True show ?thesis by simp
next
  case False
  have "length (sf_body (av_frame (as ! j))) \<le> MAX_FRAME_BYTES"
    using verdict_at [OF assms(8) less_trans [OF assms(2,3)]] assms(4)
    by (auto simp: verify_def split: if_splits)
  with False assms(6) have "verify codec (av_wall (as ! j)) secret (av_frame (as ! j)) = Err H_Authentication"
    by (cases "2 ^ 63 \<le> wj") (auto simp: verify_def unix_millis_def split: if_splits)
  with verdict_verify [OF this assms(3)] show ?thesis by simp
qed

text \<open>A frame that arrives twice within a second.\<close>

definition sample_codec :: helper_codec where
  "sample_codec = \<lparr>hc_operation = \<lambda>_. Inr [], hc_encode = \<lambda>_. Inr [], hc_decode = \<lambda>_. Inl [],
     hc_sha256 = \<lambda>bs. replicate 32 0, hc_hmac = \<lambda>key bs. take 32 (key @ bs)\<rparr>"

definition sample_arrival :: "instant \<Rightarrow> nat \<Rightarrow> arrival" where
  "sample_arrival now wall = \<lparr>av_frame = \<lparr>sf_nonce = [1], sf_issued_at = 1000, sf_body = [],
       sf_authenticator = authenticator sample_codec [] [1] 1000 []\<rparr>,
     av_wall = Some wall, av_before = now, av_after = now + 1\<rparr>"

lemma sample_arrivals:
  "sorted (clock_readings [sample_arrival 5 1500, sample_arrival 1000000005 2500])"
  "authenticate_all sample_codec [] [sample_arrival 5 1500, sample_arrival 1000000005 2500] ReplayCache_default ! 0 = Ok ()"
  by (simp_all add: clock_readings_def sample_arrival_def authenticate_def verify_def unix_millis_def saturate_i64_def
      FRAME_VALIDITY_MS_def CLOCK_SKEW_MS_def accept_def expire_at_def expiry_cutoff_def NONCE_TTL_def from_secs_def
      ReplayCache_default_def MAX_NONCES_def Let_def)

lemma replay_protected_witness:
  "authenticate_all sample_codec [] [sample_arrival 5 1500, sample_arrival 1000000005 2500] ReplayCache_default ! 1
     \<in> {Err H_Replay, Err H_Authentication}"
  by (rule replay_protected [where i = 0 and wi = 1500 and wj = 2500, OF sample_arrivals(1) _ _ _ _ _ _ sample_arrivals(2)])
    (simp_all add: sample_arrival_def)

end
