(* ===== verification/Helper_Server.thy ===== *)
theory Helper_Server
  imports Helper_Protocol
begin

text \<open>
  \<open>crates/helper/src/server.rs\<close>: the privileged side. A request is authenticated, checked against
  replays, decoded and validated, admitted while no other operation runs, executed and completed. Cancellations and
  requests interleave; the shared state is behind two locks, so that each step under a lock is atomic.

  A lock is only poisoned by a panic while it is held, which none of the steps can raise.
\<close>

section \<open>Admission\<close>

type_synonym token = nat

record admission =
  ad_active :: "uuid \<rightharpoonup> token"
  ad_pending :: "uuid \<rightharpoonup> instant"
  ad_quarantined :: bool

definition Admission_default :: admission where
  "Admission_default = \<lparr>ad_active = Map.empty, ad_pending = Map.empty, ad_quarantined = False\<rparr>"

definition PENDING_CANCELLATION_TTL :: duration where "PENDING_CANCELLATION_TTL = from_secs 300"
definition MAX_PENDING_CANCELLATIONS :: nat where "MAX_PENDING_CANCELLATIONS = 1024"

definition retain_pending :: "instant \<Rightarrow> admission \<Rightarrow> admission" where
  "retain_pending now a = a\<lparr>ad_pending := (\<lambda>run. case ad_pending a run of
     Some expires \<Rightarrow> if now < expires then Some expires else None | None \<Rightarrow> None)\<rparr>"

text \<open>\<open>admit\<close> and \<open>cancel_run\<close> also say which cancellation token they fire.\<close>

definition admit :: "instant \<Rightarrow> uuid \<Rightarrow> token \<Rightarrow> admission \<Rightarrow> admission \<times> token option \<times> (unit, helper_error) outcome" where
  "admit now run_id cancellation a =
     (let a = retain_pending now a in
      if ad_quarantined a then (a, None, Err (H_Scope (lit ''helper is quarantined until the service restarts'')))
      else if ad_pending a run_id \<noteq> None
      then (a\<lparr>ad_pending := (ad_pending a)(run_id := None)\<rparr>, Some cancellation, Err H_Cancelled)
      else if ad_active a \<noteq> Map.empty
      then (a, None, Err (H_Scope (lit ''another helper operation is active'')))
      else (a\<lparr>ad_active := (ad_active a)(run_id \<mapsto> cancellation)\<rparr>, None, Ok ()))"

definition cancel_run :: "instant \<Rightarrow> uuid \<Rightarrow> admission \<Rightarrow> admission \<times> token option \<times> bool" where
  "cancel_run now run_id a =
     (let a = retain_pending now a in
      case ad_active a run_id of
        Some cancellation \<Rightarrow> (a, Some cancellation, True)
      | None \<Rightarrow>
          if MAX_PENDING_CANCELLATIONS \<le> card (dom (ad_pending a))
          then (a\<lparr>ad_quarantined := True\<rparr>, None, False)
          else (a\<lparr>ad_pending := (ad_pending a)(run_id \<mapsto> now + PENDING_CANCELLATION_TTL)\<rparr>, None, False))"

text \<open>\<open>ActiveRunGuard::complete\<close> up to the release of the lock, and \<open>drop\<close>, which follows it.\<close>

definition complete_run :: "uuid \<Rightarrow> admission \<Rightarrow> admission" where
  "complete_run run_id a = a\<lparr>ad_active := (ad_active a)(run_id := None)\<rparr>"

definition drop_guard :: "uuid \<Rightarrow> bool \<Rightarrow> admission \<Rightarrow> admission" where
  "drop_guard run_id finished a = a\<lparr>ad_active := (ad_active a)(run_id := None),
     ad_quarantined := ad_quarantined a \<or> \<not> finished\<rparr>"

section \<open>Execution\<close>

text \<open>
  What each component answers to an operation. \<open>ex_denied\<close> says whether the I/O error of a
  measurement is a denied permission.
\<close>

record 'v executors =
  ex_tuning :: "tuning_plan \<Rightarrow> (tuning_result, tuning_error) outcome"
  ex_basic :: "basic_item \<Rightarrow> basic_settings \<Rightarrow> (basic_result, probe_error) outcome"
  ex_trace :: "trace_plan_item \<Rightarrow> trace_settings \<Rightarrow> (trace_run_result, probe_error) outcome"
  ex_preflight :: "suite_config \<Rightarrow> (ip_addr \<times> 'v, helper_error) outcome"
  ex_measure :: "iperf3_client \<Rightarrow> test_spec \<Rightarrow> (test_result, throughput_error) outcome"
  ex_denied :: bool

fun helper_probe_error :: "probe_error \<Rightarrow> helper_error" where
  "helper_probe_error Probe_Cancelled = H_Cancelled"
| "helper_probe_error (Invalid_Host m) = H_Validation m"
| "helper_probe_error (Invalid_Plan m) = H_Validation m"
| "helper_probe_error (Probe_Permission op m) =
     H_Diagnostic (Error_new Permission (probe_error_text (Probe_Permission op m)))"
| "helper_probe_error (Unsupported op m) = H_Diagnostic (Error_new Prerequisite (probe_error_text (Unsupported op m)))"
| "helper_probe_error (Io op m) = H_Diagnostic (Error_new Prerequisite (probe_error_text (Io op m)))"
| "helper_probe_error e = H_Diagnostic (Error_new Connectivity (probe_error_text e))"

fun helper_throughput_error :: "bool \<Rightarrow> throughput_error \<Rightarrow> helper_error" where
  "helper_throughput_error denied TE_Cancelled = H_Cancelled"
| "helper_throughput_error denied (TE_Validation m) = H_Validation m"
| "helper_throughput_error denied (TE_Budget_Exceeded p m) = H_Validation (throughput_error_text (TE_Budget_Exceeded p m))"
| "helper_throughput_error denied (TE_Io phase source) = (if denied
     then H_Authorization (lit ''Windows qWAVE DSCP setup requires an administrator or Network Configuration Operators token: '' @ source)
     else H_Probe (throughput_error_text (TE_Io phase source)))"
| "helper_throughput_error denied e = H_Probe (throughput_error_text e)"

definition map_ok :: "('a \<Rightarrow> 'b) \<Rightarrow> ('a, 'e) outcome \<Rightarrow> ('b, 'e) outcome" where
  "map_ok f m = and_then m (\<lambda>x. Ok (f x))"

definition helper_dispatch :: "'v executors \<Rightarrow> helper_operation \<Rightarrow> ('v operation_result, helper_error) outcome" where
  "helper_dispatch ex operation = (case operation of
     Execute_Tuning p \<Rightarrow> map_ok Result_Tuning (map_error helper_of_tuning (ex_tuning ex p))
   | Basic_Path item s \<Rightarrow> map_ok Result_Basic (map_error helper_probe_error (ex_basic ex item s))
   | Trace_Path item s \<Rightarrow> map_ok Result_Trace (map_error helper_probe_error (ex_trace ex item s))
   | Throughput_Preflight c \<Rightarrow> map_ok (\<lambda>(target, evidence). Result_Preflight target evidence) (ex_preflight ex c)
   | Throughput_Measurement spec limits \<Rightarrow> and_then (limits_client limits) (\<lambda>client.
       map_ok Result_Measurement (map_error (helper_throughput_error (ex_denied ex)) (ex_measure ex client spec))))"

section \<open>One request\<close>

record peer_identity =
  pi_user_id :: u64
  pi_trusted_signature :: bool

record helper_server =
  hs_secret :: bytes
  hs_owner_user_id :: u64
  hs_replay :: replay_cache
  hs_admission :: admission

definition HelperServer_new :: "bytes \<Rightarrow> u64 \<Rightarrow> helper_server" where
  "HelperServer_new secret owner = \<lparr>hs_secret = secret, hs_owner_user_id = owner,
     hs_replay = ReplayCache_default, hs_admission = Admission_default\<rparr>"

text \<open>
  How the execution ends: by itself, or after the peer disconnected, within the time for cleaning up
  or not.
\<close>

datatype execution_end = Ran_To_End | Cleaned_Up | Cleanup_Timed_Out

definition check_request :: "helper_codec \<Rightarrow> bytes \<Rightarrow> (authorized_request, helper_error) outcome" where
  "check_request codec body =
     and_then (case hc_decode codec body of
         Inl e \<Rightarrow> Err (H_Protocol (lit ''decode request: '' @ e)) | Inr request \<Rightarrow> Ok request) (\<lambda>request.
     and_then (validate_request codec request) (\<lambda>_. Ok request))"

definition finish_request :: "execution_end \<Rightarrow> uuid \<Rightarrow> ('v operation_result, helper_error) outcome \<Rightarrow> admission \<Rightarrow>
    admission \<times> ('v operation_result, helper_error) outcome" where
  "finish_request ended run_id result a = (if ended = Cleanup_Timed_Out
     then (drop_guard run_id False a, Err (H_Scope (lit ''helper quarantined after cancellation cleanup timed out'')))
     else (drop_guard run_id True (complete_run run_id a), result))"

text \<open>
  \<open>HelperServer::handle\<close>, undisturbed by other requests; \<open>during\<close> is what cancellations do to the
  admission state while the operation runs.
\<close>

definition handle :: "helper_codec \<Rightarrow> 'v executors \<Rightarrow> execution_end \<Rightarrow> (admission \<Rightarrow> admission) \<Rightarrow> peer_identity \<Rightarrow> arrival \<Rightarrow>
    instant \<Rightarrow> token \<Rightarrow> helper_server \<Rightarrow> helper_server \<times> ('v operation_result, helper_error) outcome" where
  "handle codec ex ended during peer a now token server =
     (if pi_user_id peer \<noteq> hs_owner_user_id server \<or> \<not> pi_trusted_signature peer
      then (server, Err (H_Authorization (lit ''transport peer is not the registered application owner'')))
      else (case authenticate codec (hs_secret server) a (hs_replay server) of
        (replay, Err e) \<Rightarrow> (server\<lparr>hs_replay := replay\<rparr>, Err e)
      | (replay, Panic) \<Rightarrow> (server\<lparr>hs_replay := replay\<rparr>, Panic)
      | (replay, Ok _) \<Rightarrow>
          let server = server\<lparr>hs_replay := replay\<rparr> in
          (case check_request codec (sf_body (av_frame a)) of
            Err e \<Rightarrow> (server, Err e)
          | Panic \<Rightarrow> (server, Panic)
          | Ok request \<Rightarrow>
              (case admit now (ar_run_id request) token (hs_admission server) of
                (admission, _, Ok _) \<Rightarrow>
                  (let (admission, result) = finish_request ended (ar_run_id request)
                       (helper_dispatch ex (ar_operation request)) (during admission)
                   in (server\<lparr>hs_admission := admission\<rparr>, result))
              | (admission, _, Err e) \<Rightarrow> (server\<lparr>hs_admission := admission\<rparr>, Err e)
              | (admission, _, Panic) \<Rightarrow> (server\<lparr>hs_admission := admission\<rparr>, Panic)))))"

section \<open>Requests that overlap\<close>

text \<open>
  The guards of the operations that were admitted and not yet dropped: run id, token, and whether
  \<open>complete\<close> has removed the run. \<open>sv_admitted\<close> records the run ids in the order of admission.
\<close>

record service =
  sv_admission :: admission
  sv_guards :: "token \<rightharpoonup> uuid \<times> bool"
  sv_admitted :: "uuid list"
  sv_fired :: "token set"

definition service_start :: service where
  "service_start = \<lparr>sv_admission = Admission_default, sv_guards = Map.empty, sv_admitted = [], sv_fired = {}\<rparr>"

definition fire :: "token option \<Rightarrow> token set \<Rightarrow> token set" where
  "fire t fired = (case t of None \<Rightarrow> fired | Some token \<Rightarrow> insert token fired)"

inductive service_step :: "service \<Rightarrow> service \<Rightarrow> bool" where
  step_admit: "sv_guards s token = None \<Longrightarrow> admit now run token (sv_admission s) = (a, t, Ok ()) \<Longrightarrow>
    service_step s (s\<lparr>sv_admission := a, sv_guards := (sv_guards s)(token \<mapsto> (run, False)),
      sv_admitted := sv_admitted s @ [run], sv_fired := fire t (sv_fired s)\<rparr>)"
| step_refuse: "sv_guards s token = None \<Longrightarrow> admit now run token (sv_admission s) = (a, t, Err e) \<Longrightarrow>
    service_step s (s\<lparr>sv_admission := a, sv_fired := fire t (sv_fired s)\<rparr>)"
| step_cancel: "cancel_run now run (sv_admission s) = (a, t, b) \<Longrightarrow>
    service_step s (s\<lparr>sv_admission := a, sv_fired := fire t (sv_fired s)\<rparr>)"
| step_complete: "sv_guards s token = Some (run, False) \<Longrightarrow>
    service_step s (s\<lparr>sv_admission := complete_run run (sv_admission s),
      sv_guards := (sv_guards s)(token \<mapsto> (run, True))\<rparr>)"
| step_drop: "sv_guards s token = Some (run, finished) \<Longrightarrow>
    service_step s (s\<lparr>sv_admission := drop_guard run finished (sv_admission s),
      sv_guards := (sv_guards s)(token := None), sv_fired := insert token (sv_fired s)\<rparr>)"

inductive service_reachable :: "service \<Rightarrow> bool" where
  start: "service_reachable service_start"
| step: "service_reachable s \<Longrightarrow> service_step s s' \<Longrightarrow> service_reachable s'"

definition running :: "service \<Rightarrow> token set" where
  "running s = {token. \<exists>run. sv_guards s token = Some (run, False)}"

section \<open>One operation at a time\<close>

inductive_cases service_stepE: "service_step s s'"

text \<open>
  The invariant, as long as no run id is admitted twice: the guards that are not complete are exactly the active
  runs, guards have different run ids, and at most one run is active.
\<close>

definition exclusive :: "service \<Rightarrow> bool" where
  "exclusive s \<longleftrightarrow>
     (\<forall>token run. sv_guards s token = Some (run, False) \<longleftrightarrow> ad_active (sv_admission s) run = Some token)
     \<and> (\<forall>token run f. sv_guards s token = Some (run, f) \<longrightarrow> run \<in> set (sv_admitted s))
     \<and> (\<forall>token token' run f f'. sv_guards s token = Some (run, f) \<and> sv_guards s token' = Some (run, f') \<longrightarrow> token = token')
     \<and> (\<forall>run run' t t'. ad_active (sv_admission s) run = Some t \<and> ad_active (sv_admission s) run' = Some t' \<longrightarrow> run = run')"

lemma admit_active:
  "admit now run token a = (a', t, Ok u) \<Longrightarrow> ad_active a = Map.empty \<and> ad_active a' = [run \<mapsto> token]
     \<and> \<not> ad_quarantined a \<and> \<not> ad_quarantined a'"
  by (auto simp: admit_def retain_pending_def Let_def split: if_splits)

lemma refuse_active: "admit now run token a = (a', t, Err e) \<Longrightarrow> ad_active a' = ad_active a"
  by (auto simp: admit_def retain_pending_def Let_def split: if_splits)

lemma cancel_active: "cancel_run now run a = (a', t, b) \<Longrightarrow> ad_active a' = ad_active a"
  by (auto simp: cancel_run_def retain_pending_def Let_def split: if_splits option.splits)

lemma exclusive_start: "exclusive service_start"
  by (simp add: exclusive_def service_start_def Admission_default_def)

lemma exclusive_same_active:
  "exclusive s \<Longrightarrow> ad_active a = ad_active (sv_admission s) \<Longrightarrow> exclusive (s\<lparr>sv_admission := a, sv_fired := f\<rparr>)"
  by (simp add: exclusive_def)

lemma exclusive_admit:
  assumes "exclusive s" "sv_guards s token = None" "admit now run token (sv_admission s) = (a, t, Ok ())"
    "run \<notin> set (sv_admitted s)"
  shows "exclusive (s\<lparr>sv_admission := a, sv_guards := (sv_guards s)(token \<mapsto> (run, False)),
      sv_admitted := sv_admitted s @ [run], sv_fired := f\<rparr>)"
proof -
  have "ad_active (sv_admission s) = Map.empty" "ad_active a = [run \<mapsto> token]"
    using admit_active [OF assms(3)] by simp_all
  with assms(1,2,4) show ?thesis
    unfolding exclusive_def by simp metis
qed

text \<open>Completing and dropping a guard take its run, and no other, out of the active ones.\<close>

lemma exclusive_remove:
  assumes "exclusive s" "sv_guards s token = Some (run, finished)"
    "ad_active a = (ad_active (sv_admission s))(run := None)" "g = None \<or> g = Some (run, True)"
  shows "exclusive (s\<lparr>sv_admission := a, sv_guards := (sv_guards s)(token := g), sv_fired := f\<rparr>)"
proof -
  let ?guards = "(sv_guards s)(token := g)" and ?active = "(ad_active (sv_admission s))(run := None)"
  have guarded: "sv_guards s t = Some (r, False) \<longleftrightarrow> ad_active (sv_admission s) r = Some t"
    and admitted: "sv_guards s t = Some (r, b) \<Longrightarrow> r \<in> set (sv_admitted s)"
    and one_guard: "sv_guards s t = Some (r, b) \<Longrightarrow> sv_guards s t' = Some (r, b') \<Longrightarrow> t = t'"
    and one_active: "ad_active (sv_admission s) r = Some t \<Longrightarrow> ad_active (sv_admission s) r' = Some t' \<Longrightarrow> r = r'"
    for t t' r r' b b'
    using assms(1) unfolding exclusive_def by blast+
  have old: "?guards t = Some (r, b) \<Longrightarrow> t = token \<and> r = run \<and> b \<or> t \<noteq> token \<and> sv_guards s t = Some (r, b)" for t r b
    using assms(4) by (auto split: if_splits)
  have "?guards t = Some (r, False) \<longleftrightarrow> ?active r = Some t" for t r
  proof (cases "t = token")
    case True
    moreover have "ad_active (sv_admission s) r \<noteq> Some token" if "r \<noteq> run"
      using guarded [of token r] assms(2) that by simp
    ultimately show ?thesis using assms(4) by auto
  next
    case False
    then have "ad_active (sv_admission s) run \<noteq> Some t"
      using guarded [of t run] one_guard [OF assms(2), of t False] by auto
    with False guarded [of t r] show ?thesis by auto
  qed
  moreover have "r \<in> set (sv_admitted s)" if "?guards t = Some (r, b)" for t r b
    using old [OF that] admitted assms(2) by blast
  moreover have "t = t'" if "?guards t = Some (r, b)" "?guards t' = Some (r, b')" for t t' r b b'
    using old [OF that(1)] old [OF that(2)] one_guard assms(2) by metis
  moreover have "r = r'" if "?active r = Some t" "?active r' = Some t'" for r r' t t'
    using that one_active by (metis fun_upd_apply option.distinct(1))
  ultimately have all: "(\<forall>t r. ?guards t = Some (r, False) \<longleftrightarrow> ?active r = Some t)
      \<and> (\<forall>t r b. ?guards t = Some (r, b) \<longrightarrow> r \<in> set (sv_admitted s))
      \<and> (\<forall>t t' r b b'. ?guards t = Some (r, b) \<and> ?guards t' = Some (r, b') \<longrightarrow> t = t')
      \<and> (\<forall>r r' t t'. ?active r = Some t \<and> ?active r' = Some t' \<longrightarrow> r = r')"
    by meson
  have fields: "sv_guards (s\<lparr>sv_admission := a, sv_guards := ?guards, sv_fired := f\<rparr>) = ?guards"
    "sv_admitted (s\<lparr>sv_admission := a, sv_guards := ?guards, sv_fired := f\<rparr>) = sv_admitted s"
    "ad_active (sv_admission (s\<lparr>sv_admission := a, sv_guards := ?guards, sv_fired := f\<rparr>)) = ?active"
    by (simp_all add: assms(3))
  show ?thesis unfolding exclusive_def fields by (rule all)
qed

lemma exclusive_complete:
  assumes "exclusive s" "sv_guards s token = Some (run, False)"
  shows "exclusive (s\<lparr>sv_admission := complete_run run (sv_admission s), sv_guards := (sv_guards s)(token \<mapsto> (run, True))\<rparr>)"
  using exclusive_remove [OF assms, where f = "sv_fired s" and g = "Some (run, True)"] by (simp add: complete_run_def)

lemma exclusive_drop:
  assumes "exclusive s" "sv_guards s token = Some (run, finished)"
  shows "exclusive (s\<lparr>sv_admission := drop_guard run finished (sv_admission s),
      sv_guards := (sv_guards s)(token := None), sv_fired := f\<rparr>)"
  using exclusive_remove [OF assms, where g = None] by (simp add: drop_guard_def)

lemma reachable_exclusive: "service_reachable s \<Longrightarrow> distinct (sv_admitted s) \<Longrightarrow> exclusive s"
proof (induction rule: service_reachable.induct)
  case (step s s')
  from step.hyps(2) step.prems have "distinct (sv_admitted s)" by cases auto
  with step.IH have "exclusive s" .
  with step.hyps(2) step.prems show ?case
    by cases (auto intro!: exclusive_admit exclusive_complete exclusive_drop exclusive_same_active
        simp: refuse_active cancel_active)
qed (rule exclusive_start)

text \<open>The pending cancellations stay within their bound.\<close>

definition pending_bounded :: "admission \<Rightarrow> bool" where
  "pending_bounded a \<longleftrightarrow> finite (dom (ad_pending a)) \<and> card (dom (ad_pending a)) \<le> MAX_PENDING_CANCELLATIONS"

lemma pending_subset:
  "pending_bounded a \<Longrightarrow> dom (ad_pending b) \<subseteq> dom (ad_pending a) \<Longrightarrow> pending_bounded b"
  unfolding pending_bounded_def by (meson card_mono finite_subset le_trans)

lemma pending_retain: "pending_bounded a \<Longrightarrow> pending_bounded (retain_pending now a)"
  by (erule pending_subset) (auto simp: retain_pending_def split: option.splits if_splits)

lemma pending_cancel: "pending_bounded a \<Longrightarrow> pending_bounded (fst (cancel_run now run a))"
  using pending_retain [of a now]
  by (auto simp: cancel_run_def pending_bounded_def Let_def card_insert_if split: option.split)

lemma pending_admit: "pending_bounded a \<Longrightarrow> pending_bounded (fst (admit now run token a))"
proof -
  assume "pending_bounded a"
  from pending_retain [OF this, of now] show ?thesis
    by (rule pending_subset) (auto simp: admit_def Let_def)
qed

lemma reachable_pending: "service_reachable s \<Longrightarrow> pending_bounded (sv_admission s)"
proof (induction rule: service_reachable.induct)
  case (step s s')
  note admitted = pending_admit [OF step.IH] and cancelled = pending_cancel [OF step.IH]
  from step.hyps(2) show ?case
  proof cases
    case (step_admit token now run a t) then show ?thesis using admitted [of now run token] by simp
  next
    case (step_refuse token now run a t e) then show ?thesis using admitted [of now run token] by simp
  next
    case (step_cancel now run a t b) then show ?thesis using cancelled [of now run] by simp
  qed (use step.IH in \<open>simp_all add: pending_bounded_def complete_run_def drop_guard_def\<close>)
qed (simp add: service_start_def Admission_default_def pending_bounded_def)

lemma admit_quarantined: "ad_quarantined a \<Longrightarrow> \<exists>e. snd (snd (admit now run token a)) = Err e"
  by (simp add: admit_def retain_pending_def Let_def)

text \<open>Quarantine: no operation of the admission state lifts it, and no step admits under it.\<close>

lemma quarantine_kept [simp]:
  "ad_quarantined (fst (admit now run token a)) = ad_quarantined a"
  "ad_quarantined a \<Longrightarrow> ad_quarantined (fst (cancel_run now run a))"
  "ad_quarantined (complete_run run a) = ad_quarantined a"
  "ad_quarantined (drop_guard run finished a) \<longleftrightarrow> ad_quarantined a \<or> \<not> finished"
  by (auto simp: admit_def cancel_run_def retain_pending_def complete_run_def drop_guard_def Let_def
      split: option.split)

definition shut :: "uuid list \<Rightarrow> token set \<Rightarrow> service \<Rightarrow> bool" where
  "shut admitted tokens s \<longleftrightarrow>
     ad_quarantined (sv_admission s) \<and> sv_admitted s = admitted \<and> running s \<subseteq> tokens"

lemma quarantined_step: "service_step s s' \<Longrightarrow> shut admitted tokens s \<Longrightarrow> shut admitted tokens s'"
proof (induction rule: service_step.cases)
  case (step_admit s token now run a t)
  then show ?case using admit_active [OF step_admit(4)] by (simp add: shut_def)
next
  case (step_refuse s token now run a t e)
  then show ?case using quarantine_kept(1) [of now run token "sv_admission s"] by (simp add: shut_def running_def)
next
  case (step_cancel now run s a t b)
  then show ?case using quarantine_kept(2) [of "sv_admission s" now run] by (simp add: shut_def running_def)
qed (auto simp: shut_def running_def split: if_splits)

lemma quarantine_final: "service_step\<^sup>*\<^sup>* s s' \<Longrightarrow> shut admitted tokens s \<Longrightarrow> shut admitted tokens s'"
  by (induction rule: rtranclp_induct) (auto intro: quarantined_step)

lemma abandoned_quarantines:
  "service_step s s' \<Longrightarrow> token \<in> running s \<Longrightarrow> sv_guards s' token = None \<Longrightarrow> ad_quarantined (sv_admission s')"
  by (erule service_step.cases) (auto simp: running_def split: if_splits)

text \<open>
  C29. One privileged operation at a time. In every reachable state of the service, whatever
  requests, cancellations and ends of operations overlap, at most one admitted operation is running and it is the
  one a cancellation of its run id reaches, provided no run id is admitted twice; at most 1024
  cancellations are pending, and a quarantined service admits nothing. An operation whose guard is
  dropped before it completed quarantines the service. Quarantine is final: from then on, whatever
  follows, the service stays quarantined, no further run is admitted and no operation starts.
\<close>

theorem admission_exclusive:
  assumes "service_reachable s"
  shows "(distinct (sv_admitted s) \<longrightarrow> (\<forall>token \<in> running s. running s = {token}
        \<and> (\<exists>run. sv_guards s token = Some (run, False)
            \<and> (\<forall>now. \<exists>a. cancel_run now run (sv_admission s) = (a, Some token, True)))))
    \<and> card (dom (ad_pending (sv_admission s))) \<le> 1024
    \<and> (ad_quarantined (sv_admission s) \<longrightarrow>
        (\<forall>now run token. \<exists>e. snd (snd (admit now run token (sv_admission s))) = Err e))
    \<and> (\<forall>s'. service_step\<^sup>*\<^sup>* s s' \<and> ad_quarantined (sv_admission s) \<longrightarrow>
        ad_quarantined (sv_admission s') \<and> sv_admitted s' = sv_admitted s \<and> running s' \<subseteq> running s)
    \<and> (\<forall>s' token. service_step s s' \<and> token \<in> running s \<and> sv_guards s' token = None \<longrightarrow>
        ad_quarantined (sv_admission s'))"
proof (intro conjI impI)
  assume distinct: "distinct (sv_admitted s)"
  note ex = reachable_exclusive [OF assms distinct, unfolded exclusive_def]
  show "\<forall>token \<in> running s. running s = {token} \<and> (\<exists>run. sv_guards s token = Some (run, False)
      \<and> (\<forall>now. \<exists>a. cancel_run now run (sv_admission s) = (a, Some token, True)))"
  proof
    fix token assume "token \<in> running s"
    then obtain run where run: "sv_guards s token = Some (run, False)" by (auto simp: running_def)
    then have active: "ad_active (sv_admission s) run = Some token" using ex by blast
    have "token' = token" if token': "token' \<in> running s" for token'
    proof -
      from token' obtain run' where run': "sv_guards s token' = Some (run', False)" by (auto simp: running_def)
      then have "ad_active (sv_admission s) run' = Some token'" using ex by blast
      with active have "run' = run" using ex by blast
      with run run' show ?thesis using ex by blast
    qed
    with \<open>token \<in> running s\<close> have "running s = {token}" by blast
    moreover have "\<exists>a. cancel_run now run (sv_admission s) = (a, Some token, True)" for now
      using active by (simp add: cancel_run_def retain_pending_def Let_def)
    ultimately show "running s = {token} \<and> (\<exists>run. sv_guards s token = Some (run, False)
      \<and> (\<forall>now. \<exists>a. cancel_run now run (sv_admission s) = (a, Some token, True)))" using run by blast
  qed
next
  show "card (dom (ad_pending (sv_admission s))) \<le> 1024"
    using reachable_pending [OF assms] by (simp add: pending_bounded_def MAX_PENDING_CANCELLATIONS_def)
next
  show "\<forall>s'. service_step\<^sup>*\<^sup>* s s' \<and> ad_quarantined (sv_admission s) \<longrightarrow>
      ad_quarantined (sv_admission s') \<and> sv_admitted s' = sv_admitted s \<and> running s' \<subseteq> running s"
    using quarantine_final [of s _ "sv_admitted s" "running s"] unfolding shut_def by blast
next
  assume "ad_quarantined (sv_admission s)"
  then show "\<forall>now run token. \<exists>e. snd (snd (admit now run token (sv_admission s))) = Err e"
    using admit_quarantined by blast
next
  show "\<forall>s' token. service_step s s' \<and> token \<in> running s \<and> sv_guards s' token = None \<longrightarrow>
      ad_quarantined (sv_admission s')"
    using abandoned_quarantines by blast
qed

text \<open>A service with one operation running.\<close>

lemma one_running:
  "service_reachable (service_start\<lparr>sv_admission := Admission_default\<lparr>ad_active := [7 \<mapsto> 1]\<rparr>,
     sv_guards := [1 \<mapsto> (7, False)], sv_admitted := [7]\<rparr>)"
proof (rule service_reachable.step [OF service_reachable.start])
  have "admit 0 7 1 (sv_admission service_start) = (Admission_default\<lparr>ad_active := [7 \<mapsto> 1]\<rparr>, None, Ok ())"
    by (simp add: admit_def retain_pending_def service_start_def Admission_default_def)
  from service_step.step_admit [OF _ this]
  show "service_step service_start (service_start\<lparr>sv_admission := Admission_default\<lparr>ad_active := [7 \<mapsto> 1]\<rparr>,
      sv_guards := [1 \<mapsto> (7, False)], sv_admitted := [7]\<rparr>)"
    by (simp add: service_start_def fire_def)
qed

lemma admission_exclusive_witness:
  "running (service_start\<lparr>sv_admission := Admission_default\<lparr>ad_active := [7 \<mapsto> 1]\<rparr>,
     sv_guards := [1 \<mapsto> (7, False)], sv_admitted := [7]\<rparr>) = {1}"
  using admission_exclusive [OF one_running] by (auto simp: running_def split: if_splits)

text \<open>
  The proviso is needed: \<open>complete\<close> removes the run under the lock, and the guard's \<open>drop\<close> removes
  the same run id again under a second lock. A request that reuses the run id in between is
  forgotten by the admission state, and the next one runs beside it.
\<close>

definition service_with :: "(uuid \<rightharpoonup> token) \<Rightarrow> (token \<rightharpoonup> uuid \<times> bool) \<Rightarrow> uuid list \<Rightarrow> token set \<Rightarrow> service" where
  "service_with active guards admitted fired = \<lparr>sv_admission = Admission_default\<lparr>ad_active := active\<rparr>,
     sv_guards = guards, sv_admitted = admitted, sv_fired = fired\<rparr>"

lemma admits:
  "service_reachable (service_with Map.empty guards admitted fired) \<Longrightarrow> guards token = None \<Longrightarrow>
   service_reachable (service_with [run \<mapsto> token] (guards(token \<mapsto> (run, False))) (admitted @ [run]) fired)"
  using service_reachable.step [OF _ service_step.step_admit
      [of "service_with Map.empty guards admitted fired" token 0 run "Admission_default\<lparr>ad_active := [run \<mapsto> token]\<rparr>" None]]
  by (simp add: service_with_def admit_def retain_pending_def Admission_default_def fire_def)

lemma completes:
  "service_reachable (service_with active guards admitted fired) \<Longrightarrow> guards token = Some (run, False) \<Longrightarrow>
   service_reachable (service_with (active(run := None)) (guards(token \<mapsto> (run, True))) admitted fired)"
  using service_reachable.step [OF _ service_step.step_complete [of "service_with active guards admitted fired" token run]]
  by (simp add: service_with_def complete_run_def)

lemma drops:
  "service_reachable (service_with active guards admitted fired) \<Longrightarrow> guards token = Some (run, True) \<Longrightarrow>
   service_reachable (service_with (active(run := None)) (guards(token := None)) admitted (insert token fired))"
  using service_reachable.step [OF _ service_step.step_drop [of "service_with active guards admitted fired" token run True]]
  by (simp add: service_with_def drop_guard_def Admission_default_def)

lemma reused_run_id_overlaps: "\<exists>s. service_reachable s \<and> {2, 3} \<subseteq> running s"
proof -
  have "service_reachable (service_with Map.empty Map.empty [] {})"
    using service_reachable.start by (simp add: service_with_def service_start_def Admission_default_def)
  from completes [OF admits [OF this, where token = 1 and run = 7], where token = 1 and run = 7]
  have "service_reachable (service_with Map.empty [1 \<mapsto> (7, True)] [7] {})" by simp
  from drops [OF admits [OF this, where token = 2 and run = 7], where token = 1 and run = 7]
  have "service_reachable (service_with Map.empty [2 \<mapsto> (7, False)] [7, 7] {1})" by simp
  from admits [OF this, where token = 3 and run = 8]
  have "service_reachable (service_with [8 \<mapsto> 3] [2 \<mapsto> (7, False), 3 \<mapsto> (8, False)] [7, 7, 8] {1})" by simp
  moreover have "{2, 3} \<subseteq> running (service_with [8 \<mapsto> 3] [2 \<mapsto> (7, False), 3 \<mapsto> (8, False)] [7, 7, 8] {1})"
    by (simp add: running_def service_with_def)
  ultimately show ?thesis by blast
qed

section \<open>What a request may do\<close>

lemma validate_request_hash:
  "validate_request codec r = Ok u \<Longrightarrow> reviewed_hash codec (ar_operation r) = Ok (ar_reviewed_plan_hash r)
     \<and> validate_operation (ar_operation r) = Ok ()"
  by (auto simp: validate_request_def and_then_eq_Ok split: if_splits)

lemma check_request_Ok:
  "check_request codec body = Ok request \<longleftrightarrow> hc_decode codec body = Inr request \<and> validate_request codec request = Ok ()"
  by (auto simp: check_request_def and_then_eq_Ok split: sum.splits)

text \<open>
  C27. The helper does only what was authorised. A request that returns a result came from the owner
  with a trusted signature, in a frame of the shared secret that was valid at that time and whose nonce was not in the replay cache; its
  operation passes its validation and is the one whose hash was reviewed; no other operation was active and the service was
  not quarantined; and the result is that of executing this very operation.
\<close>

theorem operation_authorized:
  assumes "handle codec ex ended during peer a now token server = (server', Ok result)"
  shows "pi_user_id peer = hs_owner_user_id server \<and> pi_trusted_signature peer
    \<and> verify codec (av_wall a) (hs_secret server) (av_frame a) = Ok ()
    \<and> rc_entries (expire_at (av_before a) (hs_replay server)) (sf_nonce (av_frame a)) = None
    \<and> ad_active (hs_admission server) = Map.empty \<and> \<not> ad_quarantined (hs_admission server)
    \<and> (\<exists>request. hc_decode codec (sf_body (av_frame a)) = Inr request
        \<and> validate_operation (ar_operation request) = Ok ()
        \<and> reviewed_hash codec (ar_operation request) = Ok (ar_reviewed_plan_hash request)
        \<and> helper_dispatch ex (ar_operation request) = Ok result)"
proof -
  obtain replay request admission t where
    peer: "pi_user_id peer = hs_owner_user_id server" "pi_trusted_signature peer"
    and auth: "authenticate codec (hs_secret server) a (hs_replay server) = (replay, Ok ())"
    and request: "check_request codec (sf_body (av_frame a)) = Ok request"
    and admitted: "admit now (ar_run_id request) token (hs_admission server) = (admission, t, Ok ())"
    and result: "snd (finish_request ended (ar_run_id request) (helper_dispatch ex (ar_operation request)) (during admission))
      = Ok result"
    using assms by (auto simp: handle_def Let_def split: if_splits prod.splits outcome.splits)
  have "helper_dispatch ex (ar_operation request) = Ok result"
    using result by (auto simp: finish_request_def split: if_splits)
  moreover have "verify codec (av_wall a) (hs_secret server) (av_frame a) = Ok ()"
    "rc_entries (expire_at (av_before a) (hs_replay server)) (sf_nonce (av_frame a)) = None"
    using auth by (auto simp: authenticate_def accept_def Let_def split: outcome.splits if_splits)
  moreover have "hc_decode codec (sf_body (av_frame a)) = Inr request" "validate_request codec request = Ok ()"
    using request by (simp_all add: check_request_Ok)
  ultimately show ?thesis
    using peer admit_active [OF admitted] validate_request_hash by blast
qed

lemma request_served:
  assumes "client_frame codec False (Some sent) (Ok (hs_secret server)) nonce run_id hash operation = Ok (av_frame a)"
    and "\<And>body. hc_encode codec \<lparr>ar_run_id = run_id, ar_reviewed_plan_hash = hash, ar_operation = operation\<rparr> = Inr body \<Longrightarrow>
      hc_decode codec body = Inr \<lparr>ar_run_id = run_id, ar_reviewed_plan_hash = hash, ar_operation = operation\<rparr>"
    and "pi_user_id peer = hs_owner_user_id server" "pi_trusted_signature peer"
    and "av_wall a = Some received" "received < 2 ^ 63" "int received - 300000 \<le> int sent" "int sent \<le> int received + 30000"
    and "rc_entries (hs_replay server) nonce = None"
      "card (dom (rc_entries (expire_at (av_before a) (hs_replay server)))) < 4096"
    and "hs_admission server = Admission_default" "ended \<noteq> Cleanup_Timed_Out"
  shows "\<exists>replay. handle codec ex ended (\<lambda>x. x) peer a now token server
    = (server\<lparr>hs_replay := replay, hs_admission := Admission_default\<rparr>, helper_dispatch ex operation)"
proof -
  let ?request = "\<lparr>ar_run_id = run_id, ar_reviewed_plan_hash = hash, ar_operation = operation\<rparr>"
  obtain body where request: "validate_request codec ?request = Ok ()" "hc_encode codec ?request = Inr body"
    and signed: "sign codec (Some sent) (hs_secret server) nonce body = Ok (av_frame a)"
    using assms(1) by (auto simp: client_frame_def Let_def and_then_eq_Ok split: sum.splits)
  have frame: "sf_nonce (av_frame a) = nonce" "sf_body (av_frame a) = body"
    using signed by (auto simp: sign_def and_then_eq_Ok split: if_splits dest!: sym [of _ "av_frame a"])
  have verified: "verify codec (av_wall a) (hs_secret server) (av_frame a) = Ok ()"
    using signed_verifies [OF signed assms(6,7,8)] assms(5) by simp
  have "rc_entries (expire_at (av_before a) (hs_replay server)) nonce = None"
    using expire_entries [of _ "rc_order (hs_replay server)" "rc_entries (hs_replay server)" nonce] assms(9)
    by (auto simp: expire_at_def split: option.split)
  then obtain replay where auth: "authenticate codec (hs_secret server) a (hs_replay server) = (replay, Ok ())"
    using verified assms(10) by (simp add: authenticate_def accept_def Let_def frame MAX_NONCES_def)
  have "check_request codec body = Ok ?request"
    using request assms(2) by (simp add: check_request_Ok)
  moreover have "admit now run_id token Admission_default
      = (Admission_default\<lparr>ad_active := [run_id \<mapsto> token]\<rparr>, None, Ok ())"
    by (simp add: admit_def retain_pending_def Admission_default_def)
  moreover have "drop_guard run_id True (complete_run run_id (Admission_default\<lparr>ad_active := [run_id \<mapsto> token]\<rparr>))
      = Admission_default"
    by (simp add: drop_guard_def complete_run_def Admission_default_def)
  ultimately show ?thesis
    using assms(3,4,11,12) auth by (intro exI [of _ replay]) (simp add: handle_def frame finish_request_def)
qed

text \<open>
  What the client sends, the helper executes. A frame the client makes for an operation and its reviewed hash, received
  by its owner's helper within the time a frame is valid while the helper is idle and has not seen the nonce, leads to exactly that
  operation; its result is the answer unless the cleaning up after a disconnection takes too long, and the helper is idle again.
\<close>

lemma client_request_served:
  assumes "client_frame codec False (Some sent) (Ok (hs_secret server)) nonce run_id hash operation = Ok (av_frame a)"
    and "\<And>body. hc_encode codec \<lparr>ar_run_id = run_id, ar_reviewed_plan_hash = hash, ar_operation = operation\<rparr> = Inr body \<Longrightarrow>
      hc_decode codec body = Inr \<lparr>ar_run_id = run_id, ar_reviewed_plan_hash = hash, ar_operation = operation\<rparr>"
    and "pi_user_id peer = hs_owner_user_id server" "pi_trusted_signature peer"
    and "av_wall a = Some received" "received < 2 ^ 63" "int received - 300000 \<le> int sent" "int sent \<le> int received + 30000"
    and "rc_entries (hs_replay server) nonce = None"
      "card (dom (rc_entries (expire_at (av_before a) (hs_replay server)))) < 4096"
    and "hs_admission server = Admission_default" "ended \<noteq> Cleanup_Timed_Out"
  shows "\<exists>replay. handle codec ex ended (\<lambda>x. x) peer a now token server
    = (server\<lparr>hs_replay := replay, hs_admission := Admission_default\<rparr>, helper_dispatch ex operation)"
  using assms by (rule request_served)

section \<open>A concrete request\<close>

text \<open>A codec that knows one request: a dry run of the default tuning.\<close>

definition toy_plan :: tuning_plan where
  "toy_plan = \<lparr>tpl_config = TuningConfig_default\<lparr>tc_dry_run := True\<rparr>,
     tpl_steps = plan_steps (TuningConfig_default\<lparr>tc_dry_run := True\<rparr>), tpl_mutating = False, tpl_requires_helper = False\<rparr>"

definition toy_request :: authorized_request where
  "toy_request = \<lparr>ar_run_id = 7, ar_reviewed_plan_hash = hex_upper (replicate 32 0), ar_operation = Execute_Tuning toy_plan\<rparr>"

definition toy_codec :: helper_codec where
  "toy_codec = sample_codec\<lparr>hc_decode := \<lambda>_. Inr toy_request\<rparr>"

definition toy_frame :: signed_frame where
  "toy_frame = \<lparr>sf_nonce = [1], sf_issued_at = 1000, sf_body = [],
     sf_authenticator = authenticator toy_codec [] [1] 1000 []\<rparr>"

definition toy_arrival :: arrival where
  "toy_arrival = \<lparr>av_frame = toy_frame, av_wall = Some 1500, av_before = 5, av_after = 6\<rparr>"

definition toy_executors :: "unit executors" where
  "toy_executors = \<lparr>ex_tuning = \<lambda>p. execute_tuning False 0 None p, ex_basic = \<lambda>_ _. Err Probe_Cancelled,
     ex_trace = \<lambda>_ _. Err Probe_Cancelled, ex_preflight = \<lambda>_. Err H_Cancelled, ex_measure = \<lambda>_ _. Err TE_Cancelled,
     ex_denied = False\<rparr>"

definition toy_peer :: peer_identity where
  "toy_peer = \<lparr>pi_user_id = 1000, pi_trusted_signature = True\<rparr>"

lemma toy_client:
  "client_frame toy_codec False (Some 1000) (Ok (hs_secret (HelperServer_new [] 1000))) [1] 7 (hex_upper (replicate 32 0))
     (Execute_Tuning toy_plan) = Ok (av_frame toy_arrival)"
proof -
  have "validate_tuning (TuningConfig_default\<lparr>tc_dry_run := True\<rparr>) = Ok ()"
    by (simp add: validate_tuning_Ok TuningConfig_default_def MAX_PORTS_def MAX_APPS_def folder_is_def)
  then have "plan_tuning (TuningConfig_default\<lparr>tc_dry_run := True\<rparr>) = Ok toy_plan"
    by (simp add: plan_tuning_def toy_plan_def normalize_config_def TuningConfig_default_def Let_def)
  moreover have "same_plan toy_plan toy_plan" by (simp add: same_plan_def Let_def)
  ultimately have "validate_operation (Execute_Tuning toy_plan) = Ok ()"
    by (simp add: validate_operation_def map_error_def) (simp add: toy_plan_def map_error_def)
  moreover have "valid_hash (hex_upper (replicate 32 0))" by (rule hex_upper_valid) simp
  ultimately show ?thesis
    by (simp add: client_frame_def validate_request_def reviewed_hash_def toy_codec_def sample_codec_def sign_def
        unix_millis_def HelperServer_new_def toy_arrival_def toy_frame_def)
qed

lemmas toy_defs = toy_codec_def sample_codec_def toy_request_def toy_peer_def toy_arrival_def HelperServer_new_def
  ReplayCache_default_def expire_at_def expiry_cutoff_def NONCE_TTL_def from_secs_def

lemma toy_handled:
  "\<exists>server' result. handle toy_codec toy_executors Ran_To_End (\<lambda>x. x) toy_peer toy_arrival 0 1 (HelperServer_new [] 1000)
    = (server', Ok result)"
proof -
  have "\<exists>replay. handle toy_codec toy_executors Ran_To_End (\<lambda>x. x) toy_peer toy_arrival 0 1 (HelperServer_new [] 1000)
      = ((HelperServer_new [] 1000)\<lparr>hs_replay := replay, hs_admission := Admission_default\<rparr>,
         helper_dispatch toy_executors (Execute_Tuning toy_plan))"
    by (rule request_served [OF toy_client, where received = 1500]) (simp_all add: toy_defs)
  moreover have "\<exists>result. helper_dispatch toy_executors (Execute_Tuning toy_plan) = Ok result"
    by (simp add: helper_dispatch_def toy_executors_def execute_tuning_def toy_plan_def map_ok_def map_error_def Let_def)
  ultimately show ?thesis by auto
qed

lemma operation_authorized_witness:
  "hc_decode toy_codec [] = Inr toy_request \<and> validate_operation (Execute_Tuning toy_plan) = Ok ()
    \<and> pi_user_id toy_peer = 1000"
proof -
  from toy_handled obtain server' result where
    "handle toy_codec toy_executors Ran_To_End (\<lambda>x. x) toy_peer toy_arrival 0 1 (HelperServer_new [] 1000) = (server', Ok result)"
    by blast
  from operation_authorized [OF this] show ?thesis
    by (auto simp: toy_codec_def toy_arrival_def toy_frame_def toy_request_def toy_peer_def)
qed

end
