(* ===== verification/Run_Manager.thy ===== *)
theory Run_Manager
  imports Text_Format
begin

text \<open>
  \<open>crates/runtime/src/manager.rs\<close>: the one active measurement of the application, its bounded
  progress, and the snapshots published to the front ends. Every operation runs under one lock, so
  that it is one step; run identifiers, start times and clock readings are arguments.
\<close>

section \<open>State\<close>

datatype measurement_state = Ms_Running | Ms_Cancelling | Ms_Succeeded | Ms_Partial_Failure | Ms_Failed | Ms_Cancelled

definition from_exit_code :: "u8 \<Rightarrow> bool \<Rightarrow> measurement_state" where
  "from_exit_code code partial =
     (if code = SUCCESS then Ms_Succeeded
      else if code = PARTIAL_FAILURE then Ms_Partial_Failure
      else if is_interrupted code then Ms_Cancelled
      else if partial then Ms_Partial_Failure
      else Ms_Failed)"

definition is_active :: "measurement_state \<Rightarrow> bool" where
  "is_active s \<longleftrightarrow> s = Ms_Running \<or> s = Ms_Cancelling"

record progress =
  pr_run_id :: bytes
  pr_started_utc :: bytes
  pr_state :: measurement_state
  pr_completed :: u64
  pr_total :: u64
  pr_logs :: "bytes list"
  pr_exit_code :: "u8 option"
  pr_report_path :: "bytes option"

text \<open>A cancellation token is a number; \<open>rm_fired\<close> holds the fired ones.\<close>

record active_run =
  ac_progress :: progress
  ac_cancel :: nat
  ac_last_publish :: instant

record run_manager =
  rm_active :: "active_run option"
  rm_updates :: "progress option"
  rm_fired :: "nat set"

definition RunManager_default :: run_manager where
  "RunManager_default = \<lparr>rm_active = None, rm_updates = None, rm_fired = {}\<rparr>"

section \<open>Operations\<close>

definition begin_run :: "bytes \<Rightarrow> bytes \<Rightarrow> nat \<Rightarrow> instant \<Rightarrow> u64 \<Rightarrow> run_manager \<Rightarrow> run_manager \<times> (unit, error) outcome" where
  "begin_run run_id started cancel now planned m =
     (if (case rm_active m of None \<Rightarrow> False | Some a \<Rightarrow> is_active (pr_state (ac_progress a)))
      then (m, Err (Error_new Busy (lit ''A measurement is already active'')))
      else let p = \<lparr>pr_run_id = run_id, pr_started_utc = started, pr_state = Ms_Running, pr_completed = 0,
                 pr_total = planned, pr_logs = [], pr_exit_code = None, pr_report_path = None\<rparr> in
        (m\<lparr>rm_updates := Some p, rm_active := Some \<lparr>ac_progress = p, ac_cancel = cancel, ac_last_publish = now\<rparr>\<rparr>, Ok ()))"

definition snapshot :: "run_manager \<Rightarrow> progress option" where
  "snapshot m = map_option ac_progress (rm_active m)"

text \<open>\<open>active.as_mut().filter(|a| a.progress.run_id == id)\<close>.\<close>

definition active_with :: "bytes \<Rightarrow> run_manager \<Rightarrow> active_run option" where
  "active_with run_id m = (case rm_active m of
     None \<Rightarrow> None | Some a \<Rightarrow> if pr_run_id (ac_progress a) = run_id then Some a else None)"

text \<open>The active run with new progress, published.\<close>

definition publish :: "progress \<Rightarrow> active_run \<Rightarrow> run_manager \<Rightarrow> run_manager" where
  "publish p a m = m\<lparr>rm_active := Some (a\<lparr>ac_progress := p\<rparr>), rm_updates := Some p\<rparr>"

definition cancel_id :: "bytes \<Rightarrow> run_manager \<Rightarrow> run_manager \<times> (unit, error) outcome" where
  "cancel_id run_id m = (case active_with run_id m of
     None \<Rightarrow> (m, Err (Error_new Validation (lit ''Run ID is not active'')))
   | Some a \<Rightarrow>
       if is_active (pr_state (ac_progress a))
       then ((publish ((ac_progress a)\<lparr>pr_state := Ms_Cancelling\<rparr>) a m)\<lparr>rm_fired := insert (ac_cancel a) (rm_fired m)\<rparr>, Ok ())
       else (m, Ok ()))"

definition cancel_active_run :: "run_manager \<Rightarrow> run_manager" where
  "cancel_active_run m = (case snapshot m of None \<Rightarrow> m | Some p \<Rightarrow> fst (cancel_id (pr_run_id p) m))"

definition failure :: "bytes \<Rightarrow> error \<Rightarrow> bool \<Rightarrow> run_manager \<Rightarrow> run_manager" where
  "failure run_id e throughput m = (case active_with run_id m of
     None \<Rightarrow> m
   | Some a \<Rightarrow>
       let p = ac_progress a;
           logs = pr_logs p @ [bounded_text (message e) 256];
           logs = (if 64 < length logs then tl logs else logs)
       in publish (p\<lparr>pr_logs := logs, pr_state := Ms_Failed,
            pr_exit_code := Some (for_error throughput (category e))\<rparr>) a m)"

text \<open>\<open>now\<close> is the clock where \<open>elapsed\<close> reads it, \<open>later\<close> where the new publication is stamped.\<close>

definition report_progress :: "instant \<Rightarrow> instant \<Rightarrow> bytes \<Rightarrow> u64 \<Rightarrow> bytes option \<Rightarrow> run_manager \<Rightarrow> run_manager" where
  "report_progress now later run_id completed msg m = (case active_with run_id m of
     None \<Rightarrow> m
   | Some a \<Rightarrow>
       let p = (ac_progress a)\<lparr>pr_completed := min completed (pr_total (ac_progress a))\<rparr>;
           p = (case msg of None \<Rightarrow> p
             | Some text_ \<Rightarrow> p\<lparr>pr_logs := (if length (pr_logs p) = 64 then tl (pr_logs p) else pr_logs p)
                 @ [bounded_text text_ 256]\<rparr>)
       in if from_millis 100 \<le> now - ac_last_publish a
          then publish p (a\<lparr>ac_last_publish := later\<rparr>) m
          else m\<lparr>rm_active := Some (a\<lparr>ac_progress := p\<rparr>)\<rparr>)"

definition complete :: "bytes \<Rightarrow> u8 \<Rightarrow> bytes option \<Rightarrow> bool \<Rightarrow> run_manager \<Rightarrow> run_manager" where
  "complete run_id code path partial m = (case active_with run_id m of
     None \<Rightarrow> m
   | Some a \<Rightarrow> publish ((ac_progress a)\<lparr>pr_state := from_exit_code code partial, pr_exit_code := Some code,
       pr_report_path := path\<rparr>) a m)"

text \<open>\<open>finish\<close> and \<open>finish_outcome\<close> complete the run and drop a finished handle; \<open>drop\<close> of an unfinished one decides the code.\<close>

definition finish_outcome :: "bytes \<Rightarrow> u8 \<Rightarrow> bytes option \<Rightarrow> bool \<Rightarrow> run_manager \<Rightarrow> run_manager" where
  "finish_outcome run_id code path partial m = complete run_id code path partial m"

definition finish :: "bytes \<Rightarrow> u8 \<Rightarrow> bytes option \<Rightarrow> run_manager \<Rightarrow> run_manager" where
  "finish run_id code path m = complete run_id code path False m"

definition drop_handle :: "bytes \<Rightarrow> nat \<Rightarrow> run_manager \<Rightarrow> run_manager" where
  "drop_handle run_id cancel m =
     complete run_id (if cancel \<in> rm_fired m then CANCELLED else INTERNAL) None False
       (m\<lparr>rm_fired := insert cancel (rm_fired m)\<rparr>)"

section \<open>The manager and its handles\<close>

text \<open>
  \<open>sy_handles\<close> are the handles that were given out and neither finished nor dropped, by their token,
  with the id of their run.
\<close>

record run_system =
  sy_manager :: run_manager
  sy_handles :: "nat \<rightharpoonup> bytes"
  sy_begun :: "bytes list"

inductive run_step :: "run_system \<Rightarrow> run_system \<Rightarrow> bool" where
  begins: "sy_handles s cancel = None \<Longrightarrow> begin_run run_id started cancel now planned (sy_manager s) = (m, Ok u) \<Longrightarrow>
    run_step s (s\<lparr>sy_manager := m, sy_handles := (sy_handles s)(cancel \<mapsto> run_id), sy_begun := sy_begun s @ [run_id]\<rparr>)"
| refused: "begin_run run_id started cancel now planned (sy_manager s) = (m, Err e) \<Longrightarrow> run_step s (s\<lparr>sy_manager := m\<rparr>)"
| cancels: "run_step s (s\<lparr>sy_manager := fst (cancel_id run_id (sy_manager s))\<rparr>)"
| cancels_active: "run_step s (s\<lparr>sy_manager := cancel_active_run (sy_manager s)\<rparr>)"
| fails: "run_step s (s\<lparr>sy_manager := failure run_id e throughput (sy_manager s)\<rparr>)"
| progresses: "sy_handles s cancel = Some run_id \<Longrightarrow>
    run_step s (s\<lparr>sy_manager := report_progress now later run_id completed msg (sy_manager s)\<rparr>)"
| finishes: "sy_handles s cancel = Some run_id \<Longrightarrow>
    run_step s (s\<lparr>sy_manager := finish_outcome run_id code path partial (sy_manager s),
      sy_handles := (sy_handles s)(cancel := None)\<rparr>)"
| drops: "sy_handles s cancel = Some run_id \<Longrightarrow>
    run_step s (s\<lparr>sy_manager := drop_handle run_id cancel (sy_manager s),
      sy_handles := (sy_handles s)(cancel := None)\<rparr>)"

inductive run_reachable :: "run_system \<Rightarrow> bool" where
  initially: "run_reachable \<lparr>sy_manager = RunManager_default, sy_handles = Map.empty, sy_begun = []\<rparr>"
| steps: "run_reachable s \<Longrightarrow> run_step s s' \<Longrightarrow> run_reachable s'"

section \<open>What the manager keeps\<close>

lemma from_exit_code_final [simp]: "\<not> is_active (from_exit_code code partial)"
  by (simp add: from_exit_code_def is_active_def)

definition bounded_progress :: "progress \<Rightarrow> bool" where
  "bounded_progress p \<longleftrightarrow> pr_completed p \<le> pr_total p \<and> length (pr_logs p) \<le> 64
     \<and> (\<forall>l \<in> set (pr_logs p). length l \<le> 256)"

text \<open>Subscribers see the state, the code and the report of the run as they are; only counts and logs may lag.\<close>

definition same_outcome :: "progress \<Rightarrow> progress \<Rightarrow> bool" where
  "same_outcome p q \<longleftrightarrow> pr_run_id p = pr_run_id q \<and> pr_state p = pr_state q \<and> pr_total p = pr_total q
     \<and> pr_exit_code p = pr_exit_code q \<and> pr_report_path p = pr_report_path q \<and> pr_started_utc p = pr_started_utc q"

definition manager_ok :: "run_manager \<Rightarrow> bool" where
  "manager_ok m \<longleftrightarrow> (case rm_active m of
     None \<Rightarrow> rm_updates m = None
   | Some a \<Rightarrow> bounded_progress (ac_progress a)
       \<and> (\<exists>q. rm_updates m = Some q \<and> same_outcome (ac_progress a) q \<and> bounded_progress q))"

lemma bounded_text_length: "length (bounded_text s limit) \<le> limit"
  using floor_boundary_le [of s "min (length s) limit"] by (simp add: bounded_text_def)

lemma active_with_Some: "active_with run_id m = Some a \<longleftrightarrow> rm_active m = Some a \<and> pr_run_id (ac_progress a) = run_id"
  by (auto simp: active_with_def split: option.splits)

lemma manager_publish: "bounded_progress p \<Longrightarrow> manager_ok (publish p a m)"
  by (simp add: manager_ok_def publish_def same_outcome_def)

lemma manager_fired [simp]: "manager_ok (m\<lparr>rm_fired := f\<rparr>) = manager_ok m"
  by (cases "rm_active m") (simp_all add: manager_ok_def)

lemma manager_bounded: "manager_ok m \<Longrightarrow> rm_active m = Some a \<Longrightarrow> bounded_progress (ac_progress a)"
  by (simp add: manager_ok_def)

lemma bounded_state [simp]:
  "bounded_progress (p\<lparr>pr_state := s\<rparr>) = bounded_progress p"
  "bounded_progress (p\<lparr>pr_state := s, pr_exit_code := c\<rparr>) = bounded_progress p"
  "bounded_progress (p\<lparr>pr_state := s, pr_exit_code := c, pr_report_path := r\<rparr>) = bounded_progress p"
  by (simp_all add: bounded_progress_def)

lemma ok_begin: "manager_ok m \<Longrightarrow> manager_ok (fst (begin_run run_id started cancel now planned m))"
  by (auto simp: begin_run_def manager_ok_def bounded_progress_def same_outcome_def Let_def split: option.splits)

lemma ok_cancel: "manager_ok m \<Longrightarrow> manager_ok (fst (cancel_id run_id m))"
  by (auto simp: cancel_id_def active_with_Some manager_bounded intro!: manager_publish split: option.split)

lemma ok_cancel_active_run: "manager_ok m \<Longrightarrow> manager_ok (cancel_active_run m)"
  by (auto simp: cancel_active_run_def ok_cancel split: option.split)

lemma ok_complete: "manager_ok m \<Longrightarrow> manager_ok (complete run_id code path partial m)"
  by (auto simp: complete_def active_with_Some manager_bounded intro!: manager_publish split: option.split)

lemma set_tl_subset: "set (tl xs) \<subseteq> set xs"
  by (cases xs) auto

lemma bounded_log:
  "bounded_progress p \<Longrightarrow> length logs \<le> 64 \<Longrightarrow> set logs \<subseteq> insert (bounded_text msg 256) (set (pr_logs p)) \<Longrightarrow>
   bounded_progress (p\<lparr>pr_logs := logs\<rparr>)"
  using bounded_text_length [of msg 256] by (auto simp: bounded_progress_def)

lemma ok_failure:
  assumes "manager_ok m"
  shows "manager_ok (failure run_id e throughput m)"
proof (cases "active_with run_id m")
  case (Some a)
  let ?logs = "pr_logs (ac_progress a) @ [bounded_text (message e) 256]"
  have bounded: "bounded_progress (ac_progress a)" using Some assms by (auto simp: active_with_Some manager_bounded)
  have "bounded_progress ((ac_progress a)\<lparr>pr_logs := (if 64 < length ?logs then tl ?logs else ?logs)\<rparr>)"
    using bounded set_tl_subset [of ?logs]
    by (intro bounded_log [where msg = "message e"]) (auto simp: bounded_progress_def)
  then show ?thesis
    using Some by (auto simp: failure_def Let_def bounded_progress_def intro!: manager_publish)
qed (use assms in \<open>simp add: failure_def\<close>)

definition progressed :: "u64 \<Rightarrow> bytes option \<Rightarrow> progress \<Rightarrow> progress" where
  "progressed completed msg p = (let p = p\<lparr>pr_completed := min completed (pr_total p)\<rparr> in
     case msg of None \<Rightarrow> p
     | Some text_ \<Rightarrow> p\<lparr>pr_logs := (if length (pr_logs p) = 64 then tl (pr_logs p) else pr_logs p) @ [bounded_text text_ 256]\<rparr>)"

lemma progressed_bounded: "bounded_progress p \<Longrightarrow> bounded_progress (progressed completed msg p)"
proof -
  assume p: "bounded_progress p"
  let ?p = "p\<lparr>pr_completed := min completed (pr_total p)\<rparr>"
  have q: "bounded_progress ?p" using p by (simp add: bounded_progress_def)
  have "bounded_progress (?p\<lparr>pr_logs := (if length (pr_logs p) = 64 then tl (pr_logs p) else pr_logs p)
      @ [bounded_text x 256]\<rparr>)" for x
    using p set_tl_subset [of "pr_logs p"]
    by (intro bounded_log [OF q, where msg = x]) (auto simp: bounded_progress_def)
  with q show ?thesis by (auto simp: progressed_def Let_def split: option.split)
qed

lemma progressed_outcome: "same_outcome p q \<Longrightarrow> same_outcome (progressed completed msg p) q"
  by (simp add: progressed_def same_outcome_def Let_def split: option.split)

lemma report_progress_eq: "report_progress now later run_id completed msg m = (case active_with run_id m of
     None \<Rightarrow> m
   | Some a \<Rightarrow> let p = progressed completed msg (ac_progress a)
       in if from_millis 100 \<le> now - ac_last_publish a then publish p (a\<lparr>ac_last_publish := later\<rparr>) m
          else m\<lparr>rm_active := Some (a\<lparr>ac_progress := p\<rparr>)\<rparr>)"
  by (simp add: report_progress_def progressed_def Let_def split: option.split)

lemma ok_progress:
  assumes "manager_ok m"
  shows "manager_ok (report_progress now later run_id completed msg m)"
proof (cases "active_with run_id m")
  case (Some a)
  then have a: "rm_active m = Some a" "bounded_progress (ac_progress a)"
    using assms by (auto simp: active_with_Some manager_bounded)
  moreover obtain q where "rm_updates m = Some q" "same_outcome (ac_progress a) q" "bounded_progress q"
    using assms a(1) by (auto simp: manager_ok_def)
  ultimately show ?thesis
    using Some by (simp add: report_progress_eq Let_def manager_publish progressed_bounded)
      (simp add: manager_ok_def progressed_bounded progressed_outcome)
qed (use assms in \<open>simp add: report_progress_def\<close>)

lemma reachable_ok: "run_reachable s \<Longrightarrow> manager_ok (sy_manager s)"
proof (induction rule: run_reachable.induct)
  case (steps s s')
  from steps.hyps(2) show ?case
  proof cases
    case (begins cancel run_id started now planned m u)
    then show ?thesis using ok_begin [OF steps.IH, of run_id started cancel now planned] by simp
  next
    case (refused run_id started cancel now planned m e)
    then show ?thesis using ok_begin [OF steps.IH, of run_id started cancel now planned] by simp
  qed (use steps.IH in \<open>simp_all add: ok_cancel ok_cancel_active_run ok_failure ok_progress ok_complete
      finish_outcome_def drop_handle_def\<close>)
qed (simp add: manager_ok_def RunManager_default_def)

text \<open>An active run always has a handle that will end it.\<close>

definition handled :: "run_system \<Rightarrow> bool" where
  "handled s \<longleftrightarrow> (\<forall>a. rm_active (sy_manager s) = Some a \<and> is_active (pr_state (ac_progress a)) \<longrightarrow>
     sy_handles s (ac_cancel a) = Some (pr_run_id (ac_progress a)))"

lemma active_begin: "begin_run run_id started cancel now planned m = (m', Ok u) \<Longrightarrow>
    (\<exists>a. rm_active m' = Some a \<and> ac_cancel a = cancel \<and> pr_run_id (ac_progress a) = run_id)"
  by (auto simp: begin_run_def Let_def split: if_splits)

lemma active_refused: "begin_run run_id started cancel now planned m = (m', Err e) \<Longrightarrow> m' = m"
  by (auto simp: begin_run_def Let_def split: if_splits)

text \<open>Cancelling, failing and reporting keep the token and the id of the active run, and make no run active.\<close>

definition same_run :: "run_manager \<Rightarrow> run_manager \<Rightarrow> bool" where
  "same_run m m' \<longleftrightarrow> (\<forall>a'. rm_active m' = Some a' \<longrightarrow> (\<exists>a. rm_active m = Some a \<and> ac_cancel a = ac_cancel a'
     \<and> pr_run_id (ac_progress a) = pr_run_id (ac_progress a')
     \<and> (is_active (pr_state (ac_progress a')) \<longrightarrow> is_active (pr_state (ac_progress a)))))"

lemma same_run_steps:
  "same_run m (fst (cancel_id run_id m))" "same_run m (cancel_active_run m)" "same_run m (failure run_id e throughput m)"
  "same_run m (report_progress now later run_id completed msg m)" "same_run m (complete run_id code path partial m)"
proof -
  show cancel: "same_run m (fst (cancel_id run_id m))" for run_id
    by (auto simp: same_run_def cancel_id_def active_with_Some publish_def split: option.split)
  then show "same_run m (cancel_active_run m)"
    by (auto simp: cancel_active_run_def same_run_def split: option.split)
  show "same_run m (failure run_id e throughput m)"
    by (auto simp: same_run_def failure_def active_with_Some publish_def Let_def is_active_def split: option.split)
  show "same_run m (report_progress now later run_id completed msg m)"
    by (auto simp: same_run_def report_progress_eq active_with_Some publish_def Let_def progressed_def split: option.split)
  show "same_run m (complete run_id code path partial m)"
    by (auto simp: same_run_def complete_def active_with_Some publish_def split: option.split)
qed

lemma handled_same_run: "handled s \<Longrightarrow> same_run (sy_manager s) m \<Longrightarrow> handled (s\<lparr>sy_manager := m\<rparr>)"
  unfolding handled_def same_run_def by simp metis

lemma complete_inactive:
  "rm_active (complete run_id code path partial m) = Some a \<Longrightarrow> is_active (pr_state (ac_progress a)) \<Longrightarrow>
   pr_run_id (ac_progress a) \<noteq> run_id \<and> rm_active m = Some a"
  by (auto simp: complete_def active_with_def publish_def split: option.splits if_splits)

lemma handled_ends:
  assumes "handled s" "sy_handles s cancel = Some run_id" "rm_active m = rm_active (sy_manager s)"
  shows "handled (s\<lparr>sy_manager := complete run_id code path partial m, sy_handles := (sy_handles s)(cancel := None)\<rparr>)"
  unfolding handled_def
proof (intro allI impI, elim conjE)
  fix a assume a: "rm_active (sy_manager (s\<lparr>sy_manager := complete run_id code path partial m,
      sy_handles := (sy_handles s)(cancel := None)\<rparr>)) = Some a" "is_active (pr_state (ac_progress a))"
  then have "pr_run_id (ac_progress a) \<noteq> run_id" "rm_active (sy_manager s) = Some a"
    using complete_inactive [of run_id code path partial m a] assms(3) by auto
  with assms(1,2) a(2) show "sy_handles (s\<lparr>sy_manager := complete run_id code path partial m,
      sy_handles := (sy_handles s)(cancel := None)\<rparr>) (ac_cancel a) = Some (pr_run_id (ac_progress a))"
    by (auto simp: handled_def)
qed

lemma reachable_handled: "run_reachable s \<Longrightarrow> handled s"
proof (induction rule: run_reachable.induct)
  case (steps s s')
  from steps.hyps(2) show ?case
  proof cases
    case (begins cancel run_id started now planned m u)
    with active_begin [OF begins(3)] show ?thesis by (auto simp: handled_def)
  next
    case (refused run_id started cancel now planned m e)
    with active_refused [OF refused(2)] steps.IH show ?thesis by simp
  next
    case (drops cancel run_id)
    then show ?thesis
      using handled_ends [OF steps.IH drops(2), of "(sy_manager s)\<lparr>rm_fired := insert cancel (rm_fired (sy_manager s))\<rparr>"]
      by (simp add: drop_handle_def)
  qed (use steps.IH in \<open>auto simp: handled_same_run same_run_steps finish_outcome_def intro: handled_ends\<close>)
qed (simp add: handled_def RunManager_default_def)

lemma begin_inactive:
  "rm_active m = Some a \<Longrightarrow> \<not> is_active (pr_state (ac_progress a)) \<Longrightarrow>
   snd (begin_run run_id started cancel now planned m) = Ok ()"
  by (simp add: begin_run_def Let_def)

lemma complete_active:
  "active_with run_id m = Some a \<Longrightarrow> \<exists>b. rm_active (complete run_id code path partial m) = Some b
     \<and> pr_state (ac_progress b) = from_exit_code code partial \<and> pr_exit_code (ac_progress b) = Some code"
  by (simp add: complete_def publish_def)

text \<open>
  C34. One measurement at a time, and never a stuck one. In every reachable state of the run manager:
  counts and logs of the current run are bounded, and subscribers see its state, exit code and report as they are.
  While a run is active no other begins; it has a handle, and finishing or dropping that handle, with whatever code, lets the next run begin.
  Cancelling it by its id fires its token, and a cancelled run that is dropped ends as cancelled with
  status 130. A handle of another run changes nothing of it.
\<close>

theorem run_manager_exclusive:
  assumes "run_reachable s" "rm_active (sy_manager s) = Some a"
  shows "pr_completed (ac_progress a) \<le> pr_total (ac_progress a) \<and> length (pr_logs (ac_progress a)) \<le> 64
      \<and> (\<forall>l \<in> set (pr_logs (ac_progress a)). length l \<le> 256)
    \<and> (\<exists>q. rm_updates (sy_manager s) = Some q \<and> pr_run_id q = pr_run_id (ac_progress a) \<and> pr_state q = pr_state (ac_progress a)
        \<and> pr_exit_code q = pr_exit_code (ac_progress a) \<and> pr_report_path q = pr_report_path (ac_progress a))
    \<and> (is_active (pr_state (ac_progress a)) \<longrightarrow>
        (let m = sy_manager s; run = pr_run_id (ac_progress a); token = ac_cancel a in
          (\<forall>run' started cancel now planned. \<exists>e. begin_run run' started cancel now planned m = (m, Err e))
          \<and> sy_handles s token = Some run
          \<and> (\<forall>code path partial run' started cancel now planned.
              snd (begin_run run' started cancel now planned (finish_outcome run code path partial m)) = Ok ()
              \<and> snd (begin_run run' started cancel now planned (drop_handle run token m)) = Ok ())
          \<and> snd (cancel_id run m) = Ok () \<and> token \<in> rm_fired (fst (cancel_id run m))
          \<and> (\<exists>p. snapshot (drop_handle run token (fst (cancel_id run m))) = Some p
              \<and> pr_state p = Ms_Cancelled \<and> pr_exit_code p = Some 130)))
    \<and> (\<forall>run. run \<noteq> pr_run_id (ac_progress a) \<longrightarrow>
        (\<forall>code path partial. finish_outcome run code path partial (sy_manager s) = sy_manager s)
        \<and> (\<forall>token. snapshot (drop_handle run token (sy_manager s)) = Some (ac_progress a)
            \<and> rm_updates (drop_handle run token (sy_manager s)) = rm_updates (sy_manager s))
        \<and> (\<forall>e throughput. failure run e throughput (sy_manager s) = sy_manager s)
        \<and> (\<forall>now later completed msg. report_progress now later run completed msg (sy_manager s) = sy_manager s))"
proof -
  let ?m = "sy_manager s" and ?run = "pr_run_id (ac_progress a)" and ?token = "ac_cancel a"
  have ok: "bounded_progress (ac_progress a)" "\<exists>q. rm_updates ?m = Some q \<and> same_outcome (ac_progress a) q"
    using reachable_ok [OF assms(1)] assms(2) by (auto simp: manager_ok_def)
  have with_a: "active_with ?run ?m = Some a" using assms(2) by (simp add: active_with_Some)
  have next_run: "snd (begin_run run' started cancel now planned (complete ?run code path partial m)) = Ok ()"
    if "active_with ?run m = Some b" for run' started cancel now planned code path partial m b
    using complete_active [OF that, of code path partial] begin_inactive by (metis from_exit_code_final)
  have fired: "active_with ?run (?m\<lparr>rm_fired := f\<rparr>) = Some a" for f
    using with_a by (simp add: active_with_def)
  have active: "(\<forall>run' started cancel now planned. \<exists>e. begin_run run' started cancel now planned ?m = (?m, Err e))
      \<and> sy_handles s ?token = Some ?run \<and> snd (cancel_id ?run ?m) = Ok () \<and> ?token \<in> rm_fired (fst (cancel_id ?run ?m))
      \<and> (\<exists>p. snapshot (drop_handle ?run ?token (fst (cancel_id ?run ?m))) = Some p
          \<and> pr_state p = Ms_Cancelled \<and> pr_exit_code p = Some 130)" if "is_active (pr_state (ac_progress a))"
    using that assms(2) with_a reachable_handled [OF assms(1)]
    by (auto simp: begin_run_def handled_def cancel_id_def publish_def drop_handle_def complete_def active_with_def snapshot_def
        from_exit_code_def CANCELLED_def SUCCESS_def PARTIAL_FAILURE_def is_interrupted_def)
  have stale: "active_with run (?m\<lparr>rm_fired := f\<rparr>) = None" "active_with run ?m = None" if "run \<noteq> ?run" for run f
    using assms(2) that by (simp_all add: active_with_def)
  show ?thesis
    using ok active next_run [OF with_a] next_run [OF fired] stale assms(2)
    by (auto simp: bounded_progress_def same_outcome_def Let_def finish_outcome_def drop_handle_def complete_def failure_def
        report_progress_def snapshot_def)
qed

text \<open>One run of two steps, just begun.\<close>

definition sample_system :: run_system where
  "sample_system = \<lparr>sy_manager = fst (begin_run [82] [] 1 0 2 RunManager_default), sy_handles = [1 \<mapsto> [82]], sy_begun = [[82]]\<rparr>"

lemma sample_system_reachable: "run_reachable sample_system"
proof (rule run_reachable.steps [OF run_reachable.initially])
  have "begin_run [82] [] 1 0 2 RunManager_default = (fst (begin_run [82] [] 1 0 2 RunManager_default), Ok ())"
    by (simp add: begin_run_def RunManager_default_def Let_def)
  from run_step.begins [where s = "\<lparr>sy_manager = RunManager_default, sy_handles = Map.empty, sy_begun = []\<rparr>", OF _ ] this
  show "run_step \<lparr>sy_manager = RunManager_default, sy_handles = Map.empty, sy_begun = []\<rparr> sample_system"
    by (force simp: sample_system_def)
qed

lemma run_manager_exclusive_witness:
  "\<exists>e. snd (begin_run [83] [] 2 0 5 (sy_manager sample_system)) = Err e"
proof -
  have active: "rm_active (sy_manager sample_system) = Some \<lparr>ac_progress = \<lparr>pr_run_id = [82], pr_started_utc = [],
      pr_state = Ms_Running, pr_completed = 0, pr_total = 2, pr_logs = [], pr_exit_code = None, pr_report_path = None\<rparr>,
      ac_cancel = 1, ac_last_publish = 0\<rparr>"
    by (simp add: sample_system_def begin_run_def RunManager_default_def Let_def)
  from run_manager_exclusive [OF sample_system_reachable active]
  have "\<forall>run' started cancel now planned. \<exists>e. begin_run run' started cancel now planned (sy_manager sample_system)
      = (sy_manager sample_system, Err e)"
    by (simp add: is_active_def Let_def)
  then show ?thesis by (metis snd_conv)
qed

end
