(* ===== verification/Backup_Artifacts.thy ===== *)
theory Backup_Artifacts
  imports Tuning_Plan Dns_Roundtrip Dns_Safety Ordered_Map "HOL-Library.List_Lexorder"
begin

text \<open>
  \<open>crates/tuning/src/backup/artifacts.rs\<close>: the files of a backup. Registry exports with their
  writer, the QoS policies of a CLIXML file over the events of the XML reader, and the rows of the
  adapter tables over what the CSV reader gives. Strings are their UTF-8 bytes.
\<close>

section \<open>Registry exports\<close>

definition backup_invalid :: "bytes \<Rightarrow> ('a, tuning_error) outcome" where
  "backup_invalid m = Err (Backup_Invalid m)"

datatype registry_value = Reg_Missing | Reg_Dword u32 | Reg_String bytes

type_synonym registry_backup = "(bytes, (bytes, registry_value) btree) btree"

text \<open>A schema lists the keys with their vals, and which of them are strings.\<close>

type_synonym registry_schema = "(bytes \<times> (bytes \<times> bool) list) list"

definition registry_path :: "string list \<Rightarrow> bytes" where
  "registry_path parts = join_with [backslash] (map lit parts)"

definition profile_path :: "string list" where
  "profile_path = [''SOFTWARE'', ''Microsoft'', ''Windows NT'', ''CurrentVersion'', ''Multimedia'', ''SystemProfile'']"

definition system_profile_schema :: registry_schema where
  "system_profile_schema =
     [(registry_path (''HKEY_LOCAL_MACHINE'' # profile_path),
        [(lit ''SystemResponsiveness'', False), (lit ''NetworkThrottlingIndex'', False)]),
      (registry_path (''HKEY_LOCAL_MACHINE'' # profile_path @ [''Tasks'', ''Audio'']),
        [(lit ''Priority'', False), (lit ''BackgroundOnly'', False), (lit ''Clock Rate'', False),
         (lit ''SchedulingCategory'', True), (lit ''SFIOPriority'', True)])]"

definition afd_schema :: registry_schema where
  "afd_schema =
     [(registry_path [''HKEY_LOCAL_MACHINE'', ''SYSTEM'', ''CurrentControlSet'', ''Services'', ''AFD'', ''Parameters''],
        [(lit ''FastSendDatagramThreshold'', False)])]"

definition tcpip_qos_schema :: registry_schema where
  "tcpip_qos_schema =
     [(registry_path [''HKEY_LOCAL_MACHINE'', ''SYSTEM'', ''CurrentControlSet'', ''Services'', ''Tcpip'', ''QoS''],
        [(lit ''Do not use NLA'', True)])]"

subsection \<open>Writing\<close>

definition REG_HEADER :: bytes where
  "REG_HEADER = lit ''Windows Registry Editor Version 5.00''"

definition crlf :: bytes where "crlf = [13, 10]"
definition quote :: u8 where "quote = 34"

definition hex_lower :: "nat \<Rightarrow> u8" where
  "hex_lower d = (if d < 10 then word_of_nat (48 + d) else word_of_nat (87 + d))"

text \<open>\<open>{value:08x}\<close>\<close>

fun hex_digits :: "nat \<Rightarrow> nat \<Rightarrow> bytes" where
  "hex_digits 0 n = []"
| "hex_digits (Suc k) n = hex_digits k (n div 16) @ [hex_lower (n mod 16)]"

definition replace_byte :: "u8 \<Rightarrow> bytes \<Rightarrow> bytes \<Rightarrow> bytes" where
  "replace_byte b r s = concat (map (\<lambda>x. if x = b then r else [x]) s)"

definition render_value :: "bytes \<times> registry_value \<Rightarrow> bytes" where
  "render_value nv = [quote] @ fst nv @ [quote, 61] @ (case snd nv of
       Reg_Missing \<Rightarrow> lit ''-''
     | Reg_Dword v \<Rightarrow> lit ''dword:'' @ hex_digits 8 (unat v)
     | Reg_String s \<Rightarrow> [quote] @ replace_byte quote [backslash, quote]
         (replace_byte backslash [backslash, backslash] s) @ [quote]) @ crlf"

definition render_group :: "bytes \<times> (bytes \<times> registry_value) list \<Rightarrow> bytes" where
  "render_group g = crlf @ lit ''[HKEY_LOCAL_MACHINE'' @ [backslash] @ fst g @ lit '']'' @ crlf
     @ concat (map render_value (snd g))"

definition render_registry_export :: "(bytes \<times> (bytes \<times> registry_value) list) list \<Rightarrow> bytes" where
  "render_registry_export groups = REG_HEADER @ crlf @ concat (map render_group groups)"

subsection \<open>Reading\<close>

text \<open>\<open>String::from_utf16\<close>: surrogates come in pairs.\<close>

fun decode_utf16 :: "u16 list \<Rightarrow> nat list option" where
  "decode_utf16 [] = Some []"
| "decode_utf16 (u # us) =
     (if u < 0xD800 \<or> 0xDFFF < u then map_option ((#) (unat u)) (decode_utf16 us)
      else if 0xDBFF < u then None
      else (case us of [] \<Rightarrow> None | v # vs \<Rightarrow>
        if 0xDC00 \<le> v \<and> v \<le> 0xDFFF
        then map_option ((#) (65536 + (unat u - 0xD800) * 1024 + (unat v - 0xDC00))) (decode_utf16 vs)
        else None))"

definition encode_char :: "nat \<Rightarrow> bytes" where
  "encode_char c = map word_of_nat
     (if c < 128 then [c]
      else if c < 2048 then [192 + c div 64, 128 + c mod 64]
      else if c < 65536 then [224 + c div 4096, 128 + c div 64 mod 64, 128 + c mod 64]
      else [240 + c div 262144, 128 + c div 4096 mod 64, 128 + c div 64 mod 64, 128 + c mod 64])"

fun le_pairs :: "bytes \<Rightarrow> u16 list" where
  "le_pairs (a # b # s) = word_of_nat (unat a + 256 * unat b) # le_pairs s"
| "le_pairs _ = []"

definition decode_reg :: "bytes \<Rightarrow> (bytes, tuning_error) outcome" where
  "decode_reg b =
     (if starts_with b [255, 254] then
        if (length b - 2) mod 2 \<noteq> 0 then backup_invalid (lit ''registry backup has malformed UTF-16'')
        else (case decode_utf16 (le_pairs (drop 2 b)) of
          None \<Rightarrow> backup_invalid (lit ''registry backup has invalid UTF-16'')
        | Some cs \<Rightarrow> Ok (concat (map encode_char cs)))
      else let s = (if starts_with b [239, 187, 191] then drop 3 b else b)
        in if valid_utf8 s then Ok s else backup_invalid (lit ''registry backup is not text''))"

text \<open>The scan is by characters; the ones it looks for are single bytes, and no other character contains them.\<close>

fun unescape_reg :: "bytes \<Rightarrow> (bytes, tuning_error) outcome" where
  "unescape_reg [] = Ok []"
| "unescape_reg (ch # s) =
     (if ch = backslash then
        (case s of [] \<Rightarrow> backup_invalid (lit ''registry string has an unsupported escape'')
         | e # r \<Rightarrow> if e = backslash \<or> e = quote then and_then (unescape_reg r) (\<lambda>t. Ok (e # t))
             else backup_invalid (lit ''registry string has an unsupported escape''))
      else if ch = 0 \<or> ch = 13 \<or> ch = 10 then backup_invalid (lit ''registry string contains a control character'')
      else and_then (unescape_reg s) (\<lambda>t. Ok (ch # t)))"

text \<open>\<open>strip_prefix(a).and_then(|v| v.strip_suffix(b))\<close>\<close>

definition between :: "u8 \<Rightarrow> u8 \<Rightarrow> bytes \<Rightarrow> bytes option" where
  "between a b s = (case s of [] \<Rightarrow> None
     | x # t \<Rightarrow> if x = a \<and> t \<noteq> [] \<and> last t = b then Some (butlast t) else None)"

definition parse_reg_string :: "bytes \<Rightarrow> (bytes, tuning_error) outcome" where
  "parse_reg_string data = (case between quote quote data of
     None \<Rightarrow> backup_invalid (lit ''invalid registry string'')
   | Some inner \<Rightarrow> unescape_reg inner)"

definition split_once :: "u8 \<Rightarrow> bytes \<Rightarrow> (bytes \<times> bytes) option" where
  "split_once d s = (let a = takeWhile (\<lambda>b. b \<noteq> d) s in
     if length a = length s then None else Some (a, drop (Suc (length a)) s))"

definition hex_of :: "u8 \<Rightarrow> nat option" where
  "hex_of b = (if 48 \<le> b \<and> b \<le> 57 then Some (unat b - 48)
     else if 65 \<le> b \<and> b \<le> 70 then Some (unat b - 55)
     else if 97 \<le> b \<and> b \<le> 102 then Some (unat b - 87) else None)"

definition hex_value :: "bytes \<Rightarrow> nat" where
  "hex_value s = foldl (\<lambda>n b. 16 * n + (case hex_of b of None \<Rightarrow> 0 | Some d \<Rightarrow> d)) 0 s"

text \<open>Eight hexadecimal digits always fit, so that \<open>from_str_radix\<close> gives their value.\<close>

definition parse_reg_dword :: "bytes \<Rightarrow> (u32, tuning_error) outcome" where
  "parse_reg_dword data = (let hex = drop 6 data in
     if starts_with data (lit ''dword:'') \<and> length hex = 8 \<and> (\<forall>b \<in> set hex. hex_of b \<noteq> None)
     then Ok (word_of_nat (hex_value hex))
     else backup_invalid (lit ''invalid registry DWORD''))"

definition reg_value :: "bool \<Rightarrow> bytes \<Rightarrow> (registry_value, tuning_error) outcome" where
  "reg_value string_type data =
     (if data = lit ''-'' then Ok Reg_Missing
      else if string_type then and_then (parse_reg_string data) (\<lambda>s. Ok (Reg_String s))
      else and_then (parse_reg_dword data) (\<lambda>v. Ok (Reg_Dword v)))"

text \<open>\<open>line.trim().trim_start_matches('\u{feff}')\<close>\<close>

fun trim_bom :: "bytes \<Rightarrow> bytes" where
  "trim_bom (a # b # c # s) = (if [a, b, c] = [239, 187, 191] then trim_bom s else a # b # c # s)"
| "trim_bom s = s"

type_synonym reg_allowed = "(bytes, (bytes, bool) btree) btree"

definition btree_of :: "('k::linorder \<times> 'v) list \<Rightarrow> ('k, 'v) btree" where
  "btree_of kvs = fold (\<lambda>(k, v). bt_insert k v) kvs []"

definition allowed_of :: "registry_schema \<Rightarrow> reg_allowed" where
  "allowed_of schema = btree_of (map (\<lambda>(sec, vals). (sec, btree_of vals)) schema)"

record reg_reader =
  rr_header :: bool
  rr_current :: "bytes option"
  rr_result :: registry_backup

definition reg_entry :: "reg_allowed \<Rightarrow> bytes \<Rightarrow> reg_reader \<Rightarrow> (reg_reader, tuning_error) outcome" where
  "reg_entry allowed line st = (case rr_current st of
     None \<Rightarrow> backup_invalid (lit ''registry value appears before a key'')
   | Some key \<Rightarrow> (case split_once 61 line of
       None \<Rightarrow> backup_invalid (lit ''malformed registry value'')
     | Some (quoted_name, data) \<Rightarrow> (case between quote quote quoted_name of
         None \<Rightarrow> backup_invalid (lit ''malformed registry value name'')
       | Some name \<Rightarrow> (case Option.bind (bt_get allowed key) (\<lambda>vals. bt_get vals name) of
           None \<Rightarrow> backup_invalid (lit ''unapproved registry value'')
         | Some string_type \<Rightarrow> and_then (reg_value string_type data) (\<lambda>v.
             (case bt_get (rr_result st) key of
               None \<Rightarrow> Panic
             | Some entries \<Rightarrow>
                 if bt_get entries name \<noteq> None then backup_invalid (lit ''duplicate registry value'')
                 else Ok (st\<lparr>rr_result := bt_insert key (bt_insert name v entries) (rr_result st)\<rparr>)))))))"

definition reg_line :: "reg_allowed \<Rightarrow> bytes \<Rightarrow> reg_reader \<Rightarrow> (reg_reader, tuning_error) outcome" where
  "reg_line allowed raw st = (let line = trim_bom (trim raw) in
     if line = [] then Ok st
     else if \<not> rr_header st then
       if line \<noteq> REG_HEADER then backup_invalid (lit ''registry backup has an invalid header'')
       else Ok (st\<lparr>rr_header := True\<rparr>)
     else (case between 91 93 line of
       Some key \<Rightarrow>
         if bt_get allowed key = None \<or> bt_get (rr_result st) key \<noteq> None
         then backup_invalid (lit ''registry backup contains an unknown or duplicate key'')
         else Ok (st\<lparr>rr_result := bt_insert key [] (rr_result st), rr_current := Some key\<rparr>)
     | None \<Rightarrow> reg_entry allowed line st))"

fun reg_lines :: "reg_allowed \<Rightarrow> bytes list \<Rightarrow> reg_reader \<Rightarrow> (reg_reader, tuning_error) outcome" where
  "reg_lines allowed [] st = Ok st"
| "reg_lines allowed (l # ls) st = and_then (reg_line allowed l st) (reg_lines allowed ls)"

text \<open>Every key and every value of the schema must be there.\<close>

fun complete_keys :: "reg_allowed \<Rightarrow> registry_backup \<Rightarrow> (unit, tuning_error) outcome" where
  "complete_keys [] result = Ok ()"
| "complete_keys ((key, vals) # allowed) result = (case bt_get result key of
     None \<Rightarrow> Panic
   | Some parsed \<Rightarrow>
       if length parsed \<noteq> length vals \<or> (\<exists>name \<in> set (map fst vals). bt_get parsed name = None)
       then backup_invalid (lit ''registry backup is missing required value state'')
       else complete_keys allowed result)"

definition parse_registry_sections :: "bytes \<Rightarrow> registry_schema \<Rightarrow> (registry_backup, tuning_error) outcome" where
  "parse_registry_sections b schema = and_then (decode_reg b) (\<lambda>s.
     let allowed = allowed_of schema in
     and_then (reg_lines allowed (lines s) \<lparr>rr_header = False, rr_current = None, rr_result = []\<rparr>) (\<lambda>st.
       if \<not> rr_header st \<or> length (rr_result st) \<noteq> length allowed
       then backup_invalid (lit ''registry backup is missing a required key'')
       else and_then (complete_keys allowed (rr_result st)) (\<lambda>_. Ok (rr_result st))))"

definition parse_registry_backup :: "bytes \<Rightarrow> bool \<Rightarrow> (registry_backup, tuning_error) outcome" where
  "parse_registry_backup b system_profile =
     parse_registry_sections b (if system_profile then system_profile_schema else afd_schema)"

definition parse_tcpip_qos_backup :: "bytes \<Rightarrow> (registry_backup, tuning_error) outcome" where
  "parse_tcpip_qos_backup b = parse_registry_sections b tcpip_qos_schema"

section \<open>An export is read back\<close>

lemma bt_get_insert_same [simp]: "bt_get (bt_insert k v m) k = Some v"
  unfolding bt_insert_def by (induction m) auto

lemma bt_get_insert_other [simp]: "j \<noteq> k \<Longrightarrow> bt_get (bt_insert k v m) j = bt_get m j"
  unfolding bt_insert_def by (induction m) auto

lemma bt_insert_twice [simp]: "bt_insert k v (bt_insert k w m) = bt_insert k v m"
  unfolding bt_insert_def by (induction m) auto

lemma fold_insert_get:
  "bt_get (fold (\<lambda>(k, v). bt_insert k v) kvs m) j = (case map_of (rev kvs) j of None \<Rightarrow> bt_get m j | Some v \<Rightarrow> Some v)"
  by (induction kvs arbitrary: m) (auto simp: map_add_def split: option.split)

lemma btree_of_get: "bt_get (btree_of kvs) = map_of (rev kvs)"
  by (rule ext) (simp add: btree_of_def fold_insert_get split: option.split)

lemma map_of_rev_distinct: "distinct (map fst kvs) \<Longrightarrow> map_of (rev kvs) = map_of kvs"
  by (rule map_of_eqI) (auto simp: rev_map [symmetric] map_of_eq_Some_iff)

lemma btree_of_distinct: "distinct (map fst kvs) \<Longrightarrow> bt_get (btree_of kvs) = map_of kvs"
  by (simp add: btree_of_get map_of_rev_distinct)

lemma btree_of_valid: "bt_valid (btree_of kvs)"
proof -
  have "bt_valid m \<Longrightarrow> bt_valid (fold (\<lambda>(k, v). bt_insert k v) kvs m)" for m
    by (induction kvs arbitrary: m) (auto simp: bt_insert_def bt_valid_adjust)
  then show ?thesis by (simp add: btree_of_def)
qed

lemma btree_of_keys: "fst ` set (btree_of kvs) = fst ` set kvs"
  using bt_get_None [of "btree_of kvs"] map_of_eq_None_iff [of "rev kvs"] by (auto simp: btree_of_get image_iff)

lemma btree_of_length: "length (btree_of kvs) = card (fst ` set kvs)"
  using distinct_card [OF bt.keys_distinct [OF btree_of_valid [of kvs]]] by (simp add: btree_of_keys)

lemma btree_of_entry: "(k, v) \<in> set (btree_of kvs) \<Longrightarrow> (k, v) \<in> set kvs"
  using bt_get_entry [OF btree_of_valid, of k v kvs] map_of_SomeD [of "rev kvs" k v] by (simp add: btree_of_get)

subsection \<open>Lines\<close>

lemma split_on_lines: "\<forall>l \<in> set ls. d \<notin> set l \<Longrightarrow> split_on d (concat (map (\<lambda>l. l @ [d]) ls)) = ls @ [[]]"
proof (induction ls)
  case (Cons l ls)
  have "split_on d (l @ d # s) = l # split_on d s" if "d \<notin> set l" for l s
    using that by (induction l) auto
  with Cons show ?case by simp
qed simp

lemma lines_crlf:
  assumes "\<forall>l \<in> set ls. 10 \<notin> set l"
  shows "lines (concat (map (\<lambda>l. l @ crlf) ls)) = ls"
proof -
  have "split_on 10 (concat (map (\<lambda>l. l @ crlf) ls)) = map (\<lambda>l. l @ [13]) ls @ [[]]"
    using split_on_lines [of "map (\<lambda>l. l @ [13]) ls" 10] assms by (simp add: comp_def crlf_def)
  then show ?thesis by (simp add: lines_def Let_def comp_def)
qed

lemma char_chunks_append: "valid_utf8 a \<Longrightarrow> char_chunks (a @ b) = char_chunks a @ char_chunks b"
  by (induction a rule: valid_utf8.induct) (auto simp: Let_def split: if_splits list.splits)

lemma concat_char_chunks: "concat (char_chunks s) = s"
  by (induction s rule: char_chunks.induct) (simp_all add: Let_def del: One_nat_def)

definition visible :: "u8 \<Rightarrow> bool" where
  "visible b \<longleftrightarrow> 33 \<le> b \<and> b < 127"

lemma visible_ascii: "visible b \<Longrightarrow> b < 128"
  by (simp add: visible_def word_less_nat_alt)

lemma blank_visible: "visible b \<Longrightarrow> \<not> blank [b]"
  by (auto simp: blank_def visible_def is_whitespace_def word_less_nat_alt word_le_nat_alt)

lemma char_chunks_visible: "visible a \<Longrightarrow> char_chunks (a # s) = [a] # char_chunks s"
  using visible_ascii by (simp add: Let_def)

text \<open>A line between two visible characters is not trimmed.\<close>

lemma trim_visible:
  assumes "visible a" "visible b" "valid_utf8 m"
  shows "trim (a # m @ [b]) = a # m @ [b]"
proof -
  have "char_chunks (a # m @ [b]) = [a] # char_chunks m @ [[b]]"
    using assms char_chunks_append [OF assms(3), of "[b]"] char_chunks_visible [of b "[]"]
    by (simp add: char_chunks_visible del: char_chunks.simps(2))
  then show ?thesis
    using assms by (simp add: trim_def blank_visible concat_char_chunks dropWhile_append3)
qed

lemma trim_bom_visible: "visible a \<Longrightarrow> trim_bom (a # s) = a # s"
  by (cases s rule: list.exhaust [case_product list.exhaust]; cases "tl s") (auto simp: visible_def word_less_nat_alt)

subsection \<open>Values\<close>

lemma hex_digits_length: "length (hex_digits k n) = k"
  by (induction k arbitrary: n) simp_all

lemma hex_of_lower: "d < 16 \<Longrightarrow> hex_of (hex_lower d) = Some d"
proof -
  assume "d < 16"
  then have "d \<in> set [0..<16]" by simp
  then show ?thesis by (simp add: upt_rec) (elim disjE, simp_all add: hex_lower_def hex_of_def)
qed

lemma hex_digits_hex: "b \<in> set (hex_digits k n) \<Longrightarrow> hex_of b \<noteq> None"
  by (induction k arbitrary: n) (auto simp: hex_of_lower)

lemma hex_value_digits: "hex_value (hex_digits k n) = n mod 16 ^ k"
proof (induction k arbitrary: n)
  case (Suc k)
  have "hex_value (hex_digits (Suc k) n) = 16 * hex_value (hex_digits k (n div 16)) + n mod 16"
    by (simp add: hex_value_def hex_of_lower)
  then show ?case using Suc by (simp add: mod_mult2_eq)
qed (simp add: hex_value_def)

lemma hex_visible: "hex_of b \<noteq> None \<Longrightarrow> visible b"
  by (auto simp: hex_of_def visible_def word_le_nat_alt word_less_nat_alt split: if_splits)

lemma parse_reg_dword_digits: "parse_reg_dword (lit ''dword:'' @ hex_digits 8 (unat v)) = Ok v"
proof -
  have "unat v < 16 ^ 8" using unsigned_less [of v] by simp
  then have "hex_value (hex_digits 8 (unat v)) = unat v" by (simp only: hex_value_digits mod_less)
  then show ?thesis
    using hex_digits_hex by (fastforce simp: parse_reg_dword_def Let_def starts_with_def lit_def hex_digits_length)
qed

definition escape_reg :: "bytes \<Rightarrow> bytes" where
  "escape_reg s = replace_byte quote [backslash, quote] (replace_byte backslash [backslash, backslash] s)"

lemma escape_reg_simps [simp]:
  "escape_reg [] = []"
  "escape_reg (b # s) = (if b = backslash then [backslash, backslash] else if b = quote then [backslash, quote] else [b])
     @ escape_reg s"
  by (simp_all add: escape_reg_def replace_byte_def backslash_def quote_def)

lemma unescape_escape: "\<forall>b \<in> set s. b \<noteq> 0 \<and> b \<noteq> 13 \<and> b \<noteq> 10 \<Longrightarrow> unescape_reg (escape_reg s) = Ok s"
  by (induction s) (auto simp: backslash_def quote_def)

text \<open>An encoded character is one ASCII byte or has none.\<close>

lemma utf8_char_ascii:
  assumes "utf8_char c"
  shows "(\<exists>a. c = [a] \<and> a < 128) \<or> (\<forall>b \<in> set c. 128 \<le> b)"
proof (cases c)
  case (Cons a t)
  show ?thesis
  proof (cases "a < 128")
    case True
    have "valid_utf8 (c @ [])" using assms unfolding utf8_char_def by (metis valid_utf8.simps(1))
    then have "valid_utf8 t" using Cons True by simp
    then have "t = []" using assms Cons valid_utf8_lead by (cases t) (auto simp: utf8_char_def)
    with Cons True show ?thesis by simp
  next
    case False
    with assms Cons show ?thesis by (auto simp: utf8_char_def continuation_def)
  qed
qed (use assms in \<open>simp add: utf8_char_def\<close>)

lemma escape_reg_append: "escape_reg (a @ b) = escape_reg a @ escape_reg b"
  by (induction a) simp_all

lemma escape_reg_plain: "backslash \<notin> set s \<Longrightarrow> quote \<notin> set s \<Longrightarrow> escape_reg s = s"
  by (induction s) auto

lemma valid_utf8_escape: "valid_utf8 s \<Longrightarrow> valid_utf8 (escape_reg s)"
proof (induction s rule: valid_utf8_induct)
  case (Char c s)
  have "\<not> 128 \<le> backslash" "\<not> 128 \<le> quote" by (simp_all add: backslash_def quote_def)
  with utf8_char_ascii [OF Char.hyps(1)] consider a where "c = [a]" "a < 128" | "escape_reg c = c"
    by (metis escape_reg_plain)
  then show ?case
  proof cases
    case 1
    then show ?thesis using Char.IH by (simp add: backslash_def quote_def)
  next
    case 2
    then show ?thesis using Char.IH Char.hyps(1) by (simp add: escape_reg_append utf8_char_def)
  qed
qed simp

lemma between_inner [simp]: "between a b (a # s @ [b]) = Some s"
  by (simp add: between_def)

lemma parse_reg_string_escape:
  "\<forall>b \<in> set s. b \<noteq> 0 \<and> b \<noteq> 13 \<and> b \<noteq> 10 \<Longrightarrow> parse_reg_string ([quote] @ escape_reg s @ [quote]) = Ok s"
  by (simp add: parse_reg_string_def unescape_escape)

text \<open>The values a schema can hold: a string is text without control characters that end a line or a string.\<close>

fun value_fits :: "bool \<Rightarrow> registry_value \<Rightarrow> bool" where
  "value_fits string_type Reg_Missing \<longleftrightarrow> True"
| "value_fits string_type (Reg_Dword v) \<longleftrightarrow> \<not> string_type"
| "value_fits string_type (Reg_String s) \<longleftrightarrow> string_type \<and> valid_utf8 s \<and> (\<forall>b \<in> set s. b \<noteq> 0 \<and> b \<noteq> 13 \<and> b \<noteq> 10)"

definition render_data :: "registry_value \<Rightarrow> bytes" where
  "render_data v = (case v of
       Reg_Missing \<Rightarrow> lit ''-''
     | Reg_Dword v \<Rightarrow> lit ''dword:'' @ hex_digits 8 (unat v)
     | Reg_String s \<Rightarrow> [quote] @ escape_reg s @ [quote])"

lemma reg_value_render: "value_fits string_type v \<Longrightarrow> reg_value string_type (render_data v) = Ok v"
  using parse_reg_string_escape parse_reg_dword_digits
  by (cases v) (auto simp: render_data_def reg_value_def quote_def lit_def)

lemma escape_bytes: "set (escape_reg s) \<subseteq> insert backslash (insert quote (set s))"
  by (induction s) auto

lemma render_data_line:
  assumes "value_fits string_type v"
  shows "valid_utf8 (render_data v)" "10 \<notin> set (render_data v)"
    "\<exists>m b. render_data v = m @ [b] \<and> valid_utf8 m \<and> visible b"
proof -
  have digits: "\<exists>m b. hex_digits 8 n = m @ [b] \<and> (\<forall>x \<in> set m. x < 128) \<and> visible b" for n
    using hex_visible [OF hex_digits_hex, of _ 8 n] visible_ascii
    by (intro exI [of _ "butlast (hex_digits 8 n)"] exI [of _ "last (hex_digits 8 n)"])
      (metis append_butlast_last_id hex_digits_length in_set_butlastD last_in_set list.size(3) zero_neq_numeral)
  have lits: "visible (45::u8)" "visible (34::u8)" "\<forall>b \<in> set (lit ''dword:''). b < 128"
    by (simp_all add: visible_def lit_def)
  show last_byte: "\<exists>m b. render_data v = m @ [b] \<and> valid_utf8 m \<and> visible b"
  proof (cases v)
    case Reg_Missing
    then show ?thesis using lits by (intro exI [of _ "[]"] exI [of _ 45]) (simp add: render_data_def lit_def)
  next
    case (Reg_Dword w)
    obtain m b where m: "hex_digits 8 (unat w) = m @ [b]" "\<forall>x \<in> set m. x < 128" "visible b"
      using digits by blast
    then have "valid_utf8 (lit ''dword:'' @ m)" using lits(3) by (intro valid_utf8_ascii) auto
    with m Reg_Dword show ?thesis
      by (intro exI [of _ "lit ''dword:'' @ m"] exI [of _ b]) (simp add: render_data_def)
  next
    case (Reg_String s)
    then show ?thesis
      using lits assms valid_utf8_escape by (intro exI [of _ "quote # escape_reg s"] exI [of _ quote])
        (simp add: render_data_def quote_def)
  qed
  then obtain m b where m: "render_data v = m @ [b]" "valid_utf8 m" "visible b" by blast
  then show "valid_utf8 (render_data v)"
    using valid_utf8_append [OF m(2), of "[b]"] visible_ascii [OF m(3)] by simp
  show "10 \<notin> set (render_data v)"
  proof (cases v)
    case (Reg_Dword w)
    have "\<not> visible (10::u8)" by (simp add: visible_def)
    then have "10 \<notin> set (hex_digits 8 (unat w))" using hex_visible hex_digits_hex by blast
    with Reg_Dword show ?thesis by (simp add: render_data_def lit_def)
  next
    case (Reg_String s)
    then show ?thesis using assms escape_bytes [of s]
      by (auto simp: render_data_def quote_def backslash_def)
  qed (simp add: render_data_def lit_def)
qed

subsection \<open>Exports\<close>

definition hklm :: "bytes \<Rightarrow> bytes" where
  "hklm key = lit ''HKEY_LOCAL_MACHINE'' @ [backslash] @ key"

definition value_line :: "bytes \<times> registry_value \<Rightarrow> bytes" where
  "value_line nv = [quote] @ fst nv @ [quote, 61] @ render_data (snd nv)"

definition key_line :: "bytes \<Rightarrow> bytes" where
  "key_line key = 91 # hklm key @ [93]"

definition group_lines :: "bytes \<times> (bytes \<times> registry_value) list \<Rightarrow> bytes list" where
  "group_lines g = [[], key_line (fst g)] @ map value_line (snd g)"

lemma render_lines:
  "render_registry_export groups = concat (map (\<lambda>l. l @ crlf) (REG_HEADER # concat (map group_lines groups)))"
proof -
  have line: "render_value = (\<lambda>nv. value_line nv @ crlf)"
    by (rule ext) (simp add: render_value_def value_line_def render_data_def escape_reg_def split: registry_value.split)
  then have "render_group g = concat (map (\<lambda>l. l @ crlf) (group_lines g))" for g
    by (simp add: render_group_def group_lines_def key_line_def hklm_def lit_def comp_def line)
  then show ?thesis by (induction groups) (simp_all add: render_registry_export_def)
qed

text \<open>Names and keys of a schema are printable, and names have neither quotes nor an equals sign.\<close>

definition printable :: "bytes \<Rightarrow> bool" where
  "printable s \<longleftrightarrow> (\<forall>b \<in> set s. 32 \<le> b \<and> b < 127)"

definition plain_schema :: "registry_schema \<Rightarrow> bool" where
  "plain_schema schema \<longleftrightarrow> distinct (map fst schema) \<and> (\<forall>(sec, specs) \<in> set schema. printable sec
     \<and> distinct (map fst specs) \<and> (\<forall>(name, t) \<in> set specs. printable name \<and> 61 \<notin> set name))"

text \<open>An export of a schema has its keys and values in order, each of the right type.\<close>

definition value_spec :: "bytes \<times> bool \<Rightarrow> bytes \<times> registry_value \<Rightarrow> bool" where
  "value_spec spec nv \<longleftrightarrow> fst spec = fst nv \<and> value_fits (snd spec) (snd nv)"

definition conforms :: "registry_schema \<Rightarrow> (bytes \<times> (bytes \<times> registry_value) list) list \<Rightarrow> bool" where
  "conforms schema groups \<longleftrightarrow>
     list_all2 (\<lambda>(sec, specs) (key, vals). sec = hklm key \<and> list_all2 value_spec specs vals) schema groups"

lemma printable_line: "printable s \<Longrightarrow> valid_utf8 s \<and> 10 \<notin> set s"
proof -
  assume s: "printable s"
  then have "\<forall>b \<in> set s. b < 128" by (auto simp: printable_def word_less_nat_alt)
  with s show ?thesis by (auto simp: printable_def intro: valid_utf8_ascii)
qed

lemma value_line_trim:
  assumes "printable name" "value_fits t v"
  shows "trim_bom (trim (value_line (name, v))) = value_line (name, v)" "valid_utf8 (value_line (name, v))"
    "10 \<notin> set (value_line (name, v))"
proof -
  obtain m b where d: "render_data v = m @ [b]" "valid_utf8 m" "visible b"
    using render_data_line(3) [OF assms(2)] by blast
  have q: "visible quote" by (simp add: visible_def quote_def)
  have name: "valid_utf8 name" "10 \<notin> set name" using printable_line [OF assms(1)] by auto
  have "valid_utf8 [quote, 61]" by (simp add: quote_def)
  then have inner: "valid_utf8 (name @ [quote, 61] @ m)" using name(1) d(2) by (intro valid_utf8_append)
  have line: "value_line (name, v) = quote # (name @ [quote, 61] @ m) @ [b]" by (simp add: value_line_def d(1))
  show "trim_bom (trim (value_line (name, v))) = value_line (name, v)"
    unfolding line trim_visible [OF q d(3) inner] by (rule trim_bom_visible [OF q])
  show "valid_utf8 (value_line (name, v))"
    using valid_utf8_append [OF inner, of "[b]"] visible_ascii [OF d(3)] unfolding line by (simp add: quote_def)
  show "10 \<notin> set (value_line (name, v))"
    using name(2) render_data_line(2) [OF assms(2)] by (simp add: value_line_def quote_def)
qed

lemma key_line_trim:
  assumes "printable (hklm key)"
  shows "trim_bom (trim (key_line key)) = key_line key" "valid_utf8 (key_line key)" "10 \<notin> set (key_line key)"
proof -
  have v: "visible (91::u8)" "visible (93::u8)" by (simp_all add: visible_def)
  have inner: "valid_utf8 (hklm key)" "10 \<notin> set (hklm key)" using printable_line [OF assms] by auto
  show "trim_bom (trim (key_line key)) = key_line key"
    unfolding key_line_def trim_visible [OF v inner(1)] by (rule trim_bom_visible [OF v(1)])
  show "valid_utf8 (key_line key)"
    using valid_utf8_append [OF inner(1), of "[93]"] by (simp add: key_line_def)
  show "10 \<notin> set (key_line key)" using inner(2) by (simp add: key_line_def)
qed

lemma reg_line_value:
  assumes "printable name" "61 \<notin> set name" "value_fits t v" "bt_get e name = None"
    "Option.bind (bt_get allowed key) (\<lambda>vals. bt_get vals name) = Some t"
  shows "reg_line allowed (value_line (name, v)) \<lparr>rr_header = True, rr_current = Some key, rr_result = bt_insert key e base\<rparr>
    = Ok \<lparr>rr_header = True, rr_current = Some key, rr_result = bt_insert key (bt_insert name v e) base\<rparr>"
proof -
  have quoted: "takeWhile (\<lambda>b. b \<noteq> 61) (value_line (name, v)) = quote # name @ [quote]"
    using assms(2) by (subst value_line_def, simp add: quote_def, subst takeWhile_append2) auto
  have "split_once 61 (value_line (name, v)) = Some (quote # name @ [quote], render_data v)"
    unfolding split_once_def quoted Let_def by (simp add: value_line_def)
  moreover have "between 91 93 (value_line (name, v)) = None" "value_line (name, v) \<noteq> []"
    by (simp_all add: value_line_def between_def quote_def)
  ultimately show ?thesis
    using assms value_line_trim(1) [OF assms(1,3)] reg_value_render [OF assms(3)]
    by (simp add: reg_line_def reg_entry_def Let_def)
qed

lemma reg_lines_append: "reg_lines allowed (ls @ ls') st = and_then (reg_lines allowed ls st) (reg_lines allowed ls')"
  by (induction ls arbitrary: st) (simp_all add: and_then_assoc cong: and_then_cong)

lemma reg_lines_values:
  assumes "list_all2 value_spec specs vals" "\<forall>(name, t) \<in> set specs. printable name \<and> 61 \<notin> set name"
    "distinct (map fst specs)" "\<forall>(name, t) \<in> set specs. bt_get e name = None"
    "\<forall>(name, t) \<in> set specs. Option.bind (bt_get allowed key) (\<lambda>vals. bt_get vals name) = Some t"
  shows "reg_lines allowed (map value_line vals) \<lparr>rr_header = True, rr_current = Some key, rr_result = bt_insert key e base\<rparr>
    = Ok \<lparr>rr_header = True, rr_current = Some key,
          rr_result = bt_insert key (fold (\<lambda>(k, v). bt_insert k v) vals e) base\<rparr>"
  using assms
proof (induction specs vals arbitrary: e rule: list_all2_induct)
  case (Cons spec specs nv vals)
  obtain name t v where nt: "spec = (name, t)" "nv = (name, v)" "value_fits t v"
    using Cons.hyps(1) by (cases spec; cases nv) (auto simp: value_spec_def)
  have "reg_line allowed (value_line (name, v)) \<lparr>rr_header = True, rr_current = Some key, rr_result = bt_insert key e base\<rparr>
      = Ok \<lparr>rr_header = True, rr_current = Some key, rr_result = bt_insert key (bt_insert name v e) base\<rparr>"
    using Cons.prems nt by (intro reg_line_value [where t = t]) auto
  moreover have "\<forall>(n, t) \<in> set specs. bt_get (bt_insert name v e) n = None"
    using Cons.prems nt(1) by (fastforce simp: image_iff)
  ultimately show ?case using Cons.IH [of "bt_insert name v e"] Cons.prems nt by simp
qed simp

lemma blank_line: "reg_line allowed [] st = Ok st"
  by (simp add: reg_line_def trim_def)

lemma reg_line_key:
  assumes "printable (hklm key)" "bt_get allowed (hklm key) \<noteq> None" "bt_get base (hklm key) = None"
  shows "reg_line allowed (key_line key) \<lparr>rr_header = True, rr_current = cur, rr_result = base\<rparr>
    = Ok \<lparr>rr_header = True, rr_current = Some (hklm key), rr_result = bt_insert (hklm key) [] base\<rparr>"
proof -
  have "between 91 93 (key_line key) = Some (hklm key)" "key_line key \<noteq> []" by (simp_all add: key_line_def)
  then show ?thesis using assms key_line_trim(1) [OF assms(1)] by (auto simp: reg_line_def Let_def)
qed

lemma reg_lines_group:
  assumes "list_all2 value_spec specs vals" "\<forall>(name, t) \<in> set specs. printable name \<and> 61 \<notin> set name"
    "distinct (map fst specs)" "printable (hklm key)" "bt_get allowed (hklm key) = Some (btree_of specs)"
    "bt_get base (hklm key) = None"
  shows "reg_lines allowed (group_lines (key, vals)) \<lparr>rr_header = True, rr_current = cur, rr_result = base\<rparr>
    = Ok \<lparr>rr_header = True, rr_current = Some (hklm key), rr_result = bt_insert (hklm key) (btree_of vals) base\<rparr>"
proof -
  have "reg_lines allowed (map value_line vals)
      \<lparr>rr_header = True, rr_current = Some (hklm key), rr_result = bt_insert (hklm key) [] base\<rparr>
    = Ok \<lparr>rr_header = True, rr_current = Some (hklm key),
        rr_result = bt_insert (hklm key) (fold (\<lambda>(k, v). bt_insert k v) vals []) base\<rparr>"
    using assms by (intro reg_lines_values) (auto simp: btree_of_distinct)
  then show ?thesis
    using assms by (simp add: group_lines_def blank_line reg_line_key btree_of_def)
qed

text \<open>What an export says, as the parser returns it.\<close>

definition exported :: "(bytes \<times> (bytes \<times> registry_value) list) list \<Rightarrow> (bytes \<times> (bytes, registry_value) btree) list" where
  "exported groups = map (\<lambda>(key, vals). (hklm key, btree_of vals)) groups"

lemma reg_lines_groups:
  assumes "list_all2 (\<lambda>(sec, specs) (key, vals). sec = hklm key \<and> list_all2 value_spec specs vals) schema groups"
    "\<forall>(sec, specs) \<in> set schema. printable sec \<and> distinct (map fst specs)
       \<and> (\<forall>(name, t) \<in> set specs. printable name \<and> 61 \<notin> set name)"
    "\<forall>(sec, specs) \<in> set schema. bt_get allowed sec = Some (btree_of specs)"
    "distinct (map fst schema)" "\<forall>(sec, specs) \<in> set schema. bt_get base sec = None"
  shows "\<exists>cur'. reg_lines allowed (concat (map group_lines groups))
      \<lparr>rr_header = True, rr_current = cur, rr_result = base\<rparr>
    = Ok \<lparr>rr_header = True, rr_current = cur', rr_result = fold (\<lambda>(k, v). bt_insert k v) (exported groups) base\<rparr>"
  using assms
proof (induction schema groups arbitrary: base cur rule: list_all2_induct)
  case (Cons s schema g groups)
  obtain specs key vals where sg: "s = (hklm key, specs)" "g = (key, vals)" "list_all2 value_spec specs vals"
    using Cons.hyps(1) by (cases s; cases g) auto
  let ?base = "bt_insert (hklm key) (btree_of vals) base"
  have "reg_lines allowed (group_lines (key, vals)) \<lparr>rr_header = True, rr_current = cur, rr_result = base\<rparr>
      = Ok \<lparr>rr_header = True, rr_current = Some (hklm key), rr_result = ?base\<rparr>"
    using Cons.prems sg by (intro reg_lines_group) auto
  moreover have "\<forall>(sec, specs) \<in> set schema. bt_get ?base sec = None"
    using Cons.prems sg(1) by (fastforce simp: image_iff)
  ultimately show ?case
    using Cons.IH [of ?base "Some (hklm key)"] Cons.prems sg by (simp add: reg_lines_append exported_def)
qed (simp add: exported_def)

lemma complete_keys_Ok:
  "\<forall>(key, vals) \<in> set allowed. \<exists>parsed. bt_get result key = Some parsed \<and> length parsed = length vals
     \<and> (\<forall>name \<in> set (map fst vals). bt_get parsed name \<noteq> None) \<Longrightarrow> complete_keys allowed result = Ok ()"
  by (induction allowed result rule: complete_keys.induct) fastforce+

lemma conforms_schema:
  assumes "conforms schema groups" "(sec, specs) \<in> set schema"
  obtains key vals where "(key, vals) \<in> set groups" "sec = hklm key" "map fst vals = map fst specs"
proof -
  have names: "list_all2 value_spec specs vals \<Longrightarrow> map fst vals = map fst specs" for specs vals
    by (induction specs vals rule: list_all2_induct) (auto simp: value_spec_def)
  obtain i where i: "i < length schema" "schema ! i = (sec, specs)" using assms(2) by (auto simp: in_set_conv_nth)
  then have "case groups ! i of (key, vals) \<Rightarrow> sec = hklm key \<and> list_all2 value_spec specs vals" "i < length groups"
    using assms(1) by (auto simp: conforms_def list_all2_conv_all_nth)
  then show ?thesis using that names nth_mem [of i groups] by (cases "groups ! i") auto
qed

lemma conforms_keys: "conforms schema groups \<Longrightarrow> map fst (exported groups) = map fst schema"
  unfolding conforms_def by (induction schema groups rule: list_all2_induct) (auto simp: exported_def)

lemma conforms_fits:
  assumes "plain_schema schema" "conforms schema groups" "(key, vals) \<in> set groups"
  shows "printable (hklm key)" "\<forall>(name, v) \<in> set vals. printable name \<and> (\<exists>t. value_fits t v)"
proof -
  obtain i where i: "i < length groups" "groups ! i = (key, vals)" using assms(3) by (auto simp: in_set_conv_nth)
  obtain sec specs where s: "schema ! i = (sec, specs)" by fastforce
  have "sec = hklm key" "list_all2 value_spec specs vals" "i < length schema"
    using assms(2) i s by (auto simp: conforms_def list_all2_conv_all_nth)
  then have m: "(hklm key, specs) \<in> set schema" using s nth_mem by metis
  then have "printable (hklm key)" "\<forall>(name, t) \<in> set specs. printable name"
    using assms(1) by (auto simp: plain_schema_def)
  moreover from \<open>list_all2 value_spec specs vals\<close> have "\<forall>nv \<in> set vals. \<exists>spec \<in> set specs. value_spec spec nv"
    by (induction specs vals rule: list_all2_induct) auto
  ultimately show "printable (hklm key)" "\<forall>(name, v) \<in> set vals. printable name \<and> (\<exists>t. value_fits t v)"
    by (fastforce simp: value_spec_def)+
qed

lemma export_line:
  assumes "plain_schema schema" "conforms schema groups" "l \<in> set (REG_HEADER # concat (map group_lines groups))"
  shows "valid_utf8 l \<and> 10 \<notin> set l"
proof -
  have header: "valid_utf8 REG_HEADER \<and> 10 \<notin> set REG_HEADER" by (simp add: REG_HEADER_def lit_def)
  have "valid_utf8 l \<and> 10 \<notin> set l" if "(key, vals) \<in> set groups" "l \<in> set (group_lines (key, vals))" for key vals
  proof -
    have "valid_utf8 (value_line (n, v)) \<and> 10 \<notin> set (value_line (n, v))" if "(n, v) \<in> set vals" for n v
      using conforms_fits(2) [OF assms(1,2) \<open>(key, vals) \<in> set groups\<close>] that by (auto dest: value_line_trim(2,3))
    then show ?thesis
      using that(2) conforms_fits(1) [OF assms(1,2) that(1)] by (auto simp: group_lines_def key_line_trim)
  qed
  with header assms(3) show ?thesis by auto
qed

lemma export_text:
  assumes "plain_schema schema" "conforms schema groups"
  shows "decode_reg (render_registry_export groups) = Ok (render_registry_export groups)"
    "lines (render_registry_export groups) = REG_HEADER # concat (map group_lines groups)"
proof -
  have crlf_valid: "valid_utf8 crlf" by (simp add: crlf_def)
  have "valid_utf8 (concat (map (\<lambda>l. l @ crlf) ls))" if "\<forall>l \<in> set ls. valid_utf8 l" for ls
    using that by (induction ls) (simp_all add: valid_utf8_append crlf_valid)
  then have "valid_utf8 (render_registry_export groups)"
    unfolding render_lines using export_line [OF assms] by blast
  moreover have "\<not> starts_with (render_registry_export groups) [255, 254]"
      "\<not> starts_with (render_registry_export groups) [239, 187, 191]"
    by (simp_all add: render_registry_export_def REG_HEADER_def starts_with_def lit_def)
  ultimately show "decode_reg (render_registry_export groups) = Ok (render_registry_export groups)"
    by (simp add: decode_reg_def)
  show "lines (render_registry_export groups) = REG_HEADER # concat (map group_lines groups)"
    unfolding render_lines using export_line [OF assms] by (intro lines_crlf) blast
qed

lemma header_line: "reg_line allowed REG_HEADER \<lparr>rr_header = False, rr_current = None, rr_result = []\<rparr>
    = Ok \<lparr>rr_header = True, rr_current = None, rr_result = []\<rparr>"
proof -
  have header: "REG_HEADER = 87 # lit ''indows Registry Editor Version 5.0'' @ [48]" by (simp add: REG_HEADER_def lit_def)
  have "valid_utf8 (lit ''indows Registry Editor Version 5.0'')" by (simp add: lit_def)
  then have "trim REG_HEADER = REG_HEADER"
    unfolding header by (intro trim_visible) (simp_all add: visible_def)
  moreover have "trim_bom REG_HEADER = REG_HEADER"
    unfolding header by (rule trim_bom_visible) (simp add: visible_def)
  moreover have "REG_HEADER \<noteq> []" by (simp add: REG_HEADER_def lit_def)
  ultimately show ?thesis by (simp add: reg_line_def Let_def)
qed

lemma allowed_sections:
  assumes "distinct (map fst schema)" "(sec, specs) \<in> set schema"
  shows "bt_get (allowed_of schema) sec = Some (btree_of specs)"
proof -
  have "map fst (map (\<lambda>(sec, vals). (sec, btree_of vals)) schema) = map fst schema"
    by (simp add: case_prod_beta)
  then have "distinct (map fst (map (\<lambda>(sec, vals). (sec, btree_of vals)) schema))" using assms(1) by (simp only:)
  with assms(2) show ?thesis unfolding allowed_of_def
    by (subst btree_of_distinct) (auto intro!: map_of_is_SomeI)
qed

lemma export_complete:
  assumes "conforms schema groups" "distinct (map fst (exported groups))"
  shows "complete_keys (allowed_of schema) (btree_of (exported groups)) = Ok ()"
proof (rule complete_keys_Ok, clarify)
  fix sec allowed_vals assume "(sec, allowed_vals) \<in> set (allowed_of schema)"
  then have "(sec, allowed_vals) \<in> set (map (\<lambda>(sec, vals). (sec, btree_of vals)) schema)"
    unfolding allowed_of_def by (rule btree_of_entry)
  then obtain specs where specs: "(sec, specs) \<in> set schema" "allowed_vals = btree_of specs" by auto
  obtain key vals where kv: "(key, vals) \<in> set groups" "sec = hklm key" "map fst vals = map fst specs"
    using conforms_schema [OF assms(1) specs(1)] .
  have "(sec, btree_of vals) \<in> set (exported groups)" using kv by (force simp: exported_def)
  then have "bt_get (btree_of (exported groups)) sec = Some (btree_of vals)"
    using assms(2) by (simp add: btree_of_distinct)
  moreover have "fst ` set vals = fst ` set specs" using kv(3) by (metis list.set_map)
  then have "length (btree_of vals) = length (btree_of specs)"
    "\<forall>name \<in> set (map fst (btree_of specs)). bt_get (btree_of vals) name \<noteq> None"
    by (simp_all add: btree_of_length bt_get_None btree_of_keys)
  ultimately show "\<exists>parsed. bt_get (btree_of (exported groups)) sec = Some parsed
      \<and> length parsed = length allowed_vals \<and> (\<forall>name \<in> set (map fst allowed_vals). bt_get parsed name \<noteq> None)"
    using specs(2) by blast
qed

lemma registry_export_parsed:
  assumes "plain_schema schema" "conforms schema groups"
  shows "parse_registry_sections (render_registry_export groups) schema = Ok (btree_of (exported groups))"
proof -
  have schema: "distinct (map fst schema)" "\<forall>(sec, specs) \<in> set schema. printable sec \<and> distinct (map fst specs)
       \<and> (\<forall>(name, t) \<in> set specs. printable name \<and> 61 \<notin> set name)"
    using assms(1) by (auto simp: plain_schema_def)
  have "list_all2 (\<lambda>(sec, specs) (key, vals). sec = hklm key \<and> list_all2 value_spec specs vals) schema groups"
    using assms(2) unfolding conforms_def .
  from reg_lines_groups [OF this schema(2) _ schema(1), of "allowed_of schema" "[]" None]
  obtain cur' where "reg_lines (allowed_of schema) (concat (map group_lines groups))
      \<lparr>rr_header = True, rr_current = None, rr_result = []\<rparr>
      = Ok \<lparr>rr_header = True, rr_current = cur', rr_result = btree_of (exported groups)\<rparr>"
    using allowed_sections [OF schema(1)] by (auto simp: btree_of_def)
  then have read: "reg_lines (allowed_of schema) (lines (render_registry_export groups))
      \<lparr>rr_header = False, rr_current = None, rr_result = []\<rparr>
      = Ok \<lparr>rr_header = True, rr_current = cur', rr_result = btree_of (exported groups)\<rparr>"
    by (simp add: export_text [OF assms] header_line)
  have keys: "fst ` set (exported groups) = fst ` set schema" "distinct (map fst (exported groups))"
    using conforms_keys [OF assms(2)] schema(1) by (metis list.set_map, metis)
  have "length (btree_of (exported groups)) = length (allowed_of schema)"
    by (simp add: btree_of_length allowed_of_def keys(1) image_image case_prod_beta)
  then show ?thesis
    using export_text(1) [OF assms] read export_complete [OF assms(2) keys(2)]
    by (simp add: parse_registry_sections_def Let_def)
qed

lemma registry_schemas_plain: "plain_schema system_profile_schema" "plain_schema afd_schema" "plain_schema tcpip_qos_schema"
  by (simp_all add: plain_schema_def printable_def system_profile_schema_def afd_schema_def tcpip_qos_schema_def
      registry_path_def profile_path_def lit_def backslash_def)

lemma exported_lookup:
  assumes "plain_schema schema" "conforms schema groups" "(key, vals) \<in> set groups"
  shows "bt_get (btree_of (exported groups)) (hklm key) = Some (btree_of vals)"
    "(name, v) \<in> set vals \<Longrightarrow> bt_get (btree_of vals) name = Some v"
proof -
  have "distinct (map fst (exported groups))"
    using conforms_keys [OF assms(2)] assms(1) by (simp add: plain_schema_def)
  moreover have "(hklm key, btree_of vals) \<in> set (exported groups)" using assms(3) by (force simp: exported_def)
  ultimately show "bt_get (btree_of (exported groups)) (hklm key) = Some (btree_of vals)"
    by (simp add: btree_of_distinct)
  obtain i where i: "i < length groups" "groups ! i = (key, vals)" using assms(3) by (auto simp: in_set_conv_nth)
  obtain sec specs where s: "schema ! i = (sec, specs)" by fastforce
  have "list_all2 value_spec specs vals" "(sec, specs) \<in> set schema"
    using assms(2) i s nth_mem [of i schema] by (auto simp: conforms_def list_all2_conv_all_nth)
  moreover have "list_all2 value_spec specs vals \<Longrightarrow> map fst vals = map fst specs"
    by (induction specs vals rule: list_all2_induct) (auto simp: value_spec_def)
  ultimately have "distinct (map fst vals)" using assms(1) by (auto simp: plain_schema_def)
  then show "(name, v) \<in> set vals \<Longrightarrow> bt_get (btree_of vals) name = Some v"
    by (simp add: btree_of_distinct)
qed

text \<open>
  C30. The registry exports of a backup are read back exactly. For each of the three exports the
  program writes, and all values of the right types (strings of any characters but NUL and line ends,
  quotes and backslashes included), the parser accepts the written file and every key gives every
  value that was written, missing values included, and nothing else.
\<close>

theorem registry_roundtrip:
  assumes "(parser, schema) \<in> {(\<lambda>b. parse_registry_backup b True, system_profile_schema),
      (\<lambda>b. parse_registry_backup b False, afd_schema), (parse_tcpip_qos_backup, tcpip_qos_schema)}"
    and "conforms schema groups"
  shows "\<exists>backup. parser (render_registry_export groups) = Ok backup
    \<and> map fst backup = sort (map fst schema)
    \<and> (\<forall>(key, vals) \<in> set groups. \<exists>entries. bt_get backup (hklm key) = Some entries
        \<and> set (map fst entries) = set (map fst vals)
        \<and> (\<forall>(name, v) \<in> set vals. bt_get entries name = Some v))"
proof -
  have plain: "plain_schema schema" using assms(1) registry_schemas_plain by auto
  have "parser (render_registry_export groups) = Ok (btree_of (exported groups))"
    using assms(1) registry_export_parsed [OF plain assms(2)]
    by (auto simp: parse_registry_backup_def parse_tcpip_qos_backup_def)
  moreover have "map fst (btree_of (exported groups)) = sort (map fst schema)"
  proof (rule sorted_distinct_set_unique)
    show "set (map fst (btree_of (exported groups))) = set (sort (map fst schema))"
      using conforms_keys [OF assms(2)] by (metis btree_of_keys list.set_map set_sort)
    show "distinct (sort (map fst schema))" using plain by (simp add: plain_schema_def)
  qed (use btree_of_valid [of "exported groups"] bt.keys_distinct in \<open>auto simp: bt_valid_def strict_sorted_iff\<close>)
  moreover have "set (map fst (btree_of vals)) = set (map fst vals)" for vals :: "(bytes \<times> registry_value) list"
    by (simp add: btree_of_keys)
  ultimately show ?thesis using exported_lookup [OF plain assms(2)] by fastforce
qed

lemma registry_roundtrip_witness:
  "\<exists>backup. parse_tcpip_qos_backup (render_registry_export
      [(join_with [backslash] [lit ''SYSTEM'', lit ''CurrentControlSet'', lit ''Services'', lit ''Tcpip'', lit ''QoS''],
        [(lit ''Do not use NLA'', Reg_String [97, 92, 98, 34, 99])])]) = Ok backup"
proof -
  have "conforms tcpip_qos_schema
      [(join_with [backslash] [lit ''SYSTEM'', lit ''CurrentControlSet'', lit ''Services'', lit ''Tcpip'', lit ''QoS''],
        [(lit ''Do not use NLA'', Reg_String [97, 92, 98, 34, 99])])]"
    by (simp add: conforms_def tcpip_qos_schema_def hklm_def registry_path_def value_spec_def)
  from registry_roundtrip [OF _ this, of parse_tcpip_qos_backup] show ?thesis by auto
qed

end
