(* ===== verification/Trusted_Io.thy ===== *)
theory Trusted_Io
  imports Tuning_Plan
begin

text \<open>
  \<open>crates/tuning/src/backup/trusted_io.rs\<close>, \<open>persist.rs\<close> and \<open>provider.rs\<close>: directories and files that
  are identified by the object behind their handle, bounded reads, and the removal of an owned
  directory, as they are built for Windows. The calls of the operating system are fields of a record
  over a state of their own; what the code relies on is stated as a locale.
\<close>

section \<open>Operations on a state\<close>

type_synonym ('s, 'a) io = "'s \<Rightarrow> ('a, tuning_error) outcome \<times> 's"

definition io_return :: "'a \<Rightarrow> ('s, 'a) io" where
  "io_return a s = (Ok a, s)"

definition io_fail :: "tuning_error \<Rightarrow> ('s, 'a) io" where
  "io_fail e s = (Err e, s)"

definition io_lift :: "('a, tuning_error) outcome \<Rightarrow> ('s, 'a) io" where
  "io_lift r s = (r, s)"

definition io_bind :: "('s, 'a) io \<Rightarrow> ('a \<Rightarrow> ('s, 'b) io) \<Rightarrow> ('s, 'b) io" where
  "io_bind m k s = (case m s of (Ok a, s') \<Rightarrow> k a s' | (Err e, s') \<Rightarrow> (Err e, s') | (Panic, s') \<Rightarrow> (Panic, s'))"

text \<open>\<open>match\<close> on the result of an operation.\<close>

definition io_match :: "('s, 'a) io \<Rightarrow> ('a \<Rightarrow> ('s, 'b) io) \<Rightarrow> (tuning_error \<Rightarrow> ('s, 'b) io) \<Rightarrow> ('s, 'b) io" where
  "io_match m k f s = (case m s of (Ok a, s') \<Rightarrow> k a s' | (Err e, s') \<Rightarrow> f e s' | (Panic, s') \<Rightarrow> (Panic, s'))"

text \<open>A call of the system, with its error mapped (\<open>map_err\<close>), and one that cannot fail.\<close>

definition io_call :: "('e \<Rightarrow> tuning_error) \<Rightarrow> ('s \<Rightarrow> ('e + 'a) \<times> 's) \<Rightarrow> ('s, 'a) io" where
  "io_call f m s = (case m s of (Inr a, s') \<Rightarrow> (Ok a, s') | (Inl e, s') \<Rightarrow> (Err (f e), s'))"

definition io_ask :: "('s \<Rightarrow> 'a \<times> 's) \<Rightarrow> ('s, 'a) io" where
  "io_ask m s = (case m s of (a, s') \<Rightarrow> (Ok a, s'))"

definition io_unless :: "bool \<Rightarrow> tuning_error \<Rightarrow> ('s, unit) io" where
  "io_unless ok e = (if ok then io_return () else io_fail e)"

section \<open>Windows paths\<close>

text \<open>
  \<open>Path::parent\<close>, \<open>join\<close> and \<open>is_absolute\<close> of Windows paths without a network or verbatim prefix;
  both slashes separate, and the parent of an entry of a drive is its root.
\<close>

definition is_separator :: "u8 \<Rightarrow> bool" where
  "is_separator b \<longleftrightarrow> b = backslash \<or> b = slash"

definition is_drive :: "bytes \<Rightarrow> bool" where
  "is_drive s \<longleftrightarrow> length s = 2 \<and> s ! 1 = 58"

definition path_parent :: "path \<Rightarrow> path option" where
  "path_parent p = (let s = rev (dropWhile is_separator (rev p)) in
     if s = [] \<or> is_drive s then None
     else let until = rev (dropWhile (\<lambda>b. \<not> is_separator b) (rev s));
              stem = rev (dropWhile is_separator (rev until))
       in if until = [] then (if is_drive (take 2 s) then Some (take 2 s) else Some [])
          else if stem = [] then Some (take 1 until)
          else if is_drive stem then Some (take 3 until)
          else Some stem)"

definition path_join :: "path \<Rightarrow> bytes \<Rightarrow> path" where
  "path_join p name = (if p = [] \<or> is_separator (last p) \<or> is_drive p then p @ name else p @ [backslash] @ name)"

definition is_absolute :: "path \<Rightarrow> bool" where
  "is_absolute p \<longleftrightarrow> 2 \<le> length p \<and> is_separator (p ! 0) \<and> is_separator (p ! 1)
     \<or> 3 \<le> length p \<and> is_drive (take 2 p) \<and> is_separator (p ! 2)"

text \<open>\<open>while let Some(path) = cursor\<close>: a path and its ancestors, the nearest first.\<close>

lemma path_parent_shorter: "path_parent p = Some q \<Longrightarrow> length q < length p"
proof -
  assume parent: "path_parent p = Some q"
  define s where "s = rev (dropWhile is_separator (rev p))"
  define until where "until = rev (dropWhile (\<lambda>b. \<not> is_separator b) (rev s))"
  define stem where "stem = rev (dropWhile is_separator (rev until))"
  have nonempty: "s \<noteq> []" "\<not> is_drive s"
    and q: "q \<in> {take 1 until, take 3 until, stem} \<or> until = [] \<and> (q = [] \<or> is_drive (take 2 s) \<and> q = take 2 s)"
    using parent by (auto simp: path_parent_def Let_def s_def [symmetric] until_def [symmetric] stem_def [symmetric]
        split: if_splits)
  have "length s \<le> length p" "length stem \<le> length until"
    unfolding s_def stem_def by (metis length_dropWhile_le length_rev)+
  moreover have "length until < length s"
  proof -
    have "\<not> is_separator (hd (rev s))"
      using hd_dropWhile [of is_separator "rev p"] nonempty(1) by (simp add: s_def)
    then have "dropWhile (\<lambda>b. \<not> is_separator b) (rev s) = dropWhile (\<lambda>b. \<not> is_separator b) (tl (rev s))"
      using nonempty(1) by (cases "rev s") auto
    also have "length \<dots> \<le> length (tl (rev s))" by (rule length_dropWhile_le)
    finally show ?thesis using nonempty(1) by (simp add: until_def) (metis Suc_pred le_imp_less_Suc length_greater_0_conv)
  qed
  moreover have "length (take 2 s) < length s" if "is_drive (take 2 s)"
    using that nonempty by (cases "length s = 2") (auto simp: is_drive_def)
  ultimately show ?thesis using q nonempty(1) by (cases s) (auto simp: min_def split: if_splits)
qed

function ancestors :: "path \<Rightarrow> path list" where
  "ancestors p = p # (case path_parent p of None \<Rightarrow> [] | Some q \<Rightarrow> ancestors q)"
  by pat_completeness auto
termination
  by (relation "measure length") (simp_all add: path_parent_shorter)

declare ancestors.simps [simp del]

section \<open>The operating system\<close>

datatype open_failure = Open_Not_Found | Open_Loop | Open_Other bytes

record file_info =
  fx_is_file :: bool
  fx_is_dir :: bool
  fx_reparse :: bool
  fx_len :: nat

record file_identity =
  fi_volume :: u32
  fi_index :: u64

type_synonym file_handle = nat

record link_info =
  lx_symlink :: bool
  lx_is_dir :: bool
  lx_is_file :: bool
  lx_reparse :: bool

text \<open>
  \<open>fo_open\<close> opens a directory or a file without following links; \<open>fo_information\<close> is
  \<open>GetFileInformationByHandle\<close>; \<open>fo_read h n\<close> reads from the start of the file, at most \<open>n\<close> bytes.
  \<open>fo_sddl\<close> gives whether the access list of a path is protected, and its owner, group (when asked
  for) and access list as text, which can fail on its own.
\<close>

record 's file_os =
  fo_open :: "bool \<Rightarrow> path \<Rightarrow> 's \<Rightarrow> (open_failure + file_handle) \<times> 's"
  fo_metadata :: "file_handle \<Rightarrow> 's \<Rightarrow> (bytes + file_info) \<times> 's"
  fo_information :: "file_handle \<Rightarrow> 's \<Rightarrow> (int + (u32 \<times> u32 \<times> u32)) \<times> 's"
  fo_read :: "file_handle \<Rightarrow> nat \<Rightarrow> 's \<Rightarrow> (bytes + bytes) \<times> 's"
  fo_symlink_metadata :: "path \<Rightarrow> 's \<Rightarrow> (bytes + link_info) \<times> 's"
  fo_sddl :: "bool \<Rightarrow> path \<Rightarrow> 's \<Rightarrow> (tuning_error + (bool \<times> (tuning_error + bytes))) \<times> 's"
  fo_exists :: "path \<Rightarrow> 's \<Rightarrow> bool \<times> 's"
  fo_rename :: "path \<Rightarrow> path \<Rightarrow> 's \<Rightarrow> (bytes + unit) \<times> 's"
  fo_remove_all :: "path \<Rightarrow> 's \<Rightarrow> (bytes + unit) \<times> 's"
  fo_move :: "path \<Rightarrow> path \<Rightarrow> 's \<Rightarrow> (int + unit) \<times> 's"

section \<open>Trusted directories and files\<close>

definition map_open_error :: "path \<Rightarrow> bytes \<Rightarrow> open_failure \<Rightarrow> tuning_error" where
  "map_open_error p operation e = (case e of
     Open_Not_Found \<Rightarrow> Backup_Missing p
   | Open_Loop \<Rightarrow> Backup_Invalid (lit ''refused linked path: '' @ lossy p)
   | Open_Other m \<Rightarrow> Tuning_Io operation m)"

definition open_file :: "'s file_os \<Rightarrow> path \<Rightarrow> bytes \<Rightarrow> ('s, file_handle) io" where
  "open_file os p operation = io_call (map_open_error p operation) (fo_open os False p)"

definition open_directory :: "'s file_os \<Rightarrow> path \<Rightarrow> bytes \<Rightarrow> ('s, file_handle) io" where
  "open_directory os p operation =
     io_bind (io_call (map_open_error p operation) (fo_open os True p)) (\<lambda>file.
     io_bind (io_call (Tuning_Io operation) (fo_metadata os file)) (\<lambda>metadata.
       if \<not> fx_is_dir metadata \<or> fx_reparse metadata
       then io_fail (Backup_Invalid (lossy p @ lit '' is not a regular non-reparse directory''))
       else io_return file))"

definition file_identity_of :: "u32 \<times> u32 \<times> u32 \<Rightarrow> file_identity" where
  "file_identity_of info = (case info of (volume, high, low) \<Rightarrow>
     \<lparr>fi_volume = volume, fi_index = push_bit 32 (ucast high) OR ucast low\<rparr>)"

definition identity :: "'s file_os \<Rightarrow> file_handle \<Rightarrow> bytes \<Rightarrow> ('s, file_identity) io" where
  "identity os file operation =
     io_bind (io_call (\<lambda>code. Native operation code (lit ''GetFileInformationByHandle failed'')) (fo_information os file))
       (\<lambda>info. io_return (file_identity_of info))"

record trusted_directory =
  td_path :: path
  td_handle :: file_handle
  td_identity :: file_identity

definition trusted_open :: "'s file_os \<Rightarrow> path \<Rightarrow> bytes \<Rightarrow> ('s, trusted_directory) io" where
  "trusted_open os p operation =
     io_bind (open_directory os p operation) (\<lambda>h.
     io_bind (identity os h operation) (\<lambda>i. io_return \<lparr>td_path = p, td_handle = h, td_identity = i\<rparr>))"

definition assert_path :: "'s file_os \<Rightarrow> trusted_directory \<Rightarrow> ('s, unit) io" where
  "assert_path os d =
     io_bind (open_directory os (td_path d) (lit ''reopen trusted directory'')) (\<lambda>h.
     io_bind (identity os h (lit ''identify trusted directory'')) (\<lambda>i.
       io_unless (i = td_identity d) (Backup_Invalid (lit ''trusted directory identity changed: '' @ lossy (td_path d)))))"

definition matches_path :: "'s file_os \<Rightarrow> trusted_directory \<Rightarrow> 's \<Rightarrow> bool \<times> 's" where
  "matches_path os d s = (case assert_path os d s of (Ok _, s') \<Rightarrow> (True, s') | (_, s') \<Rightarrow> (False, s'))"

text \<open>Windows has no directory flush: the renames write through.\<close>

definition directory_sync :: "trusted_directory \<Rightarrow> ('s, unit) io" where
  "directory_sync d = io_return ()"

definition directory_identity :: "'s file_os \<Rightarrow> path \<Rightarrow> ('s, file_identity) io" where
  "directory_identity os p = io_bind (trusted_open os p (lit ''identify directory'')) (\<lambda>d. io_return (td_identity d))"

text \<open>\<open>fresh\<close> is the name \<open>.network-lantern-disposal-\<close> with a random identifier.\<close>

definition remove_owned_directory :: "'s file_os \<Rightarrow> bytes \<Rightarrow> path \<Rightarrow> file_identity \<Rightarrow> ('s, unit) io" where
  "remove_owned_directory os fresh p owned =
     io_bind (directory_identity os p) (\<lambda>i.
     if i \<noteq> owned then io_fail (Backup_Invalid (lit ''refused to remove replaced directory: '' @ lossy p))
     else (case path_parent p of
       None \<Rightarrow> io_fail (Backup_Invalid (lit ''owned directory has no parent''))
     | Some parent \<Rightarrow> let disposal = path_join parent fresh in
         io_bind (io_ask (fo_exists os disposal)) (\<lambda>taken.
         if taken then io_fail (Backup_Invalid (lit ''cleanup disposal path collision''))
         else io_bind (io_call (Tuning_Io (lit ''isolate owned directory for cleanup'')) (fo_rename os p disposal)) (\<lambda>_.
           io_bind (directory_identity os disposal) (\<lambda>i.
           if i \<noteq> owned then io_fail (Backup_Invalid (lit ''owned directory identity changed during cleanup''))
           else io_bind (io_call (Tuning_Io (lit ''remove owned directory'')) (fo_remove_all os disposal)) (\<lambda>_.
             io_bind (trusted_open os parent (lit ''open cleanup parent'')) directory_sync))))))"

definition assert_held :: "'s file_os \<Rightarrow> trusted_directory option \<Rightarrow> ('s, unit) io" where
  "assert_held os d = (case d of None \<Rightarrow> io_return () | Some d \<Rightarrow> assert_path os d)"

definition read_bounded :: "'s file_os \<Rightarrow> path \<Rightarrow> nat \<Rightarrow> bytes \<Rightarrow> trusted_directory option \<Rightarrow> ('s, bytes) io" where
  "read_bounded os p maximum operation directory =
     io_bind (assert_held os directory) (\<lambda>_.
     io_bind (open_file os p operation) (\<lambda>file.
     io_bind (identity os file operation) (\<lambda>opened_identity.
     io_bind (io_call (Tuning_Io operation) (fo_metadata os file)) (\<lambda>metadata.
     io_bind (io_unless (fx_is_file metadata \<and> \<not> fx_reparse metadata)
       (Backup_Invalid (lossy p @ lit '' is not a regular non-reparse file''))) (\<lambda>_.
     io_bind (io_unless (fx_len metadata \<le> maximum)
       (Backup_Invalid (lossy p @ lit '' exceeds '' @ decimal maximum @ lit '' bytes''))) (\<lambda>_.
     io_bind (io_call (Tuning_Io operation) (fo_read os file (maximum + 1))) (\<lambda>content.
     io_bind (io_unless (length content \<le> maximum)
       (Backup_Invalid (lossy p @ lit '' grew beyond '' @ decimal maximum @ lit '' bytes''))) (\<lambda>_.
     io_bind (identity os file operation) (\<lambda>i.
     io_bind (io_unless (i = opened_identity)
       (Backup_Invalid (lit ''file identity changed while reading: '' @ lossy p))) (\<lambda>_.
     io_bind (open_file os p operation) (\<lambda>current.
     io_bind (identity os current operation) (\<lambda>i.
     io_bind (io_unless (i = opened_identity)
       (Backup_Invalid (lit ''file was replaced while reading: '' @ lossy p))) (\<lambda>_.
     io_bind (assert_held os directory) (\<lambda>_. io_return content))))))))))))))"

definition identity_matches_path :: "'s file_os \<Rightarrow> file_handle \<Rightarrow> path \<Rightarrow> ('s, bool) io" where
  "identity_matches_path os file p =
     io_bind (identity os file (lit ''identify retained file'')) (\<lambda>expected.
     io_bind (open_file os p (lit ''reopen retained file'')) (\<lambda>current.
     io_bind (identity os current (lit ''identify retained file path'')) (\<lambda>i. io_return (i = expected))))"

definition read_retained_bounded :: "'s file_os \<Rightarrow> file_handle \<Rightarrow> nat \<Rightarrow> bytes \<Rightarrow> ('s, bytes) io" where
  "read_retained_bounded os file maximum operation =
     io_bind (io_call (Tuning_Io operation) (fo_metadata os file)) (\<lambda>metadata.
     io_bind (io_unless (fx_is_file metadata \<and> \<not> fx_reparse metadata \<and> fx_len metadata \<le> maximum)
       (Backup_Invalid (lit ''retained file has an invalid type or size''))) (\<lambda>_.
     io_bind (io_call (Tuning_Io operation) (fo_read os file (maximum + 1))) (\<lambda>content.
     io_bind (io_unless (length content \<le> maximum)
       (Backup_Invalid (lit ''retained file exceeded its size limit''))) (\<lambda>_. io_return content))))"

section \<open>Durable files and the inventory barrier\<close>

record 's durable_file =
  df_write_all :: "bytes \<Rightarrow> ('s, unit) io"
  df_flush :: "('s, unit) io"
  df_protect :: "('s, unit) io"
  df_read_back :: "nat \<Rightarrow> ('s, bytes) io"

definition persist_exact :: "'s durable_file \<Rightarrow> bytes \<Rightarrow> ('s, unit) io" where
  "persist_exact file content =
     io_bind (df_write_all file content) (\<lambda>_.
     io_bind (df_flush file) (\<lambda>_.
     io_bind (df_protect file) (\<lambda>_.
     io_bind (df_read_back file (length content)) (\<lambda>actual.
       io_unless (actual = content) (Backup_Invalid (lit ''persisted backup bytes differ from source bytes''))))))"

definition after_inventory :: "('s, 'i) io \<Rightarrow> ('i \<Rightarrow> ('s, 'a) io) \<Rightarrow> ('s, 'a) io" where
  "after_inventory inventory mutate = io_bind inventory mutate"

section \<open>What the code relies on\<close>

text \<open>
  The entries of one directory, by path, are directories with an identity. A handle stays with the
  object it was opened on; calls that only look change nothing; a rename moves one entry and fails
  when it cannot, and one that does not replace needs the new name to be free.
\<close>

named_theorems keeps_intros \<open>operations that leave the entries alone\<close>

definition keeps_entries :: "('s \<Rightarrow> path \<Rightarrow> file_identity option) \<Rightarrow> ('s \<Rightarrow> 'a \<times> 's) \<Rightarrow> bool" where
  "keeps_entries entries m \<longleftrightarrow> (\<forall>s. entries (snd (m s)) = entries s)"

locale file_store =
  fixes os :: "'s file_os" and siblings :: "path set"
    and entries :: "'s \<Rightarrow> path \<Rightarrow> file_identity option" and object :: "file_handle \<Rightarrow> file_identity"
  assumes open_keeps [keeps_intros]: "keeps_entries entries (fo_open os d p)"
    and open_object: "p \<in> siblings \<Longrightarrow> fo_open os True p s = (Inr h, s') \<Longrightarrow> entries s p = Some (object h)"
    and metadata_keeps [keeps_intros]: "keeps_entries entries (fo_metadata os h)"
    and information_keeps [keeps_intros]: "keeps_entries entries (fo_information os h)"
    and information_object: "fo_information os h s = (Inr info, s') \<Longrightarrow> file_identity_of info = object h"
    and read_keeps [keeps_intros]: "keeps_entries entries (fo_read os h n)"
    and link_keeps [keeps_intros]: "keeps_entries entries (fo_symlink_metadata os p)"
    and sddl_keeps [keeps_intros]: "keeps_entries entries (fo_sddl os g p)"
    and exists_keeps [keeps_intros]: "keeps_entries entries (fo_exists os p)"
    and exists_entry: "p \<in> siblings \<Longrightarrow> fo_exists os p s = (b, s') \<Longrightarrow> b = (entries s p \<noteq> None)"
    and rename_moves: "p \<in> siblings \<Longrightarrow> q \<in> siblings \<Longrightarrow> fo_rename os p q s = (Inr (), s') \<Longrightarrow>
      entries s' = (entries s)(p := None, q := entries s p)"
    and rename_failed: "fo_rename os p q s = (Inl e, s') \<Longrightarrow> entries s' = entries s"
    and remove_all_entry: "p \<in> siblings \<Longrightarrow> fo_remove_all os p s = (r, s') \<Longrightarrow>
      \<forall>q. q \<noteq> p \<longrightarrow> entries s' q = entries s q"
    and remove_all_done: "p \<in> siblings \<Longrightarrow> fo_remove_all os p s = (Inr (), s') \<Longrightarrow> entries s' p = None"
    and move_moves: "p \<in> siblings \<Longrightarrow> q \<in> siblings \<Longrightarrow> fo_move os p q s = (Inr (), s') \<Longrightarrow>
      entries s q = None \<and> entries s' = (entries s)(p := None, q := entries s p)"
    and move_failed: "fo_move os p q s = (Inl code, s') \<Longrightarrow> entries s' = entries s"

lemma keeps_return [keeps_intros]: "keeps_entries entries (io_return a)"
  by (simp add: keeps_entries_def io_return_def)

lemma keeps_fail [keeps_intros]: "keeps_entries entries (io_fail e)"
  by (simp add: keeps_entries_def io_fail_def)

lemma keeps_lift [keeps_intros]: "keeps_entries entries (io_lift r)"
  by (simp add: keeps_entries_def io_lift_def)

lemma keeps_unless [keeps_intros]: "keeps_entries entries (io_unless ok e)"
  by (simp add: keeps_return keeps_fail io_unless_def)

lemma keeps_bind [keeps_intros]:
  assumes "keeps_entries entries m" "\<And>a. keeps_entries entries (k a)"
  shows "keeps_entries entries (io_bind m k)"
proof -
  have "entries (snd (io_bind m k s)) = entries s" for s
  proof (cases "m s")
    case (Pair r s')
    have "entries s' = entries s" using assms(1) Pair by (metis keeps_entries_def snd_conv)
    then show ?thesis using assms(2) Pair by (cases r) (simp_all add: io_bind_def keeps_entries_def)
  qed
  then show ?thesis by (simp add: keeps_entries_def)
qed

lemma keeps_call [keeps_intros]: "keeps_entries entries m \<Longrightarrow> keeps_entries entries (io_call f m)"
  by (auto simp: keeps_entries_def io_call_def split: prod.splits sum.splits) (metis snd_conv)+

lemma keeps_ask [keeps_intros]: "keeps_entries entries m \<Longrightarrow> keeps_entries entries (io_ask m)"
  by (auto simp: keeps_entries_def io_ask_def split: prod.splits) (metis snd_conv)

lemma keeps_state: "keeps_entries entries m \<Longrightarrow> m s = (r, s') \<Longrightarrow> entries s' = entries s"
  by (metis keeps_entries_def snd_conv)

lemma io_bind_Ok: "io_bind m k s = (Ok b, s'') \<longleftrightarrow> (\<exists>a s'. m s = (Ok a, s') \<and> k a s' = (Ok b, s''))"
  by (auto simp: io_bind_def split: prod.splits outcome.splits)

lemma io_unless_Ok: "io_unless ok e s = (Ok u, s') \<longleftrightarrow> ok \<and> s' = s"
  by (auto simp: io_unless_def io_return_def io_fail_def)

lemma io_call_Ok: "io_call f m s = (Ok a, s') \<longleftrightarrow> m s = (Inr a, s')"
  by (auto simp: io_call_def split: prod.splits sum.splits)

lemma io_return_Ok: "io_return a s = (r, s') \<longleftrightarrow> r = Ok a \<and> s' = s"
  by (auto simp: io_return_def)

lemma io_fail_Ok: "io_fail e s = (r, s') \<longleftrightarrow> r = Err e \<and> s' = s"
  by (auto simp: io_fail_def)

lemmas io_Ok = io_bind_Ok io_unless_Ok io_call_Ok io_return_Ok io_fail_Ok

lemma io_bindE:
  assumes "io_bind m k s = (r, s2)"
  obtains (Ok) a s1 where "m s = (Ok a, s1)" "k a s1 = (r, s2)"
    | (Err) e where "m s = (Err e, s2)" "r = Err e"
    | (Panic) "m s = (Panic, s2)" "r = Panic"
  using assms by (auto simp: io_bind_def split: prod.splits outcome.splits)

lemma io_callE:
  assumes "io_call f m s = (r, s1)"
  obtains (Inr) a where "m s = (Inr a, s1)" "r = Ok a" | (Inl) e where "m s = (Inl e, s1)" "r = Err (f e)"
  using assms by (auto simp: io_call_def split: prod.splits sum.splits)

context file_store
begin

lemma open_file_keeps [keeps_intros]: "keeps_entries entries (open_file os p operation)"
  unfolding open_file_def by (intro keeps_intros)

lemma open_directory_keeps [keeps_intros]: "keeps_entries entries (open_directory os p operation)"
  unfolding open_directory_def by (intro keeps_intros) (auto intro: keeps_intros)

lemma identity_keeps [keeps_intros]: "keeps_entries entries (identity os h operation)"
  unfolding identity_def by (intro keeps_intros)

lemma trusted_open_keeps [keeps_intros]: "keeps_entries entries (trusted_open os p operation)"
  unfolding trusted_open_def by (intro keeps_intros)

lemma assert_path_keeps [keeps_intros]: "keeps_entries entries (assert_path os d)"
  unfolding assert_path_def by (intro keeps_intros)

lemma assert_held_keeps [keeps_intros]: "keeps_entries entries (assert_held os d)"
  unfolding assert_held_def by (cases d) (auto intro: keeps_intros)

lemma directory_identity_keeps [keeps_intros]: "keeps_entries entries (directory_identity os p)"
  unfolding directory_identity_def by (intro keeps_intros)

lemma directory_sync_keeps [keeps_intros]: "keeps_entries entries (directory_sync d)"
  unfolding directory_sync_def by (intro keeps_intros)

lemma read_bounded_keeps [keeps_intros]: "keeps_entries entries (read_bounded os p maximum operation d)"
  unfolding read_bounded_def by (intro keeps_intros)

text \<open>A directory that was identified is the one its path names.\<close>

lemma trusted_open_identity:
  "p \<in> siblings \<Longrightarrow> trusted_open os p operation s = (Ok d, s') \<Longrightarrow> entries s p = Some (td_identity d) \<and> td_path d = p"
  by (auto simp: trusted_open_def open_directory_def identity_def io_Ok split: if_splits
      dest!: information_object open_object)

lemma directory_identity_entry:
  "p \<in> siblings \<Longrightarrow> directory_identity os p s = (Ok i, s') \<Longrightarrow> entries s p = Some i"
  by (auto simp: directory_identity_def io_Ok dest!: trusted_open_identity)

lemma assert_path_entry:
  "td_path d \<in> siblings \<Longrightarrow> assert_path os d s = (Ok u, s') \<Longrightarrow> entries s (td_path d) = Some (td_identity d)"
  by (auto simp: assert_path_def open_directory_def identity_def io_Ok split: if_splits
      dest!: information_object open_object)

text \<open>
  The removal of an owned directory touches nothing but that directory: the entry goes only when its
  identity is the expected one, and it is removed or left under the disposal name.
\<close>

lemma dispose_entries:
  assumes "io_bind (directory_identity os disposal) (\<lambda>i.
      if i \<noteq> owned then io_fail e
      else io_bind (io_call f (fo_remove_all os disposal)) (\<lambda>_. io_bind (trusted_open os parent operation) directory_sync)) s
      = (r, s')"
    and "disposal \<in> siblings"
  shows "(\<forall>q. q \<noteq> disposal \<longrightarrow> entries s' q = entries s q) \<and> (r = Ok () \<longrightarrow> entries s' disposal = None)"
  using assms(1)
proof (cases rule: io_bindE)
  case (Ok i s1)
  have s1: "entries s1 = entries s" by (rule keeps_state [OF directory_identity_keeps Ok(1)])
  show ?thesis
  proof (cases "i = owned")
    case True
    have sync: "keeps_entries entries (io_bind (trusted_open os parent operation) directory_sync)" by (intro keeps_intros)
    from Ok(2) True have "io_bind (io_call f (fo_remove_all os disposal))
        (\<lambda>_. io_bind (trusted_open os parent operation) directory_sync) s1 = (r, s')" by simp
    then show ?thesis
    proof (cases rule: io_bindE)
      case (Ok u s2)
      then have gone: "fo_remove_all os disposal s1 = (Inr (), s2)" by (simp add: io_call_Ok)
      have "entries s' = entries s2" by (rule keeps_state [OF sync Ok(2)])
      then show ?thesis
        using remove_all_entry [OF assms(2) gone] remove_all_done [OF assms(2) gone] s1 by simp
    next
      case (Err e')
      then obtain e'' where "fo_remove_all os disposal s1 = (Inl e'', s')" by (auto elim: io_callE)
      from remove_all_entry [OF assms(2) this] s1 Err show ?thesis by simp
    next
      case Panic
      then show ?thesis by (auto elim: io_callE)
    qed
  qed (use Ok(2) s1 in \<open>simp add: io_fail_Ok\<close>)
qed (use keeps_state [OF directory_identity_keeps] in auto)

lemma remove_owned_entries:
  assumes run: "remove_owned_directory os fresh p owned s = (r, s')"
    and p: "p \<in> siblings" "\<And>parent. path_parent p = Some parent \<Longrightarrow> path_join parent fresh \<in> siblings"
  shows "(entries s' = entries s \<and> r \<noteq> Ok () \<or> entries s p = Some owned \<and> entries s' p = None
      \<and> (\<exists>parent. path_parent p = Some parent \<and> entries s (path_join parent fresh) = None
        \<and> (\<forall>q. q \<noteq> p \<longrightarrow> q \<noteq> path_join parent fresh \<longrightarrow> entries s' q = entries s q)))
    \<and> (r = Ok () \<longrightarrow> entries s' = (entries s)(p := None))"
  using run unfolding remove_owned_directory_def
proof (cases rule: io_bindE)
  case (Ok i s1)
  have s1: "entries s1 = entries s" by (rule keeps_state [OF directory_identity_keeps Ok(1)])
  have p_entry: "entries s p = Some i" by (rule directory_identity_entry [OF p(1) Ok(1)])
  show ?thesis
  proof (cases "i = owned \<and> path_parent p \<noteq> None")
    case True
    then obtain parent where parent: "path_parent p = Some parent" by auto
    let ?disposal = "path_join parent fresh"
    have d: "?disposal \<in> siblings" by (rule p(2) [OF parent])
    obtain taken s2 where ex: "fo_exists os ?disposal s1 = (taken, s2)" by fastforce
    then have s2: "entries s2 = entries s" "taken = (entries s ?disposal \<noteq> None)"
      using keeps_state [OF exists_keeps ex] exists_entry [OF d ex] s1 by auto
    show ?thesis
    proof (cases "taken \<or> (\<exists>e s3. fo_rename os p ?disposal s2 = (Inl e, s3))")
      case True
      then show ?thesis using Ok(2) \<open>i = owned \<and> _\<close> parent ex s2
        by (auto simp: io_bind_def io_ask_def io_call_def io_fail_def rename_failed Let_def)
    next
      case False
      then obtain s3 where rn: "fo_rename os p ?disposal s2 = (Inr (), s3)"
        by (metis (full_types) old.unit.exhaust prod.exhaust sum.exhaust)
      have s3: "entries s3 = (entries s)(p := None, ?disposal := Some owned)"
        using rename_moves [OF p(1) d rn] s2(1) p_entry True by simp
      have free: "entries s ?disposal = None" "p \<noteq> ?disposal" using False s2(2) p_entry by auto
      have "(\<forall>q. q \<noteq> ?disposal \<longrightarrow> entries s' q = entries s3 q) \<and> (r = Ok () \<longrightarrow> entries s' ?disposal = None)"
        using Ok(2) True False parent ex rn
        by (intro dispose_entries [OF _ d]) (simp add: io_bind_def io_ask_def io_call_def Let_def)
      then have all: "\<forall>q. q \<noteq> ?disposal \<longrightarrow> entries s' q = (if q = p then None else entries s q)"
        "r = Ok () \<longrightarrow> entries s' ?disposal = entries s ?disposal"
        using s3 free by auto
      then have "r = Ok () \<longrightarrow> entries s' = (entries s)(p := None)" using free by (auto simp: fun_eq_iff) metis
      then show ?thesis using all(1) free p_entry True parent by auto
    qed
  next
    case False
    then show ?thesis using Ok(2) s1 by (cases "i = owned") (auto simp: io_fail_Ok)
  qed
qed (use keeps_state [OF directory_identity_keeps] in auto)

text \<open>A bounded read returns at most \<open>maximum\<close> bytes, while its directory was in place.\<close>

lemma read_bounded_sound:
  assumes "read_bounded os p maximum operation (Some d) s = (Ok content, s')"
  shows "length content \<le> maximum"
    and "td_path d \<in> siblings \<Longrightarrow> entries s (td_path d) = Some (td_identity d)"
  using assms assert_path_entry by (auto simp: read_bounded_def io_Ok assert_held_def)

end

section \<open>A disk\<close>

text \<open>
  A directory with entries and files in memory; the next call fails when the head of the list of
  faults says so. It shows that the interface can be provided, with any pattern of failures.
\<close>

record disk =
  dk_dirs :: "path \<rightharpoonup> nat"
  dk_files :: "path \<rightharpoonup> nat \<times> bytes"
  dk_faults :: "bool list"

definition disk_info :: "nat \<Rightarrow> u32 \<times> u32 \<times> u32" where
  "disk_info h = (1, word_of_nat (h div 2 ^ 32), word_of_nat h)"

definition disk_object :: "file_handle \<Rightarrow> file_identity" where
  "disk_object h = file_identity_of (disk_info h)"

definition disk_entries :: "disk \<Rightarrow> path \<Rightarrow> file_identity option" where
  "disk_entries s p = map_option disk_object (dk_dirs s p)"

definition faulty :: "'e \<Rightarrow> (disk \<Rightarrow> ('e + 'a) \<times> disk) \<Rightarrow> disk \<Rightarrow> ('e + 'a) \<times> disk" where
  "faulty e m s = (case dk_faults s of
     [] \<Rightarrow> m s
   | f # fs \<Rightarrow> (let s = s\<lparr>dk_faults := fs\<rparr> in if f then (Inl e, s) else m s))"

definition disk_open :: "bool \<Rightarrow> path \<Rightarrow> disk \<Rightarrow> (open_failure + file_handle) \<times> disk" where
  "disk_open d p = faulty (Open_Other []) (\<lambda>s.
     (case (if d then dk_dirs s p else map_option fst (dk_files s p)) of
        None \<Rightarrow> (Inl Open_Not_Found, s) | Some h \<Rightarrow> (Inr h, s)))"

definition disk_os :: "(file_handle \<Rightarrow> bytes) \<Rightarrow> disk file_os" where
  "disk_os content = \<lparr>fo_open = disk_open,
     fo_metadata = (\<lambda>h. faulty [] (\<lambda>s. (Inr \<lparr>fx_is_file = True, fx_is_dir = True, fx_reparse = False,
       fx_len = length (content h)\<rparr>, s))),
     fo_information = (\<lambda>h. faulty 5 (\<lambda>s. (Inr (disk_info h), s))),
     fo_read = (\<lambda>h n. faulty [] (\<lambda>s. (Inr (take n (content h)), s))),
     fo_symlink_metadata = (\<lambda>p. faulty [] (\<lambda>s. if dk_dirs s p \<noteq> None \<or> dk_files s p \<noteq> None
       then (Inr \<lparr>lx_symlink = False, lx_is_dir = dk_dirs s p \<noteq> None, lx_is_file = dk_files s p \<noteq> None, lx_reparse = False\<rparr>, s)
       else (Inl [], s))),
     fo_sddl = (\<lambda>g p. faulty (Native [] 5 []) (\<lambda>s. (Inr (True, Inr (lit ''O:BAG:BAD:P(A;;FA;;;SY)(A;;FA;;;BA)'')), s))),
     fo_exists = (\<lambda>p s. (dk_dirs s p \<noteq> None, s)),
     fo_rename = (\<lambda>p q. faulty [] (\<lambda>s. if dk_dirs s p = None then (Inl [], s)
       else (Inr (), s\<lparr>dk_dirs := (dk_dirs s)(p := None, q := dk_dirs s p)\<rparr>))),
     fo_remove_all = (\<lambda>p. faulty [] (\<lambda>s. (Inr (), s\<lparr>dk_dirs := (dk_dirs s)(p := None)\<rparr>))),
     fo_move = (\<lambda>p q. faulty 5 (\<lambda>s. if dk_dirs s p = None \<or> dk_dirs s q \<noteq> None then (Inl 183, s)
       else (Inr (), s\<lparr>dk_dirs := (dk_dirs s)(p := None, q := dk_dirs s p)\<rparr>)))\<rparr>"

interpretation disk: file_store "disk_os content" UNIV disk_entries disk_object
  by unfold_locales
    (auto simp: keeps_entries_def disk_os_def disk_open_def faulty_def Let_def disk_entries_def disk_object_def fun_eq_iff
      split: list.splits option.splits if_splits)

end
