(* ===== verification/Backup_Qos.thy ===== *)
theory Backup_Qos
  imports Backup_Artifacts Trusted_Io
begin

text \<open>
  QoS policies of a backup and of the Windows provider: the CLIXML reader of
  \<open>crates/tuning/src/backup/artifacts.rs\<close> over the events of the XML library, its writer, and the
  reading, creation and reconciliation of provider rows (\<open>native/windows.rs\<close>). The tables of adapters
  are read over the records of the CSV library.
\<close>

section \<open>Policies in a backup\<close>

datatype qos_policy = Qos_Port (qos_name: bytes) bytes u16 u8 | Qos_App (qos_name: bytes) bytes u8

definition MAX_QOS_BYTES :: nat where "MAX_QOS_BYTES = 4 * 1024 * 1024"

text \<open>
  The events of \<open>quick_xml\<close> up to the end of the text: a parse error is an event, \<open>Xml_Other\<close> stands for
  those the code refuses (processing instructions, CDATA, document types, entity references). An
  attribute is its key with its unescaped value, or malformed.
\<close>

datatype xml_attribute = Bad_Attribute | Attribute bytes "bytes option"

datatype xml_event = Xml_Start bytes "xml_attribute list" | Xml_Empty bytes | Xml_Text "bytes option"
  | Xml_End bytes | Xml_Declaration | Xml_Comment | Xml_Other | Xml_Error

definition scalar_tags :: "bytes list" where
  "scalar_tags = [lit ''S'', lit ''I32'', lit ''I64'', lit ''U32'', lit ''U64'', lit ''B'']"

definition allowed_xml_tags :: "bytes list" where
  "allowed_xml_tags = [lit ''Objs'', lit ''Obj'', lit ''TN'', lit ''T'', lit ''TNRef'', lit ''LST'', lit ''MS''] @ scalar_tags"

text \<open>The value of the last attribute \<open>N\<close>.\<close>

fun property_name :: "bytes option \<Rightarrow> xml_attribute list \<Rightarrow> (bytes option, tuning_error) outcome" where
  "property_name found [] = Ok found"
| "property_name found (Bad_Attribute # as) = backup_invalid (lit ''invalid QoS CLIXML attribute'')"
| "property_name found (Attribute key v # as) =
     (if key = lit ''N'' then
        (case v of None \<Rightarrow> backup_invalid (lit ''invalid QoS property name'') | Some name \<Rightarrow> property_name (Some name) as)
      else property_name found as)"

text \<open>The open elements, the innermost first.\<close>

record qos_reader =
  qr_stack :: "bytes list"
  qr_item :: "(bytes, bytes) btree option"
  qr_property :: "(bytes \<times> bytes) option"
  qr_items :: "(bytes, bytes) btree list"

definition qos_start :: "bytes \<Rightarrow> xml_attribute list \<Rightarrow> qos_reader \<Rightarrow> (qos_reader, tuning_error) outcome" where
  "qos_start name attributes st =
     (if 32 \<le> length (qr_stack st) \<or> name \<notin> set allowed_xml_tags
      then backup_invalid (lit ''QoS CLIXML has an unsupported element or depth'')
      else if name = lit ''MS'' \<and> qr_item st \<noteq> None then backup_invalid (lit ''QoS CLIXML has nested property bags'')
      else let st = (if name = lit ''MS'' then st\<lparr>qr_item := Some []\<rparr> else st) in
        and_then (if name \<in> set scalar_tags then property_name None attributes else Ok None) (\<lambda>prop_name.
          case prop_name of
            None \<Rightarrow> Ok (st\<lparr>qr_stack := name # qr_stack st\<rparr>)
          | Some prop_name \<Rightarrow>
              if qr_item st = None \<or> qr_property st \<noteq> None
              then backup_invalid (lit ''QoS CLIXML property is outside an item'')
              else Ok (st\<lparr>qr_property := Some (prop_name, []), qr_stack := name # qr_stack st\<rparr>)))"

definition qos_text :: "bytes option \<Rightarrow> qos_reader \<Rightarrow> (qos_reader, tuning_error) outcome" where
  "qos_text v st = (case qr_property st of
     None \<Rightarrow> Ok st
   | Some (name, content) \<Rightarrow> (case v of
       None \<Rightarrow> backup_invalid (lit ''invalid QoS CLIXML text'')
     | Some v \<Rightarrow> if 32 * 1024 < length content + length v then backup_invalid (lit ''QoS CLIXML property is too long'')
         else Ok (st\<lparr>qr_property := Some (name, content @ v)\<rparr>)))"

definition close_property :: "bytes \<Rightarrow> qos_reader \<Rightarrow> (qos_reader, tuning_error) outcome" where
  "close_property tag st = (case qr_property st of
     Some (name, v) \<Rightarrow>
       if tag \<notin> set scalar_tags then Ok st
       else if \<not> valid_utf8 v then backup_invalid (lit ''invalid QoS text'')
       else (case qr_item st of
         None \<Rightarrow> Panic
       | Some item \<Rightarrow> if bt_get item name \<noteq> None then backup_invalid (lit ''QoS CLIXML has duplicate fields'')
           else Ok (st\<lparr>qr_property := None, qr_item := Some (bt_insert name v item)\<rparr>))
   | None \<Rightarrow> Ok st)"

definition qos_end :: "bytes \<Rightarrow> qos_reader \<Rightarrow> (qos_reader, tuning_error) outcome" where
  "qos_end name st = (case qr_stack st of
     [] \<Rightarrow> backup_invalid (lit ''unbalanced QoS CLIXML'')
   | top_name # rest \<Rightarrow>
       let st = st\<lparr>qr_stack := rest\<rparr> in
       if top_name \<noteq> name then backup_invalid (lit ''unbalanced QoS CLIXML'')
       else and_then (close_property name st) (\<lambda>st.
         if name = lit ''MS'' then
           (case qr_item st of
             None \<Rightarrow> Panic
           | Some item \<Rightarrow> let items = qr_items st @ [item] in
               if 512 < length items then backup_invalid (lit ''QoS CLIXML has more than 512 policies'')
               else Ok (st\<lparr>qr_item := None, qr_items := items\<rparr>))
         else Ok st))"

fun qos_events :: "xml_event list \<Rightarrow> qos_reader \<Rightarrow> (qos_reader, tuning_error) outcome" where
  "qos_events [] st = Ok st"
| "qos_events (e # es) st = and_then
     (case e of
        Xml_Start name attributes \<Rightarrow> qos_start name attributes st
      | Xml_Empty name \<Rightarrow> if name \<in> set allowed_xml_tags then Ok st
          else backup_invalid (lit ''QoS CLIXML has an unsupported empty element'')
      | Xml_Text v \<Rightarrow> qos_text v st
      | Xml_End name \<Rightarrow> qos_end name st
      | Xml_Declaration \<Rightarrow> Ok st
      | Xml_Comment \<Rightarrow> Ok st
      | Xml_Other \<Rightarrow> backup_invalid (lit ''QoS CLIXML contains unsupported XML content'')
      | Xml_Error \<Rightarrow> backup_invalid (lit ''QoS CLIXML could not be parsed'')) (qos_events es)"

section \<open>From a property bag to a policy\<close>

text \<open>\<open>str::parse\<close> for an unsigned type: an optional plus sign, and decimal digits that fit.\<close>

definition parse_unsigned :: "nat \<Rightarrow> bytes \<Rightarrow> nat option" where
  "parse_unsigned maximum s = (let ds = (if s \<noteq> [] \<and> hd s = 43 then tl s else s) in
     if ds = [] \<or> (\<exists>b \<in> set ds. b < 48 \<or> 57 < b) \<or> maximum < number_of ds then None else Some (number_of ds))"

definition managed_prefixes :: "bytes list" where
  "managed_prefixes = [lit ''NETWORK_LANTERN_QOS_PORT_'', lit ''NETWORK_LANTERN_QOS_APP_'', lit ''NDS_QOS_PORT_'',
     lit ''NDS_QOS_APP_'', lit ''QoS_UDP_TS_'', lit ''QoS_UDP_CS2_'', lit ''QoS_APP_'']"

definition managed_name :: "bytes \<Rightarrow> bool" where
  "managed_name name = has_prefix name managed_prefixes"

text \<open>The path check of the backup and of the provider; unlike the one of the plan it wants a backslash.\<close>

definition valid_provider_exe :: "bytes \<Rightarrow> bool" where
  "valid_provider_exe p \<longleftrightarrow> 7 \<le> length p \<and> p ! 1 = 58 \<and> p ! 2 = backslash
     \<and> ends_with (to_ascii_lowercase p) (lit ''.exe'')
     \<and> \<not> starts_with p [backslash, backslash] \<and> \<not> starts_with p [backslash, backslash, 63, backslash]
     \<and> 0 \<notin> set p"

fun take_first :: "bytes list \<Rightarrow> bytes option \<Rightarrow> (bytes, bytes) btree \<Rightarrow> (bytes option \<times> (bytes, bytes) btree, tuning_error) outcome" where
  "take_first [] found vals = Ok (found, vals)"
| "take_first (n # ns) found vals = (case bt_get vals n of
     None \<Rightarrow> take_first ns found vals
   | Some v \<Rightarrow> if found \<noteq> None then backup_invalid (lit ''QoS policy has duplicate DSCP representations'')
       else take_first ns (Some v) (bt_remove n vals))"

definition take_number :: "bytes list \<Rightarrow> (bytes, bytes) btree \<Rightarrow> (u8 \<times> (bytes, bytes) btree, tuning_error) outcome" where
  "take_number names vals = and_then (take_first names None vals) (\<lambda>(found, vals).
     case found of
       None \<Rightarrow> backup_invalid (lit ''QoS DSCP is missing'')
     | Some v \<Rightarrow> (case parse_unsigned 255 v of
         None \<Rightarrow> backup_invalid (lit ''invalid QoS DSCP'') | Some n \<Rightarrow> Ok (word_of_nat n, vals)))"

text \<open>\<open>values.remove(a).or_else(|| values.remove(b))\<close>\<close>

definition remove_either :: "bytes \<Rightarrow> bytes \<Rightarrow> (bytes, bytes) btree \<Rightarrow> bytes option \<times> (bytes, bytes) btree" where
  "remove_either a b vals = (case bt_get vals a of
     Some v \<Rightarrow> (Some v, bt_remove a vals) | None \<Rightarrow> (bt_get vals b, bt_remove b vals))"

definition qos_port_policy :: "bytes \<Rightarrow> u8 \<Rightarrow> bytes option \<Rightarrow> (bytes, bytes) btree
    \<Rightarrow> (qos_policy \<times> (bytes, bytes) btree, tuning_error) outcome" where
  "qos_port_policy name dscp port vals =
     (case remove_either (lit ''Protocol'') (lit ''IPProtocolMatchCondition'') vals of
        (None, _) \<Rightarrow> backup_invalid (lit ''QoS protocol is missing'')
      | (Some protocol, vals) \<Rightarrow>
          if protocol \<notin> {lit ''TCP'', lit ''UDP''} then backup_invalid (lit ''QoS protocol must be TCP or UDP'')
          else (case port of
            None \<Rightarrow> backup_invalid (lit ''QoS port is missing'')
          | Some v \<Rightarrow> (case parse_unsigned 65535 v of
              None \<Rightarrow> backup_invalid (lit ''QoS port is invalid'')
            | Some n \<Rightarrow> if n = 0 then backup_invalid (lit ''QoS port must be in 1..=65535'')
                else Ok (Qos_Port name protocol (word_of_nat n) dscp, vals))))"

definition qos_app_policy :: "bytes \<Rightarrow> u8 \<Rightarrow> bytes option \<Rightarrow> (bytes, bytes) btree
    \<Rightarrow> (qos_policy \<times> (bytes, bytes) btree, tuning_error) outcome" where
  "qos_app_policy name dscp app vals = (case app of
     None \<Rightarrow> backup_invalid (lit ''QoS app path is missing'')
   | Some app_path \<Rightarrow> if \<not> valid_provider_exe app_path
       then backup_invalid (lit ''QoS app path must be an absolute local .exe path'')
       else Ok (Qos_App name app_path dscp, vals))"

definition normalize_qos :: "(bytes, bytes) btree \<Rightarrow> (qos_policy, tuning_error) outcome" where
  "normalize_qos vals = (case bt_get vals (lit ''Name'') of
     None \<Rightarrow> backup_invalid (lit ''QoS policy has an unapproved name'')
   | Some name \<Rightarrow>
     if \<not> managed_name name then backup_invalid (lit ''QoS policy has an unapproved name'')
     else and_then (take_number [lit ''Dscp'', lit ''DSCPAction'', lit ''DSCPValue''] (bt_remove (lit ''Name'') vals))
       (\<lambda>(dscp, vals).
         if 63 < dscp then backup_invalid (lit ''QoS DSCP must be in 0..=63'')
         else let kind = bt_get vals (lit ''Type'');
                  (port, vals) = remove_either (lit ''Port'') (lit ''IPPortMatchCondition'') (bt_remove (lit ''Type'') vals);
                  (app, vals) = remove_either (lit ''AppPath'') (lit ''AppPathNameMatchCondition'') vals
           in and_then
             (if kind = Some (lit ''Port'') \<or> kind = None \<and> port \<noteq> None then qos_port_policy name dscp port vals
              else if kind = Some (lit ''App'') \<or> kind = None \<and> app \<noteq> None then qos_app_policy name dscp app vals
              else backup_invalid (lit ''QoS policy has no supported match condition''))
             (\<lambda>(policy, vals). if vals \<noteq> [] then backup_invalid (lit ''QoS policy has unknown fields'') else Ok policy)))"

text \<open>The policies are normalised in order, up to the first refused one.\<close>

fun qos_policies :: "bytes set \<Rightarrow> (bytes, bytes) btree list \<Rightarrow> (qos_policy list, tuning_error) outcome" where
  "qos_policies names [] = Ok []"
| "qos_policies names (item # items) = and_then (normalize_qos item) (\<lambda>policy.
     let folded = to_ascii_lowercase (qos_name policy) in
     if folded \<in> names then backup_invalid (lit ''QoS CLIXML has duplicate policy names'')
     else and_then (qos_policies (insert folded names) items) (\<lambda>policies. Ok (policy # policies)))"

definition parse_qos_clixml :: "(bytes \<Rightarrow> xml_event list) \<Rightarrow> bytes \<Rightarrow> (qos_policy list, tuning_error) outcome" where
  "parse_qos_clixml reader b =
     (if MAX_QOS_BYTES < length b then backup_invalid (lit ''QoS CLIXML exceeds 4 MiB'')
      else if \<not> valid_utf8 b then backup_invalid (lit ''QoS CLIXML must be UTF-8'')
      else and_then (qos_events (reader (trim_bom b))
          \<lparr>qr_stack = [], qr_item = None, qr_property = None, qr_items = []\<rparr>) (\<lambda>st.
        if qr_stack st \<noteq> [] \<or> qr_item st \<noteq> None \<or> qr_property st \<noteq> None
        then backup_invalid (lit ''QoS CLIXML is incomplete'')
        else qos_policies {} (qr_items st)))"

section \<open>The reader is safe\<close>

text \<open>
  A property bag is open exactly inside \<open>MS\<close>, and an open property lies inside a scalar element
  below it, so that the two \<open>expect\<close> of the reader hold.
\<close>

definition reader_ok :: "qos_reader \<Rightarrow> bool" where
  "reader_ok st \<longleftrightarrow> length (qr_items st) \<le> 512
     \<and> (qr_item st \<noteq> None \<longleftrightarrow> lit ''MS'' \<in> set (qr_stack st)) \<and> count_list (qr_stack st) (lit ''MS'') \<le> 1
     \<and> (qr_property st \<noteq> None \<longrightarrow>
         (\<exists>above below. qr_stack st = above @ lit ''MS'' # below \<and> set above \<inter> set scalar_tags \<noteq> {}))"

lemma MS_not_scalar: "lit ''MS'' \<notin> set scalar_tags"
  by (simp add: scalar_tags_def lit_def)

lemma backup_invalid_yields [simp]: "yields (backup_invalid m) P" "backup_invalid m \<noteq> Ok x"
  by (simp_all add: backup_invalid_def yields_def)

lemma property_name_yields: "yields (property_name found as) (\<lambda>_. True)"
  by (induction found as rule: property_name.induct) (auto split: option.split)

definition scalar_inside :: "bytes list \<Rightarrow> bool" where
  "scalar_inside stack \<longleftrightarrow> (\<exists>above below. stack = above @ lit ''MS'' # below \<and> set above \<inter> set scalar_tags \<noteq> {})"

lemma scalar_inside_Cons:
  "scalar_inside (tag # stack) \<longleftrightarrow> scalar_inside stack \<or> tag \<in> set scalar_tags \<and> lit ''MS'' \<in> set stack"
proof
  assume "scalar_inside (tag # stack)"
  then obtain above below where s: "tag # stack = above @ lit ''MS'' # below" "set above \<inter> set scalar_tags \<noteq> {}"
    unfolding scalar_inside_def by blast
  then obtain above' where a: "above = tag # above'" "stack = above' @ lit ''MS'' # below" by (cases above) auto
  then show "scalar_inside stack \<or> tag \<in> set scalar_tags \<and> lit ''MS'' \<in> set stack"
    using s(2) unfolding scalar_inside_def by auto
next
  assume "scalar_inside stack \<or> tag \<in> set scalar_tags \<and> lit ''MS'' \<in> set stack"
  then show "scalar_inside (tag # stack)"
  proof
    assume "scalar_inside stack"
    then show ?thesis unfolding scalar_inside_def by (metis Cons_eq_appendI Int_Un_distrib2 Un_empty list.simps(15) insert_is_Un)
  next
    assume "tag \<in> set scalar_tags \<and> lit ''MS'' \<in> set stack"
    then obtain above below where "stack = above @ lit ''MS'' # below" "tag \<in> set scalar_tags" by (meson split_list)
    then show ?thesis unfolding scalar_inside_def by (intro exI [of _ "tag # above"] exI [of _ below]) auto
  qed
qed

lemma scalar_inside_MS: "scalar_inside stack \<Longrightarrow> lit ''MS'' \<in> set stack"
  unfolding scalar_inside_def by auto

lemma reader_ok_iff: "reader_ok st \<longleftrightarrow> length (qr_items st) \<le> 512
     \<and> (qr_item st \<noteq> None \<longleftrightarrow> lit ''MS'' \<in> set (qr_stack st)) \<and> count_list (qr_stack st) (lit ''MS'') \<le> 1
     \<and> (qr_property st \<noteq> None \<longrightarrow> scalar_inside (qr_stack st))"
  unfolding reader_ok_def scalar_inside_def ..

lemma qos_start_ok: "reader_ok st \<Longrightarrow> yields (qos_start name attributes st) reader_ok"
proof -
  assume ok: "reader_ok st"
  let ?st = "if name = lit ''MS'' then st\<lparr>qr_item := Some []\<rparr> else st"
  have pushed: "reader_ok (?st\<lparr>qr_stack := name # qr_stack st\<rparr>)" if "\<not> (name = lit ''MS'' \<and> qr_item st \<noteq> None)"
    using ok that count_list_0_iff [of "qr_stack st" "lit ''MS''"]
    by (auto simp: reader_ok_iff scalar_inside_Cons)
  have opened: "reader_ok (st\<lparr>qr_property := Some (n, []), qr_stack := name # qr_stack st\<rparr>)"
    if "name \<in> set scalar_tags" "qr_item st \<noteq> None" for n
    using ok that MS_not_scalar by (auto simp: reader_ok_iff scalar_inside_Cons)
  show ?thesis
  proof (cases "name \<in> set scalar_tags")
    case True
    then have "name \<noteq> lit ''MS''" using MS_not_scalar by auto
    then show ?thesis using True pushed opened
      by (auto simp: qos_start_def Let_def yields_and_then split: option.split
          intro!: yields_mono [OF property_name_yields])
  next
    case False
    then show ?thesis using pushed by (auto simp: qos_start_def Let_def)
  qed
qed

lemma qos_text_ok: "reader_ok st \<Longrightarrow> yields (qos_text v st) reader_ok"
  by (auto simp: qos_text_def reader_ok_iff split: option.split)

lemma close_property_ok:
  assumes "reader_ok st" "qr_stack st = tag # rest"
  shows "yields (close_property tag (st\<lparr>qr_stack := rest\<rparr>)) (\<lambda>st'.
    qr_stack st' = rest \<and> qr_items st' = qr_items st \<and> (qr_item st' \<noteq> None \<longleftrightarrow> qr_item st \<noteq> None)
      \<and> (qr_property st' \<noteq> None \<longrightarrow> scalar_inside rest))"
  using assms scalar_inside_MS [of "qr_stack st"]
  by (auto simp: close_property_def reader_ok_iff scalar_inside_Cons split: option.split)

lemma qos_end_ok: "reader_ok st \<Longrightarrow> yields (qos_end name st) reader_ok"
proof (cases "qr_stack st")
  case (Cons tag rest)
  assume ok: "reader_ok st"
  have "scalar_inside rest \<Longrightarrow> tag \<noteq> lit ''MS''"
    using ok Cons scalar_inside_MS [of rest] count_list_0_iff [of rest "lit ''MS''"] by (auto simp: reader_ok_iff)
  moreover have "tag = lit ''MS'' \<Longrightarrow> lit ''MS'' \<notin> set rest" "count_list rest (lit ''MS'') \<le> 1"
    using ok Cons count_list_0_iff [of rest "lit ''MS''"] by (auto simp: reader_ok_iff split: if_splits)
  moreover have "length (qr_items st) \<le> 512" "qr_item st \<noteq> None \<longleftrightarrow> tag = lit ''MS'' \<or> lit ''MS'' \<in> set rest"
    using ok Cons by (auto simp: reader_ok_iff)
  ultimately have "yields (close_property tag (st\<lparr>qr_stack := rest\<rparr>)) (\<lambda>st'. yields
      (if tag = lit ''MS'' then
         (case qr_item st' of
           None \<Rightarrow> Panic
         | Some item \<Rightarrow> let items = qr_items st' @ [item] in
             if 512 < length items then backup_invalid (lit ''QoS CLIXML has more than 512 policies'')
             else Ok (st'\<lparr>qr_item := None, qr_items := items\<rparr>))
       else Ok st') reader_ok)"
    by (intro yields_mono [OF close_property_ok [OF ok Cons]]) (auto simp: reader_ok_iff Let_def split: option.split)
  then show ?thesis using Cons
    by (auto simp: qos_end_def Let_def yields_and_then elim!: yields_mono split: if_splits)
qed (simp add: qos_end_def)

lemma qos_events_ok: "reader_ok st \<Longrightarrow> yields (qos_events es st) reader_ok"
proof (induction es arbitrary: st)
  case (Cons e es)
  have "yields (qos_events [e] st) reader_ok"
    using Cons.prems qos_start_ok qos_text_ok qos_end_ok by (cases e) (auto simp: yields_and_then)
  then show ?case using Cons.IH by (cases e) (auto simp: yields_and_then elim!: yields_mono)
qed simp

lemma unsupported_refused: "Xml_Other \<in> set es \<or> Xml_Error \<in> set es \<Longrightarrow> qos_events es st \<noteq> Ok st'"
proof (induction es arbitrary: st)
  case (Cons e es)
  then show ?case by (cases e) (auto simp: and_then_eq_Ok)
qed simp

section \<open>What a backup can say\<close>

definition policy_ok :: "qos_policy \<Rightarrow> bool" where
  "policy_ok p \<longleftrightarrow> managed_name (qos_name p) \<and> (case p of
     Qos_Port name protocol port dscp \<Rightarrow> protocol \<in> {lit ''TCP'', lit ''UDP''} \<and> port \<noteq> 0 \<and> dscp \<le> 63
   | Qos_App name path dscp \<Rightarrow> valid_provider_exe path \<and> dscp \<le> 63)"

lemma word_of_nat_nonzero: "0 < n \<Longrightarrow> n \<le> 65535 \<Longrightarrow> (word_of_nat n :: u16) \<noteq> 0"
proof
  assume n: "0 < n" "n \<le> 65535" and zero: "(word_of_nat n :: u16) = 0"
  have "unat (word_of_nat n :: u16) = n" using n by (simp add: unat_of_nat)
  with n(1) zero show False by simp
qed

lemma parse_unsigned_bound: "parse_unsigned maximum s = Some n \<Longrightarrow> n \<le> maximum"
  by (auto simp: parse_unsigned_def Let_def split: if_splits)

lemma qos_port_policy_ok:
  "managed_name name \<Longrightarrow> dscp \<le> 63 \<Longrightarrow> yields (qos_port_policy name dscp port vals) (\<lambda>(p, _). policy_ok p)"
  by (auto simp: qos_port_policy_def policy_ok_def word_of_nat_nonzero parse_unsigned_bound split: prod.split option.split)

lemma qos_app_policy_ok:
  "managed_name name \<Longrightarrow> dscp \<le> 63 \<Longrightarrow> yields (qos_app_policy name dscp app vals) (\<lambda>(p, _). policy_ok p)"
  by (auto simp: qos_app_policy_def policy_ok_def split: option.split)

lemma take_first_yields: "yields (take_first ns found vals) (\<lambda>_. True)"
  by (induction ns found vals rule: take_first.induct) (auto split: option.split)

lemma take_number_yields: "yields (take_number ns vals) (\<lambda>_. True)"
  unfolding take_number_def yields_and_then
  by (rule yields_mono [OF take_first_yields]) (auto split: option.split)

lemma normalize_qos_ok: "yields (normalize_qos vals) policy_ok"
proof (cases "bt_get vals (lit ''Name'')")
  case (Some name)
  have finish: "yields (and_then m (\<lambda>(policy, vals). if vals \<noteq> [] then backup_invalid e else Ok policy)) policy_ok"
    if "yields m (\<lambda>(p, _). policy_ok p)" for m :: "(qos_policy \<times> (bytes, bytes) btree, tuning_error) outcome" and e
    unfolding yields_and_then by (rule yields_mono [OF that]) auto
  show ?thesis
  proof (cases "managed_name name")
    case True
    show ?thesis
      unfolding normalize_qos_def Some option.case if_not_P [OF not_not [THEN iffD2, OF True]] yields_and_then
    proof (rule yields_mono [OF take_number_yields], clarify)
      fix dscp vals
      show "yields (if 63 < dscp then backup_invalid (lit ''QoS DSCP must be in 0..=63'')
         else let kind = bt_get vals (lit ''Type'');
                  (port, vals) = remove_either (lit ''Port'') (lit ''IPPortMatchCondition'') (bt_remove (lit ''Type'') vals);
                  (app, vals) = remove_either (lit ''AppPath'') (lit ''AppPathNameMatchCondition'') vals
           in and_then
             (if kind = Some (lit ''Port'') \<or> kind = None \<and> port \<noteq> None then qos_port_policy name dscp port vals
              else if kind = Some (lit ''App'') \<or> kind = None \<and> app \<noteq> None then qos_app_policy name dscp app vals
              else backup_invalid (lit ''QoS policy has no supported match condition''))
             (\<lambda>(policy, vals). if vals \<noteq> [] then backup_invalid (lit ''QoS policy has unknown fields'') else Ok policy))
         policy_ok"
        using True by (simp only: Let_def split: prod.split if_split)
          (auto intro!: finish qos_port_policy_ok qos_app_policy_ok)
    qed
  qed (simp add: normalize_qos_def Some)
qed (simp add: normalize_qos_def)

lemma qos_policies_ok:
  "yields (qos_policies names items) (\<lambda>ps. length ps = length items \<and> (\<forall>p \<in> set ps. policy_ok p)
     \<and> distinct (map (to_ascii_lowercase \<circ> qos_name) ps) \<and> (\<forall>p \<in> set ps. to_ascii_lowercase (qos_name p) \<notin> names))"
proof (induction names items rule: qos_policies.induct)
  case (2 names item items)
  show ?case
  proof (cases "normalize_qos item")
    case (Ok policy)
    then show ?thesis using yields_OkD [OF normalize_qos_ok Ok]
      by (auto simp: Let_def yields_and_then intro!: yields_mono [OF "2.IH" [OF Ok refl]])
  qed (use yields_no_panic [OF normalize_qos_ok] in auto)
qed simp

text \<open>
  C31. The CLIXML of a backup is read safely: whatever events the XML reader gives, the parser does not
  panic, and what it accepts is at most 512 policies with distinct names (ignoring case), each with a
  name of this program, a DSCP of at most 63, and either TCP or UDP with a non-zero port or an
  absolute path of a program. A file with an entity reference, a processing instruction or a parse
  error is never accepted.
\<close>

theorem qos_clixml_safe:
  "parse_qos_clixml reader b \<noteq> Panic
   \<and> (\<forall>policies. parse_qos_clixml reader b = Ok policies \<longrightarrow> length policies \<le> 512
       \<and> distinct (map (to_ascii_lowercase \<circ> qos_name) policies)
       \<and> (\<forall>p \<in> set policies. managed_name (qos_name p) \<and> (case p of
            Qos_Port name protocol port dscp \<Rightarrow> protocol \<in> {lit ''TCP'', lit ''UDP''} \<and> port \<noteq> 0 \<and> dscp \<le> 63
          | Qos_App name path dscp \<Rightarrow> valid_provider_exe path \<and> dscp \<le> 63))
       \<and> Xml_Other \<notin> set (reader (trim_bom b)) \<and> Xml_Error \<notin> set (reader (trim_bom b)))"
proof -
  let ?init = "\<lparr>qr_stack = [], qr_item = None, qr_property = None, qr_items = []\<rparr>"
  have events: "yields (qos_events es ?init) reader_ok" for es
    by (rule qos_events_ok) (simp add: reader_ok_iff)
  have "yields (parse_qos_clixml reader b) (\<lambda>policies. length policies \<le> 512
      \<and> distinct (map (to_ascii_lowercase \<circ> qos_name) policies) \<and> (\<forall>p \<in> set policies. policy_ok p))"
    unfolding parse_qos_clixml_def
    by (auto simp: yields_and_then reader_ok_iff intro!: yields_mono [OF events] yields_mono [OF qos_policies_ok])
  moreover have "Xml_Other \<notin> set (reader (trim_bom b)) \<and> Xml_Error \<notin> set (reader (trim_bom b))"
    if "parse_qos_clixml reader b = Ok policies" for policies
    using that unsupported_refused by (auto simp: parse_qos_clixml_def and_then_eq_Ok split: if_splits)
  ultimately show ?thesis
    unfolding policy_ok_def by (cases "parse_qos_clixml reader b") auto
qed

lemma qos_clixml_safe_witness:
  "parse_qos_clixml (\<lambda>_. [Xml_Start (lit ''Objs'') [], Xml_Other]) [] \<noteq> Ok []"
  using qos_clixml_safe [of "\<lambda>_. [Xml_Start (lit ''Objs'') [], Xml_Other]" "[]"] by auto

section \<open>Tables of adapters\<close>

definition MAX_CSV_BYTES :: nat where "MAX_CSV_BYTES = 1024 * 1024"
definition MAX_NIC_ROWS :: nat where "MAX_NIC_ROWS = 512"

record nic_row =
  nr_adapter :: bytes
  nr_display_name :: bytes
  nr_registry_keyword :: bytes
  nr_display_value :: bytes
  nr_registry_value :: bytes

record rsc_row =
  rs_name :: bytes
  rs_ipv4_enabled :: bool
  rs_ipv6_enabled :: bool

definition is_restorable :: "nic_row \<Rightarrow> bool" where
  "is_restorable row = (let has_keyword = (trim (nr_registry_keyword row) \<noteq> []);
       has_display = (trim (nr_display_name row) \<noteq> [])
     in \<not> (trim (nr_adapter row) = [] \<or> (\<not> has_keyword \<and> \<not> has_display)
       \<or> (has_keyword \<and> trim (nr_registry_value row) = []) \<or> (has_display \<and> trim (nr_display_value row) = [])))"

text \<open>The records the CSV library reads from a file: a row, or the text of the error of that record.\<close>

fun csv_rows :: "nat \<Rightarrow> bytes \<Rightarrow> (bytes + 'r) list \<Rightarrow> 'r list \<Rightarrow> ('r list, tuning_error) outcome" where
  "csv_rows maximum label [] rows = Ok rows"
| "csv_rows maximum label (Inl e # rs) rows = backup_invalid (lit ''invalid '' @ label @ lit '' CSV: '' @ e)"
| "csv_rows maximum label (Inr r # rs) rows =
     (if maximum < length (rows @ [r])
      then backup_invalid (label @ lit '' CSV exceeds '' @ decimal maximum @ lit '' rows'')
      else csv_rows maximum label rs (rows @ [r]))"

definition parse_csv :: "(bytes \<Rightarrow> (bytes + 'r) list) \<Rightarrow> bytes \<Rightarrow> nat \<Rightarrow> bytes \<Rightarrow> ('r list, tuning_error) outcome" where
  "parse_csv reader b maximum label =
     (if MAX_CSV_BYTES < length b then backup_invalid (label @ lit '' CSV exceeds 1 MiB'')
      else csv_rows maximum label (reader b) [])"

definition parse_nic_csv :: "(bytes \<Rightarrow> (bytes + nic_row) list) \<Rightarrow> bytes \<Rightarrow> (nic_row list, tuning_error) outcome" where
  "parse_nic_csv reader b = and_then (parse_csv reader b MAX_NIC_ROWS (lit ''NIC advanced'')) (\<lambda>rows.
     if rows = [] then backup_invalid (lit ''NIC advanced CSV must contain at least one row'')
     else if \<exists>row \<in> set rows. \<not> is_restorable row then backup_invalid (lit ''NIC advanced CSV contains an incomplete row'')
     else Ok rows)"

definition parse_rsc_csv :: "(bytes \<Rightarrow> (bytes + rsc_row) list) \<Rightarrow> bytes \<Rightarrow> (rsc_row list, tuning_error) outcome" where
  "parse_rsc_csv reader b = and_then (parse_csv reader b 64 (lit ''RSC'')) (\<lambda>rows.
     if rows = [] \<or> (\<exists>row \<in> set rows. trim (rs_name row) = []) then backup_invalid (lit ''RSC CSV contains an invalid row'')
     else Ok rows)"

record nic_csv =
  nc_bytes :: bytes
  nc_skipped :: nat
  nc_truncated :: nat

text \<open>\<open>serialize\<close> gives the error of a row the CSV library cannot write, \<open>finish\<close> the file or its error.\<close>

fun serialize_rows :: "(nic_row \<Rightarrow> bytes option) \<Rightarrow> nic_row list \<Rightarrow> (unit, tuning_error) outcome" where
  "serialize_rows serialize [] = Ok ()"
| "serialize_rows serialize (row # rows) = (case serialize row of
     Some e \<Rightarrow> backup_invalid (lit ''encode NIC CSV: '' @ e) | None \<Rightarrow> serialize_rows serialize rows)"

definition write_nic_csv :: "(nic_row \<Rightarrow> bytes option) \<Rightarrow> (nic_row list \<Rightarrow> bytes + bytes) \<Rightarrow> nic_row list
    \<Rightarrow> (nic_csv, tuning_error) outcome" where
  "write_nic_csv serialize finish all_rows =
     (let rows = filter is_restorable all_rows; skipped = filter (\<lambda>r. \<not> is_restorable r) all_rows;
          truncated = length rows - MAX_NIC_ROWS; rows = take MAX_NIC_ROWS rows
      in if rows = [] then Ok \<lparr>nc_bytes = [], nc_skipped = length skipped, nc_truncated = truncated\<rparr>
         else and_then (serialize_rows serialize rows) (\<lambda>_. (case finish rows of
           Inl e \<Rightarrow> backup_invalid (lit ''finish NIC CSV: '' @ e)
         | Inr b \<Rightarrow> Ok \<lparr>nc_bytes = b, nc_skipped = length skipped, nc_truncated = truncated\<rparr>)))"

lemma csv_rows_Ok: "length (acc @ rows) \<le> maximum \<Longrightarrow> csv_rows maximum label (map Inr rows) acc = Ok (acc @ rows)"
  by (induction rows arbitrary: acc) auto

lemma csv_rows_bounded: "csv_rows maximum label rs acc = Ok rows \<Longrightarrow> length acc \<le> maximum \<Longrightarrow> length rows \<le> maximum"
  by (induction maximum label rs acc rule: csv_rows.induct) (auto split: if_splits)

text \<open>Every table the writer produces is accepted by the validator, with the same rows.\<close>

lemma nic_csv_accepted:
  assumes written: "write_nic_csv serialize finish all_rows = Ok csv" "nc_bytes csv \<noteq> []"
    and library: "\<And>rows b. finish rows = Inr b \<Longrightarrow> reader b = map Inr rows"
    and fits: "length (nc_bytes csv) \<le> MAX_CSV_BYTES"
  shows "parse_nic_csv reader (nc_bytes csv) = Ok (take MAX_NIC_ROWS (filter is_restorable all_rows))
    \<and> nc_skipped csv + nc_truncated csv + length (take MAX_NIC_ROWS (filter is_restorable all_rows)) = length all_rows"
proof -
  define rows where rows_def: "rows = take MAX_NIC_ROWS (filter is_restorable all_rows)"
  have rows: "rows \<noteq> []" and b: "finish rows = Inr (nc_bytes csv)"
    and counts: "nc_skipped csv = length (filter (\<lambda>r. \<not> is_restorable r) all_rows)"
      "nc_truncated csv = length (filter is_restorable all_rows) - MAX_NIC_ROWS"
    using written unfolding write_nic_csv_def Let_def rows_def [symmetric]
    by (auto simp: and_then_eq_Ok split: if_splits sum.splits)
  have "length rows \<le> MAX_NIC_ROWS" by (simp add: rows_def)
  then have "csv_rows MAX_NIC_ROWS (lit ''NIC advanced'') (map Inr rows) [] = Ok rows"
    using csv_rows_Ok [of "[]" rows MAX_NIC_ROWS "lit ''NIC advanced''"] by simp
  then have "parse_csv reader (nc_bytes csv) MAX_NIC_ROWS (lit ''NIC advanced'') = Ok rows"
    using fits library [OF b] by (simp add: parse_csv_def)
  moreover have "\<forall>row \<in> set rows. is_restorable row" unfolding rows_def by (auto dest: in_set_takeD)
  ultimately have "parse_nic_csv reader (nc_bytes csv) = Ok rows"
    using rows by (auto simp: parse_nic_csv_def)
  moreover have "nc_skipped csv + nc_truncated csv + length rows = length all_rows"
    using sum_length_filter_compl [of is_restorable all_rows] by (simp add: counts rows_def min_def)
  ultimately show ?thesis unfolding rows_def by blast
qed

end
