(* ===== verification/Tuning_Qos.thy ===== *)
theory Tuning_Qos
  imports Backup_Qos
begin

text \<open>
  QoS policies of the Windows provider (\<open>crates/tuning/src/native/windows.rs\<close>): what a plan wants, how a
  policy becomes a provider row and is read back, the CLIXML of a backup, and the reconciliation of
  the managed policies with its rollback. The provider is a record of operations over its own state.
\<close>

section \<open>Rows\<close>

datatype wmi_value = Wmi_String bytes | Wmi_Strings "bytes list" | Wmi_Number int | Wmi_Bool bool | Wmi_Empty

type_synonym wmi_row = "bytes \<rightharpoonup> wmi_value"

definition row_string :: "wmi_row \<Rightarrow> bytes \<Rightarrow> bytes option" where
  "row_string row name = (case row name of Some (Wmi_String s) \<Rightarrow> Some s | _ \<Rightarrow> None)"

definition row_number :: "wmi_row \<Rightarrow> bytes \<Rightarrow> int option" where
  "row_number row name = (case row name of Some (Wmi_Number n) \<Rightarrow> Some n | _ \<Rightarrow> None)"

definition f_path :: bytes where "f_path = lit ''__PATH''"
definition f_name :: bytes where "f_name = lit ''Name''"
definition f_protocol :: bytes where "f_protocol = lit ''IPProtocolMatchCondition''"
definition f_port :: bytes where "f_port = lit ''IPPortMatchCondition''"
definition f_app :: bytes where "f_app = lit ''AppPathNameMatchCondition''"
definition f_dscp :: bytes where "f_dscp = lit ''DSCPAction''"
definition f_profile :: bytes where "f_profile = lit ''NetworkProfile''"

lemmas field_defs = f_path_def f_name_def f_protocol_def f_port_def f_app_def f_dscp_def f_profile_def

definition provider_inventory :: "bytes \<Rightarrow> tuning_error" where
  "provider_inventory m = Native (lit ''read QoS inventory'') (- 1) m"

definition parse_qos_row :: "wmi_row \<Rightarrow> bytes list \<Rightarrow> (qos_policy option, tuning_error) outcome" where
  "parse_qos_row row restore_names = (case row_string row f_name of
     None \<Rightarrow> Err (provider_inventory (lit ''QoS provider row is missing Name''))
   | Some name \<Rightarrow>
     if trim name = [] then Err (provider_inventory (lit ''QoS provider row is missing Name''))
     else if \<not> managed_qos_name name restore_names then Ok None
     else if (case row_string row f_path of None \<Rightarrow> True | Some p \<Rightarrow> trim p = [])
     then Err (provider_inventory (lit ''managed QoS provider row is missing __PATH''))
     else (case row_number row f_dscp of
       None \<Rightarrow> Err (provider_inventory (lit ''managed QoS policy has invalid or missing DSCPAction''))
     | Some d \<Rightarrow>
       if d < 0 \<or> 63 < d then Err (provider_inventory (lit ''managed QoS policy has invalid or missing DSCPAction''))
       else let dscp = word_of_int d;
                app = (case row_string row f_app of Some p \<Rightarrow> if p = [] then None else Some p | None \<Rightarrow> None)
         in (case (app, row_number row f_port, row_number row f_protocol) of
            (Some path, port, protocol) \<Rightarrow>
              if port = None \<and> protocol = None \<and> valid_provider_exe path then Ok (Some (Qos_App name path dscp))
              else Err (provider_inventory
                (lit ''managed application QoS policy has an invalid path or conflicting match conditions''))
          | (None, Some port, Some protocol) \<Rightarrow>
              if port \<le> 0 \<or> 65535 < port then Err (provider_inventory (lit ''managed QoS policy has invalid port''))
              else if protocol = 1 then Ok (Some (Qos_Port name (lit ''TCP'') (word_of_int port) dscp))
              else if protocol = 2 then Ok (Some (Qos_Port name (lit ''UDP'') (word_of_int port) dscp))
              else Err (provider_inventory (lit ''managed QoS policy protocol must be TCP or UDP''))
          | _ \<Rightarrow> Err (provider_inventory (lit ''managed QoS policy has incomplete match conditions'')))))"

definition create_values :: "qos_policy \<Rightarrow> (bytes \<times> wmi_value) list" where
  "create_values policy = [(f_name, Wmi_String (qos_name policy)), (f_profile, Wmi_Number 0)] @ (case policy of
     Qos_Port name protocol port dscp \<Rightarrow>
       [(f_protocol, Wmi_Number (if protocol = lit ''TCP'' then 1 else 2)),
        (f_port, Wmi_Number (uint port)), (f_dscp, Wmi_Number (uint dscp))]
   | Qos_App name app_path dscp \<Rightarrow> [(f_app, Wmi_String app_path), (f_dscp, Wmi_Number (uint dscp))])"

section \<open>What a plan wants\<close>

definition desired_qos :: "tuning_config \<Rightarrow> qos_policy list" where
  "desired_qos c =
     map (\<lambda>port. Qos_Port (lit ''NETWORK_LANTERN_QOS_PORT_'' @ decimal (unat port)) (lit ''UDP'') port (tc_dscp c))
       (tc_udp_ports c)
     @ (if tc_include_app_policies c
        then map (\<lambda>(index, path). Qos_App (lit ''NETWORK_LANTERN_QOS_APP_'' @ decimal index) (lossy path) (tc_dscp c))
          (enumerate 0 (tc_app_paths c))
        else [])"

definition qos_names :: "qos_policy list \<Rightarrow> bytes list" where
  "qos_names = map qos_name"

section \<open>The CLIXML of a backup\<close>

definition xml_escape :: "bytes \<Rightarrow> bytes" where
  "xml_escape v = concat (map (\<lambda>b.
     if b = 38 then lit ''&amp;'' else if b = 60 then lit ''&lt;'' else if b = 62 then lit ''&gt;''
     else if b = 34 then lit ''&quot;'' else if b = 39 then lit ''&apos;'' else [b]) v)"

definition xml_field :: "bytes \<times> bytes \<Rightarrow> bytes" where
  "xml_field nv = lit ''<S N='' @ [34] @ fst nv @ [34] @ lit ''>'' @ xml_escape (snd nv) @ lit ''</S>''"

definition policy_fields :: "qos_policy \<Rightarrow> (bytes \<times> bytes) list" where
  "policy_fields policy = (lit ''Name'', qos_name policy) # (case policy of
     Qos_Port name protocol port dscp \<Rightarrow>
       [(lit ''Type'', lit ''Port''), (lit ''Protocol'', protocol), (lit ''Port'', decimal (unat port)),
        (lit ''Dscp'', decimal (unat dscp))]
   | Qos_App name app_path dscp \<Rightarrow>
       [(lit ''Type'', lit ''App''), (lit ''AppPath'', app_path), (lit ''Dscp'', decimal (unat dscp))])"

definition qos_xml :: "qos_policy list \<Rightarrow> bytes" where
  "qos_xml policies = lit ''<Objs><LST>''
     @ concat (map (\<lambda>p. lit ''<Obj><MS>'' @ concat (map xml_field (policy_fields p)) @ lit ''</MS></Obj>'') policies)
     @ lit ''</LST></Objs>''"

section \<open>Reconciling\<close>

record 's cim =
  cm_query :: "bytes \<Rightarrow> bytes list \<Rightarrow> ('s, wmi_row list) io"
  cm_delete :: "wmi_row \<Rightarrow> ('s, unit) io"
  cm_create :: "bytes \<Rightarrow> (bytes \<times> wmi_value) list \<Rightarrow> ('s, unit) io"

definition QOS_CLASS :: bytes where "QOS_CLASS = lit ''MSFT_NetQosPolicySettingData''"

definition QOS_FIELDS :: "bytes list" where
  "QOS_FIELDS = [f_path, f_name, f_protocol, f_port, f_app, f_dscp]"

definition create_qos :: "'s cim \<Rightarrow> qos_policy \<Rightarrow> ('s, unit) io" where
  "create_qos cim policy = cm_create cim QOS_CLASS (create_values policy)"

text \<open>\<open>try_for_each\<close>, and a loop that ignores errors.\<close>

fun io_each :: "('a \<Rightarrow> ('s, unit) io) \<Rightarrow> 'a list \<Rightarrow> ('s, unit) io" where
  "io_each f [] = io_return ()"
| "io_each f (x # xs) = io_bind (f x) (\<lambda>_. io_each f xs)"

fun io_ignore :: "('a \<Rightarrow> ('s, unit) io) \<Rightarrow> 'a list \<Rightarrow> ('s, unit) io" where
  "io_ignore f [] = io_return ()"
| "io_ignore f (x # xs) = io_match (f x) (\<lambda>_. io_ignore f xs) (\<lambda>_. io_ignore f xs)"

text \<open>The policies that are ours, and the rows they come from.\<close>

fun managed_rows :: "bytes list \<Rightarrow> wmi_row list \<Rightarrow> ((wmi_row \<times> qos_policy) list, tuning_error) outcome" where
  "managed_rows restore_names [] = Ok []"
| "managed_rows restore_names (row # rows) = and_then (parse_qos_row row restore_names) (\<lambda>p.
     and_then (managed_rows restore_names rows) (\<lambda>rest. Ok (case p of None \<Rightarrow> rest | Some p \<Rightarrow> (row, p) # rest)))"

definition read_qos :: "'s cim \<Rightarrow> bytes list \<Rightarrow> ('s, qos_policy list) io" where
  "read_qos cim restore_names = io_bind (cm_query cim QOS_CLASS QOS_FIELDS) (\<lambda>rows.
     io_bind (io_lift (managed_rows restore_names rows)) (\<lambda>managed. io_return (map snd managed)))"

definition rollback_qos :: "'s cim \<Rightarrow> qos_policy list \<Rightarrow> bytes list \<Rightarrow> tuning_error \<Rightarrow> ('s, unit) io" where
  "rollback_qos cim current restore_names e =
     io_bind (io_match (cm_query cim QOS_CLASS [f_path, f_name])
       (\<lambda>rows. io_ignore (cm_delete cim) (filter (\<lambda>row. (case row_string row f_name of
           None \<Rightarrow> False | Some name \<Rightarrow> managed_qos_name name restore_names)) rows))
       (\<lambda>_. io_return ())) (\<lambda>_.
     io_match (io_each (create_qos cim) current)
       (\<lambda>_. io_fail e)
       (\<lambda>_. io_fail (Native (lit ''rollback QoS policies'') (- 1)
          (lit ''mutation failed: '' @ tuning_error_text e @ lit ''; rollback failed''))))"

definition reconcile_qos :: "'s cim \<Rightarrow> qos_policy list \<Rightarrow> qos_policy list \<Rightarrow> bytes list \<Rightarrow> ('s, unit) io" where
  "reconcile_qos cim current desired restore_names =
     io_bind (cm_query cim QOS_CLASS QOS_FIELDS) (\<lambda>rows.
     io_bind (io_lift (managed_rows restore_names rows)) (\<lambda>managed.
     io_match (io_bind (io_each (cm_delete cim) (map fst managed)) (\<lambda>_. io_each (create_qos cim) desired))
       io_return
       (rollback_qos cim current restore_names)))"

section \<open>A created row is read back\<close>

text \<open>What the provider can give back; the name is ours under the names of a restore.\<close>

definition readable :: "qos_policy \<Rightarrow> bool" where
  "readable p \<longleftrightarrow> (case p of
     Qos_Port name protocol port dscp \<Rightarrow> protocol \<in> {lit ''TCP'', lit ''UDP''} \<and> port \<noteq> 0 \<and> dscp \<le> 63
   | Qos_App name path dscp \<Rightarrow> valid_provider_exe path \<and> dscp \<le> 63)"

definition created_row :: "bytes \<Rightarrow> (bytes \<times> wmi_value) list \<Rightarrow> wmi_row" where
  "created_row path vals = (map_of vals)(f_path \<mapsto> Wmi_String path)"

lemma managed_name_nonblank: "managed_qos_name name restore_names \<Longrightarrow> trim name \<noteq> []"
proof
  assume m: "managed_qos_name name restore_names" and blank_name: "trim name = []"
  obtain prefix where p: "prefix \<in> set (OWNED_QOS_PREFIXES @ LEGACY_GENERIC_QOS_PREFIXES)"
      "eq_ignore_ascii_case (take (length prefix) name) prefix" "length prefix \<le> length name"
    using m by (auto simp: managed_qos_name_def has_prefix_def list_ex_iff)
  have "\<exists>b. prefix \<noteq> [] \<and> hd prefix = b \<and> (b = 78 \<or> b = 81)"
    using p(1) by (auto simp: OWNED_QOS_PREFIXES_def LEGACY_GENERIC_QOS_PREFIXES_def lit_def)
  then have prefix: "prefix \<noteq> []" "hd prefix = 78 \<or> hd prefix = 81" by auto
  then obtain a s where name: "name = a # s" using p(3) by (cases name) auto
  have "ascii_lower a = ascii_lower (hd prefix)"
    using p(2) prefix(1) name by (cases prefix) (auto simp: eq_ignore_ascii_case_def to_ascii_lowercase_def)
  then have "a \<in> {78, 81, 110, 113}"
    using prefix(2) by (auto simp: ascii_lower_def split: if_splits)
  then have "visible a" by (auto simp: visible_def)
  then have "char_chunks name = [a] # char_chunks s" "\<not> blank [a]"
    unfolding name by (rule char_chunks_visible, rule blank_visible)
  then have "\<exists>ds. dropWhile blank (rev (dropWhile blank (char_chunks name))) = ds @ [[a]]"
    by (auto simp: dropWhile_append)
  then show False using blank_name by (auto simp: trim_def)
qed

lemma u8_of_uint: "63 < uint d \<longleftrightarrow> 63 < (d :: u8)"
  by (simp add: word_less_def)

lemma valid_provider_nonempty: "valid_provider_exe p \<Longrightarrow> p \<noteq> []"
  by (auto simp: valid_provider_exe_def)

lemma created_row_fields:
  "row_string (created_row path (create_values p)) f_name = Some (qos_name p)"
  "row_string (created_row path (create_values p)) f_path = Some path"
  by (simp_all add: created_row_def create_values_def row_string_def field_defs lit_def split: qos_policy.split)

lemma created_port_fields:
  "row_number (created_row path (create_values (Qos_Port name protocol port dscp))) f_dscp = Some (uint dscp)"
  "row_number (created_row path (create_values (Qos_Port name protocol port dscp))) f_port = Some (uint port)"
  "row_number (created_row path (create_values (Qos_Port name protocol port dscp))) f_protocol
     = Some (if protocol = lit ''TCP'' then 1 else 2)"
  "row_string (created_row path (create_values (Qos_Port name protocol port dscp))) f_app = None"
  by (simp_all add: created_row_def create_values_def row_string_def row_number_def field_defs lit_def)

lemma created_app_fields:
  "row_number (created_row path (create_values (Qos_App name app dscp))) f_dscp = Some (uint dscp)"
  "row_number (created_row path (create_values (Qos_App name app dscp))) f_port = None"
  "row_number (created_row path (create_values (Qos_App name app dscp))) f_protocol = None"
  "row_string (created_row path (create_values (Qos_App name app dscp))) f_app = Some app"
  by (simp_all add: created_row_def create_values_def row_string_def row_number_def field_defs lit_def)

lemma created_row_parsed:
  assumes "managed_qos_name (qos_name p) restore_names" "trim path \<noteq> []" "readable p"
  shows "parse_qos_row (created_row path (create_values p)) restore_names = Ok (Some p)"
proof (cases p)
  case (Qos_Port name protocol port dscp)
  have port: "uint port < 65536" "0 < uint port" "lit ''UDP'' \<noteq> lit ''TCP''"
    using assms(3) Qos_Port unsigned_less [of port] by (auto simp: readable_def lit_def uint_0_iff order_less_le)
  show ?thesis
    using assms port managed_name_nonblank [OF assms(1)] unfolding Qos_Port parse_qos_row_def created_row_fields created_port_fields
    by (auto simp: readable_def u8_of_uint Let_def)
next
  case (Qos_App name app dscp)
  show ?thesis
    using assms managed_name_nonblank [OF assms(1)] valid_provider_nonempty [of app]
    unfolding Qos_App parse_qos_row_def created_row_fields created_app_fields
    by (auto simp: readable_def u8_of_uint Let_def)
qed

lemma created_app_refused:
  assumes "managed_qos_name name restore_names" "trim path \<noteq> []" "app \<noteq> []" "\<not> valid_provider_exe app" "dscp \<le> 63"
  shows "parse_qos_row (created_row path (create_values (Qos_App name app dscp))) restore_names
    = Err (provider_inventory (lit ''managed application QoS policy has an invalid path or conflicting match conditions''))"
  using assms managed_name_nonblank [OF assms(1)]
  unfolding parse_qos_row_def created_row_fields created_app_fields
  by (auto simp: u8_of_uint Let_def)

lemma has_prefix_append:
  assumes "prefix \<in> set prefixes" "s = [] \<or> \<not> continuation (hd s)"
  shows "has_prefix (prefix @ s) prefixes"
  using assms by (auto simp: has_prefix_def list_ex_iff eq_ignore_ascii_case_def is_char_boundary_def nth_append hd_conv_nth
      intro!: bexI [of _ prefix])

lemma decimal_hd: "\<not> continuation (hd (decimal n))"
  using decimal_digits [of "hd (decimal n)" n] decimal_nonempty [of n]
  by (auto simp: continuation_def word_le_nat_alt)

lemma has_prefix_decimal: "prefix \<in> set prefixes \<Longrightarrow> has_prefix (prefix @ decimal n) prefixes"
  using decimal_hd by (blast intro: has_prefix_append)

lemma desired_managed: "p \<in> set (desired_qos c) \<Longrightarrow> managed_qos_name (qos_name p) []"
  by (auto simp: desired_qos_def managed_qos_name_def OWNED_QOS_PREFIXES_def
      intro!: disjI1 has_prefix_decimal split: if_splits)

lemma app_path_exe: "validate_app_path p = Ok () \<Longrightarrow> valid_windows_exe p"
  by (auto simp: validate_app_path_def tuning_invalid_def split: if_splits)

text \<open>
  C32. What a plan makes the provider store is what the next run reads back, with one exception. For a
  validated plan, the row created for a port policy, or for an application policy whose path has a
  backslash after the drive, is read back as that policy; an application path written with a slash,
  which the plan accepts, makes the row unreadable, and with it every later inventory that contains it.
\<close>

theorem qos_read_back:
  assumes "plan_tuning config = Ok plan" "p \<in> set (desired_qos (tpl_config plan))" "trim path \<noteq> []"
  shows "parse_qos_row (created_row path (create_values p)) [] =
      (case p of
         Qos_Port _ _ _ _ \<Rightarrow> Ok (Some p)
       | Qos_App _ app _ \<Rightarrow> if app ! 2 = backslash then Ok (Some p)
           else Err (provider_inventory
             (lit ''managed application QoS policy has an invalid path or conflicting match conditions'')))
    \<and> (\<forall>app name dscp rows restore_names. p = Qos_App name app dscp \<longrightarrow> app ! 2 \<noteq> backslash
        \<longrightarrow> created_row path (create_values p) \<in> set rows \<longrightarrow> \<not> (\<exists>ps. managed_rows [] rows = Ok ps))"
proof -
  obtain c where c: "validate_tuning config = Ok c" "tpl_config plan = normalize_config config"
    using assms(1) by (auto simp: plan_tuning_def and_then_eq_Ok Let_def)
  then have valid: "tc_dscp config \<le> 63" "0 \<notin> set (tc_udp_ports config)"
      "\<forall>p \<in> set (tc_app_paths config). valid_windows_exe p"
    using app_path_exe by (auto simp: validate_tuning_Ok)
  have managed: "managed_qos_name (qos_name p) []" by (rule desired_managed [OF assms(2)])
  have desired: "(\<exists>port. p = Qos_Port (qos_name p) (lit ''UDP'') port (tc_dscp config) \<and> port \<noteq> 0)
      \<or> (\<exists>app. p = Qos_App (qos_name p) (lossy app) (tc_dscp config) \<and> valid_windows_exe app)"
    using assms(2) valid unfolding c(2) desired_qos_def
    by (auto simp: normalized_fields enumerate_eq_zip dest!: set_zip_rightD split: if_splits)
  then have parsed: "parse_qos_row (created_row path (create_values p)) [] =
      (case p of
         Qos_Port _ _ _ _ \<Rightarrow> Ok (Some p)
       | Qos_App _ app _ \<Rightarrow> if app ! 2 = backslash then Ok (Some p)
           else Err (provider_inventory
             (lit ''managed application QoS policy has an invalid path or conflicting match conditions'')))"
  proof (elim disjE exE conjE)
    fix port assume "p = Qos_Port (qos_name p) (lit ''UDP'') port (tc_dscp config)" "port \<noteq> 0"
    then show ?thesis using created_row_parsed [OF managed assms(3)] valid(1)
      by (cases p) (auto simp: readable_def)
  next
    fix app assume p: "p = Qos_App (qos_name p) (lossy app) (tc_dscp config)" "valid_windows_exe app"
    then have exe: "valid_provider_exe (lossy app) \<longleftrightarrow> lossy app ! 2 = backslash" "lossy app \<noteq> []"
      by (auto simp: valid_windows_exe_def valid_provider_exe_def Let_def)
    show ?thesis
    proof (cases "lossy app ! 2 = backslash")
      case True
      then have "readable p" using exe(1) p(1) valid(1) by (cases p) (auto simp: readable_def)
      with created_row_parsed [OF managed assms(3)] p(1) True show ?thesis by (cases p) auto
    next
      case False
      then show ?thesis
        using created_app_refused [OF managed assms(3) exe(2), of "tc_dscp config"] exe(1) p(1) valid(1) by (cases p) auto
    qed
  qed
  have "row \<in> set rows \<Longrightarrow> parse_qos_row row [] = Err e \<Longrightarrow> managed_rows [] rows \<noteq> Ok ps" for row rows e ps
    by (induction rows arbitrary: ps) (auto simp: and_then_eq_Ok)
  with parsed show ?thesis by auto
qed

text \<open>A plan with one application path, written with a slash.\<close>

definition slash_tuning :: tuning_config where
  "slash_tuning = TuningConfig_default\<lparr>tc_include_app_policies := True, tc_app_paths := [lit ''C:/a/b.exe'']\<rparr>"

lemma qos_read_back_witness:
  "\<not> (\<exists>ps. managed_rows [] [created_row [65] (create_values (Qos_App (lit ''NETWORK_LANTERN_QOS_APP_0'') (lit ''C:/a/b.exe'') 46))] = Ok ps)"
proof -
  have "validate_tuning slash_tuning = Ok ()"
    by (simp add: validate_tuning_Ok slash_tuning_def TuningConfig_default_def MAX_PORTS_def MAX_APPS_def
        validate_app_path_def MAX_PATH_BYTES_def lit_def valid_windows_exe_def Let_def slash_def backslash_def
        ends_with_def starts_with_def to_ascii_lowercase_def ascii_lower_def parent_component_def split_separators_def folder_is_def)
  then have plan: "plan_tuning slash_tuning = Ok \<lparr>tpl_config = normalize_config slash_tuning,
      tpl_steps = plan_steps (normalize_config slash_tuning), tpl_mutating = True, tpl_requires_helper = True\<rparr>"
    by (simp add: plan_tuning_def Let_def) (simp add: slash_tuning_def TuningConfig_default_def)
  have desired: "Qos_App (lit ''NETWORK_LANTERN_QOS_APP_0'') (lit ''C:/a/b.exe'') 46 \<in> set (desired_qos (normalize_config slash_tuning))"
    by (simp add: desired_qos_def normalize_config_def slash_tuning_def TuningConfig_default_def lit_def digit_def decimal.simps)
  have "trim [65] \<noteq> []" by (simp add: trim_def blank_def is_whitespace_def)
  from qos_read_back [OF plan _ this] desired show ?thesis by (simp add: lit_def backslash_def)
qed

section \<open>What reconciling leaves behind\<close>

definition our_row :: "bytes list \<Rightarrow> wmi_row \<Rightarrow> bool" where
  "our_row restore_names row \<longleftrightarrow> (case row_string row f_name of
     None \<Rightarrow> False | Some name \<Rightarrow> managed_qos_name name restore_names)"

text \<open>Every row has a path of its own.\<close>

definition rows_ok :: "wmi_row list \<Rightarrow> bool" where
  "rows_ok rows \<longleftrightarrow> distinct (map (\<lambda>r. r f_path) rows)
     \<and> (\<forall>r \<in> set rows. \<exists>p. r f_path = Some (Wmi_String p) \<and> trim p \<noteq> [])"

lemma row_restrict [simp]:
  "f \<in> set fs \<Longrightarrow> row_string (r |` set fs) f = row_string r f"
  "f \<in> set fs \<Longrightarrow> row_number (r |` set fs) f = row_number r f"
  by (simp_all add: row_string_def row_number_def)

lemma parse_restrict: "parse_qos_row (r |` set QOS_FIELDS) names = parse_qos_row r names"
proof -
  have "f_path \<in> set QOS_FIELDS" "f_name \<in> set QOS_FIELDS" "f_protocol \<in> set QOS_FIELDS" "f_port \<in> set QOS_FIELDS"
      "f_app \<in> set QOS_FIELDS" "f_dscp \<in> set QOS_FIELDS" by (simp_all add: QOS_FIELDS_def)
  then show ?thesis unfolding parse_qos_row_def by (simp only: row_restrict)
qed

lemma parse_ours: "parse_qos_row r names = Ok x \<Longrightarrow> (x = None \<longleftrightarrow> \<not> our_row names r)"
  by (auto simp: parse_qos_row_def our_row_def Let_def split: option.splits if_splits)

lemma managed_rows_append:
  "managed_rows names xs = Ok a \<Longrightarrow> managed_rows names ys = Ok b \<Longrightarrow> managed_rows names (xs @ ys) = Ok (a @ b)"
  by (induction xs arbitrary: a) (auto simp: and_then_eq_Ok split: option.split)

lemma managed_rows_Ok:
  "managed_rows names rs = Ok m \<Longrightarrow> map fst m = filter (our_row names) rs \<and> (\<forall>r \<in> set rs. \<exists>x. parse_qos_row r names = Ok x)"
  by (induction rs arbitrary: m) (auto simp: and_then_eq_Ok dest: parse_ours split: option.splits)

lemma managed_rows_foreign:
  "\<forall>r \<in> set rs. \<not> our_row names r \<and> (\<exists>x. parse_qos_row r names = Ok x) \<Longrightarrow> managed_rows names rs = Ok []"
  by (induction rs) (fastforce dest: parse_ours split: option.split)+

lemma managed_rows_restrict: "managed_rows names (map (\<lambda>r. r |` set QOS_FIELDS) rs) = 
    and_then (managed_rows names rs) (\<lambda>m. Ok (map (\<lambda>(r, p). (r |` set QOS_FIELDS, p)) m))"
proof (induction rs)
  case (Cons r rs)
  then show ?case
    by (cases "parse_qos_row r names"; cases "managed_rows names rs") (auto simp: parse_restrict split: option.split)
qed simp

lemma our_restrict:
  "f_name \<in> set fs \<Longrightarrow> our_row names (r |` set fs) = our_row names r"
  "f_path \<in> set fs \<Longrightarrow> (r |` set fs) f_path = r f_path"
  by (simp_all add: our_row_def)

lemma managed_rows_created:
  assumes "length paths = length ps" "\<forall>path \<in> set paths. trim path \<noteq> []"
    "\<forall>p \<in> set ps. managed_qos_name (qos_name p) names \<and> readable p"
  shows "\<exists>m. managed_rows names (map (\<lambda>(path, p). created_row path (create_values p)) (zip paths ps)) = Ok m \<and> map snd m = ps"
  using assms by (induction paths ps rule: list_induct2) (auto simp: created_row_parsed)

text \<open>
  The provider: a query gives the asked fields of every row, a deletion removes the row of the path, a
  creation appends a row with the given values under a new path; a call that fails changes nothing.
\<close>

locale qos_provider =
  fixes cim :: "'s cim" and rows :: "'s \<Rightarrow> wmi_row list"
  assumes query_keeps: "cm_query cim c fs s = (r, s') \<Longrightarrow> rows s' = rows s"
    and query_rows: "cm_query cim QOS_CLASS fs s = (Ok rs, s') \<Longrightarrow> rs = map (\<lambda>r. r |` set fs) (rows s)"
    and delete_row: "cm_delete cim row s = (Ok u, s') \<Longrightarrow> rows s' = filter (\<lambda>r. r f_path \<noteq> row f_path) (rows s)"
    and delete_failed: "cm_delete cim row s = (Err e, s') \<Longrightarrow> rows s' = rows s"
    and create_row: "cm_create cim QOS_CLASS vals s = (Ok u, s') \<Longrightarrow>
      \<exists>path. trim path \<noteq> [] \<and> (\<forall>r \<in> set (rows s). r f_path \<noteq> Some (Wmi_String path))
        \<and> rows s' = rows s @ [created_row path vals]"
    and create_failed: "cm_create cim QOS_CLASS vals s = (Err e, s') \<Longrightarrow> rows s' = rows s"
    and never_panics: "fst (cm_query cim c fs s) \<noteq> Panic" "fst (cm_delete cim row s) \<noteq> Panic"
      "fst (cm_create cim c vals s) \<noteq> Panic"
begin

definition kept :: "bytes list \<Rightarrow> 's \<Rightarrow> 's \<Rightarrow> bool" where
  "kept names s s' \<longleftrightarrow> (rows_ok (rows s) \<longrightarrow> rows_ok (rows s'))
     \<and> filter (\<lambda>r. \<not> our_row names r) (rows s') = filter (\<lambda>r. \<not> our_row names r) (rows s)"

lemma kept_refl: "rows s' = rows s \<Longrightarrow> kept names s s'"
  by (simp add: kept_def)

lemma kept_trans: "kept names s s1 \<Longrightarrow> kept names s1 s2 \<Longrightarrow> kept names s s2"
  by (simp add: kept_def)

text \<open>Deleting rows whose paths are ours leaves the others.\<close>

definition only_ours :: "bytes list \<Rightarrow> 's \<Rightarrow> wmi_row \<Rightarrow> bool" where
  "only_ours names s row \<longleftrightarrow> (\<forall>q \<in> set (rows s). q f_path = row f_path \<longrightarrow> our_row names q)"

lemma delete_kept:
  assumes "cm_delete cim row s = (r, s')" "only_ours names s row"
  shows "kept names s s'" "set (rows s') \<subseteq> set (rows s)"
    "r = Ok u \<Longrightarrow> rows s' = filter (\<lambda>r. r f_path \<noteq> row f_path) (rows s)"
proof -
  have "rows s' = filter (\<lambda>r. r f_path \<noteq> row f_path) (rows s) \<or> rows s' = rows s"
    using assms(1) delete_row delete_failed never_panics(2) [of row s] by (cases r) auto
  moreover have "filter (\<lambda>r. \<not> our_row names r \<and> r f_path \<noteq> row f_path) (rows s) = filter (\<lambda>r. \<not> our_row names r) (rows s)"
    using assms(2) by (intro filter_cong) (auto simp: only_ours_def)
  ultimately show "kept names s s'" "set (rows s') \<subseteq> set (rows s)"
    by (auto simp: kept_def rows_ok_def distinct_map_filter conj_commute)
  show "r = Ok u \<Longrightarrow> rows s' = filter (\<lambda>r. r f_path \<noteq> row f_path) (rows s)"
    using assms(1) delete_row by blast
qed

lemma delete_all:
  assumes "io_each (cm_delete cim) ds s = (r, s')" "\<forall>d \<in> set ds. only_ours names s d"
  shows "kept names s s' \<and> r \<noteq> Panic \<and> (r = Ok () \<longrightarrow> rows s' = filter (\<lambda>r. r f_path \<notin> (\<lambda>d. d f_path) ` set ds) (rows s))"
  using assms
proof (induction ds arbitrary: s)
  case Nil
  then show ?case by (auto simp: io_return_def intro: kept_refl)
next
  case (Cons d ds)
  from Cons.prems(1) have "io_bind (cm_delete cim d) (\<lambda>_. io_each (cm_delete cim) ds) s = (r, s')" by simp
  then show ?case
  proof (cases rule: io_bindE)
    case (Ok u s1)
    have d: "only_ours names s d" using Cons.prems(2) by simp
    note first = delete_kept [OF Ok(1) d]
    have "\<forall>d \<in> set ds. only_ours names s1 d"
      using Cons.prems(2) first(2) by (auto simp: only_ours_def)
    from Cons.IH [OF Ok(2) this] first(1) first(3) [OF refl] show ?thesis
      by (auto simp: conj_commute intro: kept_trans)
  next
    case (Err e)
    then show ?thesis using delete_kept(1) Cons.prems(2) by auto
  next
    case Panic
    then show ?thesis using never_panics(2) [of d s] by simp
  qed
qed

lemma delete_ignoring:
  assumes "io_ignore (cm_delete cim) ds s = (r, s')" "\<forall>d \<in> set ds. only_ours names s d"
  shows "kept names s s' \<and> r = Ok ()"
  using assms
proof (induction ds arbitrary: s)
  case Nil
  then show ?case by (auto simp: io_return_def intro: kept_refl)
next
  case (Cons d ds)
  obtain r1 s1 where d: "cm_delete cim d s = (r1, s1)" by fastforce
  have first: "kept names s s1" "set (rows s1) \<subseteq> set (rows s)"
    using delete_kept(1,2) [OF d] Cons.prems(2) by auto
  have "io_ignore (cm_delete cim) ds s1 = (r, s')"
    using Cons.prems(1) d never_panics(2) [of d s] by (cases r1) (simp_all add: io_match_def)
  moreover have "\<forall>d \<in> set ds. only_ours names s1 d"
    using Cons.prems(2) first(2) by (auto simp: only_ours_def)
  ultimately show ?case using Cons.IH first(1) by (blast intro: kept_trans)
qed

lemma create_kept:
  assumes "create_qos cim p s = (r, s')" "managed_qos_name (qos_name p) names"
  shows "kept names s s'"
    and "r = Ok u \<Longrightarrow> \<exists>path. trim path \<noteq> [] \<and> rows s' = rows s @ [created_row path (create_values p)]"
proof -
  have ours: "our_row names (created_row path (create_values p))" for path
    using assms(2) by (simp add: our_row_def created_row_fields)
  show "kept names s s'"
  proof (cases r)
    case (Ok u)
    obtain path where path: "trim path \<noteq> []" "\<forall>r \<in> set (rows s). r f_path \<noteq> Some (Wmi_String path)"
        "rows s' = rows s @ [created_row path (create_values p)]"
      using create_row assms(1) Ok unfolding create_qos_def by blast
    then have "rows_ok (rows s) \<Longrightarrow> rows_ok (rows s')"
      by (auto simp: rows_ok_def created_row_def image_iff)
    with path(3) ours show ?thesis by (simp add: kept_def)
  next
    case (Err e)
    then show ?thesis using create_failed assms(1) unfolding create_qos_def by (auto intro: kept_refl)
  next
    case Panic
    then show ?thesis using never_panics(3) [of QOS_CLASS "create_values p" s] assms(1) by (simp add: create_qos_def)
  qed
  show "\<exists>path. trim path \<noteq> [] \<and> rows s' = rows s @ [created_row path (create_values p)]" if "r = Ok u"
    using create_row assms(1) that unfolding create_qos_def by blast
qed

lemma create_all:
  assumes "io_each (create_qos cim) ps s = (r, s')" "\<forall>p \<in> set ps. managed_qos_name (qos_name p) names"
  shows "kept names s s' \<and> r \<noteq> Panic \<and> (r = Ok () \<longrightarrow> (\<exists>paths. length paths = length ps \<and> (\<forall>p \<in> set paths. trim p \<noteq> [])
    \<and> rows s' = rows s @ map (\<lambda>(path, p). created_row path (create_values p)) (zip paths ps)))"
  using assms
proof (induction ps arbitrary: s)
  case Nil
  then show ?case by (auto simp: io_return_def intro: kept_refl)
next
  case (Cons p ps)
  from Cons.prems(1) have "io_bind (create_qos cim p) (\<lambda>_. io_each (create_qos cim) ps) s = (r, s')" by simp
  then show ?case
  proof (cases rule: io_bindE)
    case (Ok u s1)
    have first: "kept names s s1" by (rule create_kept(1) [OF Ok(1)]) (use Cons.prems in simp)
    obtain path where path: "trim path \<noteq> []" "rows s1 = rows s @ [created_row path (create_values p)]"
      using create_kept(2) [OF Ok(1)] Cons.prems(2) by auto
    have rest: "kept names s1 s' \<and> r \<noteq> Panic \<and> (r = Ok () \<longrightarrow> (\<exists>paths. length paths = length ps \<and> (\<forall>p \<in> set paths. trim p \<noteq> [])
      \<and> rows s' = rows s1 @ map (\<lambda>(path, p). created_row path (create_values p)) (zip paths ps)))"
      by (rule Cons.IH [OF Ok(2)]) (use Cons.prems in simp)
    show ?thesis
    proof (intro conjI impI)
      show "kept names s s'" "r \<noteq> Panic" using first rest by (blast intro: kept_trans)+
      assume "r = Ok ()"
      then obtain paths where p: "length paths = length ps" "\<forall>p \<in> set paths. trim p \<noteq> []"
        "rows s' = rows s1 @ map (\<lambda>(path, p). created_row path (create_values p)) (zip paths ps)"
        using rest by blast
      with path show "\<exists>paths. length paths = length (p # ps) \<and> (\<forall>p \<in> set paths. trim p \<noteq> [])
          \<and> rows s' = rows s @ map (\<lambda>(path, p). created_row path (create_values p)) (zip paths (p # ps))"
        by (intro exI [of _ "path # paths"]) simp
    qed
  next
    case (Err e)
    then show ?thesis using create_kept(1) Cons.prems(2) by auto
  next
    case Panic
    then show ?thesis using never_panics(3) [of QOS_CLASS "create_values p" s] by (simp add: create_qos_def)
  qed
qed

lemma rollback_rows:
  assumes run: "rollback_qos cim current names e s = (r, s')" and s: "rows_ok (rows s)"
    and ours: "\<forall>p \<in> set current. managed_qos_name (qos_name p) names"
  shows "kept names s s' \<and> (\<exists>e. r = Err e)"
proof -
  let ?ours = "\<lambda>row. (case row_string row f_name of None \<Rightarrow> False | Some name \<Rightarrow> managed_qos_name name names)"
  define clear where "clear = io_match (cm_query cim QOS_CLASS [f_path, f_name])
    (\<lambda>rows. io_ignore (cm_delete cim) (filter ?ours rows)) (\<lambda>_. io_return ())"
  obtain r1 s1 where cleared: "clear s = (r1, s1)" by fastforce
  have kept1: "kept names s s1 \<and> r1 = Ok ()"
  proof -
    obtain q s0 where query: "cm_query cim QOS_CLASS [f_path, f_name] s = (q, s0)" by fastforce
    have s0: "rows s0 = rows s" "q \<noteq> Panic"
      using query_keeps [OF query] never_panics(1) [of QOS_CLASS "[f_path, f_name]" s] query by auto
    show ?thesis
    proof (cases q)
      case (Ok rs)
      have rs: "rs = map (\<lambda>r. r |` set [f_path, f_name]) (rows s)" using query_rows query Ok by blast
      have own: "?ours (r |` set [f_path, f_name]) = our_row names r" "(r |` set [f_path, f_name]) f_path = r f_path" for r
        unfolding our_row_def [symmetric] by (rule our_restrict; simp)+
      have "x = y" if "x \<in> set (rows s)" "y \<in> set (rows s)" "x f_path = y f_path" for x y
        using that s by (auto simp: rows_ok_def distinct_map inj_on_def)
      then have only: "\<forall>d \<in> set (filter ?ours rs). only_ours names s0 d"
        unfolding rs s0(1) only_ours_def filter_map comp_def own by (fastforce simp: own)
      have "io_ignore (cm_delete cim) (filter ?ours rs) s0 = (r1, s1)"
        using cleared query Ok by (simp add: clear_def io_match_def)
      from delete_ignoring [OF this only] show ?thesis using s0(1) by (simp add: kept_def)
    next
      case (Err e)
      then show ?thesis using cleared query s0(1) by (auto simp: clear_def io_match_def io_return_def intro: kept_refl)
    qed (use s0 in simp)
  qed
  obtain r2 s2 where created: "io_each (create_qos cim) current s1 = (r2, s2)" by fastforce
  have "kept names s1 s2" "r2 \<noteq> Panic" using create_all [OF created ours] by auto
  moreover have "s' = s2 \<and> (\<exists>e. r = Err e)"
    using run kept1 cleared created calculation(2)
    by (cases r2) (auto simp: rollback_qos_def clear_def [symmetric] io_bind_def io_match_def io_fail_def)
  ultimately show ?thesis using kept1 by (blast intro: kept_trans)
qed

lemma reconcile_rows:
  assumes run: "reconcile_qos cim current desired names s = (r, s')" and s: "rows_ok (rows s)"
    and ours: "\<forall>p \<in> set desired \<union> set current. managed_qos_name (qos_name p) names"
  shows "kept names s s' \<and> r \<noteq> Panic \<and> (r = Ok () \<longrightarrow> (\<exists>paths. length paths = length desired \<and> (\<forall>p \<in> set paths. trim p \<noteq> [])
    \<and> rows s' = filter (\<lambda>r. \<not> our_row names r) (rows s)
        @ map (\<lambda>(path, p). created_row path (create_values p)) (zip paths desired)
    \<and> (\<forall>r \<in> set (rows s). \<exists>x. parse_qos_row r names = Ok x)))"
proof -
  obtain q s1 where query: "cm_query cim QOS_CLASS QOS_FIELDS s = (q, s1)" by fastforce
  have s1: "rows s1 = rows s" "q \<noteq> Panic" using query_keeps [OF query] never_panics(1) [of QOS_CLASS QOS_FIELDS s] query by auto
  show ?thesis
  proof (cases "\<exists>rs m. q = Ok rs \<and> managed_rows names rs = Ok m")
    case False
    have "managed_rows names rs \<noteq> Panic" for rs
    proof (induction rs)
      case (Cons row rs)
      have "parse_qos_row row names \<noteq> Panic"
        by (auto simp: parse_qos_row_def Let_def split: option.splits)
      with Cons show ?case
        by (cases "parse_qos_row row names"; cases "managed_rows names rs") auto
    qed simp
    then show ?thesis using False run query s1
      by (cases q; cases "managed_rows names (case q of Ok rs \<Rightarrow> rs)")
        (auto simp: reconcile_qos_def io_bind_def io_lift_def intro: kept_refl)
  next
    case True
    then obtain rs m where q: "q = Ok rs" "managed_rows names rs = Ok m" by blast
    have rs: "rs = map (\<lambda>r. r |` set QOS_FIELDS) (rows s)" using query_rows query q(1) by blast
    have own: "our_row names (r |` set QOS_FIELDS) = our_row names r" "(r |` set QOS_FIELDS) f_path = r f_path" for r
      by (rule our_restrict; simp add: QOS_FIELDS_def)+
    have m: "map fst m = map (\<lambda>r. r |` set QOS_FIELDS) (filter (our_row names) (rows s))"
      "\<forall>r \<in> set (rows s). \<exists>x. parse_qos_row r names = Ok x"
      using managed_rows_Ok [OF q(2)] by (auto simp: rs filter_map comp_def own parse_restrict)
    have same: "x = y" if "x \<in> set (rows s)" "y \<in> set (rows s)" "x f_path = y f_path" for x y
      using that s by (auto simp: rows_ok_def distinct_map inj_on_def)
    have only: "\<forall>d \<in> set (map fst m). only_ours names s1 d"
      unfolding m(1) using same s1(1) by (auto simp: only_ours_def own)
    define change where "change = io_bind (io_each (cm_delete cim) (map fst m)) (\<lambda>_. io_each (create_qos cim) desired)"
    obtain r2 s2 where change: "change s1 = (r2, s2)" by fastforce
    have changed: "kept names s1 s2 \<and> r2 \<noteq> Panic \<and> (r2 = Ok () \<longrightarrow> (\<exists>paths. length paths = length desired \<and> (\<forall>p \<in> set paths. trim p \<noteq> [])
      \<and> rows s2 = filter (\<lambda>r. \<not> our_row names r) (rows s)
          @ map (\<lambda>(path, p). created_row path (create_values p)) (zip paths desired)))"
      using change unfolding change_def
    proof (cases rule: io_bindE)
      case (Ok u s3)
      have deleted: "kept names s1 s3" "rows s3 = filter (\<lambda>r. r f_path \<notin> (\<lambda>d. d f_path) ` set (map fst m)) (rows s1)"
        using delete_all [OF Ok(1) only] by auto
      have "filter (\<lambda>r. r f_path \<notin> (\<lambda>d. d f_path) ` set (map fst m)) (rows s) = filter (\<lambda>r. \<not> our_row names r) (rows s)"
        unfolding m(1) using same by (intro filter_cong) (auto simp: own image_iff)
      with create_all [OF Ok(2), of names] ours deleted s1(1) show ?thesis by (auto intro: kept_trans)
    next
      case (Err e)
      then show ?thesis using delete_all [OF Err(1) only] by simp
    next
      case Panic
      then show ?thesis using delete_all [OF Panic(1) only] by simp
    qed
    have result: "(r, s') = io_match change io_return (rollback_qos cim current names) s1"
      using run query q by (simp add: reconcile_qos_def change_def io_bind_def io_lift_def)
    show ?thesis
    proof (cases r2)
      case (Ok u)
      then show ?thesis using result change changed m(2) s1(1) by (auto simp: io_match_def io_return_def kept_def)
    next
      case (Err e)
      have undone: "rollback_qos cim current names e s2 = (r, s')" using result change Err by (simp add: io_match_def)
      have "rows_ok (rows s2)" using changed s s1(1) by (simp add: kept_def)
      from rollback_rows [OF undone this] ours changed s1(1) show ?thesis by (auto simp: kept_def)
    qed (use changed in simp)
  qed
qed

end

section \<open>A provider in memory\<close>

text \<open>Rows in memory; the next call fails when the head of the list of faults says so.\<close>

record wmi_store =
  ws_rows :: "wmi_row list"
  ws_faults :: "bool list"

definition wmi_faulty :: "(wmi_store, 'a) io \<Rightarrow> (wmi_store, 'a) io" where
  "wmi_faulty m s = (case ws_faults s of
     [] \<Rightarrow> m s
   | f # fs \<Rightarrow> (let s = s\<lparr>ws_faults := fs\<rparr> in if f then (Err (provider_inventory []), s) else m s))"

definition path_size :: "wmi_row \<Rightarrow> nat" where
  "path_size r = (case r f_path of Some (Wmi_String p) \<Rightarrow> length p | _ \<Rightarrow> 0)"

definition fresh_path :: "wmi_row list \<Rightarrow> bytes" where
  "fresh_path rows = replicate (Suc (sum_list (map path_size rows))) 80"

definition store_cim :: "wmi_store cim" where
  "store_cim = \<lparr>cm_query = (\<lambda>c fs. wmi_faulty (\<lambda>s. (Ok (map (\<lambda>r. r |` set fs) (ws_rows s)), s))),
     cm_delete = (\<lambda>row. wmi_faulty (\<lambda>s. (Ok (), s\<lparr>ws_rows := filter (\<lambda>r. r f_path \<noteq> row f_path) (ws_rows s)\<rparr>))),
     cm_create = (\<lambda>c vals. wmi_faulty (\<lambda>s. (Ok (), s\<lparr>ws_rows := ws_rows s @ [created_row (fresh_path (ws_rows s)) vals]\<rparr>)))\<rparr>"

lemma fresh_path_new: "r \<in> set rows \<Longrightarrow> r f_path \<noteq> Some (Wmi_String (fresh_path rows))"
proof
  assume r: "r \<in> set rows" "r f_path = Some (Wmi_String (fresh_path rows))"
  then have "path_size r = Suc (sum_list (map path_size rows))" by (simp add: path_size_def fresh_path_def)
  moreover have "path_size r \<le> sum_list (map path_size rows)" using r(1) by (simp add: member_le_sum_list)
  ultimately show False by simp
qed

lemma trim_fresh_path: "trim (fresh_path rows) \<noteq> []"
proof -
  have "visible (80::u8)" by (simp add: visible_def)
  then have chunks: "char_chunks (replicate n 80) = replicate n [80]" "\<not> blank [80]" for n
    by (induction n) (simp_all add: char_chunks_visible blank_visible del: char_chunks.simps(2))
  have "dropWhile blank (replicate (Suc n) [80]) = replicate (Suc n) [80]" for n using chunks(2) by simp
  then show ?thesis
    unfolding fresh_path_def trim_def chunks(1) by (simp only: rev_replicate concat_eq_Nil_conv) auto
qed

interpretation store: qos_provider store_cim ws_rows
proof
  fix vals s u s' assume "cm_create store_cim QOS_CLASS vals s = (Ok u, s')"
  then have "ws_rows s' = ws_rows s @ [created_row (fresh_path (ws_rows s)) vals]"
    by (auto simp: store_cim_def wmi_faulty_def Let_def split: list.splits if_splits)
  then show "\<exists>path. trim path \<noteq> [] \<and> (\<forall>r \<in> set (ws_rows s). r f_path \<noteq> Some (Wmi_String path))
      \<and> ws_rows s' = ws_rows s @ [created_row path vals]"
    using fresh_path_new trim_fresh_path by blast
qed (auto simp: store_cim_def wmi_faulty_def Let_def split: list.splits if_splits)

text \<open>
  C33. Reconciling never touches a foreign policy, whatever calls of the provider fail, and never panics.
  When it succeeds, the policies of this program are exactly the desired ones: the rows are the foreign
  ones as before and one new row per desired policy, and the next inventory reads back the desired
  policies in order.
\<close>

theorem qos_reconciled:
  assumes provider: "qos_provider cim rows" and s: "rows_ok (rows s)"
    and ours: "\<forall>p \<in> set desired \<union> set current. managed_qos_name (qos_name p) names \<and> readable p"
    and run: "reconcile_qos cim current desired names s = (r, s')"
  shows "filter (\<lambda>r. \<not> our_row names r) (rows s') = filter (\<lambda>r. \<not> our_row names r) (rows s)
    \<and> rows_ok (rows s') \<and> r \<noteq> Panic
    \<and> (r = Ok () \<longrightarrow> (\<exists>created. length created = length desired
        \<and> rows s' = filter (\<lambda>r. \<not> our_row names r) (rows s) @ created
        \<and> (\<forall>q s''. cm_query cim QOS_CLASS QOS_FIELDS s' = (Ok q, s'') \<longrightarrow> fst (read_qos cim names s') = Ok desired)))"
proof -
  have "\<forall>p \<in> set desired \<union> set current. managed_qos_name (qos_name p) names" using ours by blast
  note result = qos_provider.reconcile_rows [OF provider run s this]
  have kept: "filter (\<lambda>r. \<not> our_row names r) (rows s') = filter (\<lambda>r. \<not> our_row names r) (rows s) \<and> rows_ok (rows s')"
    using result s unfolding qos_provider.kept_def [OF provider] by blast
  have "\<exists>created. length created = length desired \<and> rows s' = filter (\<lambda>r. \<not> our_row names r) (rows s) @ created
        \<and> (\<forall>q s''. cm_query cim QOS_CLASS QOS_FIELDS s' = (Ok q, s'') \<longrightarrow> fst (read_qos cim names s') = Ok desired)"
    if ok: "r = Ok ()"
  proof -
    obtain paths where paths: "length paths = length desired" "\<forall>p \<in> set paths. trim p \<noteq> []"
        "rows s' = filter (\<lambda>r. \<not> our_row names r) (rows s)
          @ map (\<lambda>(path, p). created_row path (create_values p)) (zip paths desired)"
        "\<forall>r \<in> set (rows s). \<exists>x. parse_qos_row r names = Ok x"
      using result [THEN conjunct2, THEN conjunct2, THEN mp, OF ok] by (elim exE conjE) simp
    obtain m where m: "managed_rows names (map (\<lambda>(path, p). created_row path (create_values p)) (zip paths desired)) = Ok m"
        "map snd m = desired"
      using managed_rows_created [OF paths(1,2)] ours by blast
    have "managed_rows names (filter (\<lambda>r. \<not> our_row names r) (rows s)) = Ok []"
      using paths(4) by (intro managed_rows_foreign) auto
    from managed_rows_append [OF this m(1)] have all: "managed_rows names (rows s') = Ok m" using paths(3) by simp
    have "fst (read_qos cim names s') = Ok desired" if query: "cm_query cim QOS_CLASS QOS_FIELDS s' = (Ok q, s'')" for q s''
    proof -
      have "q = map (\<lambda>r. r |` set QOS_FIELDS) (rows s')" by (rule qos_provider.query_rows [OF provider query])
      then have "managed_rows names q = Ok (map (\<lambda>(r, p). (r |` set QOS_FIELDS, p)) m)"
        by (simp add: managed_rows_restrict all)
      moreover have "map snd (map (\<lambda>(r, p). (r |` set QOS_FIELDS, p)) m) = desired"
        using m(2) by (simp add: comp_def case_prod_beta)
      ultimately show ?thesis
        using query by (simp add: read_qos_def io_bind_def io_lift_def io_return_def)
    qed
    with paths(1,3) show ?thesis
      by (intro exI [of _ "map (\<lambda>(path, p). created_row path (create_values p)) (zip paths desired)"]) simp
  qed
  with kept result show ?thesis by blast
qed

lemma qos_reconciled_witness:
  "rows_ok (ws_rows (snd (reconcile_qos store_cim [] [Qos_Port (lit ''NDS_QOS_PORT_1'') (lit ''TCP'') 1 0] []
     \<lparr>ws_rows = [[f_path \<mapsto> Wmi_String [65], f_name \<mapsto> Wmi_String [66]]], ws_faults = [False, True]\<rparr>)))"
proof -
  have foreign: "rows_ok [[f_path \<mapsto> Wmi_String [65], f_name \<mapsto> Wmi_String [66]]]"
    by (simp add: rows_ok_def trim_def blank_def is_whitespace_def field_defs lit_def)
  have "managed_qos_name (lit ''NDS_QOS_PORT_1'') []"
    using has_prefix_append [of "lit ''NDS_QOS_PORT_''" OWNED_QOS_PREFIXES "lit ''1''"]
    by (simp add: managed_qos_name_def OWNED_QOS_PREFIXES_def lit_def continuation_def)
  then have "\<forall>p \<in> set [Qos_Port (lit ''NDS_QOS_PORT_1'') (lit ''TCP'') 1 0] \<union> set [].
      managed_qos_name (qos_name p) [] \<and> readable p"
    by (simp add: readable_def)
  from qos_reconciled [OF store.qos_provider_axioms, of "\<lparr>ws_rows = [[f_path \<mapsto> Wmi_String [65],
      f_name \<mapsto> Wmi_String [66]]], ws_faults = [False, True]\<rparr>", OF _ this prod.collapse [symmetric]] foreign
  show ?thesis by simp
qed

end
