(* ===== verification/Backup_Bundle.thy ===== *)
theory Backup_Bundle
  imports Backup_Qos
begin

text \<open>
  The validation of a backup: its manifest (\<open>crates/tuning/src/backup/manifest.rs\<close>), the checks of
  folders and access lists as built for Windows (\<open>native/windows.rs\<close>), the bundle of verified artifacts
  (\<open>backup/mod.rs\<close>) and the verification of a staged copy (\<open>backup/staging.rs\<close>). JSON, SHA-256, UUIDs and
  the XML and CSV libraries are a parameter.
\<close>

section \<open>The manifest\<close>

datatype artifact_kind = Kind_System_Profile | Kind_Afd_Parameters | Kind_Tcpip_Qos | Kind_Qos_Policies
  | Kind_Nic_Advanced | Kind_Nic_Rsc | Kind_Power_Plan

primrec kind_index :: "artifact_kind \<Rightarrow> nat" where
  "kind_index Kind_System_Profile = 0"
| "kind_index Kind_Afd_Parameters = 1"
| "kind_index Kind_Tcpip_Qos = 2"
| "kind_index Kind_Qos_Policies = 3"
| "kind_index Kind_Nic_Advanced = 4"
| "kind_index Kind_Nic_Rsc = 5"
| "kind_index Kind_Power_Plan = 6"

text \<open>The derived order of the kinds.\<close>

instantiation artifact_kind :: linorder
begin

definition less_eq_artifact_kind :: "artifact_kind \<Rightarrow> artifact_kind \<Rightarrow> bool" where
  "less_eq_artifact_kind a b \<longleftrightarrow> kind_index a \<le> kind_index b"

definition less_artifact_kind :: "artifact_kind \<Rightarrow> artifact_kind \<Rightarrow> bool" where
  "less_artifact_kind a b \<longleftrightarrow> kind_index a < kind_index b"

instance
proof
  fix a b :: artifact_kind
  show "a \<le> b \<Longrightarrow> b \<le> a \<Longrightarrow> a = b"
    by (cases a; cases b) (simp_all add: less_eq_artifact_kind_def)
qed (auto simp: less_eq_artifact_kind_def less_artifact_kind_def)

end

definition ArtifactKind_ALL :: "artifact_kind list" where
  "ArtifactKind_ALL = [Kind_System_Profile, Kind_Afd_Parameters, Kind_Tcpip_Qos, Kind_Qos_Policies,
     Kind_Nic_Advanced, Kind_Nic_Rsc, Kind_Power_Plan]"

primrec file_name :: "artifact_kind \<Rightarrow> bytes" where
  "file_name Kind_System_Profile = lit ''SystemProfile.reg''"
| "file_name Kind_Afd_Parameters = lit ''AFD_Parameters.reg''"
| "file_name Kind_Tcpip_Qos = lit ''Tcpip_QoS.reg''"
| "file_name Kind_Qos_Policies = lit ''qos_ours.xml''"
| "file_name Kind_Nic_Advanced = lit ''nic_advanced_backup.csv''"
| "file_name Kind_Nic_Rsc = lit ''rsc_backup.csv''"
| "file_name Kind_Power_Plan = lit ''powerplan.txt''"

definition MAX_MANIFEST_BYTES :: nat where "MAX_MANIFEST_BYTES = 1024 * 1024"
definition MAX_REGISTRY_BYTES :: nat where "MAX_REGISTRY_BYTES = 1024 * 1024"

definition max_bytes :: "artifact_kind \<Rightarrow> nat" where
  "max_bytes k = (case k of
     Kind_Qos_Policies \<Rightarrow> MAX_QOS_BYTES | Kind_Power_Plan \<Rightarrow> 64
   | Kind_Nic_Advanced \<Rightarrow> MAX_CSV_BYTES | Kind_Nic_Rsc \<Rightarrow> MAX_CSV_BYTES | _ \<Rightarrow> MAX_REGISTRY_BYTES)"

record manifest_components =
  mc_system_profile :: bool
  mc_afd_parameters :: bool
  mc_tcpip_qos :: bool
  mc_qos_policies :: bool
  mc_nic_advanced :: bool
  mc_nic_rsc :: bool
  mc_power_plan :: bool

primrec enabled :: "manifest_components \<Rightarrow> artifact_kind \<Rightarrow> bool" where
  "enabled c Kind_System_Profile = mc_system_profile c"
| "enabled c Kind_Afd_Parameters = mc_afd_parameters c"
| "enabled c Kind_Tcpip_Qos = mc_tcpip_qos c"
| "enabled c Kind_Qos_Policies = mc_qos_policies c"
| "enabled c Kind_Nic_Advanced = mc_nic_advanced c"
| "enabled c Kind_Nic_Rsc = mc_nic_rsc c"
| "enabled c Kind_Power_Plan = mc_power_plan c"

record backup_manifest =
  bm_schema_version :: u32
  bm_tool_name :: bytes
  bm_machine_name :: "bytes option"
  bm_platform :: "bytes option"
  bm_os_version :: "bytes option"
  bm_module_version :: "bytes option"
  bm_timestamp :: "bytes option"
  bm_components :: manifest_components
  bm_artifact_digests :: "(bytes, bytes) btree"

text \<open>
  What the libraries do. \<open>bc_json\<close> gives the manifest without its digests and the members of the object
  \<open>ArtifactDigests\<close> in their order, or the text of its error; \<open>bc_located\<close> adds the position to an error of
  the visitor.
\<close>

record backup_codec =
  bc_json :: "bytes \<Rightarrow> bytes + backup_manifest \<times> (bytes \<times> bytes) list"
  bc_located :: "bytes \<Rightarrow> bytes \<Rightarrow> bytes"
  bc_sha256 :: "bytes \<Rightarrow> bytes"
  bc_uuid :: "bytes \<Rightarrow> bool"
  bc_xml :: "bytes \<Rightarrow> xml_event list"
  bc_nic :: "bytes \<Rightarrow> (bytes + nic_row) list"
  bc_rsc :: "bytes \<Rightarrow> (bytes + rsc_row) list"

text \<open>\<open>DigestVisitor::visit_map\<close>\<close>

fun collect_digests :: "bytes set \<Rightarrow> (bytes, bytes) btree \<Rightarrow> (bytes \<times> bytes) list \<Rightarrow> bytes + (bytes, bytes) btree" where
  "collect_digests folded digests [] = Inr digests"
| "collect_digests folded digests ((name, digest) # entries) =
     (if to_ascii_lowercase name \<in> folded then Inl (lit ''duplicate artifact digest or case variant: '' @ name)
      else collect_digests (insert (to_ascii_lowercase name) folded) (bt_insert name digest digests) entries)"

definition expected_artifacts :: "backup_manifest \<Rightarrow> artifact_kind list" where
  "expected_artifacts m = filter (enabled (bm_components m)) ArtifactKind_ALL"

record json_scan =
  jn_depth :: nat
  jn_string :: bool
  jn_escaped :: bool

fun json_depth :: "nat \<Rightarrow> json_scan \<Rightarrow> bytes \<Rightarrow> (unit, tuning_error) outcome" where
  "json_depth maximum st [] = Ok ()"
| "json_depth maximum st (b # bs) =
     (if jn_string st then
        json_depth maximum (if jn_escaped st then st\<lparr>jn_escaped := False\<rparr>
          else if b = backslash then st\<lparr>jn_escaped := True\<rparr>
          else if b = quote then st\<lparr>jn_string := False\<rparr> else st) bs
      else if b = quote then json_depth maximum (st\<lparr>jn_string := True\<rparr>) bs
      else if b = 123 \<or> b = 91 then
        if maximum < jn_depth st + 1 then backup_invalid (lit ''manifest exceeds JSON depth '' @ decimal maximum)
        else json_depth maximum (st\<lparr>jn_depth := jn_depth st + 1\<rparr>) bs
      else if b = 125 \<or> b = 93 then json_depth maximum (st\<lparr>jn_depth := jn_depth st - 1\<rparr>) bs
      else json_depth maximum st bs)"

definition enforce_json_depth :: "bytes \<Rightarrow> nat \<Rightarrow> (unit, tuning_error) outcome" where
  "enforce_json_depth b maximum = json_depth maximum \<lparr>jn_depth = 0, jn_string = False, jn_escaped = False\<rparr> b"

definition known_artifact :: "bytes \<Rightarrow> bool" where
  "known_artifact name \<longleftrightarrow> name \<in> set (map file_name ArtifactKind_ALL)"

definition valid_digest :: "bytes \<Rightarrow> bool" where
  "valid_digest digest \<longleftrightarrow> length digest = 64 \<and> (\<forall>b \<in> set digest. 48 \<le> b \<and> b \<le> 57 \<or> 65 \<le> b \<and> b \<le> 70)"

fun check_digests :: "bytes set \<Rightarrow> (bytes \<times> bytes) list \<Rightarrow> (unit, tuning_error) outcome" where
  "check_digests folded [] = Ok ()"
| "check_digests folded ((name, digest) # digests) =
     (if \<not> known_artifact name then backup_invalid (lit ''unknown artifact digest: '' @ name)
      else if to_ascii_lowercase name \<in> folded then backup_invalid (lit ''duplicate artifact digest: '' @ name)
      else if \<not> valid_digest digest then backup_invalid (lit ''invalid uppercase SHA-256 digest for '' @ name)
      else check_digests (insert (to_ascii_lowercase name) folded) digests)"

definition parse_manifest_bounded :: "backup_codec \<Rightarrow> bytes \<Rightarrow> (backup_manifest, tuning_error) outcome" where
  "parse_manifest_bounded codec b =
     (if MAX_MANIFEST_BYTES < length b then backup_invalid (lit ''manifest exceeds 1 MiB'')
      else and_then (enforce_json_depth b 32) (\<lambda>_.
        case bc_json codec b of
          Inl e \<Rightarrow> backup_invalid (lit ''invalid manifest JSON: '' @ e)
        | Inr (manifest, entries) \<Rightarrow> (case collect_digests {} [] entries of
            Inl e \<Rightarrow> backup_invalid (lit ''invalid manifest JSON: '' @ bc_located codec b e)
          | Inr digests \<Rightarrow> let m = manifest\<lparr>bm_artifact_digests := digests\<rparr> in
              if \<not> (1 \<le> bm_schema_version m \<and> bm_schema_version m \<le> 4)
              then backup_invalid (lit ''SchemaVersion must be 1, 2, 3, or 4'')
              else if trim (bm_tool_name m) = [] then backup_invalid (lit ''ToolName must not be empty'')
              else if expected_artifacts m = [] then backup_invalid (lit ''at least one component must be enabled'')
              else and_then (check_digests {} (bm_artifact_digests m)) (\<lambda>_. Ok m))))"

section \<open>Artifacts\<close>

definition hex_digit_upper :: "nat \<Rightarrow> u8" where
  "hex_digit_upper d = (if d < 10 then word_of_nat (48 + d) else word_of_nat (55 + d))"

definition sha256_upper :: "backup_codec \<Rightarrow> bytes \<Rightarrow> bytes" where
  "sha256_upper codec b =
     concat (map (\<lambda>x. [hex_digit_upper (unat x div 16), hex_digit_upper (unat x mod 16)]) (bc_sha256 codec b))"

text \<open>\<open>trim_matches(|c| c.is_whitespace() || c == '{' || c == '}')\<close>\<close>

definition trim_guid :: "bytes \<Rightarrow> bytes" where
  "trim_guid s = (let drops = (\<lambda>c. blank c \<or> c = [123] \<or> c = [125])
     in concat (rev (dropWhile drops (rev (dropWhile drops (char_chunks s))))))"

definition authorize_artifact :: "backup_codec \<Rightarrow> artifact_kind \<Rightarrow> bytes \<Rightarrow> (unit, tuning_error) outcome" where
  "authorize_artifact codec k b = (case k of
     Kind_System_Profile \<Rightarrow> and_then (parse_registry_backup b True) (\<lambda>_. Ok ())
   | Kind_Afd_Parameters \<Rightarrow> and_then (parse_registry_backup b False) (\<lambda>_. Ok ())
   | Kind_Tcpip_Qos \<Rightarrow> and_then (parse_tcpip_qos_backup b) (\<lambda>_. Ok ())
   | Kind_Qos_Policies \<Rightarrow> and_then (parse_qos_clixml (bc_xml codec) b) (\<lambda>_. Ok ())
   | Kind_Nic_Advanced \<Rightarrow> and_then (parse_nic_csv (bc_nic codec) b) (\<lambda>_. Ok ())
   | Kind_Nic_Rsc \<Rightarrow> and_then (parse_rsc_csv (bc_rsc codec) b) (\<lambda>_. Ok ())
   | Kind_Power_Plan \<Rightarrow>
       if \<not> valid_utf8 b then backup_invalid (lit ''power plan is not UTF-8'')
       else if \<not> bc_uuid codec (trim_guid b) then backup_invalid (lit ''power plan must contain one GUID'')
       else Ok ())"

section \<open>Protected paths\<close>

definition reject_reparse :: "'s file_os \<Rightarrow> path \<Rightarrow> ('s, unit) io" where
  "reject_reparse os p =
     io_bind (io_call (Tuning_Io (lit ''inspect protected path'')) (fo_symlink_metadata os p)) (\<lambda>m.
       io_unless (\<not> lx_reparse m \<and> \<not> lx_symlink m)
         (Backup_Invalid (lit ''protected path is a reparse point: '' @ lossy p)))"

definition exact_acls :: "bytes list" where
  "exact_acls = [lit ''O:BAG:BAD:P(A;;FA;;;SY)(A;;FA;;;BA)'', lit ''O:BAG:BAD:P(A;;FA;;;BA)(A;;FA;;;SY)'']"

definition validate_protected :: "'s file_os \<Rightarrow> path \<Rightarrow> ('s, unit) io" where
  "validate_protected os p =
     io_bind (reject_reparse os p) (\<lambda>_.
     io_bind (io_call (\<lambda>e. e) (fo_sddl os True p)) (\<lambda>(protected, sddl).
       if \<not> protected then io_fail (Backup_Invalid (lit ''path DACL is not protected''))
       else (case sddl of
         Inl e \<Rightarrow> io_fail e
       | Inr sddl \<Rightarrow> io_unless (sddl \<in> set exact_acls) (Backup_Invalid
           (lit ''path owner, group, or DACL differs from Administrators and SYSTEM full control'')))))"

fun contains :: "bytes \<Rightarrow> bytes \<Rightarrow> bool" where
  "contains [] p \<longleftrightarrow> p = []"
| "contains (b # s) p \<longleftrightarrow> starts_with (b # s) p \<or> contains s p"

text \<open>\<open>u32::from_str_radix(value, 16)\<close>\<close>

definition parse_hex_u32 :: "bytes \<Rightarrow> u32 option" where
  "parse_hex_u32 s = (let ds = (if s \<noteq> [] \<and> hd s = 43 then tl s else s) in
     if ds = [] \<or> (\<exists>b \<in> set ds. hex_of b = None) \<or> 2 ^ 32 \<le> hex_value ds then None else Some (word_of_nat (hex_value ds)))"

definition untrusted_ace :: "bytes \<Rightarrow> bool" where
  "untrusted_ace ace = (let fs = split_on 59 ace in
     if length fs < 6 \<or> fs ! 0 \<noteq> lit ''A'' \<or> fs ! 5 \<notin> {lit ''WD'', lit ''AU'', lit ''BU'', lit ''AN''} then False
     else let rights = fs ! 2 in
       list_ex (\<lambda>v. contains rights (lit v)) [''GA'', ''GW'', ''FA'', ''FW'', ''WD'', ''AD'', ''DC'', ''WO'']
       \<or> starts_with rights (lit ''0x'') \<and> (case parse_hex_u32 (drop 2 rights) of
           None \<Rightarrow> False | Some rights \<Rightarrow> rights AND 0x40000000 \<noteq> 0 \<or> rights AND 0x000d0116 \<noteq> 0))"

definition grants_untrusted_write :: "bytes \<Rightarrow> bool" where
  "grants_untrusted_write sddl = list_ex untrusted_ace
     (map fst (List.map_filter (split_once 41) (tl (split_on 40 sddl))))"

definition check_ancestor :: "'s file_os \<Rightarrow> path \<Rightarrow> ('s, unit) io" where
  "check_ancestor os p =
     io_bind (reject_reparse os p) (\<lambda>_.
     io_bind (io_call (\<lambda>e. e) (fo_sddl os False p)) (\<lambda>(_, sddl). case sddl of
       Inl e \<Rightarrow> io_fail e
     | Inr sddl \<Rightarrow>
         if \<not> starts_with sddl (lit ''O:SY'') \<and> \<not> starts_with sddl (lit ''O:BA'') \<and> \<not> starts_with sddl (lit ''O:TI'')
         then io_fail (Backup_Invalid
           (lit ''backup ancestor is not owned by SYSTEM, Administrators, or TrustedInstaller: '' @ lossy p))
         else io_unless (\<not> grants_untrusted_write sddl) (Backup_Invalid
           (lit ''backup ancestor grants write access to an untrusted broad principal: '' @ lossy p))))"

fun each_existing :: "'s file_os \<Rightarrow> (path \<Rightarrow> ('s, unit) io) \<Rightarrow> path list \<Rightarrow> ('s, unit) io" where
  "each_existing os check [] = io_return ()"
| "each_existing os check (p # ps) =
     io_bind (io_ask (fo_exists os p)) (\<lambda>found.
     io_bind (if found then check p else io_return ()) (\<lambda>_. each_existing os check ps))"

definition validate_backup_parent :: "'s file_os \<Rightarrow> path \<Rightarrow> ('s, unit) io" where
  "validate_backup_parent os p = each_existing os (check_ancestor os) (ancestors p)"

definition reject_link :: "'s file_os \<Rightarrow> bool \<Rightarrow> path \<Rightarrow> ('s, unit) io" where
  "reject_link os directory p =
     io_bind (io_call (Tuning_Io (lit ''inspect backup path'')) (fo_symlink_metadata os p)) (\<lambda>m.
       io_unless (\<not> (lx_symlink m \<or> directory \<and> \<not> lx_is_dir m \<or> \<not> directory \<and> \<not> lx_is_file m))
         (Backup_Invalid (lit ''backup path has an invalid type or link: '' @ lossy p)))"

definition validate_folder :: "'s file_os \<Rightarrow> path \<Rightarrow> ('s, unit) io" where
  "validate_folder os folder =
     io_bind (io_unless (is_absolute folder) (Backup_Invalid (lit ''backup folder must be absolute''))) (\<lambda>_.
     io_bind (io_unless (\<not> starts_with (lossy folder) [backslash, backslash])
       (Backup_Invalid (lit ''backup folder must be a local path''))) (\<lambda>_.
     io_bind (each_existing os (reject_link os True) (ancestors folder)) (\<lambda>_.
     io_bind (case path_parent folder of None \<Rightarrow> io_return () | Some parent \<Rightarrow> validate_backup_parent os parent) (\<lambda>_.
       validate_protected os folder))))"

section \<open>Bundles\<close>

record backup_bundle =
  bb_folder :: path
  bb_manifest :: backup_manifest
  bb_artifacts :: "(artifact_kind, bytes) btree"

definition read_artifact :: "'s file_os \<Rightarrow> backup_codec \<Rightarrow> trusted_directory \<Rightarrow> path \<Rightarrow> backup_manifest \<Rightarrow> artifact_kind
    \<Rightarrow> ('s, bytes) io" where
  "read_artifact os codec directory folder m k = (case bt_get (bm_artifact_digests m) (file_name k) of
     None \<Rightarrow> io_fail (Backup_Invalid (lit ''missing digest for '' @ file_name k))
   | Some expected_hash \<Rightarrow> let p = path_join folder (file_name k) in
       io_bind (reject_link os False p) (\<lambda>_.
       io_bind (validate_protected os p) (\<lambda>_.
       io_bind (read_bounded os p (max_bytes k) (lit ''read backup artifact'') (Some directory)) (\<lambda>b.
       io_bind (io_unless (sha256_upper codec b = expected_hash) (Backup_Invalid (lit ''digest mismatch for '' @ file_name k))) (\<lambda>_.
       io_bind (io_lift (authorize_artifact codec k b)) (\<lambda>_. io_return b))))))"

fun read_artifacts :: "'s file_os \<Rightarrow> backup_codec \<Rightarrow> trusted_directory \<Rightarrow> path \<Rightarrow> backup_manifest \<Rightarrow> artifact_kind list
    \<Rightarrow> (artifact_kind, bytes) btree \<Rightarrow> ('s, (artifact_kind, bytes) btree) io" where
  "read_artifacts os codec directory folder m [] artifacts = io_return artifacts"
| "read_artifacts os codec directory folder m (k # ks) artifacts =
     io_bind (read_artifact os codec directory folder m k) (\<lambda>b.
       read_artifacts os codec directory folder m ks (bt_insert k b artifacts))"

fun no_unexpected :: "'s file_os \<Rightarrow> trusted_directory \<Rightarrow> path \<Rightarrow> (artifact_kind, bytes) btree \<Rightarrow> artifact_kind list
    \<Rightarrow> ('s, unit) io" where
  "no_unexpected os directory folder artifacts [] = io_return ()"
| "no_unexpected os directory folder artifacts (k # ks) =
     io_bind (assert_path os directory) (\<lambda>_.
     io_bind (io_match (io_call (Tuning_Io []) (fo_symlink_metadata os (path_join folder (file_name k))))
       (\<lambda>_. io_return True) (\<lambda>_. io_return False)) (\<lambda>found.
     io_bind (io_unless (\<not> (found \<and> bt_get artifacts k = None))
       (Backup_Invalid (lit ''unexpected artifact for disabled component: '' @ file_name k))) (\<lambda>_.
       no_unexpected os directory folder artifacts ks)))"

definition compatible_manifest :: "backup_manifest \<Rightarrow> (unit, tuning_error) outcome" where
  "compatible_manifest m =
     (if 3 < bm_schema_version m
      then Err (Backup_Incompatible (lit ''schema '' @ decimal (unat (bm_schema_version m)) @ lit '' is newer than supported schema 3''))
      else if bm_tool_name m \<notin> {lit ''network-lantern'', lit ''network-diagnostics-suite''}
      then Err (Backup_Incompatible (lit ''ToolName is not compatible with Network Lantern''))
      else if length (bm_artifact_digests m) \<noteq> length (expected_artifacts m)
      then backup_invalid (lit ''ArtifactDigests must match enabled Components exactly'')
      else Ok ())"

definition validate_backup_bundle :: "'s file_os \<Rightarrow> backup_codec \<Rightarrow> path \<Rightarrow> ('s, backup_bundle) io" where
  "validate_backup_bundle os codec folder =
     io_bind (validate_folder os folder) (\<lambda>_.
     io_bind (trusted_open os folder (lit ''open backup directory'')) (\<lambda>directory.
     let manifest_path = path_join folder (lit ''backup_manifest.json'') in
     io_bind (validate_protected os manifest_path) (\<lambda>_.
     io_bind (read_bounded os manifest_path MAX_MANIFEST_BYTES (lit ''read backup manifest'') (Some directory)) (\<lambda>b.
     io_bind (io_lift (parse_manifest_bounded codec b)) (\<lambda>m.
     io_bind (io_lift (compatible_manifest m)) (\<lambda>_.
     io_bind (read_artifacts os codec directory folder m (expected_artifacts m) []) (\<lambda>artifacts.
     io_bind (no_unexpected os directory folder artifacts ArtifactKind_ALL) (\<lambda>_.
     io_bind (assert_path os directory) (\<lambda>_.
       io_return \<lparr>bb_folder = folder, bb_manifest = m, bb_artifacts = artifacts\<rparr>)))))))))"

fun verify_kinds :: "backup_codec \<Rightarrow> backup_bundle \<Rightarrow> artifact_kind list \<Rightarrow> (unit, tuning_error) outcome" where
  "verify_kinds codec bundle [] = Ok ()"
| "verify_kinds codec bundle (k # ks) = (case bt_get (bb_artifacts bundle) k of
     None \<Rightarrow> backup_invalid (lit ''missing in-memory '' @ file_name k)
   | Some b \<Rightarrow> (case bt_get (bm_artifact_digests (bb_manifest bundle)) (file_name k) of
       None \<Rightarrow> backup_invalid (lit ''missing digest for '' @ file_name k)
     | Some digest \<Rightarrow>
         if sha256_upper codec b \<noteq> digest then backup_invalid (lit ''in-memory digest mismatch for '' @ file_name k)
         else and_then (authorize_artifact codec k b) (\<lambda>_. verify_kinds codec bundle ks)))"

definition verify_in_memory :: "backup_codec \<Rightarrow> backup_bundle \<Rightarrow> (unit, tuning_error) outcome" where
  "verify_in_memory codec bundle = (let expected = expected_artifacts (bb_manifest bundle) in
     if length expected \<noteq> length (bb_artifacts bundle) \<or> length expected \<noteq> length (bm_artifact_digests (bb_manifest bundle))
     then backup_invalid (lit ''in-memory backup does not match enabled components'')
     else verify_kinds codec bundle expected)"

section \<open>What a validated bundle is\<close>

lemma expected_artifacts_sorted: "sorted_wrt (<) (expected_artifacts m)"
proof -
  have "sorted_wrt (<) ArtifactKind_ALL" by (simp add: ArtifactKind_ALL_def less_artifact_kind_def)
  then show ?thesis unfolding expected_artifacts_def by (rule sorted_wrt_filter)
qed

lemma file_name_inject: "file_name a = file_name b \<longleftrightarrow> a = b"
  by (cases a; cases b) (simp_all add: lit_def)

text \<open>One artifact: bounded, of the recorded digest and of the form of its kind.\<close>

definition verified_artifact :: "backup_codec \<Rightarrow> backup_manifest \<Rightarrow> artifact_kind \<Rightarrow> bytes \<Rightarrow> bool" where
  "verified_artifact codec m k b \<longleftrightarrow> length b \<le> max_bytes k
     \<and> bt_get (bm_artifact_digests m) (file_name k) = Some (sha256_upper codec b)
     \<and> authorize_artifact codec k b = Ok ()"

lemma io_lift_Ok: "io_lift r s = (Ok a, s') \<longleftrightarrow> r = Ok a \<and> s' = s"
  by (auto simp: io_lift_def)

lemma read_bounded_length: "read_bounded os p maximum operation d s = (Ok b, s') \<Longrightarrow> length b \<le> maximum"
  by (auto simp: read_bounded_def io_Ok)

lemma read_artifact_verified:
  assumes "read_artifact os codec directory folder m k s = (Ok b, s')"
  shows "verified_artifact codec m k b"
  using assms
  by (auto simp: read_artifact_def io_Ok io_lift_Ok verified_artifact_def Let_def dest: read_bounded_length split: option.splits)

text \<open>Inserting the kinds in their order appends them.\<close>

lemma bt_insert_last: "\<forall>j \<in> fst ` set m. j < k \<Longrightarrow> bt_insert k v m = m @ [(k, v)]"
  by (induction m) (auto simp: bt_insert_def)

lemma read_artifacts_verified:
  assumes "read_artifacts os codec directory folder m ks old s = (Ok artifacts, s')"
    and "sorted_wrt (<) (map fst old @ ks)" and "\<forall>(k, b) \<in> set old. verified_artifact codec m k b"
  shows "map fst artifacts = map fst old @ ks \<and> (\<forall>(k, b) \<in> set artifacts. verified_artifact codec m k b)"
  using assms
proof (induction ks arbitrary: old s)
  case (Cons k ks)
  then obtain b s1 where b: "read_artifact os codec directory folder m k s = (Ok b, s1)"
    and rest: "read_artifacts os codec directory folder m ks (bt_insert k b old) s1 = (Ok artifacts, s')"
    by (auto simp: io_Ok)
  have "bt_insert k b old = old @ [(k, b)]"
    using Cons.prems(2) by (intro bt_insert_last) (auto simp: sorted_wrt_append)
  with Cons.IH [OF rest] Cons.prems(2,3) read_artifact_verified [OF b] show ?case by simp
qed (simp add: io_Ok)

lemma collect_digests_valid:
  "collect_digests folded old entries = Inr digests \<Longrightarrow> bt_valid old \<Longrightarrow> bt_valid digests"
  by (induction folded old entries rule: collect_digests.induct)
    (auto simp: bt_insert_def bt_valid_adjust split: if_splits)

lemma check_digests_known:
  "check_digests folded ds = Ok () \<Longrightarrow> \<forall>(name, digest) \<in> set ds. known_artifact name \<and> valid_digest digest"
  by (induction folded ds rule: check_digests.induct) (auto simp: backup_invalid_def split: if_splits)

lemma manifest_checked:
  assumes "parse_manifest_bounded codec b = Ok m"
  shows "length b \<le> MAX_MANIFEST_BYTES" and "1 \<le> bm_schema_version m" and "expected_artifacts m \<noteq> []"
    and "bt_valid (bm_artifact_digests m)"
    and "\<forall>(name, digest) \<in> set (bm_artifact_digests m). known_artifact name \<and> valid_digest digest"
proof -
  obtain manifest found digests where c: "collect_digests {} [] found = Inr digests"
    and m: "m = manifest\<lparr>bm_artifact_digests := digests\<rparr>"
    and all: "length b \<le> MAX_MANIFEST_BYTES" "1 \<le> bm_schema_version m" "expected_artifacts m \<noteq> []"
      "check_digests {} (bm_artifact_digests m) = Ok ()"
    using assms
    by (auto simp: parse_manifest_bounded_def backup_invalid_def and_then_eq_Ok Let_def split: if_splits sum.splits)
  show "length b \<le> MAX_MANIFEST_BYTES" "1 \<le> bm_schema_version m" "expected_artifacts m \<noteq> []" by (fact all)+
  show "bt_valid (bm_artifact_digests m)" using collect_digests_valid [OF c] m by simp
  show "\<forall>(name, digest) \<in> set (bm_artifact_digests m). known_artifact name \<and> valid_digest digest"
    by (rule check_digests_known [OF all(4)])
qed

lemma validated_parts:
  assumes "validate_backup_bundle os codec folder s = (Ok bundle, s')"
  shows "\<exists>b directory s1 s2. parse_manifest_bounded codec b = Ok (bb_manifest bundle)
    \<and> compatible_manifest (bb_manifest bundle) = Ok ()
    \<and> read_artifacts os codec directory folder (bb_manifest bundle) (expected_artifacts (bb_manifest bundle)) [] s1
      = (Ok (bb_artifacts bundle), s2)
    \<and> bb_folder bundle = folder"
  using assms unfolding validate_backup_bundle_def io_Ok io_lift_Ok Let_def
  by (elim exE conjE) (simp, blast)

lemma digests_of_components:
  assumes "bt_valid ds" and "length ds = length ks" and "distinct ks"
    and "\<forall>k \<in> set ks. bt_get ds (file_name k) \<noteq> None"
  shows "fst ` set ds = file_name ` set ks"
proof (rule sym, rule card_subset_eq)
  show "file_name ` set ks \<subseteq> fst ` set ds" using assms(4) by (auto simp: bt_get_None)
  have "distinct (map fst ds)" using assms(1) by (simp add: bt_valid_def strict_sorted_iff)
  then have "card (fst ` set ds) = length ds" using distinct_card [of "map fst ds"] by simp
  moreover have "card (file_name ` set ks) = length ks"
    using card_image [of file_name "set ks"] distinct_card [OF assms(3)] by (simp add: inj_on_def file_name_inject)
  ultimately show "card (file_name ` set ks) = card (fst ` set ds)" using assms(2) by simp
qed simp

lemma verify_kinds_Ok:
  "\<forall>k \<in> set ks. \<exists>b. bt_get (bb_artifacts bundle) k = Some b \<and> verified_artifact codec (bb_manifest bundle) k b \<Longrightarrow>
   verify_kinds codec bundle ks = Ok ()"
  by (induction ks) (auto simp: verified_artifact_def)

text \<open>
  C35. A bundle the validation accepts is what its manifest says, whatever the file system answers: the
  schema is 1, 2 or 3 and the tool one of the two known names; at least one component is enabled;
  the artifacts are exactly those of the enabled components, in their order, and the recorded digests are
  theirs and no others; each artifact is within the size of its kind, has exactly the recorded
  SHA-256, and is well formed for its kind. So the check of the bundle in memory that precedes a staged
  copy succeeds.
\<close>

theorem bundle_verified:
  assumes "validate_backup_bundle os codec folder s = (Ok bundle, s')"
  shows "let m = bb_manifest bundle in
     1 \<le> bm_schema_version m \<and> bm_schema_version m \<le> 3
   \<and> bm_tool_name m \<in> {lit ''network-lantern'', lit ''network-diagnostics-suite''}
   \<and> expected_artifacts m \<noteq> [] \<and> map fst (bb_artifacts bundle) = expected_artifacts m
   \<and> fst ` set (bm_artifact_digests m) = file_name ` set (expected_artifacts m)
   \<and> (\<forall>(k, b) \<in> set (bb_artifacts bundle). length b \<le> max_bytes k
       \<and> bt_get (bm_artifact_digests m) (file_name k) = Some (sha256_upper codec b)
       \<and> authorize_artifact codec k b = Ok ())
   \<and> bb_folder bundle = folder \<and> verify_in_memory codec bundle = Ok ()"
proof -
  let ?m = "bb_manifest bundle" and ?as = "bb_artifacts bundle"
  obtain b directory s1 s2 where p: "parse_manifest_bounded codec b = Ok ?m" "compatible_manifest ?m = Ok ()"
      "read_artifacts os codec directory folder ?m (expected_artifacts ?m) [] s1 = (Ok ?as, s2)"
      "bb_folder bundle = folder"
    using validated_parts [OF assms] by (elim exE conjE)
  note m = manifest_checked [OF p(1)]
  have c: "bm_schema_version ?m \<le> 3" "bm_tool_name ?m \<in> {lit ''network-lantern'', lit ''network-diagnostics-suite''}"
    "length (bm_artifact_digests ?m) = length (expected_artifacts ?m)"
    using p(2) by (auto simp: compatible_manifest_def backup_invalid_def split: if_splits)
  have sorted: "sorted_wrt (<) (expected_artifacts ?m)" by (rule expected_artifacts_sorted)
  have as: "map fst ?as = expected_artifacts ?m" "\<forall>(k, b) \<in> set ?as. verified_artifact codec ?m k b"
    using read_artifacts_verified [OF p(3)] sorted by simp_all
  then have "bt_valid ?as" using sorted by (simp add: bt_valid_def)
  then have found: "\<exists>b. bt_get ?as k = Some b \<and> verified_artifact codec ?m k b" if "k \<in> set (expected_artifacts ?m)" for k
  proof -
    have "k \<in> fst ` set ?as" using that as(1) by (metis set_map)
    then obtain b where "(k, b) \<in> set ?as" by auto
    with as(2) bt_get_entry [OF \<open>bt_valid ?as\<close>] show ?thesis by auto
  qed
  have "verify_kinds codec bundle (expected_artifacts ?m) = Ok ()" using found by (intro verify_kinds_Ok) blast
  moreover have "length ?as = length (expected_artifacts ?m)" using arg_cong [OF as(1), of length] by simp
  ultimately have "verify_in_memory codec bundle = Ok ()" using c(3) by (simp add: verify_in_memory_def Let_def)
  moreover have "fst ` set (bm_artifact_digests ?m) = file_name ` set (expected_artifacts ?m)"
    using found sorted m(4) c(3)
    by (intro digests_of_components) (auto simp: strict_sorted_iff verified_artifact_def)
  ultimately show ?thesis
    using m(2,3) c(1,2) as p(4) by (simp add: Let_def verified_artifact_def)
qed

text \<open>A bundle of one power plan on the disk of \<open>Trusted_Io\<close>.\<close>

definition demo_folder :: path where "demo_folder = lit ''C:'' @ [92, 98]"

definition demo_manifest :: backup_manifest where
  "demo_manifest = \<lparr>bm_schema_version = 3, bm_tool_name = lit ''network-lantern'', bm_machine_name = None,
     bm_platform = None, bm_os_version = None, bm_module_version = None, bm_timestamp = None,
     bm_components = \<lparr>mc_system_profile = False, mc_afd_parameters = False, mc_tcpip_qos = False,
       mc_qos_policies = False, mc_nic_advanced = False, mc_nic_rsc = False, mc_power_plan = True\<rparr>,
     bm_artifact_digests = []\<rparr>"

definition demo_codec :: backup_codec where
  "demo_codec = \<lparr>bc_json = (\<lambda>b. Inr (demo_manifest, [(lit ''powerplan.txt'', replicate 64 65)])),
     bc_located = (\<lambda>b e. e), bc_sha256 = (\<lambda>b. replicate 32 0xAA), bc_uuid = (\<lambda>b. True),
     bc_xml = (\<lambda>b. []), bc_nic = (\<lambda>b. []), bc_rsc = (\<lambda>b. [])\<rparr>"

definition demo_disk :: disk where
  "demo_disk = \<lparr>dk_dirs = [lit ''C:'' @ [92] \<mapsto> 1, demo_folder \<mapsto> 2],
     dk_files = [demo_folder @ [92] @ lit ''backup_manifest.json'' \<mapsto> (3, []),
       demo_folder @ [92] @ lit ''powerplan.txt'' \<mapsto> (4, [])], dk_faults = []\<rparr>"

lemma demo_paths:
  "path_parent demo_folder = Some (lit ''C:'' @ [92])" "path_parent (lit ''C:'' @ [92]) = None"
  "path_join demo_folder name = demo_folder @ [92] @ name" "is_absolute demo_folder"
  by (simp_all add: path_parent_def path_join_def is_absolute_def is_drive_def is_separator_def demo_folder_def
      lit_def backslash_def slash_def Let_def)

lemma demo_ancestors: "ancestors demo_folder = [demo_folder, lit ''C:'' @ [92]]" "ancestors (lit ''C:'' @ [92]) = [lit ''C:'' @ [92]]"
  by (simp_all add: ancestors.simps demo_paths)

definition demo_os :: "disk file_os" where
  "demo_os = disk_os (\<lambda>h. [])"

lemmas demo_run = io_bind_def io_call_def io_ask_def io_unless_def io_return_def io_lift_def io_match_def
  demo_os_def disk_os_def faulty_def

definition demo_file :: "bytes \<Rightarrow> path" where
  "demo_file name = demo_folder @ [92] @ name"

lemma demo_entries:
  "dk_faults demo_disk = []" "dk_dirs demo_disk (lit ''C:'' @ [92]) = Some 1" "dk_dirs demo_disk demo_folder = Some 2"
  "dk_files demo_disk (demo_file (lit ''backup_manifest.json'')) = Some (3, [])"
  "dk_files demo_disk (demo_file (lit ''powerplan.txt'')) = Some (4, [])"
  "dk_dirs demo_disk (demo_file (lit ''backup_manifest.json'')) = None"
  "dk_dirs demo_disk (demo_file (lit ''powerplan.txt'')) = None"
  by (simp_all add: demo_disk_def demo_file_def demo_folder_def lit_def)

lemma demo_absent:
  "k \<noteq> Kind_Power_Plan \<Longrightarrow> dk_dirs demo_disk (demo_file (file_name k)) = None \<and> dk_files demo_disk (demo_file (file_name k)) = None"
  by (cases k) (simp_all add: demo_disk_def demo_file_def demo_folder_def lit_def)

lemma demo_protected:
  "dk_dirs demo_disk p \<noteq> None \<or> dk_files demo_disk p \<noteq> None \<Longrightarrow> validate_protected demo_os p demo_disk = (Ok (), demo_disk)"
  by (simp add: validate_protected_def reject_reparse_def demo_run demo_entries exact_acls_def)

lemma demo_trusted_acl: "\<not> grants_untrusted_write (lit ''O:BAG:BAD:P(A;;FA;;;SY)(A;;FA;;;BA)'')"
  by code_simp

lemma demo_folder_ok: "validate_folder demo_os demo_folder demo_disk = (Ok (), demo_disk)"
proof -
  have link: "each_existing demo_os (reject_link demo_os True) [demo_folder, lit ''C:'' @ [92]] demo_disk = (Ok (), demo_disk)"
    by (simp add: reject_link_def demo_run demo_entries)
  have acl: "starts_with (lit ''O:BAG:BAD:P(A;;FA;;;SY)(A;;FA;;;BA)'') (lit ''O:BA'')"
    by (simp add: starts_with_def lit_def)
  have parent: "validate_backup_parent demo_os (lit ''C:'' @ [92]) demo_disk = (Ok (), demo_disk)"
    using acl demo_trusted_acl
    by (simp add: validate_backup_parent_def demo_ancestors check_ancestor_def reject_reparse_def demo_run demo_entries)
  have "\<not> starts_with (lossy demo_folder) [backslash, backslash]"
    by (simp add: starts_with_def demo_folder_def lit_def backslash_def)
  then show ?thesis
    using link parent demo_protected [of demo_folder]
    by (simp add: validate_folder_def demo_paths demo_ancestors io_bind_def io_unless_def io_return_def demo_entries)
qed

definition demo_directory :: trusted_directory where
  "demo_directory = \<lparr>td_path = demo_folder, td_handle = 2, td_identity = disk_object 2\<rparr>"

lemma demo_open:
  "open_directory demo_os demo_folder operation demo_disk = (Ok 2, demo_disk)"
  "identity demo_os h operation demo_disk = (Ok (disk_object h), demo_disk)"
  "trusted_open demo_os demo_folder operation demo_disk = (Ok demo_directory, demo_disk)"
  "assert_path demo_os demo_directory demo_disk = (Ok (), demo_disk)"
  by (simp_all add: trusted_open_def assert_path_def open_directory_def identity_def disk_open_def disk_object_def
      demo_directory_def demo_run demo_entries)

lemma demo_calls:
  "dk_files demo_disk p = Some (h, b) \<Longrightarrow> io_call f (fo_open demo_os False p) demo_disk = (Ok h, demo_disk)"
  "io_call g (fo_metadata demo_os h) demo_disk
    = (Ok \<lparr>fx_is_file = True, fx_is_dir = True, fx_reparse = False, fx_len = 0\<rparr>, demo_disk)"
  "io_call g (fo_read demo_os h n) demo_disk = (Ok [], demo_disk)"
  by (simp_all add: demo_run disk_open_def demo_entries)

lemma demo_read:
  "dk_files demo_disk p = Some (h, []) \<Longrightarrow>
   read_bounded demo_os p maximum operation (Some demo_directory) demo_disk = (Ok [], demo_disk)"
  by (simp add: read_bounded_def assert_held_def open_file_def io_bind_def io_unless_def io_return_def demo_calls demo_open)

lemma demo_link:
  "dk_files demo_disk p = Some (h, []) \<Longrightarrow> dk_dirs demo_disk p = None \<Longrightarrow> reject_link demo_os False p demo_disk = (Ok (), demo_disk)"
  by (simp add: reject_link_def demo_run demo_entries)

definition demo_checked :: backup_manifest where
  "demo_checked = demo_manifest\<lparr>bm_artifact_digests := [(lit ''powerplan.txt'', replicate 64 65)]\<rparr>"

lemma demo_expected: "expected_artifacts demo_checked = [Kind_Power_Plan]"
  by (simp add: expected_artifacts_def ArtifactKind_ALL_def demo_checked_def demo_manifest_def)

lemma demo_compatible: "compatible_manifest demo_checked = Ok ()"
  by (simp add: compatible_manifest_def demo_expected) (simp add: demo_checked_def demo_manifest_def)

definition demo_digests :: "(bytes, bytes) btree" where
  "demo_digests = [(lit ''powerplan.txt'', replicate 64 65)]"

lemma demo_collected: "collect_digests {} [] demo_digests = Inr demo_digests"
  by (simp add: demo_digests_def bt_insert_def)

lemma demo_known: "check_digests {} demo_digests = Ok ()"
proof -
  have "known_artifact (lit ''powerplan.txt'')"
    unfolding known_artifact_def ArtifactKind_ALL_def by simp
  moreover have "valid_digest (replicate 64 65)"
    unfolding valid_digest_def by simp
  ultimately show ?thesis by (simp add: demo_digests_def)
qed

lemma trim_visible_first: "visible a \<Longrightarrow> trim (a # s) \<noteq> []"
  by (simp add: trim_def char_chunks_visible blank_visible dropWhile_append3 del: char_chunks.simps(2))

lemma demo_tool: "trim (bm_tool_name demo_checked) \<noteq> []" "bm_schema_version demo_checked = 3"
  using trim_visible_first [of 110 "lit ''etwork-lantern''"]
  by (simp_all add: demo_checked_def demo_manifest_def lit_def visible_def)

lemma demo_json: "bc_json demo_codec b = Inr (demo_manifest, demo_digests)"
  by (simp add: demo_codec_def demo_digests_def)

lemma demo_filled: "demo_manifest\<lparr>bm_artifact_digests := demo_digests\<rparr> = demo_checked"
  "bm_artifact_digests demo_checked = demo_digests"
  by (simp_all add: demo_checked_def demo_digests_def)

lemma demo_parsed: "parse_manifest_bounded demo_codec [] = Ok demo_checked"
  by (simp add: parse_manifest_bounded_def enforce_json_depth_def demo_json demo_collected demo_filled demo_tool
      demo_expected demo_known Let_def)

lemma demo_sha256: "sha256_upper demo_codec b = replicate 64 65"
proof -
  have "replicate 64 (65 :: u8) = concat (replicate 32 [65, 65])" by code_simp
  moreover have "hex_digit_upper (unat (0xAA :: u8) div 16) = 65" "hex_digit_upper (unat (0xAA :: u8) mod 16) = 65"
    by (simp_all add: hex_digit_upper_def)
  ultimately show ?thesis by (simp add: sha256_upper_def demo_codec_def)
qed

lemma demo_artifact:
  "read_artifact demo_os demo_codec demo_directory demo_folder demo_checked Kind_Power_Plan demo_disk = (Ok [], demo_disk)"
proof -
  let ?p = "demo_file (lit ''powerplan.txt'')"
  have path: "path_join demo_folder (lit ''powerplan.txt'') = ?p" by (simp add: demo_paths demo_file_def)
  have auth: "authorize_artifact demo_codec Kind_Power_Plan [] = Ok ()"
    by (simp add: authorize_artifact_def demo_codec_def)
  have digest: "bt_get (bm_artifact_digests demo_checked) (lit ''powerplan.txt'') = Some (replicate 64 65)"
    by (simp add: demo_checked_def)
  show ?thesis
    using demo_link [of ?p 4] demo_protected [of ?p] demo_read [of ?p 4] demo_entries
    by (simp add: read_artifact_def path auth digest demo_sha256 io_bind_def io_unless_def io_return_def io_lift_def Let_def)
qed

lemma demo_nothing_else:
  "no_unexpected demo_os demo_directory demo_folder [(Kind_Power_Plan, [])] ks demo_disk = (Ok (), demo_disk)"
proof (induction ks)
  case (Cons k ks)
  have "path_join demo_folder (file_name k) = demo_file (file_name k)" by (simp add: demo_paths demo_file_def)
  then have "io_match (io_call (Tuning_Io []) (fo_symlink_metadata demo_os (path_join folder (file_name k))))
      (\<lambda>_. io_return True) (\<lambda>_. io_return False) demo_disk = (Ok (k = Kind_Power_Plan), demo_disk)"
    if "folder = demo_folder" for folder
    using that demo_absent [of k] demo_entries by (cases "k = Kind_Power_Plan") (simp_all add: demo_run)
  with Cons show ?case
    by (simp add: io_bind_def io_unless_def io_return_def demo_open)
qed (simp add: io_return_def)

theorem bundle_verified_witness:
  "\<exists>bundle s'. validate_backup_bundle demo_os demo_codec demo_folder demo_disk = (Ok bundle, s')
   \<and> map fst (bb_artifacts bundle) = [Kind_Power_Plan] \<and> verify_in_memory demo_codec bundle = Ok ()"
proof -
  have "path_join demo_folder (lit ''backup_manifest.json'') = demo_file (lit ''backup_manifest.json'')"
    by (simp add: demo_paths demo_file_def)
  then have "validate_backup_bundle demo_os demo_codec demo_folder demo_disk
      = (Ok \<lparr>bb_folder = demo_folder, bb_manifest = demo_checked, bb_artifacts = [(Kind_Power_Plan, [])]\<rparr>, demo_disk)"
    using demo_protected [of "demo_file (lit ''backup_manifest.json'')"] demo_read [of "demo_file (lit ''backup_manifest.json'')" 3]
    by (simp add: validate_backup_bundle_def demo_folder_ok demo_open demo_parsed demo_compatible demo_expected demo_artifact
        demo_nothing_else demo_entries io_bind_def io_return_def io_lift_def bt_insert_def Let_def)
  from this bundle_verified [OF this] show ?thesis by (auto simp: Let_def demo_expected)
qed

end
