(* ===== verification/Spec2Isabelle.thy ===== *)
theory Spec2Isabelle
  imports
    Contracts Packet_Roundtrip Packet_Mpls Trace_Finish Trace_Moments Dns_Roundtrip
    Throughput_Client_Exact Throughput_Data_Exact Path_Workers Path_Sockets_Exact Helper_Server
    Run_Manager Tuning_Qos Backup_Bundle
begin

text \<open>
  A verification library of network-lantern, a network diagnostics program in Rust. The program
  sends probes (ICMP echoes, TCP SYNs, UDP datagrams) and decodes what comes back, runs path traces
  on top of the probes, measures throughput against an iperf3 server, and tunes the network settings
  of a Windows host. Each crate under \<open>crates/\<close> is a group of theories here; each theory opens with
  what it models, and a definition keeps the name of the Rust item it translates.

  The parts and how they fit.

    \<^item> \<open>Prelude\<close>, \<open>Text_Format\<close>, \<open>F64\<close>, \<open>Ordered_Map\<close>: the Rust vocabulary. Machine words
      with checked, saturating and panicking arithmetic; \<open>outcome\<close> with the constructors \<open>Ok\<close>,
      \<open>Err\<close> and \<open>Panic\<close>, and \<open>and_then\<close> for the \<open>?\<close> operator; slices, big-endian bytes, UTF-8
      characters, number formatting; IEEE double precision as rationals rounded to the grid of 53
      significant bits; the \<open>BTreeMap\<close> as a sorted association list.
    \<^item> \<open>Contracts\<close> (\<open>contracts/src/lib.rs\<close>): error categories, process statuses and bounded texts. The
      locale \<open>utf8_truncation\<close> is the contract of every truncation in the program; it is interpreted
      for \<open>bounded_text\<close> here and for the diagnostics of a throughput test in
      \<open>Throughput_Metrics_Exact\<close>.
    \<^item> \<open>Packet_Types\<close>, \<open>Packet_Checksum\<close>, \<open>Packet_Build\<close>, \<open>Packet_Parse\<close> (\<open>packet/src/lib.rs\<close>): the
      wire formats. \<open>Packet_Safety\<close> shows that no byte string makes a decoder panic;
      \<open>Packet_Roundtrip\<close> and \<open>Packet_Mpls\<close> that what the program builds, and what a router quotes
      of it, decodes back to the probe.
    \<^item> \<open>Path_Io\<close> (\<open>path-io/src/lib.rs\<close>): samples, statistics, host validation. \<open>Path_Native\<close> and
      \<open>Path_Workers\<close> (\<open>path-io/src/native/pacing.rs\<close> and the loops of \<open>native.rs\<close>): pacing, pings,
      traces and the worker threads of path statistics. \<open>Path_Sockets\<close> (\<open>native.rs\<close>, Linux): the
      probes themselves between the system calls; \<open>Path_Sockets_Exact\<close> ties them to the decoders.
    \<^item> \<open>Trace_Plan\<close>, \<open>Trace_Cadence\<close>, \<open>Trace_Stats\<close>, \<open>Trace_Errors\<close>, \<open>Trace_Run\<close> (\<open>path-trace\<close>):
      the plan of a trace, its schedule, the running statistics of a hop, the error budget and the
      run loop as a state machine; \<open>Trace_Run_Safety\<close>, \<open>Trace_Progress\<close> and \<open>Trace_Finish\<close> show that
      the loop never panics, keeps exact counters, ends, and reports every terminal diagnostic.
      \<open>Trace_Moments\<close> bounds the rounding of the running mean and deviation.
    \<^item> \<open>Dns\<close> (\<open>path-trace/src/dns.rs\<close>): queries and the response decoder, with \<open>Dns_Safety\<close> (bounded,
      valid text, no panic) and \<open>Dns_Roundtrip\<close> (a server's answer is read as it was meant).
    \<^item> \<open>Throughput_Config\<close>, \<open>Throughput_Plan\<close>, \<open>Throughput_Data\<close>, \<open>Throughput_Metrics\<close>,
      \<open>Throughput_Client\<close> (\<open>throughput\<close>): the suite of tests and its lazy iterator, the send and
      receive loops, the result of a test and the iperf3 control protocol with its retries; the
      theories named \<open>_Exact\<close> hold what each promises.
    \<^item> \<open>Path_Basic\<close> (\<open>path-basic/src/lib.rs\<close>): the basic run of ping, trace, path statistics and TCP connection,
      and what its status and failed stages say.
    \<^item> \<open>Tuning_Plan\<close> (\<open>tuning/src/plan.rs\<close>, \<open>types.rs\<close>, \<open>error.rs\<close>, \<open>verification.rs\<close>, \<open>native/mod.rs\<close>):
      the configuration of the Windows tuning, its validation, its canonical plan and its verification.
    \<^item> \<open>Backup_Artifacts\<close>, \<open>Backup_Qos\<close> (\<open>tuning/src/backup/artifacts.rs\<close>): the registry exports, QoS
      policies and adapter tables of a backup. \<open>Trusted_Io\<close> (\<open>trusted_io.rs\<close>, \<open>persist.rs\<close>, \<open>provider.rs\<close>):
      directories and files known by identity, over a file system given as an interface. \<open>Backup_Bundle\<close>
      (\<open>manifest.rs\<close>, \<open>mod.rs\<close>): the manifest and the validation of a whole backup. \<open>Tuning_Qos\<close>
      (\<open>native/windows.rs\<close>): the inventory and the reconciliation of the QoS policies.
    \<^item> \<open>Helper_Protocol\<close>, \<open>Helper_Server\<close> (\<open>helper/src\<close>): the privileged helper. Signed requests, the replay
      cache, framing and the client; the admission of one operation at a time as a state machine, and the whole
      handling of a request.
    \<^item> \<open>Run_Manager\<close> (\<open>runtime/src/manager.rs\<close>): the one active measurement, its bounded progress and its handles.

  How the code is modelled. A struct is a record, an enum a datatype, \<open>usize\<close> and durations
  (nanoseconds) are \<open>nat\<close>; a subtraction, index or addition that the compiler checks gives \<open>Panic\<close>
  where it fails. What a task, a thread or a socket does next is an event or a reading in a list, so
  an interleaving is a list of events and a theorem over all lists covers every schedule. A loop that
  ends only because the world answers (a wait for a packet, a run of worker threads) takes that list
  as its fuel and returns \<open>None\<close> when the list ends first; theorems about results name the list, and
  \<open>run_terminates\<close>, \<open>wait_until_returns\<close> say when the list is long enough. Other loops recurse with a
  measure: the bytes left (options, MPLS objects, DNS labels with at most 16 pointers), the probes
  and tasks left (trace run: two events per planned probe and two more suffice), the tests left.

  Parameters of the model, always arguments of the definitions: the resolver and the sockets of the
  operating system, JSON (a record of the constructors and accessors the code calls), random
  numbers, clocks and cancellation tokens. Where a theorem assumes something of them it is a
  named hypothesis.

  The counters of \<open>Trace_Stats\<close> are the one place where a checked addition wraps in the model instead
  of giving \<open>Panic\<close>; its theorems are about fewer than \<open>2 ^ 32\<close> samples, where neither happens.

  Simplifications that no theorem depends on: the sign of a floating-point zero and the payloads of
  NaN are not kept; \<open>tokio::select! biased\<close> is modelled as any order of the ready branches, so the
  events allow more than the program does; log output is dropped.

  Not modelled: argument parsing and printing (\<open>cli\<close>), the desktop shell, the Windows and BSD
  variants of the sockets, the transports and services of the privileged helper, the Windows
  providers of the tuning crate (registry, WMI, power plans), the staging and the publication of
  backups: they are calls into the operating system or into third-party crates whose effect the
  source does not define. Of the modelled crates, the derived (de)serialisation of the records is not modelled.
\<close>

end
